(* ===== verification/Prelude.thy ===== *)
theory Prelude
  imports Main "HOL-Library.Word" "HOL-Library.Monad_Syntax"
begin

unbundle bit_operations_syntax

text \<open>
  Shared vocabulary of the development.

  \<^item> Machine integers: \<open>u8\<close>, \<open>u16\<close>, \<open>u32\<close>, \<open>u64\<close> are words, with C's wrap-around.
    The host is little endian, as every platform the stack is built for: \<open>htonl\<close> and
    \<open>htons\<close> are byte swaps and a 32-bit load reads the low byte first.
  \<^item> Errors: an \<open>errno\<close> constructor per error number the sources return; a function that
    returns \<open>0\<close> or \<open>-errno\<close> has the type \<open>rc\<close> (\<open>None\<close> is \<open>0\<close>), one that returns a
    value or \<open>-errno\<close> has the type \<open>errno + 'a\<close>.
  \<^item> Effects: a function that changes the state \<open>'s\<close> maps it to \<open>('a \<times> 's) option\<close>;
    \<open>None\<close> stands for undefined behaviour (a null pointer dereferenced, an index out of
    range) or for a loop that does not end.  \<open>ok m Q\<close> says that \<open>m\<close> is defined and its
    result satisfies \<open>Q\<close>; the rules in \<open>ok_rules\<close> decompose it along the program text.
  \<^item> Arrays: lists; \<open>memcpy_at\<close> writes a block into one.
\<close>

named_theorems ok_rules \<open>weakest-precondition rules of the effectful code\<close>
named_theorems be_simps \<open>byte-order conversions\<close>
named_theorems wf_intros \<open>preservation of well-formedness\<close>

subsection \<open>Machine integers\<close>

type_synonym u8 = "8 word"
type_synonym u16 = "16 word"
type_synonym u32 = "32 word"
type_synonym u64 = "64 word"

definition UINT16_MAX :: nat where "UINT16_MAX = 65535"
definition UINT32_MAX :: u32 where "UINT32_MAX = 0xffffffff"
definition INT_MAX :: nat where "INT_MAX = 2147483647"

lemma unat_ucast_small:
  "unat x < 2 ^ LENGTH('b) \<Longrightarrow> unat (ucast (x :: 'a::len word) :: 'b::len word) = unat x"
  by (simp add: unsigned_ucast_eq take_bit_nat_eq_self)

text \<open>The sign of a 32-bit word.\<close>

lemma bit31_iff: "bit (w :: u32) 31 \<longleftrightarrow> 2 ^ 31 \<le> unat w"
proof -
  have "unat w < 2 ^ LENGTH(32)" by (rule unsigned_less)
  then have lt: "unat w < 2 ^ 32" by simp
  have "bit w 31 \<longleftrightarrow> bit (unat w) 31" by (simp add: bit_unsigned_iff)
  also have "\<dots> \<longleftrightarrow> odd (unat w div 2 ^ 31)" by (rule bit_nat_def)
  also have "\<dots> \<longleftrightarrow> 2 ^ 31 \<le> unat w"
  proof
    assume "odd (unat w div 2 ^ 31)" then show "2 ^ 31 \<le> unat w" by (rule contrapos_pp) simp
  next
    assume "2 ^ 31 \<le> unat w"
    with lt have "unat w div 2 ^ 31 = 1" by auto
    then show "odd (unat w div 2 ^ 31)" by simp
  qed
  finally show ?thesis .
qed

lemma sint_u32_neg: "sint (w :: u32) < 0 \<longleftrightarrow> 2 ^ 31 \<le> unat w"
  using bit31_iff [of w] by (simp add: sint_uint bit_uint_iff)

lemma sint_u32:
  assumes "unat (w :: u32) < 2 ^ 31"
  shows "sint w = int (unat w)"
proof -
  have "\<not> bit (uint w) 31" using assms bit31_iff [of w] by (simp add: bit_uint_iff)
  moreover have "uint w < 2 ^ 31" using assms by (metis of_nat_less_iff of_nat_numeral of_nat_power uint_nat)
  ultimately show ?thesis
    by (simp only: sint_uint uint_nat [symmetric])
      (simp add: signed_take_bit_eq_if_positive take_bit_int_eq_self)
qed

text \<open>The bytes of a word in memory, low byte first, and the word read back from them.\<close>

definition le16_bytes :: "u16 \<Rightarrow> u8 list" where
  "le16_bytes x = [ucast x, ucast (drop_bit 8 x)]"

definition le16_of :: "u8 list \<Rightarrow> u16" where
  "le16_of bs = ucast (bs ! 0) OR push_bit 8 (ucast (bs ! 1))"

definition le32_bytes :: "u32 \<Rightarrow> u8 list" where
  "le32_bytes x = [ucast x, ucast (drop_bit 8 x), ucast (drop_bit 16 x), ucast (drop_bit 24 x)]"

definition le32_of :: "u8 list \<Rightarrow> u32" where
  "le32_of bs = ucast (bs ! 0) OR push_bit 8 (ucast (bs ! 1))
     OR push_bit 16 (ucast (bs ! 2)) OR push_bit 24 (ucast (bs ! 3))"

definition bswap16 :: "u16 \<Rightarrow> u16" where
  "bswap16 x = le16_of (rev (le16_bytes x))"

definition bswap32 :: "u32 \<Rightarrow> u32" where
  "bswap32 x = le32_of (rev (le32_bytes x))"

abbreviation htonl :: "u32 \<Rightarrow> u32" where "htonl \<equiv> bswap32"
abbreviation ntohl :: "u32 \<Rightarrow> u32" where "ntohl \<equiv> bswap32"
abbreviation rte_cpu_to_be_32 :: "u32 \<Rightarrow> u32" where "rte_cpu_to_be_32 \<equiv> bswap32"
abbreviation rte_be_to_cpu_32 :: "u32 \<Rightarrow> u32" where "rte_be_to_cpu_32 \<equiv> bswap32"
abbreviation rte_cpu_to_be_16 :: "u16 \<Rightarrow> u16" where "rte_cpu_to_be_16 \<equiv> bswap16"
abbreviation rte_be_to_cpu_16 :: "u16 \<Rightarrow> u16" where "rte_be_to_cpu_16 \<equiv> bswap16"

lemma length_le32_bytes [simp]: "length (le32_bytes x) = 4"
  by (simp add: le32_bytes_def)

lemma bit_u8_high: "8 \<le> k \<Longrightarrow> \<not> bit (b :: u8) k"
  by (auto dest: bit_imp_le_length)

lemma bit_ucast_u8: "bit (ucast (b :: u8) :: u32) k \<longleftrightarrow> bit b k"
  by (auto simp: bit_unsigned_iff dest: bit_imp_le_length)

lemma bit_le32_of:
  "bit (le32_of bs) n \<longleftrightarrow> n < 32 \<and> bit (bs ! (n div 8)) (n mod 8)"
proof -
  have e: "bit (le32_of bs) n \<longleftrightarrow> n < 32 \<and> (bit (bs ! 0) n \<or> 8 \<le> n \<and> bit (bs ! 1) (n - 8)
      \<or> 16 \<le> n \<and> bit (bs ! 2) (n - 16) \<or> 24 \<le> n \<and> bit (bs ! 3) (n - 24))"
    by (cases "n < 32")
      (simp_all add: le32_of_def bit_or_iff bit_push_bit_iff bit_ucast_u8 bit_u8_high)
  consider "n < 8" | "8 \<le> n" "n < 16" | "16 \<le> n" "n < 24" | "24 \<le> n" "n < 32" | "32 \<le> n"
    by linarith
  then show ?thesis
  proof cases
    case 1
    then have "n div 8 = 0" "n mod 8 = n" by simp_all
    with 1 show ?thesis by (simp add: e)
  next
    case 2
    then have "n div 8 = 1" "n mod 8 = n - 8" by presburger+
    with 2 show ?thesis by (simp add: e bit_u8_high)
  next
    case 3
    then have "n div 8 = 2" "n mod 8 = n - 16" by presburger+
    with 3 show ?thesis by (simp add: e bit_u8_high)
  next
    case 4
    then have "n div 8 = 3" "n mod 8 = n - 24" by presburger+
    with 4 show ?thesis by (simp add: e bit_u8_high)
  next
    case 5
    then show ?thesis by (simp add: e)
  qed
qed

lemma bit_le32_bytes: "i < 4 \<Longrightarrow> bit (le32_bytes x ! i) n \<longleftrightarrow> n < 8 \<and> bit x (8 * i + n)"
  by (auto simp: le32_bytes_def bit_simps nth_Cons' numeral_eq_Suc less_Suc_eq)

lemma le32_of_bytes [simp, be_simps]: "le32_of (le32_bytes x) = x"
  by (rule bit_word_eqI) (auto simp: bit_le32_of bit_le32_bytes)

lemma le32_bytes_of: "length bs = 4 \<Longrightarrow> le32_bytes (le32_of bs) = bs"
  by (rule nth_equalityI; simp; intro bit_word_eqI) (simp add: bit_le32_bytes bit_le32_of)

lemma bit_bswap32: "bit (bswap32 x) n \<longleftrightarrow> n < 32 \<and> bit x (8 * (3 - n div 8) + n mod 8)"
  by (auto simp: bswap32_def bit_le32_of rev_nth bit_le32_bytes)

lemma le32_bytes_bswap32: "le32_bytes (bswap32 x) = rev (le32_bytes x)"
  by (simp add: bswap32_def le32_bytes_of)

lemma bswap32_bswap32 [simp, be_simps]: "bswap32 (bswap32 x) = x"
  by (subst bswap32_def) (simp add: le32_bytes_bswap32)

lemma bswap32_inject [simp, be_simps]: "bswap32 x = bswap32 y \<longleftrightarrow> x = y"
  by (metis bswap32_bswap32)

lemma bswap32_and [be_simps]: "bswap32 (x AND y) = bswap32 x AND bswap32 y"
  by (rule bit_word_eqI) (auto simp: bit_bswap32 bit_simps)

lemma bswap32_not [be_simps]: "bswap32 (NOT x) = NOT (bswap32 x)"
  by (rule bit_word_eqI) (auto simp: bit_bswap32 bit_simps)

lemma bswap32_0 [simp, be_simps]: "bswap32 0 = 0"
  by (rule bit_word_eqI) (simp add: bit_bswap32)

lemma bswap32_eq_0 [simp, be_simps]: "bswap32 x = 0 \<longleftrightarrow> x = 0"
  by (metis bswap32_0 bswap32_bswap32)

subsection \<open>Error numbers\<close>

datatype (plugins only: code size) errno = EPERM | ENOENT | EIO | EBADF | EAGAIN | ENOMEM | EACCES | EBUSY | EEXIST | ENODEV
  | EINVAL | EMFILE | ENOSPC | EPROTO | EOVERFLOW | EMSGSIZE | EPROTOTYPE | EPROTONOSUPPORT
  | EOPNOTSUPP | EAFNOSUPPORT | EADDRINUSE | EADDRNOTAVAIL | ENETDOWN | ENETUNREACH
  | ECONNABORTED | ECONNRESET | ENOBUFS | EISCONN | ENOTCONN | ETIMEDOUT | ECONNREFUSED
  | EALREADY | EINPROGRESS | ESTALE

type_synonym rc = "errno option"

text \<open>The Linux numbers, for the results that cross the IPC boundary as integers.\<close>

primrec errno_code :: "errno \<Rightarrow> int" where
  "errno_code EPERM = 1" | "errno_code ENOENT = 2" | "errno_code EIO = 5"
| "errno_code EBADF = 9" | "errno_code EAGAIN = 11" | "errno_code ENOMEM = 12"
| "errno_code EACCES = 13" | "errno_code EBUSY = 16" | "errno_code EEXIST = 17"
| "errno_code ENODEV = 19" | "errno_code EINVAL = 22" | "errno_code EMFILE = 24"
| "errno_code ENOSPC = 28" | "errno_code EPROTO = 71" | "errno_code EOVERFLOW = 75"
| "errno_code EMSGSIZE = 90" | "errno_code EPROTOTYPE = 91" | "errno_code EPROTONOSUPPORT = 93"
| "errno_code EOPNOTSUPP = 95" | "errno_code EAFNOSUPPORT = 97" | "errno_code EADDRINUSE = 98"
| "errno_code EADDRNOTAVAIL = 99" | "errno_code ENETDOWN = 100" | "errno_code ENETUNREACH = 101"
| "errno_code ECONNABORTED = 103" | "errno_code ECONNRESET = 104" | "errno_code ENOBUFS = 105"
| "errno_code EISCONN = 106" | "errno_code ENOTCONN = 107" | "errno_code ETIMEDOUT = 110"
| "errno_code ECONNREFUSED = 111" | "errno_code EALREADY = 114" | "errno_code EINPROGRESS = 115"
| "errno_code ESTALE = 116"

lemma errno_code_pos [simp]: "0 < errno_code e"
  by (cases e) simp_all

definition int_of_rc :: "rc \<Rightarrow> int" where
  "int_of_rc r = (case r of None \<Rightarrow> 0 | Some e \<Rightarrow> - errno_code e)"

definition int_of_result :: "errno + int \<Rightarrow> int" where
  "int_of_result r = (case r of Inl e \<Rightarrow> - errno_code e | Inr n \<Rightarrow> n)"

lemma int_of_rc_neg [simp]: "int_of_rc r < 0 \<longleftrightarrow> r \<noteq> None"
  by (cases r) (simp_all add: int_of_rc_def)

lemma int_of_result_neg: "(case r of Inl _ \<Rightarrow> True | Inr n \<Rightarrow> 0 \<le> n) \<Longrightarrow>
    int_of_result r < 0 \<longleftrightarrow> (\<exists>e. r = Inl e)"
  by (cases r) (simp_all add: int_of_result_def)

text \<open>A loop that stops at its first error.\<close>

fun first_rc :: "('a \<Rightarrow> rc) \<Rightarrow> 'a list \<Rightarrow> rc" where
  "first_rc f [] = None"
| "first_rc f (x # xs) = (case f x of Some e \<Rightarrow> Some e | None \<Rightarrow> first_rc f xs)"

lemma first_rc_None [simp]: "first_rc f xs = None \<longleftrightarrow> (\<forall>x\<in>set xs. f x = None)"
  by (induction xs) (auto split: option.splits)

lemma first_rc_Some: "first_rc f xs = Some e \<Longrightarrow> \<exists>x\<in>set xs. f x = Some e"
  by (induction xs) (auto split: option.splits)

definition rc_seq :: "rc \<Rightarrow> rc \<Rightarrow> rc" where
  "rc_seq a b = (case a of None \<Rightarrow> b | Some e \<Rightarrow> Some e)"

lemma rc_seq_None [simp]: "rc_seq a b = None \<longleftrightarrow> a = None \<and> b = None"
  by (simp add: rc_seq_def split: option.splits)

text \<open>The index of the first element with a property.\<close>

fun first_index :: "('a \<Rightarrow> bool) \<Rightarrow> 'a list \<Rightarrow> nat option" where
  "first_index P [] = None"
| "first_index P (x # xs) = (if P x then Some 0 else map_option Suc (first_index P xs))"

lemma first_index_None [simp]: "first_index P xs = None \<longleftrightarrow> (\<forall>x\<in>set xs. \<not> P x)"
  by (induction xs) auto

lemma first_index_Some:
  "first_index P xs = Some i \<longleftrightarrow> i < length xs \<and> P (xs ! i) \<and> (\<forall>j<i. \<not> P (xs ! j))"
proof (induction xs arbitrary: i)
  case (Cons x xs)
  show ?case
  proof (cases i)
    case 0
    then show ?thesis by auto
  next
    case (Suc k)
    then show ?thesis using Cons by (auto simp: less_Suc_eq_0_disj)
  qed
qed simp

lemma first_indexD:
  assumes "first_index P xs = Some i"
  shows "i < length xs" "P (xs ! i)"
  using assms by (auto simp: first_index_Some)

subsection \<open>Sorting with a comparison function\<close>

text \<open>
  \<^verbatim>\<open>qsort\<close> of the C library, called with a comparison function that returns a negative
  number, zero or a positive number.  Elements that compare equal may end in any order in C;
  the callers either compare distinct keys or reject a result with equal ones.
\<close>

fun qsort_insert :: "('a \<Rightarrow> 'a \<Rightarrow> int) \<Rightarrow> 'a \<Rightarrow> 'a list \<Rightarrow> 'a list" where
  "qsort_insert cmp x [] = [x]"
| "qsort_insert cmp x (y # ys) = (if cmp x y \<le> 0 then x # y # ys else y # qsort_insert cmp x ys)"

definition qsort :: "('a \<Rightarrow> 'a \<Rightarrow> int) \<Rightarrow> 'a list \<Rightarrow> 'a list" where
  "qsort cmp xs = foldr (qsort_insert cmp) xs []"

lemma qsort_simps [simp]:
  "qsort cmp [] = []" "qsort cmp (x # xs) = qsort_insert cmp x (qsort cmp xs)"
  by (simp_all add: qsort_def)

lemma set_qsort_insert [simp]: "set (qsort_insert cmp x ys) = insert x (set ys)"
  by (induction ys) auto

lemma set_qsort [simp]: "set (qsort cmp xs) = set xs"
  by (induction xs) auto

lemma length_qsort_insert [simp]: "length (qsort_insert cmp x ys) = Suc (length ys)"
  by (induction ys) auto

lemma length_qsort [simp]: "length (qsort cmp xs) = length xs"
  by (induction xs) auto

lemma distinct_qsort_insert [simp]:
  "distinct (qsort_insert cmp x ys) \<longleftrightarrow> x \<notin> set ys \<and> distinct ys"
  by (induction ys) auto

lemma distinct_qsort [simp]: "distinct (qsort cmp xs) = distinct xs"
  by (induction xs) auto

text \<open>The contract of a comparison function, and what \<^verbatim>\<open>qsort\<close> then guarantees.\<close>

locale comparison =
  fixes cmp :: "'a \<Rightarrow> 'a \<Rightarrow> int"
  assumes cmp_total: "cmp x y \<le> 0 \<or> cmp y x \<le> 0"
    and cmp_trans: "cmp x y \<le> 0 \<Longrightarrow> cmp y z \<le> 0 \<Longrightarrow> cmp x z \<le> 0"
begin

lemma sorted_qsort_insert:
  "sorted_wrt (\<lambda>x y. cmp x y \<le> 0) ys \<Longrightarrow> sorted_wrt (\<lambda>x y. cmp x y \<le> 0) (qsort_insert cmp x ys)"
proof (induction ys)
  case (Cons y ys)
  show ?case
  proof (cases "cmp x y \<le> 0")
    case True
    with Cons.prems show ?thesis by (auto intro: cmp_trans)
  next
    case False
    then have "cmp y x \<le> 0" using cmp_total by blast
    with False Cons show ?thesis by auto
  qed
qed simp

lemma sorted_qsort: "sorted_wrt (\<lambda>x y. cmp x y \<le> 0) (qsort cmp xs)"
  by (induction xs) (simp_all add: sorted_qsort_insert)

end

text \<open>The comparison of two unsigned keys as the sources write it.\<close>

definition cmp_key :: "'k::linorder \<Rightarrow> 'k \<Rightarrow> int" where
  "cmp_key x y = of_bool (x > y) - of_bool (x < y)"

lemma cmp_key_le [simp]: "cmp_key x y \<le> 0 \<longleftrightarrow> x \<le> y"
  by (auto simp: cmp_key_def)

subsection \<open>Defined results\<close>

definition ok :: "'r option \<Rightarrow> ('r \<Rightarrow> bool) \<Rightarrow> bool" where
  "ok m Q = (case m of None \<Rightarrow> False | Some r \<Rightarrow> Q r)"

lemma ok_Some [simp, ok_rules]: "ok (Some r) Q = Q r"
  by (simp add: ok_def)

lemma ok_None [simp]: "ok None Q = False"
  by (simp add: ok_def)

lemma ok_iff: "ok m Q \<longleftrightarrow> (\<exists>r. m = Some r \<and> Q r)"
  by (auto simp: ok_def split: option.splits)

lemma ok_bind: "ok m (\<lambda>r. ok (f r) Q) \<Longrightarrow> ok (Option.bind m f) Q"
  by (auto simp: ok_def split: option.splits)

lemma ok_bind_iff: "ok (Option.bind m f) Q \<longleftrightarrow> ok m (\<lambda>r. ok (f r) Q)"
  by (auto simp: ok_def split: option.splits)

lemma ok_mono: "ok m Q \<Longrightarrow> (\<And>r. Q r \<Longrightarrow> R r) \<Longrightarrow> ok m R"
  by (auto simp: ok_def split: option.splits)

lemma ok_bindI: "ok m R \<Longrightarrow> (\<And>r. R r \<Longrightarrow> ok (f r) Q) \<Longrightarrow> ok (Option.bind m f) Q"
  by (rule ok_bind) (rule ok_mono)

lemma ok_bind2I:
  assumes "ok m (\<lambda>(a, s). R a s)" and "\<And>a s. R a s \<Longrightarrow> ok (f a s) Q"
  shows "ok (Option.bind m (\<lambda>(a, s). f a s)) Q"
  using assms by (cases m) auto

lemma ok_ifI [ok_rules]:
  "(b \<Longrightarrow> ok x Q) \<Longrightarrow> (\<not> b \<Longrightarrow> ok y Q) \<Longrightarrow> ok (if b then x else y) Q"
  by simp

lemma ok_conj: "ok m P \<Longrightarrow> ok m Q \<Longrightarrow> ok m (\<lambda>r. P r \<and> Q r)"
  by (auto simp: ok_def split: option.splits)

text \<open>A loop over the elements of an array, each iteration an effect.\<close>

fun for_each :: "('x \<Rightarrow> 's \<Rightarrow> 's option) \<Rightarrow> 'x list \<Rightarrow> 's \<Rightarrow> 's option" where
  "for_each f [] s = Some s"
| "for_each f (x # xs) s = Option.bind (f x s) (for_each f xs)"

lemma for_each_append: "for_each f (xs @ ys) s = Option.bind (for_each f xs s) (for_each f ys)"
proof (induction xs arbitrary: s)
  case (Cons x xs)
  then show ?case by (cases "f x s") simp_all
qed simp

lemma for_each_ok:
  assumes "I s" and "\<And>x s. x \<in> set xs \<Longrightarrow> I s \<Longrightarrow> ok (f x s) I"
  shows "ok (for_each f xs s) I"
  using assms
proof (induction xs arbitrary: s)
  case (Cons x xs)
  then have "ok (f x s) I" by simp
  then show ?case by (simp add: ok_bind_iff) (rule ok_mono, assumption, rule Cons.IH, simp_all add: Cons.prems)
qed simp

text \<open>A loop over an array by index, with an invariant that depends on the index.\<close>

lemma for_each_upt_ok:
  assumes "I 0 s" and "\<And>k s. k < n \<Longrightarrow> I k s \<Longrightarrow> ok (f k s) (I (Suc k))"
  shows "ok (for_each f [0..<n] s) (I n)"
  using assms
proof (induction n)
  case (Suc n)
  have "ok (for_each f [0..<n] s) (I n)" using Suc by simp
  then show ?case
    using Suc.prems(2) [of n] by (simp add: for_each_append ok_bind_iff) (erule ok_mono, simp add: ok_bind_iff ok_iff)
qed simp

lemma for_each_cong [fundef_cong]:
  "xs = ys \<Longrightarrow> s = t \<Longrightarrow> (\<And>x s. x \<in> set ys \<Longrightarrow> f x s = g x s) \<Longrightarrow> for_each f xs s = for_each g ys t"
proof (induction xs arbitrary: ys s t)
  case (Cons x xs)
  then show ?case by (cases "g x t") auto
qed simp

subsection \<open>Arrays\<close>

lemma ball_list_update: "\<forall>x\<in>set xs. P x \<Longrightarrow> P y \<Longrightarrow> \<forall>x\<in>set (xs[i := y]). P x"
  using set_update_subset_insert [of xs i y] by auto

definition memcpy_at :: "'a list \<Rightarrow> nat \<Rightarrow> 'a list \<Rightarrow> 'a list" where
  "memcpy_at dst off src = take off dst @ src @ drop (off + length src) dst"

lemma length_memcpy_at [simp]:
  "off + length src \<le> length dst \<Longrightarrow> length (memcpy_at dst off src) = length dst"
  by (simp add: memcpy_at_def)

lemma take_memcpy_at [simp]:
  "off + length src \<le> length dst \<Longrightarrow>
     take (off + length src) (memcpy_at dst off src) = take off dst @ src"
  by (simp add: memcpy_at_def)

lemma take_memcpy_at_before: "n \<le> off \<Longrightarrow> off \<le> length dst \<Longrightarrow>
     take n (memcpy_at dst off src) = take n dst"
  by (simp add: memcpy_at_def min_def)

lemma take_drop_memcpy_at:
  "off + length src \<le> length dst \<Longrightarrow> take (length src) (drop off (memcpy_at dst off src)) = src"
  by (simp add: memcpy_at_def)

subsection \<open>Rings\<close>

text \<open>The content of a ring buffer: \<open>n\<close> elements of the array \<open>xs\<close> from index \<open>h\<close> on, cyclically.\<close>

definition ring_list :: "'a list \<Rightarrow> nat \<Rightarrow> nat \<Rightarrow> 'a list" where
  "ring_list xs h n = map (\<lambda>i. xs ! ((h + i) mod length xs)) [0..<n]"

lemma length_ring_list [simp]: "length (ring_list xs h n) = n"
  by (simp add: ring_list_def)

lemma ring_list_0 [simp]: "ring_list xs h 0 = []"
  by (simp add: ring_list_def)

lemma ring_index_inj:
  assumes "(h + i) mod n = (h + j) mod n" "i < n" "j < (n :: nat)"
  shows "i = j"
proof -
  have "i = j" if "i \<le> j" "(h + j) mod n = (h + i) mod n" "j < n" for i j
  proof -
    have "n dvd (h + j) - (h + i)" using that by (subst mod_eq_dvd_iff_nat [symmetric]) auto
    then have "n dvd j - i" by simp
    moreover have "j - i < n" using that by linarith
    ultimately have "j - i = 0" using nat_dvd_not_less by blast
    then show ?thesis using that by simp
  qed
  then show ?thesis using assms by (metis linear)
qed

lemma ring_list_update_outside:
  assumes "n \<le> k" "k < length xs"
  shows "ring_list (xs[(h + k) mod length xs := x]) h n = ring_list xs h n"
proof -
  have "(h + k) mod length xs \<noteq> (h + i) mod length xs" if "i < n" for i
    using ring_index_inj [of h i "length xs" k] that assms by auto
  then show ?thesis by (auto simp: ring_list_def nth_list_update_neq)
qed

lemma ring_list_push:
  assumes "n < length xs"
  shows "ring_list (xs[(h + n) mod length xs := x]) h (Suc n) = ring_list xs h n @ [x]"
proof -
  have "ring_list (xs[(h + n) mod length xs := x]) h (Suc n) =
      ring_list (xs[(h + n) mod length xs := x]) h n @ [xs[(h + n) mod length xs := x] ! ((h + n) mod length xs)]"
    by (simp add: ring_list_def)
  also have "xs[(h + n) mod length xs := x] ! ((h + n) mod length xs) = x"
    using assms by (intro nth_list_update_eq mod_less_divisor) linarith
  finally show ?thesis using assms by (simp add: ring_list_update_outside)
qed

lemma ring_list_pop:
  assumes "0 < n" "h < length xs"
  shows "ring_list xs h n = xs ! h # ring_list xs ((h + 1) mod length xs) (n - 1)"
proof -
  have "[0..<n] = 0 # map Suc [0..<n - 1]" using assms(1) by (simp add: upt_conv_Cons map_Suc_upt)
  then show ?thesis using assms(2) by (simp add: ring_list_def mod_simps o_def)
qed

subsection \<open>Refinement\<close>

text \<open>
  A sequence of operations, each with a result, and the contract under which a concrete
  implementation of them (\<open>step\<close>, on states that satisfy \<open>inv\<close>) cannot be told from its
  specification (\<open>spec\<close>, on the abstract states \<open>abs s\<close>).
\<close>

primrec run_ops :: "('o \<Rightarrow> 's \<Rightarrow> 'r \<times> 's) \<Rightarrow> 'o list \<Rightarrow> 's \<Rightarrow> 'r list \<times> 's" where
  "run_ops step [] s = ([], s)"
| "run_ops step (x # xs) s =
     (let (r, s') = step x s; (rs, s'') = run_ops step xs s' in (r # rs, s''))"

locale refinement =
  fixes inv :: "'s \<Rightarrow> bool" and abs :: "'s \<Rightarrow> 'a"
    and step :: "'o \<Rightarrow> 's \<Rightarrow> 'r \<times> 's" and spec :: "'o \<Rightarrow> 'a \<Rightarrow> 'r \<times> 'a"
  assumes step_inv: "inv s \<Longrightarrow> inv (snd (step x s))"
    and step_refines: "inv s \<Longrightarrow> spec x (abs s) = (fst (step x s), abs (snd (step x s)))"
begin

lemma run_inv: "inv s \<Longrightarrow> inv (snd (run_ops step xs s))"
  using step_inv by (induction xs arbitrary: s) (auto simp: Let_def case_prod_beta)

lemma run_refines:
  "inv s \<Longrightarrow> run_ops spec xs (abs s) = (fst (run_ops step xs s), abs (snd (run_ops step xs s)))"
  using step_inv by (induction xs arbitrary: s) (auto simp: Let_def case_prod_beta step_refines)

end

end
