(* ===== verification/Net_Prefix.thy ===== *)
theory Net_Prefix
  imports Prelude
begin

text \<open>
  \<^verbatim>\<open>src/net_prefix.c\<close>: IPv4 prefixes.  Addresses are 32-bit words in network byte order,
  as in the sources; a prefix length is an unsigned 32-bit number.  The shift of
  \<open>net_mask\<close> is undefined in C for lengths above 32; every caller checks the length
  first (\<open>net_prefix_valid\<close>, \<open>net_host\<close>) or uses a validated configuration.
\<close>

definition net_mask :: "u32 \<Rightarrow> u32" where
  "net_mask prefix = htonl (if prefix \<noteq> 0 then push_bit (unat (32 - prefix)) UINT32_MAX else 0)"

definition net_match :: "u32 \<Rightarrow> u32 \<Rightarrow> u32 \<Rightarrow> bool" where
  "net_match ip network prefix \<longleftrightarrow> ip AND net_mask prefix = network"

definition net_prefix_valid :: "u32 \<Rightarrow> u32 \<Rightarrow> bool" where
  "net_prefix_valid ip prefix \<longleftrightarrow> prefix \<le> 32 \<and> ip AND NOT (net_mask prefix) = 0"

definition net_unicast :: "u32 \<Rightarrow> bool" where
  "net_unicast ip0 \<longleftrightarrow> (let ip = ntohl ip0 in
     drop_bit 24 ip \<noteq> 0 \<and> drop_bit 24 ip \<noteq> 127 \<and> ip < 0xe0000000)"

definition net_host :: "u32 \<Rightarrow> u32 \<Rightarrow> bool" where
  "net_host ip prefix \<longleftrightarrow>
     (if prefix > 32 then False
      else let mask = net_mask prefix in
        prefix \<ge> 31 \<or> (ip AND NOT mask \<noteq> 0 \<and> ip AND NOT mask \<noteq> NOT mask))"

lemma bit_UINT32_MAX: "bit UINT32_MAX k \<longleftrightarrow> k < 32"
  using bit_mask_iff [where 'a = u32, of 32 k] by (simp add: UINT32_MAX_def mask_eq_exp_minus_1)

lemma bit_net_mask:
  assumes "p \<le> 32"
  shows "bit (ntohl (net_mask p)) n \<longleftrightarrow> n < 32 \<and> 32 - unat p \<le> n"
proof (cases "p = 0")
  case False
  have "unat (32 - p) = 32 - unat p" using assms by (simp add: unat_sub)
  with False have "ntohl (net_mask p) = push_bit (32 - unat p) UINT32_MAX"
    by (simp add: net_mask_def)
  then show ?thesis by (simp only: bit_push_bit_iff bit_UINT32_MAX possible_bit_word) auto
qed (simp add: net_mask_def)

text \<open>A longer mask fixes more bits: the host bits of the longer prefix are host bits of the shorter.\<close>

lemma net_mask_mono:
  assumes "p \<le> q" "q \<le> 32"
  shows "net_mask p AND net_mask q = net_mask p"
proof -
  have "unat p \<le> unat q" using assms by (simp add: word_le_nat_alt)
  then have "ntohl (net_mask p) AND ntohl (net_mask q) = ntohl (net_mask p)"
    using assms by (intro bit_word_eqI) (auto simp: bit_and_iff bit_net_mask)
  then show ?thesis by (metis bswap32_and bswap32_inject)
qed

lemma net_match_shorter:
  assumes "p \<le> q" "q \<le> 32" "net_match ip n q"
  shows "net_match ip (n AND net_mask p) p"
proof -
  have "net_mask q AND net_mask p = net_mask p"
    using net_mask_mono [OF assms(1,2)] by (simp add: and.commute)
  then show ?thesis using assms(3) by (auto simp: net_match_def and.assoc)
qed

lemma net_match_valid: "net_match ip n p \<Longrightarrow> p \<le> 32 \<Longrightarrow> net_prefix_valid n p"
  by (auto simp: net_match_def net_prefix_valid_def and.assoc)

text \<open>Within one table two valid prefixes of the same length either agree or are disjoint.\<close>

lemma net_match_same_length: "net_match ip n p \<Longrightarrow> net_match ip m p \<Longrightarrow> n = m"
  by (simp add: net_match_def)

lemma net_match_default: "net_match ip 0 0"
  by (simp add: net_match_def net_mask_def)

end
