(* ===== verification/Runtime.thy ===== *)
theory Runtime
  imports Net_Prefix
begin

text \<open>
  The data of the dataplane, from the headers under \<^verbatim>\<open>src/include\<close>, and the interface
  look-ups of \<^verbatim>\<open>src/runtime.c\<close>.

  A struct is a record whose fields carry the struct's initials and keep the source's field
  name (\<open>pc_l3_offset\<close> is \<open>l3_offset\<close> of \<open>packet_ctx\<close>); an enum is a datatype, and an
  array indexed by an enum is a function.  An array with a live count beside it, which the
  code only appends to, compacts and scans (the routes of a table, the packets of a frame or
  of a pending neighbour), is the list of its live elements; the capacity checks of the code
  are checks of the length.  Rings and the TCP byte buffers keep the whole array and the
  indices.  0/1 flags are booleans.  A pointer to an element of an array is its index.

  DPDK is not part of the repository; the state \<open>'d\<close> of the timers, the mbuf pool and the
  devices is carried in \<open>rt_dev\<close>, and the DPDK functions are parameters (theory Packet).
\<close>

subsection \<open>Limits\<close>

abbreviation (input) GRAPH_FRAME_SIZE :: nat where "GRAPH_FRAME_SIZE \<equiv> 64"
abbreviation (input) GRAPH_FRAME_POOL_SIZE :: nat where "GRAPH_FRAME_POOL_SIZE \<equiv> 16"
abbreviation (input) NETIF_MAX :: nat where "NETIF_MAX \<equiv> 8"
abbreviation (input) ROUTE_CAPACITY :: nat where "ROUTE_CAPACITY \<equiv> 32"
abbreviation (input) NET_ADDR_MAX :: nat where "NET_ADDR_MAX \<equiv> 64"
abbreviation (input) NET_ROUTE_MAX :: nat where "NET_ROUTE_MAX \<equiv> 256"
abbreviation (input) NET_RULE_MAX :: nat where "NET_RULE_MAX \<equiv> 64"
abbreviation (input) NET_ACL_MAX :: nat where "NET_ACL_MAX \<equiv> 128"
abbreviation (input) NET_TABLE_LOCAL :: u32 where "NET_TABLE_LOCAL \<equiv> 255"
abbreviation (input) NET_TABLE_MAIN :: u32 where "NET_TABLE_MAIN \<equiv> 254"
abbreviation (input) NET_TABLE_DEFAULT :: u32 where "NET_TABLE_DEFAULT \<equiv> 253"
abbreviation (input) NET_IIF_NONE :: u32 where "NET_IIF_NONE \<equiv> 0xffffffff"
abbreviation (input) ADMIN_EVENT_MAX :: nat where "ADMIN_EVENT_MAX \<equiv> 128"
abbreviation (input) NEIGHBOUR_CAPACITY :: nat where "NEIGHBOUR_CAPACITY \<equiv> 64"
abbreviation (input) NEIGHBOUR_PENDING_MAX :: nat where "NEIGHBOUR_PENDING_MAX \<equiv> 16"
abbreviation (input) NEIGHBOUR_PENDING_QUEUE_MAX :: nat where "NEIGHBOUR_PENDING_QUEUE_MAX \<equiv> 8"
abbreviation (input) ARP_MAX_REQUESTS :: nat where "ARP_MAX_REQUESTS \<equiv> 3"
abbreviation (input) ARP_RETRY_SECONDS :: u64 where "ARP_RETRY_SECONDS \<equiv> 1"
abbreviation (input) PS_SOCKET_MAX :: nat where "PS_SOCKET_MAX \<equiv> 256"
abbreviation (input) PS_DGRAM_QUEUE_SIZE :: nat where "PS_DGRAM_QUEUE_SIZE \<equiv> 16"
abbreviation (input) PS_DGRAM_MAX_PAYLOAD :: nat where "PS_DGRAM_MAX_PAYLOAD \<equiv> 1472"
abbreviation (input) TCP_BUFFER_SIZE :: nat where "TCP_BUFFER_SIZE \<equiv> 8192"
abbreviation (input) TCP_MAX_RETRIES :: u8 where "TCP_MAX_RETRIES \<equiv> 5"
abbreviation (input) TCP_TIME_WAIT_SECONDS :: u64 where "TCP_TIME_WAIT_SECONDS \<equiv> 120"
abbreviation (input) TCP_FIN_WAIT_SECONDS :: u64 where "TCP_FIN_WAIT_SECONDS \<equiv> 120"
abbreviation (input) ICMP_ERROR_RATE :: u64 where "ICMP_ERROR_RATE \<equiv> 10"
abbreviation (input) ICMP_ERROR_BURST :: u32 where "ICMP_ERROR_BURST \<equiv> 10"

abbreviation (input) PS_AF_INET :: int where "PS_AF_INET \<equiv> 2"
abbreviation (input) PS_SOCK_STREAM :: u8 where "PS_SOCK_STREAM \<equiv> 1"
abbreviation (input) PS_SOCK_DGRAM :: u8 where "PS_SOCK_DGRAM \<equiv> 2"

abbreviation (input) IPPROTO_ICMP :: u8 where "IPPROTO_ICMP \<equiv> 1"
abbreviation (input) IPPROTO_TCP :: u8 where "IPPROTO_TCP \<equiv> 6"
abbreviation (input) IPPROTO_UDP :: u8 where "IPPROTO_UDP \<equiv> 17"

subsection \<open>Packets\<close>

datatype (plugins only: code size) drop_reason =
    DROP_NONE | DROP_PORT_BINDING | DROP_TRUNCATED_ETH | DROP_UNSUPPORTED_ETHERTYPE
  | DROP_INVALID_ARP | DROP_INVALID_IPV4 | DROP_IPV4_FRAGMENT | DROP_NOT_LOCAL
  | DROP_IPV4_OPTIONS | DROP_INVALID_ICMP | DROP_UNSUPPORTED_ICMP
  | DROP_UNSUPPORTED_PROTOCOL | DROP_GRAPH_FULL | DROP_TX_FAILED
  | DROP_MTU | DROP_NO_TAILROOM | DROP_NONCONTIGUOUS | DROP_INVALID_SOURCE
  | DROP_NEIGHBOUR_NOT_FOUND | DROP_INVALID_DESTINATION
  | DROP_INVALID_UDP | DROP_UDP_BAD_LENGTH | DROP_UDP_BAD_CHECKSUM
  | DROP_UDP_UNBOUND_PORT | DROP_UDP_RX_QUEUE_FULL
  | DROP_MBUF_ALLOCATION_FAILED | DROP_NO_HEADROOM
  | DROP_NO_ROUTE | DROP_INVALID_EGRESS | DROP_FORWARDING_DISABLED
  | DROP_NEIGHBOUR_QUEUE_FULL | DROP_NEIGHBOUR_PENDING_FULL
  | DROP_NEIGHBOUR_RESOLUTION_TIMEOUT | DROP_NEIGHBOUR_CANCELLED
  | DROP_TTL_EXPIRED
  | DROP_INVALID_TCP | DROP_TCP_BAD_CHECKSUM | DROP_TCP_INVALID_STATE
  | DROP_TCP_NO_SOCKET | DROP_TCP_BACKLOG_FULL | DROP_TCP_OUT_OF_ORDER
  | DROP_ROUTE_BLACKHOLE | DROP_ROUTE_UNREACHABLE | DROP_ROUTE_PROHIBIT | DROP_ACL

datatype (plugins only: code size) node_id =
    NODE_DROP | NODE_ETH_INPUT | NODE_ARP_INPUT | NODE_IPV4_INPUT
  | NODE_ICMP_INPUT | NODE_UDP_INPUT | NODE_TCP_INPUT
  | NODE_IPV4_ROUTE | NODE_UDP_OUTPUT | NODE_IPV4_OUTPUT | NODE_ETH_OUTPUT | NODE_ARP_OUTPUT
  | NODE_TX | NODE_IPV4_FORWARD | NODE_IPV4_ACL

text \<open>The node identifiers in the order of the enum: the order of every loop over \<open>NODE_MAX\<close>.\<close>

definition node_ids :: "node_id list" where
  "node_ids = [NODE_DROP, NODE_ETH_INPUT, NODE_ARP_INPUT, NODE_IPV4_INPUT,
     NODE_ICMP_INPUT, NODE_UDP_INPUT, NODE_TCP_INPUT,
     NODE_IPV4_ROUTE, NODE_UDP_OUTPUT, NODE_IPV4_OUTPUT, NODE_ETH_OUTPUT, NODE_ARP_OUTPUT,
     NODE_TX, NODE_IPV4_FORWARD, NODE_IPV4_ACL]"

lemma node_ids_all [simp]: "n \<in> set node_ids"
  by (cases n) (simp_all add: node_ids_def)

lemma node_ids_distinct [simp]: "distinct node_ids"
  by (simp add: node_ids_def)

type_synonym rte_ether_addr = "u8 list"

text \<open>
  An mbuf: the bytes of its first segment, the length of the packet over all segments, the number
  of segments, whether it is a direct buffer, its reference count, and the free bytes before and
  after the data.
\<close>

record rte_mbuf =
  mb_data :: "u8 list"
  mb_pkt_len :: nat
  mb_headroom :: nat
  mb_tailroom :: nat
  mb_segs :: nat
  mb_direct :: bool
  mb_refcnt :: nat

record packet_ctx =
  pc_ingress_port_id :: u16
  pc_egress_port_id :: u16
  pc_l3_offset :: u16
  pc_l4_offset :: u16
  pc_src_ip_be :: u32
  pc_dst_ip_be :: u32
  pc_next_hop_ip_be :: u32
  pc_src_port :: u16
  pc_dst_port :: u16
  pc_ip_protocol :: u8
  pc_drop_reason :: drop_reason
  pc_report_acceptance :: bool
  pc_transit :: bool

definition zero_ctx :: packet_ctx where
  "zero_ctx = \<lparr>pc_ingress_port_id = 0, pc_egress_port_id = 0, pc_l3_offset = 0, pc_l4_offset = 0,
     pc_src_ip_be = 0, pc_dst_ip_be = 0, pc_next_hop_ip_be = 0, pc_src_port = 0, pc_dst_port = 0,
     pc_ip_protocol = 0, pc_drop_reason = DROP_NONE, pc_report_acceptance = False,
     pc_transit = False\<rparr>"

type_synonym node_frame = "(rte_mbuf \<times> packet_ctx) list"

subsection \<open>The graph\<close>

record node_stats =
  ns_packets :: u64
  ns_bytes :: u64
  ns_drops :: u64
  ns_errors :: u64

record graph_frame_slot =
  gs_frame :: node_frame
  gs_node :: node_id
  gs_used :: bool

record dp_graph =
  g_stats :: "node_id \<Rightarrow> node_stats"
  g_slots :: "graph_frame_slot list"
  g_queue :: "nat list"
  g_q_head :: nat
  g_q_tail :: nat
  g_q_count :: nat
  g_drop_reasons :: "drop_reason \<Rightarrow> u64"

text \<open>\<open>node_output\<close>: the frame being filled for each node (\<open>UINT16_MAX\<close> is \<open>None\<close>).\<close>

type_synonym node_output = "node_id \<Rightarrow> nat option"

definition no_pending :: node_output where
  "no_pending = (\<lambda>_. None)"

subsection \<open>Network configuration and routes\<close>

record net_address =
  na_ip :: u32
  na_prefix :: u32
  na_dev :: u32

record net_route =
  nr_ip :: u32
  nr_prefix :: u32
  nr_gateway :: u32
  nr_dev :: u32
  nr_table :: u32
  nr_type :: u32
  nr_connected :: u32

text \<open>\<open>enum net_action\<close>, kept as the 32-bit numbers the wire format carries.\<close>

abbreviation (input) NET_UNICAST :: u32 where "NET_UNICAST \<equiv> 0"
abbreviation (input) NET_BLACKHOLE :: u32 where "NET_BLACKHOLE \<equiv> 1"
abbreviation (input) NET_UNREACHABLE :: u32 where "NET_UNREACHABLE \<equiv> 2"
abbreviation (input) NET_PROHIBIT :: u32 where "NET_PROHIBIT \<equiv> 3"

record net_rule =
  ru_pref :: u32
  ru_src :: u32
  ru_src_prefix :: u32
  ru_dst :: u32
  ru_dst_prefix :: u32
  ru_iif :: u32
  ru_table :: u32
  ru_type :: u32

record net_route_index =
  ni_table :: u32
  ni_ip :: u32
  ni_mask :: u32
  ni_route :: u16
  ni_prefix :: u8

record net_acl =
  ac_pref :: u32
  ac_src :: u32
  ac_src_prefix :: u32
  ac_dst :: u32
  ac_dst_prefix :: u32
  ac_iif :: u32
  ac_proto :: u32
  ac_sport_min :: u32
  ac_sport_max :: u32
  ac_dport_min :: u32
  ac_dport_max :: u32
  ac_ports :: u32
  ac_drop :: u32

record net_config =
  nc_generation :: u64
  nc_default_drop :: u32
  nc_addresses :: "net_address list"
  nc_routes :: "net_route list"
  nc_routes_indexed :: bool
  nc_route_index :: "net_route_index list"
  nc_rules :: "net_rule list"
  nc_acls :: "net_acl list"

record acl_counter =
  ct_packets :: u64
  ct_bytes :: u64

record acl_counters =
  cs_rules :: "acl_counter list"
  cs_accepted :: u64
  cs_dropped :: u64
  cs_defaults :: u64

record acl_key =
  ak_src :: u32
  ak_dst :: u32
  ak_iif :: u32
  ak_sport :: u16
  ak_dport :: u16
  ak_proto :: u8
  ak_ports_valid :: bool

record admin_event =
  ev_sequence :: u64
  ev_generation :: u64
  ev_group :: u32
  ev_id :: u32
  ev_action :: u32
  ev_ip :: u32
  ev_prefix :: u32
  ev_dev :: u32
  ev_table :: u32

definition zero_event :: admin_event where
  "zero_event = \<lparr>ev_sequence = 0, ev_generation = 0, ev_group = 0, ev_id = 0, ev_action = 0, ev_ip = 0,
     ev_prefix = 0, ev_dev = 0, ev_table = 0\<rparr>"

record admin_events =
  es_sequence :: u64
  es_entries :: "admin_event list"

record route_entry =
  re_prefix_be :: u32
  re_gateway_be :: u32
  re_netif_id :: u16
  re_prefix_len :: u8

type_synonym route_table = "route_entry list"

record route_result =
  rr_netif_id :: u16
  rr_mtu :: u16
  rr_next_hop_be :: u32
  rr_source_ip_be :: u32
  rr_table :: u32
  rr_rule_pref :: u32
  rr_type :: u32
  rr_local :: u32

definition zero_route_result :: route_result where
  "zero_route_result = \<lparr>rr_netif_id = 0, rr_mtu = 0, rr_next_hop_be = 0, rr_source_ip_be = 0,
     rr_table = 0, rr_rule_pref = 0, rr_type = 0, rr_local = 0\<rparr>"

subsection \<open>Neighbours\<close>

record neighbour_entry =
  ne_ip_be :: u32
  ne_netif_id :: u16
  ne_mac :: rte_ether_addr
  ne_in_use :: bool
  ne_permanent :: bool

definition zero_neighbour :: neighbour_entry where
  "zero_neighbour = \<lparr>ne_ip_be = 0, ne_netif_id = 0, ne_mac = [0, 0, 0, 0, 0, 0],
     ne_in_use = False, ne_permanent = False\<rparr>"

type_synonym neighbour_table = "neighbour_entry list"

record pending_neighbour =
  pn_ip_be :: u32
  pn_netif_id :: u16
  pn_requests :: nat
  pn_last_request :: u64
  pn_packets :: node_frame

definition zero_pending :: pending_neighbour where
  "zero_pending = \<lparr>pn_ip_be = 0, pn_netif_id = 0, pn_requests = 0, pn_last_request = 0,
     pn_packets = []\<rparr>"

subsection \<open>Sockets\<close>

record ps_sockaddr =
  sa_ip_be :: u32
  sa_port :: u16

definition zero_sockaddr :: ps_sockaddr where
  "zero_sockaddr = \<lparr>sa_ip_be = 0, sa_port = 0\<rparr>"

record udp_datagram =
  dg_source :: ps_sockaddr
  dg_length :: u16
  dg_payload :: "u8 list"

record udp_endpoint =
  ep_head :: nat
  ep_count :: nat
  ep_queue :: "udp_datagram list"

datatype (plugins only: code size) tcp_state =
    TCP_CLOSED | TCP_LISTEN | TCP_SYN_SENT | TCP_SYN_RECEIVED | TCP_ESTABLISHED
  | TCP_FIN_WAIT_1 | TCP_FIN_WAIT_2 | TCP_CLOSE_WAIT | TCP_LAST_ACK | TCP_TIME_WAIT

record tcp_connection =
  tc_state :: tcp_state
  tc_parent :: int
  tc_backlog :: u16
  tc_mss :: u16
  tc_peer_window :: u16
  tc_snd_una :: u32
  tc_snd_nxt :: u32
  tc_rcv_nxt :: u32
  tc_snd_wl1 :: u32
  tc_snd_wl2 :: u32
  tc_rx_len :: u16
  tc_tx_len :: u16
  tc_flight_len :: u16
  tc_flight_flags :: u8
  tc_retries :: u8
  tc_closing :: bool
  tc_peer_fin :: bool
  tc_deadline :: u64
  tc_rto :: u64
  tc_expires :: u64
  tc_rx :: "u8 list"
  tc_tx :: "u8 list"

record tcp_stats =
  ts_syns :: u64
  ts_established :: u64
  ts_closed :: u64
  ts_resets :: u64
  ts_retransmissions :: u64
  ts_timeouts :: u64
  ts_duplicate_acks :: u64
  ts_out_of_order :: u64
  ts_sent :: u64
  ts_output_failed :: u64

text \<open>
  The union \<open>transport\<close> of a socket entry is a field per member: \<open>type\<close> selects the member
  and no operation reads the other one.  \<open>error\<close> is \<open>None\<close> for \<open>0\<close>.
\<close>

record ps_socket_entry =
  se_fd :: int
  se_owner :: u64
  se_allocated :: bool
  se_open :: bool
  se_type :: u8
  se_error :: rc
  se_local :: ps_sockaddr
  se_remote :: ps_sockaddr
  se_udp :: udp_endpoint
  se_tcp :: tcp_connection

definition zero_datagram :: udp_datagram where
  "zero_datagram = \<lparr>dg_source = zero_sockaddr, dg_length = 0,
     dg_payload = replicate PS_DGRAM_MAX_PAYLOAD 0\<rparr>"

definition zero_udp :: udp_endpoint where
  "zero_udp = \<lparr>ep_head = 0, ep_count = 0, ep_queue = replicate PS_DGRAM_QUEUE_SIZE zero_datagram\<rparr>"

definition zero_tcp :: tcp_connection where
  "zero_tcp = \<lparr>tc_state = TCP_CLOSED, tc_parent = 0, tc_backlog = 0, tc_mss = 0, tc_peer_window = 0,
     tc_snd_una = 0, tc_snd_nxt = 0, tc_rcv_nxt = 0, tc_snd_wl1 = 0, tc_snd_wl2 = 0,
     tc_rx_len = 0, tc_tx_len = 0, tc_flight_len = 0, tc_flight_flags = 0, tc_retries = 0,
     tc_closing = False, tc_peer_fin = False, tc_deadline = 0, tc_rto = 0, tc_expires = 0,
     tc_rx = replicate TCP_BUFFER_SIZE 0, tc_tx = replicate TCP_BUFFER_SIZE 0\<rparr>"

definition zero_socket :: ps_socket_entry where
  "zero_socket = \<lparr>se_fd = 0, se_owner = 0, se_allocated = False, se_open = False, se_type = 0,
     se_error = None, se_local = zero_sockaddr, se_remote = zero_sockaddr,
     se_udp = zero_udp, se_tcp = zero_tcp\<rparr>"

record socket_subsystem =
  ss_entries :: "ps_socket_entry list"
  ss_capacity :: nat
  ss_generations :: "u32 list"
  ss_next_port :: u16

definition zero_sockets :: socket_subsystem where
  "zero_sockets = \<lparr>ss_entries = replicate PS_SOCKET_MAX zero_socket, ss_capacity = 0,
     ss_generations = replicate PS_SOCKET_MAX 0, ss_next_port = 0\<rparr>"

record icmp_error_state =
  ie_generated :: u64
  ie_suppressed :: u64
  ie_rate_limited :: u64
  ie_failed :: u64
  ie_last_refill :: u64
  ie_tokens :: u32
  ie_initialized :: bool

subsection \<open>The runtime\<close>

record port_state =
  po_id :: u16
  po_port_id :: u16
  po_mtu :: u16
  po_ip_be :: u32
  po_prefix_len :: u8
  po_configured :: bool
  po_started :: bool
  po_mac :: rte_ether_addr
  po_rx_packets :: u64
  po_tx_packets :: u64
  po_tx_drops :: u64
  po_rx_bytes :: u64
  po_tx_bytes :: u64
  po_name :: string
  po_admin_down :: bool

text \<open>
  \<open>struct app_runtime\<close>.  \<open>rt_ports\<close> holds the \<open>port_count\<close> live ports; the mbuf pool and the
  devices are in \<open>rt_dev\<close>; \<open>rt_active_output\<close> is \<open>None\<close> for the null pointer.
\<close>

record 'd app_runtime =
  rt_dev :: 'd
  rt_ports :: "port_state list"
  rt_routes :: route_table
  rt_network :: "net_config option"
  rt_acl_stats :: acl_counters
  rt_events :: admin_events
  rt_graph :: dp_graph
  rt_neighbours :: neighbour_table
  rt_pending :: "pending_neighbour list"
  rt_sockets :: socket_subsystem
  rt_tcp_stats :: tcp_stats
  rt_tcp_timer_next :: u64
  rt_icmp_errors :: icmp_error_state
  rt_ipv4_forwarding :: bool
  rt_neighbour_learn_failures :: u64
  rt_next_ip_id :: u16
  rt_active_output :: "node_output option"
  rt_tx_packets :: u64
  rt_accepted_sends :: u64

subsection \<open>Start-up configuration (\<^verbatim>\<open>include/app.h\<close>)\<close>

datatype app_pmd = PMD_TAP | PMD_AFPKT | PMD_PHYS

record netif_config =
  nif_pmd :: app_pmd
  nif_device :: string
  nif_ip_be :: u32
  nif_prefix_len :: u8

record route_config =
  rcf_prefix_be :: u32
  rcf_gateway_be :: u32
  rcf_prefix_len :: u8
  rcf_device :: string

record app_config =
  cf_lcore :: nat
  cf_interfaces :: "netif_config list"
  cf_no_huge :: u8
  cf_ipv4_forwarding :: u8
  cf_routes :: "route_config list"
  cf_mbufs :: u32
  cf_mbuf_cache :: u32
  cf_rx_desc :: u16
  cf_tx_desc :: u16

subsection \<open>Interfaces (\<^verbatim>\<open>src/runtime.c\<close>)\<close>

definition netif_by_dpdk_port :: "('d, 'x) app_runtime_scheme \<Rightarrow> u16 \<Rightarrow> nat option" where
  "netif_by_dpdk_port rt port =
     first_index (\<lambda>p. po_configured p \<and> po_port_id p = port) (rt_ports rt)"

definition netif_by_id :: "('d, 'x) app_runtime_scheme \<Rightarrow> u16 \<Rightarrow> port_state option" where
  "netif_by_id rt nid =
     (if unat nid < length (rt_ports rt) \<and> po_configured (rt_ports rt ! unat nid)
         \<and> po_id (rt_ports rt ! unat nid) = nid
      then Some (rt_ports rt ! unat nid)
      else List.find (\<lambda>p. po_configured p \<and> po_id p = nid) (rt_ports rt))"

lemma find_SomeD: "List.find P xs = Some x \<Longrightarrow> x \<in> set xs \<and> P x"
  by (induction xs) (auto split: if_splits)

lemma netif_by_id_Some:
  assumes "netif_by_id rt nid = Some p"
  shows "p \<in> set (rt_ports rt)" "po_configured p" "po_id p = nid"
proof -
  have "p \<in> set (rt_ports rt) \<and> po_configured p \<and> po_id p = nid"
  proof (cases "unat nid < length (rt_ports rt) \<and> po_configured (rt_ports rt ! unat nid)
      \<and> po_id (rt_ports rt ! unat nid) = nid")
    case True
    then have "p = rt_ports rt ! unat nid" using assms by (simp add: netif_by_id_def)
    moreover have "rt_ports rt ! unat nid \<in> set (rt_ports rt)" using True by (blast intro: nth_mem)
    ultimately show ?thesis using True by simp
  next
    case False
    with assms show ?thesis by (auto simp: netif_by_id_def dest: find_SomeD)
  qed
  then show "p \<in> set (rt_ports rt)" "po_configured p" "po_id p = nid" by simp_all
qed

lemma netif_by_id_cong:
  "rt_ports rt = rt_ports rt' \<Longrightarrow> netif_by_id rt = netif_by_id rt'"
  by (rule ext) (simp add: netif_by_id_def)

definition port_up :: "port_state \<Rightarrow> bool" where
  "port_up p \<longleftrightarrow> po_started p \<and> \<not> po_admin_down p"

subsection \<open>A sample runtime\<close>

text \<open>Two started interfaces and empty tables; the witnesses start from it.\<close>

definition sample_port :: "u16 \<Rightarrow> u32 \<Rightarrow> u8 \<Rightarrow> port_state" where
  "sample_port n ip len = \<lparr>po_id = n, po_port_id = n, po_mtu = 1500, po_ip_be = ip, po_prefix_len = len,
     po_configured = True, po_started = True, po_mac = [2, 0, 0, 0, 0, ucast n], po_rx_packets = 0,
     po_tx_packets = 0, po_tx_drops = 0, po_rx_bytes = 0, po_tx_bytes = 0, po_name = ''tap'',
     po_admin_down = False\<rparr>"

definition zero_tcp_stats :: tcp_stats where
  "zero_tcp_stats = \<lparr>ts_syns = 0, ts_established = 0, ts_closed = 0, ts_resets = 0,
     ts_retransmissions = 0, ts_timeouts = 0, ts_duplicate_acks = 0, ts_out_of_order = 0, ts_sent = 0,
     ts_output_failed = 0\<rparr>"

definition zero_graph :: dp_graph where
  "zero_graph = \<lparr>g_stats = (\<lambda>_. \<lparr>ns_packets = 0, ns_bytes = 0, ns_drops = 0, ns_errors = 0\<rparr>),
     g_slots = replicate GRAPH_FRAME_POOL_SIZE \<lparr>gs_frame = [], gs_node = NODE_DROP, gs_used = False\<rparr>,
     g_queue = replicate GRAPH_FRAME_POOL_SIZE 0, g_q_head = 0, g_q_tail = 0, g_q_count = 0,
     g_drop_reasons = (\<lambda>_. 0)\<rparr>"

definition sample_runtime :: "'d \<Rightarrow> net_config option \<Rightarrow> 'd app_runtime" where
  "sample_runtime d c = \<lparr>rt_dev = d,
     rt_ports = [sample_port 0 (le32_of [10, 0, 0, 1]) 24, sample_port 1 (le32_of [10, 1, 0, 1]) 16],
     rt_routes = [], rt_network = c,
     rt_acl_stats = \<lparr>cs_rules = replicate NET_ACL_MAX \<lparr>ct_packets = 0, ct_bytes = 0\<rparr>, cs_accepted = 0,
        cs_dropped = 0, cs_defaults = 0\<rparr>,
     rt_events = \<lparr>es_sequence = 0, es_entries = replicate ADMIN_EVENT_MAX zero_event\<rparr>, rt_graph = zero_graph,
     rt_neighbours = replicate NEIGHBOUR_CAPACITY zero_neighbour,
     rt_pending = replicate NEIGHBOUR_PENDING_MAX zero_pending,
     rt_sockets = zero_sockets,
     rt_tcp_stats = zero_tcp_stats, rt_tcp_timer_next = 0,
     rt_icmp_errors = \<lparr>ie_generated = 0, ie_suppressed = 0, ie_rate_limited = 0, ie_failed = 0,
        ie_last_refill = 0, ie_tokens = 0, ie_initialized = False\<rparr>,
     rt_ipv4_forwarding = True, rt_neighbour_learn_failures = 0, rt_next_ip_id = 0,
     rt_active_output = None, rt_tx_packets = 0, rt_accepted_sends = 0\<rparr>"

end
