(* ===== verification/Net_Config.thy ===== *)
theory Net_Config
  imports Runtime
begin

text \<open>
  \<^verbatim>\<open>src/net_config.c\<close>: the network configuration snapshot (addresses, routes, policy rules,
  access-control rules), its validation, the connected routes derived from the addresses, the
  route index, and the access-control classifier with its counters; with the local-address
  tests of \<^verbatim>\<open>src/runtime.c\<close> that read it.
\<close>

subsection \<open>Connected routes\<close>

definition connected_route :: "net_address \<Rightarrow> net_route" where
  "connected_route a = \<lparr>nr_ip = na_ip a AND net_mask (na_prefix a), nr_prefix = na_prefix a,
     nr_gateway = 0, nr_dev = na_dev a, nr_table = NET_TABLE_MAIN, nr_type = NET_UNICAST,
     nr_connected = 1\<rparr>"

definition is_connected_of :: "net_address \<Rightarrow> net_route \<Rightarrow> bool" where
  "is_connected_of a r \<longleftrightarrow> nr_table r = NET_TABLE_MAIN \<and> nr_ip r = na_ip a AND net_mask (na_prefix a)
     \<and> nr_prefix r = na_prefix a \<and> nr_dev r = na_dev a \<and> nr_connected r \<noteq> 0"

fun add_connected :: "net_address list \<Rightarrow> net_route list \<Rightarrow> rc \<times> net_route list" where
  "add_connected [] rs = (None, rs)"
| "add_connected (a # as) rs =
     (if \<exists>r\<in>set rs. is_connected_of a r then add_connected as rs
      else if length rs = NET_ROUTE_MAX then (Some ENOSPC, rs)
      else add_connected as (rs @ [connected_route a]))"

definition net_connected_rebuild :: "net_config \<Rightarrow> rc \<times> net_config" where
  "net_connected_rebuild c =
     (if length (nc_addresses c) > NET_ADDR_MAX \<or> length (nc_routes c) > NET_ROUTE_MAX
      then (Some EINVAL, c)
      else if \<exists>a\<in>set (nc_addresses c). na_prefix a > 32 then (Some EINVAL, c)
      else let (rc, rs) = add_connected (nc_addresses c)
                            (filter (\<lambda>r. nr_connected r = 0) (nc_routes c))
           in (rc, c\<lparr>nc_routes_indexed := False, nc_routes := rs\<rparr>))"

subsection \<open>Validation\<close>

definition validate_address :: "net_config \<Rightarrow> u32 \<Rightarrow> nat \<Rightarrow> rc" where
  "validate_address c ports i = (let a = nc_addresses c ! i in
     if na_dev a \<ge> ports \<or> na_prefix a > 32 \<or> \<not> net_unicast (na_ip a)
        \<or> \<not> net_host (na_ip a) (na_prefix a) then Some EINVAL
     else if \<exists>b\<in>set (take i (nc_addresses c)). na_ip b = na_ip a then Some EEXIST
     else None)"

definition route_clash :: "net_route \<Rightarrow> net_route \<Rightarrow> bool" where
  "route_clash r p \<longleftrightarrow> nr_table r = nr_table p \<and> nr_ip r = nr_ip p \<and> nr_prefix r = nr_prefix p \<and>
     \<not> (nr_connected r \<noteq> 0 \<and> nr_connected p \<noteq> 0 \<and> nr_dev r \<noteq> nr_dev p)"

definition gateway_on_address :: "net_route \<Rightarrow> net_address \<Rightarrow> bool" where
  "gateway_on_address r a \<longleftrightarrow> na_dev a = nr_dev r \<and>
     net_match (nr_gateway r) (na_ip a AND net_mask (na_prefix a)) (na_prefix a) \<and>
     net_host (nr_gateway r) (na_prefix a)"

definition gateway_on_route :: "net_route \<Rightarrow> net_route \<Rightarrow> bool" where
  "gateway_on_route r p \<longleftrightarrow> nr_table p = nr_table r \<and> nr_dev p = nr_dev r \<and> nr_type p = NET_UNICAST \<and>
     nr_gateway p = 0 \<and> net_match (nr_gateway r) (nr_ip p) (nr_prefix p) \<and>
     net_host (nr_gateway r) (nr_prefix p)"

definition validate_gateway :: "net_config \<Rightarrow> net_route \<Rightarrow> rc" where
  "validate_gateway c r =
     (if nr_gateway r = 0 then None
      else if \<not> net_unicast (nr_gateway r) then Some EINVAL
      else if \<exists>a\<in>set (nc_addresses c). na_ip a = nr_gateway r \<or>
           (net_match (nr_gateway r) (na_ip a AND net_mask (na_prefix a)) (na_prefix a) \<and>
            \<not> net_host (nr_gateway r) (na_prefix a)) then Some EINVAL
      else if (\<exists>a\<in>set (nc_addresses c). gateway_on_address r a) \<or>
              (\<exists>p\<in>set (nc_routes c). gateway_on_route r p) then None
      else Some ENETUNREACH)"

definition validate_route :: "net_config \<Rightarrow> u32 \<Rightarrow> nat \<Rightarrow> rc" where
  "validate_route c ports i = (let r = nc_routes c ! i in
     if \<not> net_prefix_valid (nr_ip r) (nr_prefix r) \<or> nr_table r = 0 \<or> nr_table r = NET_TABLE_LOCAL
        \<or> nr_type r > NET_PROHIBIT \<or> nr_connected r > 1
        \<or> (nr_type r = NET_UNICAST \<and> nr_dev r \<ge> ports) \<or> (nr_type r \<noteq> 0 \<and> nr_gateway r \<noteq> 0)
     then Some EINVAL
     else if \<exists>p\<in>set (take i (nc_routes c)). route_clash r p then Some EEXIST
     else validate_gateway c r)"

definition validate_rule :: "net_config \<Rightarrow> u32 \<Rightarrow> nat \<Rightarrow> rc" where
  "validate_rule c ports i = (let r = nc_rules c ! i in
     if ru_pref r = 0 \<or> ru_pref r \<ge> 32766 \<or> \<not> net_prefix_valid (ru_src r) (ru_src_prefix r)
        \<or> \<not> net_prefix_valid (ru_dst r) (ru_dst_prefix r)
        \<or> (ru_iif r \<noteq> NET_IIF_NONE \<and> ru_iif r \<ge> ports) \<or> ru_type r > NET_PROHIBIT
        \<or> (ru_type r = 0 \<and> (ru_table r = 0 \<or> ru_table r = NET_TABLE_LOCAL))
        \<or> (0 < i \<and> ru_pref (nc_rules c ! (i - 1)) \<ge> ru_pref r)
     then Some EINVAL else None)"

definition validate_acl :: "net_config \<Rightarrow> u32 \<Rightarrow> nat \<Rightarrow> rc" where
  "validate_acl c ports i = (let a = nc_acls c ! i in
     if \<not> net_prefix_valid (ac_src a) (ac_src_prefix a) \<or> \<not> net_prefix_valid (ac_dst a) (ac_dst_prefix a)
        \<or> (ac_iif a \<noteq> NET_IIF_NONE \<and> ac_iif a \<ge> ports) \<or> ac_proto a > 255 \<or> ac_drop a > 1
        \<or> ac_ports a > 3 \<or> (ac_ports a \<noteq> 0 \<and> ac_proto a \<noteq> 6 \<and> ac_proto a \<noteq> 17)
        \<or> ac_sport_min a > ac_sport_max a \<or> ac_dport_min a > ac_dport_max a
        \<or> ac_sport_max a > 65535 \<or> ac_dport_max a > 65535
        \<or> (0 < i \<and> ac_pref (nc_acls c ! (i - 1)) \<ge> ac_pref a)
     then Some EINVAL else None)"

definition net_config_validate :: "net_config \<Rightarrow> u32 \<Rightarrow> rc" where
  "net_config_validate c ports =
     (if length (nc_addresses c) > NET_ADDR_MAX \<or> length (nc_routes c) > NET_ROUTE_MAX
         \<or> length (nc_rules c) > NET_RULE_MAX \<or> length (nc_acls c) > NET_ACL_MAX
         \<or> nc_default_drop c > 1
      then Some EINVAL
      else rc_seq (first_rc (validate_address c ports) [0..<length (nc_addresses c)])
          (rc_seq (first_rc (validate_route c ports) [0..<length (nc_routes c)])
          (rc_seq (first_rc (validate_rule c ports) [0..<length (nc_rules c)])
                  (first_rc (validate_acl c ports) [0..<length (nc_acls c)]))))"

subsection \<open>The route index\<close>

definition route_order :: "net_route_index \<Rightarrow> net_route_index \<Rightarrow> int" where
  "route_order a b =
     (if ni_table a \<noteq> ni_table b then cmp_key (ni_table a) (ni_table b)
      else if ni_prefix a \<noteq> ni_prefix b then cmp_key (ni_prefix b) (ni_prefix a)
      else cmp_key (ni_route a) (ni_route b))"

definition route_index_entry :: "net_route list \<Rightarrow> nat \<Rightarrow> net_route_index" where
  "route_index_entry rs i = \<lparr>ni_table = nr_table (rs ! i), ni_ip = nr_ip (rs ! i),
     ni_mask = net_mask (nr_prefix (rs ! i)), ni_route = of_nat i,
     ni_prefix = ucast (nr_prefix (rs ! i))\<rparr>"

definition net_config_prepare :: "net_config \<Rightarrow> u32 \<Rightarrow> rc \<times> net_config" where
  "net_config_prepare c0 ports = (let c = c0\<lparr>nc_routes_indexed := False\<rparr> in
     case net_config_validate c ports of
       Some e \<Rightarrow> (Some e, c)
     | None \<Rightarrow>
         if length (nc_routes c) \<le> 2 then (None, c)
         else (None, c\<lparr>nc_route_index :=
                        qsort route_order (map (route_index_entry (nc_routes c)) [0..<length (nc_routes c)]),
                      nc_routes_indexed := True\<rparr>))"

subsection \<open>Access control\<close>

definition acl_matches :: "net_acl \<Rightarrow> acl_key \<Rightarrow> bool" where
  "acl_matches a k \<longleftrightarrow>
     \<not> (\<not> net_match (ak_src k) (ac_src a) (ac_src_prefix a)
        \<or> \<not> net_match (ak_dst k) (ac_dst a) (ac_dst_prefix a)
        \<or> (ac_iif a \<noteq> NET_IIF_NONE \<and> ac_iif a \<noteq> ak_iif k)
        \<or> (ac_proto a \<noteq> 0 \<and> ac_proto a \<noteq> ucast (ak_proto k)))
     \<and> \<not> (ac_ports a \<noteq> 0 \<and> \<not> ak_ports_valid k)
     \<and> \<not> (ac_ports a AND 1 \<noteq> 0 \<and> (ucast (ak_sport k) < ac_sport_min a \<or> ucast (ak_sport k) > ac_sport_max a))
     \<and> \<not> (ac_ports a AND 2 \<noteq> 0 \<and> (ucast (ak_dport k) < ac_dport_min a \<or> ucast (ak_dport k) > ac_dport_max a))"

definition net_acl_classify :: "net_config \<Rightarrow> acl_key \<Rightarrow> int" where
  "net_acl_classify c k =
     (case first_index (\<lambda>a. acl_matches a k) (nc_acls c) of Some i \<Rightarrow> int i | None \<Rightarrow> -1)"

definition net_acl_classify_batch :: "net_config \<Rightarrow> acl_key list \<Rightarrow> int list" where
  "net_acl_classify_batch c keys = map (net_acl_classify c) keys"

definition net_acl_account :: "net_config \<Rightarrow> acl_counters \<Rightarrow> int \<Rightarrow> u64 \<Rightarrow> bool \<times> acl_counters" where
  "net_acl_account c s i bytes =
     (let (drop, s) =
        (if i \<ge> 0 \<and> nat i < length (nc_acls c)
         then (ac_drop (nc_acls c ! nat i),
               s\<lparr>cs_rules := (cs_rules s)[nat i :=
                  \<lparr>ct_packets = ct_packets (cs_rules s ! nat i) + 1,
                   ct_bytes = ct_bytes (cs_rules s ! nat i) + bytes\<rparr>]\<rparr>)
         else (nc_default_drop c, s\<lparr>cs_defaults := cs_defaults s + 1\<rparr>));
        s = (if drop \<noteq> 0 then s\<lparr>cs_dropped := cs_dropped s + 1\<rparr>
             else s\<lparr>cs_accepted := cs_accepted s + 1\<rparr>)
      in (drop = 0, s))"

definition net_acl_accept :: "net_config \<Rightarrow> acl_counters \<Rightarrow> acl_key \<Rightarrow> u64 \<Rightarrow> bool \<times> acl_counters" where
  "net_acl_accept c s k bytes = net_acl_account c s (net_acl_classify c k) bytes"

definition zero_counter :: acl_counter where
  "zero_counter = \<lparr>ct_packets = 0, ct_bytes = 0\<rparr>"

definition migrated_counter :: "net_acl list \<Rightarrow> acl_counter list \<Rightarrow> net_acl \<Rightarrow> acl_counter" where
  "migrated_counter old saved a =
     fold (\<lambda>j c. if old ! j = a then saved ! j else c) [0..<length old] zero_counter"

definition net_acl_counters_migrate ::
    "net_config \<Rightarrow> net_config \<Rightarrow> acl_counters \<Rightarrow> acl_counters" where
  "net_acl_counters_migrate old nxt s =
     s\<lparr>cs_rules := map (migrated_counter (nc_acls old) (cs_rules s)) (nc_acls nxt)
         @ replicate (NET_ACL_MAX - length (nc_acls nxt)) zero_counter\<rparr>"

subsection \<open>Local addresses\<close>

definition net_address_on :: "('d, 'x) app_runtime_scheme \<Rightarrow> u32 \<Rightarrow> u32 \<Rightarrow> bool" where
  "net_address_on rt dev ip =
     (case rt_network rt of
        None \<Rightarrow> (case netif_by_id rt (ucast dev) of None \<Rightarrow> False | Some p \<Rightarrow> po_ip_be p = ip)
      | Some c \<Rightarrow> \<exists>a\<in>set (nc_addresses c). na_dev a = dev \<and> na_ip a = ip)"

definition netif_is_local_ip :: "('d, 'x) app_runtime_scheme \<Rightarrow> u32 \<Rightarrow> bool" where
  "netif_is_local_ip rt ip =
     (case rt_network rt of
        Some c \<Rightarrow> \<exists>a\<in>set (nc_addresses c). na_ip a = ip \<and> netif_by_id rt (ucast (na_dev a)) \<noteq> None
      | None \<Rightarrow> \<exists>p\<in>set (rt_ports rt). po_configured p \<and> net_address_on rt (ucast (po_id p)) ip)"

text \<open>The loop of \<open>net_source\<close> carries \<open>first\<close>, \<open>best\<close> and \<open>prefix\<close>.\<close>

definition net_source_step :: "u32 \<Rightarrow> u32 \<Rightarrow> net_address \<Rightarrow> u32 \<times> u32 \<times> u32 \<Rightarrow> u32 \<times> u32 \<times> u32" where
  "net_source_step dev dst a acc = (case acc of (first, best, prefix) \<Rightarrow>
     if na_dev a \<noteq> dev then (first, best, prefix)
     else let first = (if first = 0 then na_ip a else first) in
       if net_match dst (na_ip a AND net_mask (na_prefix a)) (na_prefix a) \<and>
          (best = 0 \<or> na_prefix a > prefix)
       then (first, na_ip a, na_prefix a) else (first, best, prefix))"

definition net_source :: "('d, 'x) app_runtime_scheme \<Rightarrow> u32 \<Rightarrow> u32 \<Rightarrow> u32" where
  "net_source rt dev dst =
     (case rt_network rt of
        None \<Rightarrow> (case netif_by_id rt (ucast dev) of None \<Rightarrow> 0 | Some p \<Rightarrow> po_ip_be p)
      | Some c \<Rightarrow> (case fold (net_source_step dev dst) (nc_addresses c) (0, 0, 0) of
           (first, best, _) \<Rightarrow> if best \<noteq> 0 then best else first))"

text \<open>
  \<open>net_config_init\<close>: \<open>allocated\<close> says whether \<^verbatim>\<open>calloc\<close> returned memory.
\<close>

definition net_config_init :: "bool \<Rightarrow> ('d, 'x) app_runtime_scheme \<Rightarrow> rc \<times> ('d, 'x) app_runtime_scheme" where
  "net_config_init allocated rt =
     (if \<not> allocated then (Some ENOMEM, rt)
      else
        let c = \<lparr>nc_generation = 1, nc_default_drop = 0,
               nc_addresses = map (\<lambda>p. \<lparr>na_ip = po_ip_be p, na_prefix = ucast (po_prefix_len p),
                                       na_dev = ucast (po_id p)\<rparr>) (rt_ports rt),
               nc_routes = map (\<lambda>r. \<lparr>nr_ip = re_prefix_be r, nr_prefix = ucast (re_prefix_len r),
                                    nr_gateway = re_gateway_be r, nr_dev = ucast (re_netif_id r),
                                    nr_table = NET_TABLE_MAIN, nr_type = 0, nr_connected = 0\<rparr>)
                             (drop (length (rt_ports rt)) (rt_routes rt)),
               nc_routes_indexed = False, nc_route_index = [], nc_rules = [], nc_acls = []\<rparr>;
            (rc, c) = net_connected_rebuild c;
            (rc, c) = (case rc of Some e \<Rightarrow> (Some e, c) | None \<Rightarrow> net_config_prepare c (of_nat (length (rt_ports rt))))
        in case rc of Some e \<Rightarrow> (Some e, rt) | None \<Rightarrow> (None, rt\<lparr>rt_network := Some c\<rparr>))"


subsection \<open>A sample configuration\<close>

text \<open>
  10.0.0.1/24 on interface 0 and 10.1.0.1/16 on interface 1, two static routes, a blackhole, two
  policy rules and two access rules; the witnesses evaluate the definitions on it.
\<close>

definition ip4 :: "u8 \<Rightarrow> u8 \<Rightarrow> u8 \<Rightarrow> u8 \<Rightarrow> u32" where
  "ip4 a b c d = le32_of [a, b, c, d]"

definition sample_acl :: "u32 \<Rightarrow> u32 \<Rightarrow> u32 \<Rightarrow> u32 \<Rightarrow> net_acl" where
  "sample_acl pref src len action = \<lparr>ac_pref = pref, ac_src = src, ac_src_prefix = len, ac_dst = 0,
     ac_dst_prefix = 0, ac_iif = NET_IIF_NONE, ac_proto = 0, ac_sport_min = 0, ac_sport_max = 65535,
     ac_dport_min = 0, ac_dport_max = 65535, ac_ports = 0, ac_drop = action\<rparr>"

definition sample_route :: "u32 \<Rightarrow> u32 \<Rightarrow> u32 \<Rightarrow> u32 \<Rightarrow> u32 \<Rightarrow> net_route" where
  "sample_route ip len gateway dev typ = \<lparr>nr_ip = ip, nr_prefix = len, nr_gateway = gateway,
     nr_dev = dev, nr_table = NET_TABLE_MAIN, nr_type = typ, nr_connected = 0\<rparr>"

definition sample_config :: net_config where
  "sample_config = \<lparr>nc_generation = 1, nc_default_drop = 0,
     nc_addresses = [\<lparr>na_ip = ip4 10 0 0 1, na_prefix = 24, na_dev = 0\<rparr>,
                     \<lparr>na_ip = ip4 10 1 0 1, na_prefix = 16, na_dev = 1\<rparr>],
     nc_routes = [sample_route 0 0 (ip4 10 0 0 254) 0 NET_UNICAST,
                  sample_route (ip4 10 0 0 0) 24 0 0 NET_UNICAST,
                  sample_route (ip4 10 1 0 0) 16 0 1 NET_UNICAST,
                  sample_route (ip4 10 1 2 0) 24 0 0 NET_BLACKHOLE],
     nc_routes_indexed = False, nc_route_index = [],
     nc_rules = [\<lparr>ru_pref = 100, ru_src = 0, ru_src_prefix = 0, ru_dst = 0, ru_dst_prefix = 0,
                  ru_iif = 1, ru_table = 10, ru_type = NET_UNICAST\<rparr>],
     nc_acls = [sample_acl 10 (ip4 10 0 0 0) 24 0, sample_acl 20 (ip4 10 0 0 0) 8 1]\<rparr>"

definition sample_counters :: acl_counters where
  "sample_counters = \<lparr>cs_rules = replicate NET_ACL_MAX zero_counter, cs_accepted = 0, cs_dropped = 0,
     cs_defaults = 0\<rparr>"

definition sample_key :: "u32 \<Rightarrow> acl_key" where
  "sample_key src = \<lparr>ak_src = src, ak_dst = 0, ak_iif = 0, ak_sport = 0, ak_dport = 0, ak_proto = 1,
     ak_ports_valid = False\<rparr>"

lemma sample_config_valid: "net_config_validate sample_config 2 = None"
  by code_simp

subsection \<open>Properties of the connected routes\<close>

lemma is_connected_of_iff: "is_connected_of a (connected_route b) \<longleftrightarrow> connected_route b = connected_route a"
  by (auto simp: is_connected_of_def connected_route_def)

text \<open>
  The loop appends one route per distinct connected prefix and stops with \<open>ENOSPC\<close> exactly when
  the table has no room for all of them.
\<close>

lemma add_connected_spec:
  assumes "\<forall>r\<in>set st. nr_connected r = 0" "set conn \<subseteq> range connected_route" "distinct conn"
    and "length (st @ conn) \<le> NET_ROUTE_MAX"
  shows "\<exists>rc conn'. add_connected as (st @ conn) = (rc, st @ conn @ conn') \<and> distinct (conn @ conn') \<and>
      set conn' \<subseteq> connected_route ` set as \<and> length (st @ conn @ conn') \<le> NET_ROUTE_MAX \<and>
      (rc = None \<longrightarrow> connected_route ` set as \<subseteq> set (conn @ conn')) \<and>
      (rc = None \<or> rc = Some ENOSPC \<and> length st + card (set conn \<union> connected_route ` set as) > NET_ROUTE_MAX)"
  using assms
proof (induction "as" arbitrary: conn)
  case (Cons a as)
  have found: "(\<exists>r\<in>set (st @ conn). is_connected_of a r) \<longleftrightarrow> connected_route a \<in> set conn"
  proof
    assume "\<exists>r\<in>set (st @ conn). is_connected_of a r"
    then obtain r where r: "r \<in> set (st @ conn)" "is_connected_of a r" by blast
    then have "r \<in> set conn" using Cons.prems(1) by (auto simp: is_connected_of_def)
    moreover then obtain b where "r = connected_route b" using Cons.prems(2) by blast
    ultimately show "connected_route a \<in> set conn" using r(2) by (simp add: is_connected_of_iff)
  next
    assume "connected_route a \<in> set conn"
    then show "\<exists>r\<in>set (st @ conn). is_connected_of a r"
      by (auto simp: is_connected_of_iff intro!: bexI [of _ "connected_route a"])
  qed
  consider "connected_route a \<in> set conn" | "connected_route a \<notin> set conn" "length (st @ conn) = NET_ROUTE_MAX"
    | "connected_route a \<notin> set conn" "length (st @ conn) < NET_ROUTE_MAX" using Cons.prems(4) by linarith
  then show ?case
  proof cases
    case 1
    then have u: "set conn \<union> connected_route ` set (a # as) = set conn \<union> connected_route ` set as" by auto
    have "add_connected (a # as) (st @ conn) = add_connected as (st @ conn)" using 1 found by simp
    with 1 Cons.IH [OF Cons.prems] show ?thesis
      unfolding u by (elim exE) (intro exI, auto)
  next
    case 2
    have "card (set (connected_route a # conn)) \<le> card (set conn \<union> connected_route ` set (a # as))"
      by (rule card_mono) auto
    with 2 Cons.prems(3) have "length st + card (set conn \<union> connected_route ` set (a # as)) > NET_ROUTE_MAX"
      by (simp add: distinct_card)
    with 2 Cons.prems found show ?thesis by (intro exI [of _ "Some ENOSPC"] exI [of _ "[]"]) simp
  next
    case 3
    then have eq: "add_connected (a # as) (st @ conn) = add_connected as (st @ (conn @ [connected_route a]))"
      using found by simp
    have "\<exists>rc conn'. add_connected as (st @ (conn @ [connected_route a])) = (rc, st @ (conn @ [connected_route a]) @ conn') \<and>
        distinct ((conn @ [connected_route a]) @ conn') \<and> set conn' \<subseteq> connected_route ` set as \<and>
        length (st @ (conn @ [connected_route a]) @ conn') \<le> NET_ROUTE_MAX \<and>
        (rc = None \<longrightarrow> connected_route ` set as \<subseteq> set ((conn @ [connected_route a]) @ conn')) \<and>
        (rc = None \<or> rc = Some ENOSPC \<and> length st +
          card (set (conn @ [connected_route a]) \<union> connected_route ` set as) > NET_ROUTE_MAX)"
      using 3 Cons.prems by (intro Cons.IH) auto
    then obtain rc conn' where "add_connected (a # as) (st @ conn) = (rc, st @ conn @ connected_route a # conn')"
        "distinct (conn @ connected_route a # conn')" "set conn' \<subseteq> connected_route ` set as"
        "length (st @ conn @ connected_route a # conn') \<le> NET_ROUTE_MAX"
        "rc = None \<longrightarrow> connected_route ` set as \<subseteq> set (conn @ connected_route a # conn')"
        "rc = None \<or> rc = Some ENOSPC \<and> length st +
          card (set conn \<union> connected_route ` set (a # as)) > NET_ROUTE_MAX"
      unfolding eq by auto
    then show ?thesis by (intro exI [of _ rc] exI [of _ "connected_route a # conn'"]) auto
  qed
qed auto

text \<open>
  C18: after a successful \<open>net_connected_rebuild\<close> the routes are the static ones, unchanged and in
  order, followed by exactly one connected route per subnet of an interface address, and the
  route index is marked stale.
\<close>

theorem net_connected_rebuild_routes:
  assumes "net_connected_rebuild c = (None, c')"
  shows "\<exists>conn. nc_routes c' = filter (\<lambda>r. nr_connected r = 0) (nc_routes c) @ conn \<and> distinct conn \<and>
      set conn = connected_route ` set (nc_addresses c) \<and> length (nc_routes c') \<le> NET_ROUTE_MAX \<and>
      \<not> nc_routes_indexed c' \<and> nc_addresses c' = nc_addresses c \<and> nc_rules c' = nc_rules c \<and>
      nc_acls c' = nc_acls c"
proof -
  let ?st = "filter (\<lambda>r. nr_connected r = 0) (nc_routes c)"
  have c': "add_connected (nc_addresses c) ?st = (None, nc_routes c')" "\<not> nc_routes_indexed c'"
      "nc_addresses c' = nc_addresses c" "nc_rules c' = nc_rules c" "nc_acls c' = nc_acls c"
    and len: "length (nc_routes c) \<le> NET_ROUTE_MAX"
    using assms by (auto simp: net_connected_rebuild_def split: if_splits prod.splits)
  have "length ?st \<le> NET_ROUTE_MAX" using len length_filter_le [of "\<lambda>r. nr_connected r = 0" "nc_routes c"] by linarith
  then show ?thesis
    using add_connected_spec [of ?st "[]" "nc_addresses c"] c' by fastforce
qed

theorem net_connected_rebuild_routes_witness:
  "\<exists>conn. nc_routes (snd (net_connected_rebuild sample_config)) =
      filter (\<lambda>r. nr_connected r = 0) (nc_routes sample_config) @ conn \<and>
      set conn = connected_route ` set (nc_addresses sample_config)"
proof -
  have "fst (net_connected_rebuild sample_config) = None" by code_simp
  then have "net_connected_rebuild sample_config = (None, snd (net_connected_rebuild sample_config))"
    by (simp add: prod_eq_iff)
  from net_connected_rebuild_routes [OF this] show ?thesis by blast
qed

subsection \<open>Properties of the validation\<close>

lemma validate_lengths:
  "net_config_validate c ports = None \<Longrightarrow> length (nc_addresses c) \<le> NET_ADDR_MAX \<and>
     length (nc_routes c) \<le> NET_ROUTE_MAX \<and> length (nc_rules c) \<le> NET_RULE_MAX \<and>
     length (nc_acls c) \<le> NET_ACL_MAX"
  by (auto simp: net_config_validate_def split: if_splits)

lemma net_config_validate_cong:
  assumes "nc_addresses c = nc_addresses c'" "nc_routes c = nc_routes c'" "nc_rules c = nc_rules c'"
    "nc_acls c = nc_acls c'" "nc_default_drop c = nc_default_drop c'"
  shows "net_config_validate c ports = net_config_validate c' ports"
proof -
  have "validate_address c = validate_address c'" "validate_route c = validate_route c'"
    "validate_rule c = validate_rule c'" "validate_acl c = validate_acl c'"
    by (intro ext; simp add: validate_address_def validate_route_def validate_gateway_def
        validate_rule_def validate_acl_def assms cong: if_cong)+
  with assms show ?thesis by (simp add: net_config_validate_def)
qed

text \<open>A loop whose body compares each element with its predecessor sorts the list.\<close>

lemma sorted_wrt_adjacent:
  assumes "\<And>i. 0 < i \<Longrightarrow> i < length xs \<Longrightarrow> (f (xs ! (i - 1)) :: 'a::order) < f (xs ! i)"
  shows "sorted_wrt (<) (map f xs)"
proof (subst sorted_wrt_iff_nth_Suc_transp)
  show "transp ((<) :: 'a \<Rightarrow> 'a \<Rightarrow> bool)" by (simp add: transp_on_less)
  show "\<forall>i. Suc i < length (map f xs) \<longrightarrow> map f xs ! i < map f xs ! Suc i"
    using assms [of "Suc i" for i] by simp
qed

lemma distinct_via_takes:
  assumes "\<And>i. i < length xs \<Longrightarrow> \<forall>y\<in>set (take i xs). f y \<noteq> f (xs ! i)"
  shows "distinct (map f xs)"
proof (subst distinct_conv_nth, intro allI impI)
  have less: "f (xs ! i) \<noteq> f (xs ! j)" if "i < j" "j < length xs" for i j
    using assms [of j] that by (metis length_take min.absorb4 nth_mem nth_take)
  fix i j assume ij: "i < length (map f xs)" "j < length (map f xs)" "i \<noteq> j"
  then consider "i < j" | "j < i" by linarith
  then show "map f xs ! i \<noteq> map f xs ! j"
    using less [of i j] less [of j i] ij by cases auto
qed

lemma net_config_validate_parts:
  assumes "net_config_validate c ports = None"
  shows "i < length (nc_addresses c) \<Longrightarrow> validate_address c ports i = None"
    and "i < length (nc_routes c) \<Longrightarrow> validate_route c ports i = None"
    and "i < length (nc_rules c) \<Longrightarrow> validate_rule c ports i = None"
    and "i < length (nc_acls c) \<Longrightarrow> validate_acl c ports i = None"
  using assms by (auto simp: net_config_validate_def split: if_splits)

lemma validated_addresses:
  assumes "net_config_validate c ports = None"
  shows "distinct (map na_ip (nc_addresses c))"
    and "a \<in> set (nc_addresses c) \<Longrightarrow>
      na_dev a < ports \<and> na_prefix a \<le> 32 \<and> net_unicast (na_ip a) \<and> net_host (na_ip a) (na_prefix a)"
proof -
  note v = net_config_validate_parts(1) [OF assms]
  show "distinct (map na_ip (nc_addresses c))"
    using v by (intro distinct_via_takes) (fastforce simp: validate_address_def Let_def split: if_splits)
  show "na_dev a < ports \<and> na_prefix a \<le> 32 \<and> net_unicast (na_ip a) \<and> net_host (na_ip a) (na_prefix a)"
    if "a \<in> set (nc_addresses c)"
    using that v by (force simp: in_set_conv_nth validate_address_def Let_def not_le not_less split: if_splits)
qed

lemma validated_route:
  assumes "net_config_validate c ports = None" "r \<in> set (nc_routes c)"
  shows "net_prefix_valid (nr_ip r) (nr_prefix r)" "nr_table r \<noteq> 0" "nr_table r \<noteq> NET_TABLE_LOCAL"
    and "nr_type r \<le> NET_PROHIBIT" "nr_type r = NET_UNICAST \<Longrightarrow> nr_dev r < ports"
    and "nr_type r \<noteq> NET_UNICAST \<Longrightarrow> nr_gateway r = 0" "validate_gateway c r = None"
proof -
  from assms(2) obtain i where i: "i < length (nc_routes c)" "r = nc_routes c ! i"
    by (auto simp: in_set_conv_nth)
  have "validate_route c ports i = None" by (rule net_config_validate_parts(2) [OF assms(1) i(1)])
  then have "\<not> (\<not> net_prefix_valid (nr_ip r) (nr_prefix r) \<or> nr_table r = 0 \<or> nr_table r = NET_TABLE_LOCAL
        \<or> nr_type r > NET_PROHIBIT \<or> nr_connected r > 1
        \<or> (nr_type r = NET_UNICAST \<and> nr_dev r \<ge> ports) \<or> (nr_type r \<noteq> 0 \<and> nr_gateway r \<noteq> 0))"
      and g: "validate_gateway c r = None"
    by (simp_all add: validate_route_def i(2) Let_def split: if_splits)
  then show "net_prefix_valid (nr_ip r) (nr_prefix r)" "nr_table r \<noteq> 0" "nr_table r \<noteq> NET_TABLE_LOCAL"
    "nr_type r \<le> NET_PROHIBIT" "nr_type r = NET_UNICAST \<Longrightarrow> nr_dev r < ports"
    "nr_type r \<noteq> NET_UNICAST \<Longrightarrow> nr_gateway r = 0"
    by (simp_all add: not_le not_less)
  show "validate_gateway c r = None" by (rule g)
qed

lemma validate_route_prefix:
  "net_config_validate c ports = None \<Longrightarrow> r \<in> set (nc_routes c) \<Longrightarrow> nr_prefix r \<le> 32"
  using validated_route(1) by (auto simp: net_prefix_valid_def)

lemma validated_order:
  assumes "net_config_validate c ports = None"
  shows "sorted_wrt (<) (map ru_pref (nc_rules c))" "sorted_wrt (<) (map ac_pref (nc_acls c))"
proof -
  show "sorted_wrt (<) (map ru_pref (nc_rules c))"
  proof (rule sorted_wrt_adjacent)
    fix i assume "0 < i" "i < length (nc_rules c)"
    then show "ru_pref (nc_rules c ! (i - 1)) < ru_pref (nc_rules c ! i)"
      using net_config_validate_parts(3) [OF assms, of i]
      by (simp add: validate_rule_def Let_def not_le split: if_splits)
  qed
  show "sorted_wrt (<) (map ac_pref (nc_acls c))"
  proof (rule sorted_wrt_adjacent)
    fix i assume "0 < i" "i < length (nc_acls c)"
    then show "ac_pref (nc_acls c ! (i - 1)) < ac_pref (nc_acls c ! i)"
      using net_config_validate_parts(4) [OF assms, of i]
      by (simp add: validate_acl_def Let_def not_le split: if_splits)
  qed
qed



subsection \<open>Properties of the access control\<close>

lemma net_acl_classify_cases:
  obtains "net_acl_classify c k = -1" "\<forall>a\<in>set (nc_acls c). \<not> acl_matches a k"
  | i where "net_acl_classify c k = int i" "i < length (nc_acls c)" "acl_matches (nc_acls c ! i) k"
      "\<forall>j<i. \<not> acl_matches (nc_acls c ! j) k"
proof (cases "first_index (\<lambda>a. acl_matches a k) (nc_acls c)")
  case None
  with that(1) show ?thesis by (simp add: net_acl_classify_def)
next
  case (Some i)
  with that(2) [of i] show ?thesis by (simp add: net_acl_classify_def first_index_Some)
qed

text \<open>
  C20: in a validated configuration the classifier returns the index of the matching access rule
  with the lowest preference, which is the only one with that preference, and \<open>-1\<close> exactly when
  no rule matches.
\<close>

theorem net_acl_classify_lowest_pref:
  assumes "net_config_validate c ports = None"
  shows "(net_acl_classify c k = -1 \<longleftrightarrow> (\<forall>a\<in>set (nc_acls c). \<not> acl_matches a k)) \<and>
    (\<forall>i. net_acl_classify c k = int i \<longleftrightarrow> i < length (nc_acls c) \<and> acl_matches (nc_acls c ! i) k \<and>
       (\<forall>j<length (nc_acls c). j \<noteq> i \<and> acl_matches (nc_acls c ! j) k \<longrightarrow>
          ac_pref (nc_acls c ! i) < ac_pref (nc_acls c ! j)))"
proof -
  have mono: "ac_pref (nc_acls c ! i) < ac_pref (nc_acls c ! j)" if "i < j" "j < length (nc_acls c)" for i j
    using validated_order(2) [OF assms] that by (simp add: sorted_wrt_iff_nth_less)
  show ?thesis
  proof (rule net_acl_classify_cases [of c k])
    fix i assume i: "net_acl_classify c k = int i" "i < length (nc_acls c)" "acl_matches (nc_acls c ! i) k"
      "\<forall>j<i. \<not> acl_matches (nc_acls c ! j) k"
    have lower: "ac_pref (nc_acls c ! i) < ac_pref (nc_acls c ! j)"
      if "j \<noteq> i" "j < length (nc_acls c)" "acl_matches (nc_acls c ! j) k" for j
      using that i(4) by (intro mono) (meson linorder_neqE_nat, simp)
    have unique: "i' = i" if "i' < length (nc_acls c)" "acl_matches (nc_acls c ! i') k"
      "\<forall>j<length (nc_acls c). j \<noteq> i' \<and> acl_matches (nc_acls c ! j) k \<longrightarrow>
          ac_pref (nc_acls c ! i') < ac_pref (nc_acls c ! j)" for i'
    proof (rule ccontr)
      assume "i' \<noteq> i"
      with that i have "ac_pref (nc_acls c ! i') < ac_pref (nc_acls c ! i)" by blast
      moreover have "ac_pref (nc_acls c ! i) < ac_pref (nc_acls c ! i')"
        using \<open>i' \<noteq> i\<close> that(1,2) by (rule lower)
      ultimately show False by simp
    qed
    show ?thesis
    proof (intro conjI allI)
      show "net_acl_classify c k = -1 \<longleftrightarrow> (\<forall>a\<in>set (nc_acls c). \<not> acl_matches a k)"
        using i(1-3) nth_mem by fastforce
      fix i'
      show "net_acl_classify c k = int i' \<longleftrightarrow> i' < length (nc_acls c) \<and> acl_matches (nc_acls c ! i') k \<and>
          (\<forall>j<length (nc_acls c). j \<noteq> i' \<and> acl_matches (nc_acls c ! j) k \<longrightarrow>
            ac_pref (nc_acls c ! i') < ac_pref (nc_acls c ! j))"
        using i(1-3) lower unique of_nat_eq_iff by metis
    qed
  qed (auto simp: all_set_conv_all_nth)
qed

theorem net_acl_classify_lowest_pref_witness:
  "net_acl_classify sample_config (sample_key (ip4 10 9 0 1)) = int 1 \<and> 1 < length (nc_acls sample_config) \<and>
     acl_matches (nc_acls sample_config ! 1) (sample_key (ip4 10 9 0 1))"
proof -
  note v = sample_config_valid
  have "net_acl_classify sample_config (sample_key (ip4 10 9 0 1)) = int 1" by code_simp
  with net_acl_classify_lowest_pref [OF v, of "sample_key (ip4 10 9 0 1)"] show ?thesis by blast
qed

lemma sum_list_update_word:
  "i < length xs \<Longrightarrow> sum_list (map f (xs[i := y])) = (sum_list (map f xs) - f (xs ! i) + f y :: 'a::len word)"
  by (induction xs arbitrary: i) (auto split: nat.splits simp: algebra_simps)

definition acl_total :: "acl_counters \<Rightarrow> u64" where
  "acl_total s = cs_defaults s + sum_list (map ct_packets (cs_rules s))"

lemma net_acl_account_totals:
  assumes "length (nc_acls c) \<le> length (cs_rules s)" "net_acl_account c s i bytes = (v, s')"
  shows "cs_accepted s' + cs_dropped s' = cs_accepted s + cs_dropped s + 1"
    and "acl_total s' = acl_total s + 1" "length (cs_rules s') = length (cs_rules s)"
    and "cs_accepted s' = cs_accepted s + of_bool v"
  using assms by (auto simp: net_acl_account_def Let_def acl_total_def sum_list_update_word algebra_simps
      split: if_splits)

text \<open>
  C21: the counters account for every classified packet exactly once: over any sequence of
  packets, the verdict counters and the per-rule counters (with the default counter) grow by the
  number of packets, modulo \<open>2 ^ 64\<close>.
\<close>

theorem net_acl_accounting:
  assumes "length (nc_acls c) \<le> length (cs_rules s)"
    and "s' = fold (\<lambda>(k, bytes) s. snd (net_acl_accept c s k bytes)) packets s"
  shows "cs_accepted s' + cs_dropped s' = cs_accepted s + cs_dropped s + of_nat (length packets) \<and>
    acl_total s' = acl_total s + of_nat (length packets)"
  using assms
proof (induction packets arbitrary: s)
  case (Cons p packets)
  obtain k bytes where p: "p = (k, bytes)" by force
  obtain v s1 where s1: "net_acl_account c s (net_acl_classify c k) bytes = (v, s1)" by force
  note t = net_acl_account_totals [OF Cons.prems(1) s1]
  have "s' = fold (\<lambda>(k, bytes) s. snd (net_acl_accept c s k bytes)) packets s1"
    using Cons.prems(2) by (simp add: p net_acl_accept_def s1)
  from Cons.IH [OF _ this] Cons.prems(1) t show ?case by simp
qed simp

theorem net_acl_accounting_witness:
  "acl_total (fold (\<lambda>(k, bytes) s. snd (net_acl_accept sample_config s k bytes))
      [(sample_key (ip4 10 0 0 7), 100), (sample_key (ip4 10 9 0 1), 60), (sample_key 1, 60)] sample_counters)
   = acl_total sample_counters + 3"
  using net_acl_accounting [of sample_config sample_counters _
      "[(sample_key (ip4 10 0 0 7), 100), (sample_key (ip4 10 9 0 1), 60), (sample_key 1, 60)]", OF _ refl]
  by (simp add: sample_config_def sample_counters_def)

lemma fold_migrate_skip:
  "\<forall>j\<in>set js. old ! j \<noteq> a \<Longrightarrow> fold (\<lambda>j c. if old ! j = a then saved ! j else c) js z = z"
  by (induction js) auto

lemma migrated_counter_new: "a \<notin> set old \<Longrightarrow> migrated_counter old saved a = zero_counter"
  unfolding migrated_counter_def by (rule fold_migrate_skip) auto

lemma migrated_counter_kept:
  assumes "distinct old" "j < length old" "old ! j = a"
  shows "migrated_counter old saved a = saved ! j"
proof -
  have parts: "[0..<length old] = [0..<j] @ j # [Suc j..<length old]"
    using assms(2) upt_add_eq_append [of 0 j "length old - j"] by (simp add: upt_conv_Cons)
  have "\<forall>k\<in>set [Suc j..<length old]. old ! k \<noteq> a"
    using assms by (auto simp: nth_eq_iff_index_eq)
  from fold_migrate_skip [OF this] show ?thesis
    by (simp add: migrated_counter_def parts assms(3) del: upt_Suc)
qed

text \<open>
  C22: publishing a new configuration keeps the counters of every access rule that is unchanged,
  at its new position, and starts every other rule at zero.
\<close>

theorem net_acl_counters_migrate_keeps:
  assumes "net_config_validate old ports = None" "length (nc_acls nxt) \<le> NET_ACL_MAX"
    and "i < length (nc_acls nxt)"
  shows "length (cs_rules (net_acl_counters_migrate old nxt s)) = NET_ACL_MAX \<and>
    (\<forall>j<length (nc_acls old). nc_acls old ! j = nc_acls nxt ! i \<longrightarrow>
       cs_rules (net_acl_counters_migrate old nxt s) ! i = cs_rules s ! j) \<and>
    (nc_acls nxt ! i \<notin> set (nc_acls old) \<longrightarrow>
       cs_rules (net_acl_counters_migrate old nxt s) ! i = zero_counter)"
proof -
  have "distinct (map ac_pref (nc_acls old))"
    using validated_order(2) [OF assms(1)] by (simp add: strict_sorted_iff)
  then have "distinct (nc_acls old)" by (simp add: distinct_map)
  then show ?thesis
    using assms(2,3) migrated_counter_kept [of "nc_acls old"] migrated_counter_new [of _ "nc_acls old"]
    by (auto simp: net_acl_counters_migrate_def nth_append)
qed

theorem net_acl_counters_migrate_keeps_witness:
  "cs_rules (net_acl_counters_migrate sample_config (sample_config\<lparr>nc_acls := tl (nc_acls sample_config)\<rparr>)
      sample_counters) ! 0 = cs_rules sample_counters ! 1"
proof -
  note v = sample_config_valid
  show ?thesis
    using net_acl_counters_migrate_keeps [OF v, of "sample_config\<lparr>nc_acls := tl (nc_acls sample_config)\<rparr>" 0
        sample_counters]
    by (simp add: sample_config_def)
qed

end
