(* ===== verification/Route.thy ===== *)
theory Route
  imports Net_Config
begin

text \<open>
  \<^verbatim>\<open>src/route.c\<close> and \<^verbatim>\<open>src/policy_route.c\<close>: the static route table of the start-up
  configuration, the policy rules, and the longest-prefix lookup in a table of the
  published snapshot, by scan or through the sorted index.

  A query returns \<open>None\<close> where the C code would read a port that does not exist;
  \<open>route_query_ok\<close> shows that this does not happen in a runtime whose addresses
  name existing ports.
\<close>

subsection \<open>The static table (\<^verbatim>\<open>src/route.c\<close>)\<close>

definition prefix_mask :: "u8 \<Rightarrow> u32" where
  "prefix_mask len = (if len \<noteq> 0 then push_bit (32 - unat len) UINT32_MAX else 0)"

definition route_add_gateway ::
    "route_table \<Rightarrow> u32 \<Rightarrow> u8 \<Rightarrow> u16 \<Rightarrow> u32 \<Rightarrow> rc \<times> route_table" where
  "route_add_gateway table prefix_be len nid gateway_be =
     (if len > 32 then (Some EINVAL, table)
      else if length table = ROUTE_CAPACITY then (Some ENOSPC, table)
      else (None, table @ [\<lparr>re_prefix_be = prefix_be AND rte_cpu_to_be_32 (prefix_mask len),
                            re_gateway_be = gateway_be, re_netif_id = nid, re_prefix_len = len\<rparr>]))"

definition route_add :: "route_table \<Rightarrow> u32 \<Rightarrow> u8 \<Rightarrow> u16 \<Rightarrow> rc \<times> route_table" where
  "route_add table prefix_be len nid = route_add_gateway table prefix_be len nid 0"

definition unicast :: "u32 \<Rightarrow> bool" where
  "unicast ip_be \<longleftrightarrow> (let ip = rte_be_to_cpu_32 ip_be in
     drop_bit 24 ip \<noteq> 0 \<and> drop_bit 24 ip \<noteq> 127 \<and> ip < 0xe0000000)"

definition subnet_host :: "u32 \<Rightarrow> u8 \<Rightarrow> u32 \<Rightarrow> bool" where
  "subnet_host prefix_be len ip_be \<longleftrightarrow>
     (let mask = prefix_mask len; ip = rte_be_to_cpu_32 ip_be in
        len \<ge> 31 \<or> ip AND mask \<noteq> rte_be_to_cpu_32 prefix_be AND mask \<or>
        (ip AND NOT mask \<noteq> 0 \<and> ip AND NOT mask \<noteq> NOT mask))"

definition route_is_direct :: "route_table \<Rightarrow> u16 \<Rightarrow> u32 \<Rightarrow> bool" where
  "route_is_direct table nid ip_be \<longleftrightarrow> unicast ip_be \<and>
     (\<exists>r\<in>set table. re_netif_id r = nid \<and> re_gateway_be r = 0 \<and>
        ip_be AND rte_cpu_to_be_32 (prefix_mask (re_prefix_len r)) = re_prefix_be r \<and>
        subnet_host (re_prefix_be r) (re_prefix_len r) ip_be)"

fun add_interfaces :: "netif_config list \<Rightarrow> nat \<Rightarrow> route_table \<Rightarrow> rc \<times> route_table" where
  "add_interfaces [] i table = (None, table)"
| "add_interfaces (n # ns) i table =
     (case route_add table (nif_ip_be n) (nif_prefix_len n) (of_nat i) of
        (Some e, table) \<Rightarrow> (Some e, table)
      | (None, table) \<Rightarrow> add_interfaces ns (Suc i) table)"

fun add_static_routes :: "netif_config list \<Rightarrow> route_config list \<Rightarrow> route_table \<Rightarrow> rc \<times> route_table" where
  "add_static_routes nifs [] table = (None, table)"
| "add_static_routes nifs (r # rs) table =
     (case first_index (\<lambda>n. nif_device n = rcf_device r) nifs of
        None \<Rightarrow> (Some ENODEV, table)
      | Some nid \<Rightarrow>
          (case route_add_gateway table (rcf_prefix_be r) (rcf_prefix_len r) (of_nat nid) (rcf_gateway_be r) of
             (Some e, table) \<Rightarrow> (Some e, table)
           | (None, table) \<Rightarrow> add_static_routes nifs rs table))"

definition check_gateway :: "netif_config list \<Rightarrow> route_table \<Rightarrow> route_entry \<Rightarrow> rc" where
  "check_gateway nifs table r =
     (if re_gateway_be r = 0 then None
      else if \<not> route_is_direct table (re_netif_id r) (re_gateway_be r) then Some EINVAL
      else if \<exists>n\<in>set nifs. re_gateway_be r = nif_ip_be n \<or>
                \<not> subnet_host (nif_ip_be n) (nif_prefix_len n) (re_gateway_be r) then Some EINVAL
      else None)"

definition route_config_init :: "app_config \<Rightarrow> route_table \<Rightarrow> rc \<times> route_table" where
  "route_config_init conf table0 =
     (if cf_interfaces conf = [] \<or> length (cf_interfaces conf) > NETIF_MAX
         \<or> length (cf_routes conf) > ROUTE_CAPACITY \<or> cf_ipv4_forwarding conf > 1
      then (Some EINVAL, table0)
      else case add_interfaces (cf_interfaces conf) 0 [] of
        (Some e, table) \<Rightarrow> (Some e, table)
      | (None, table) \<Rightarrow>
          (case add_static_routes (cf_interfaces conf) (cf_routes conf) table of
             (Some e, table) \<Rightarrow> (Some e, table)
           | (None, table) \<Rightarrow> (first_rc (check_gateway (cf_interfaces conf) table) table, table)))"

definition ipv4_destination_valid :: "('d, 'x) app_runtime_scheme \<Rightarrow> u32 \<Rightarrow> bool" where
  "ipv4_destination_valid rt ip_be =
     (if \<not> unicast ip_be \<or> netif_is_local_ip rt ip_be then False
      else case rt_network rt of
        Some c \<Rightarrow> (\<forall>a\<in>set (nc_addresses c). subnet_host (na_ip a) (ucast (na_prefix a)) ip_be)
      | None \<Rightarrow> (\<forall>p\<in>set (rt_ports rt). po_configured p \<longrightarrow>
                    subnet_host (po_ip_be p) (po_prefix_len p) ip_be))"

fun connect_ports :: "port_state list \<Rightarrow> route_table \<Rightarrow> bool \<times> route_table" where
  "connect_ports [] table = (True, table)"
| "connect_ports (p # ps) table =
     (if po_configured p
      then case route_add table (po_ip_be p) (po_prefix_len p) (po_id p) of
             (Some _, table) \<Rightarrow> (False, table)
           | (None, table) \<Rightarrow> connect_ports ps table
      else connect_ports ps table)"

text \<open>\<open>route_init_connected\<close> returns \<open>0\<close> (\<open>True\<close>) or \<open>-1\<close> (\<open>False\<close>).\<close>

definition route_init_connected :: "('d, 'x) app_runtime_scheme \<Rightarrow> bool \<times> ('d, 'x) app_runtime_scheme" where
  "route_init_connected rt = (case connect_ports (rt_ports rt) [] of
     (r, table) \<Rightarrow> (r, rt\<lparr>rt_routes := table\<rparr>))"

definition static_best :: "route_table \<Rightarrow> u32 \<Rightarrow> route_entry option" where
  "static_best table dst_ip_be =
     fold (\<lambda>r best. if dst_ip_be AND rte_cpu_to_be_32 (prefix_mask (re_prefix_len r)) = re_prefix_be r
             \<and> (case best of None \<Rightarrow> True | Some b \<Rightarrow> re_prefix_len r > re_prefix_len b)
           then Some r else best) table None"

definition static_route_lookup ::
    "('d, 'x) app_runtime_scheme \<Rightarrow> u32 \<Rightarrow> route_result \<Rightarrow> drop_reason \<times> route_result" where
  "static_route_lookup rt dst_ip_be out =
     (if \<not> ipv4_destination_valid rt dst_ip_be then (DROP_INVALID_DESTINATION, out)
      else case static_best (rt_routes rt) dst_ip_be of
        None \<Rightarrow> (DROP_NO_ROUTE, out)
      | Some best \<Rightarrow>
          (case netif_by_id rt (re_netif_id best) of
             None \<Rightarrow> (DROP_INVALID_EGRESS, out)
           | Some port \<Rightarrow>
               if \<not> po_started port \<or> po_admin_down port then (DROP_INVALID_EGRESS, out)
               else let next_hop = (if re_gateway_be best \<noteq> 0 then re_gateway_be best else dst_ip_be) in
                 if re_gateway_be best = 0 \<and> \<not> subnet_host (re_prefix_be best) (re_prefix_len best) dst_ip_be
                 then (DROP_INVALID_DESTINATION, out)
                 else if re_gateway_be best \<noteq> 0 \<and> (\<not> ipv4_destination_valid rt next_hop \<or>
                        \<not> route_is_direct (rt_routes rt) (re_netif_id best) next_hop)
                 then (DROP_INVALID_EGRESS, out)
                 else (DROP_NONE, zero_route_result\<lparr>rr_netif_id := po_id port, rr_mtu := po_mtu port,
                         rr_source_ip_be := po_ip_be port, rr_next_hop_be := next_hop\<rparr>)))"

subsection \<open>Policy routing (\<^verbatim>\<open>src/policy_route.c\<close>)\<close>

definition route_action :: "u32 \<Rightarrow> drop_reason" where
  "route_action ty =
     (if ty = NET_BLACKHOLE then DROP_ROUTE_BLACKHOLE
      else if ty = NET_UNREACHABLE then DROP_ROUTE_UNREACHABLE
      else if ty = NET_PROHIBIT then DROP_ROUTE_PROHIBIT
      else DROP_NONE)"

definition egress_up :: "('d, 'x) app_runtime_scheme \<Rightarrow> net_route \<Rightarrow> bool" where
  "egress_up rt r = (case netif_by_id rt (ucast (nr_dev r)) of
     None \<Rightarrow> False | Some p \<Rightarrow> po_started p \<and> \<not> po_admin_down p)"

text \<open>The scan of an unindexed snapshot: the body of the loop, then the loop.\<close>

definition scan_step ::
    "('d, 'x) app_runtime_scheme \<Rightarrow> u32 \<Rightarrow> u32 \<Rightarrow> net_route \<Rightarrow> net_route option \<Rightarrow> net_route option" where
  "scan_step rt dst table r best =
     (if nr_table r \<noteq> table \<or> \<not> net_match dst (nr_ip r) (nr_prefix r)
         \<or> (case best of None \<Rightarrow> False | Some b \<Rightarrow> nr_prefix r \<le> nr_prefix b) then best
      else if nr_type r = 0 \<and> \<not> egress_up rt r then best
      else Some r)"

definition scan_routes ::
    "('d, 'x) app_runtime_scheme \<Rightarrow> net_route list \<Rightarrow> u32 \<Rightarrow> u32 \<Rightarrow> net_route option" where
  "scan_routes rt rs dst table = fold (scan_step rt dst table) rs None"

text \<open>The indexed search: the binary search for the table, then the scan of its block.\<close>

function index_begin :: "net_route_index list \<Rightarrow> u32 \<Rightarrow> nat \<Rightarrow> nat \<Rightarrow> nat" where
  "index_begin ix table b e =
     (if b < e then
        let mid = b + (e - b) div 2 in
          if ni_table (ix ! mid) < table then index_begin ix table (mid + 1) e
          else index_begin ix table b mid
      else b)"
  by pat_completeness auto
termination
  by (relation "measure (\<lambda>(ix, table, b, e). e - b)") auto

declare index_begin.simps [simp del]

fun index_scan ::
    "('d, 'x) app_runtime_scheme \<Rightarrow> net_route list \<Rightarrow> u32 \<Rightarrow> u32 \<Rightarrow> net_route_index list \<Rightarrow> net_route option" where
  "index_scan rt rs dst table [] = None"
| "index_scan rt rs dst table (x # xs) =
     (if ni_table x \<noteq> table then None
      else if dst AND ni_mask x \<noteq> ni_ip x then index_scan rt rs dst table xs
      else let r = rs ! unat (ni_route x) in
        if nr_type r = 0 \<and> \<not> egress_up rt r then index_scan rt rs dst table xs
        else Some r)"

definition select_route ::
    "('d, 'x) app_runtime_scheme \<Rightarrow> net_config \<Rightarrow> u32 \<Rightarrow> u32 \<Rightarrow> net_route option" where
  "select_route rt c dst table =
     (if nc_routes_indexed c then
        index_scan rt (nc_routes c) dst table
          (drop (index_begin (nc_route_index c) table 0 (length (nc_routes c)))
                (take (length (nc_routes c)) (nc_route_index c)))
      else scan_routes rt (nc_routes c) dst table)"

definition table_lookup ::
    "('d, 'x) app_runtime_scheme \<Rightarrow> net_config \<Rightarrow> u32 \<Rightarrow> u32 \<Rightarrow> u32 \<Rightarrow> u32 \<Rightarrow> route_result
       \<Rightarrow> (drop_reason \<times> route_result) option" where
  "table_lookup rt c dst src table pref out =
     (case select_route rt c dst table of
        None \<Rightarrow> Some (DROP_NO_ROUTE, out)
      | Some best \<Rightarrow>
          let out = zero_route_result\<lparr>rr_table := table, rr_rule_pref := pref, rr_type := nr_type best,
                      rr_netif_id := ucast (nr_dev best),
                      rr_next_hop_be := (if nr_gateway best \<noteq> 0 then nr_gateway best else dst)\<rparr> in
          if nr_type best \<noteq> 0 then Some (route_action (nr_type best), out)
          else if nr_gateway best = 0 \<and> \<not> net_host dst (nr_prefix best)
          then Some (DROP_INVALID_DESTINATION, out)
          else do {
            p \<leftarrow> netif_by_id rt (ucast (nr_dev best));
            let out = out\<lparr>rr_mtu := po_mtu p,
              rr_source_ip_be := (if src \<noteq> 0 then src else net_source rt (ucast (po_id p)) (rr_next_hop_be out))\<rparr>;
            Some (if rr_source_ip_be out \<noteq> 0 then DROP_NONE else DROP_INVALID_EGRESS, out)
          })"

definition rule_matches :: "net_rule \<Rightarrow> u32 \<Rightarrow> u32 \<Rightarrow> u32 \<Rightarrow> bool" where
  "rule_matches r src dst iif \<longleftrightarrow>
     net_match src (ru_src r) (ru_src_prefix r) \<and> net_match dst (ru_dst r) (ru_dst_prefix r) \<and>
     \<not> (ru_iif r \<noteq> NET_IIF_NONE \<and> ru_iif r \<noteq> iif)"

fun rule_lookup ::
    "('d, 'x) app_runtime_scheme \<Rightarrow> net_config \<Rightarrow> u32 \<Rightarrow> u32 \<Rightarrow> u32 \<Rightarrow> net_rule list \<Rightarrow> route_result
       \<Rightarrow> (drop_reason \<times> route_result) option" where
  "rule_lookup rt c dst src iif [] out = do {
     (reason, out) \<leftarrow> table_lookup rt c dst src NET_TABLE_MAIN 32766 out;
     if reason \<noteq> DROP_NO_ROUTE then Some (reason, out)
     else table_lookup rt c dst src NET_TABLE_DEFAULT 32767 out
   }"
| "rule_lookup rt c dst src iif (r # rs) out =
     (if \<not> rule_matches r src dst iif then rule_lookup rt c dst src iif rs out
      else if ru_type r \<noteq> 0
      then Some (route_action (ru_type r),
                 zero_route_result\<lparr>rr_rule_pref := ru_pref r, rr_type := ru_type r\<rparr>)
      else do {
        (reason, out) \<leftarrow> table_lookup rt c dst src (ru_table r) (ru_pref r) out;
        if reason \<noteq> DROP_NO_ROUTE then Some (reason, out)
        else rule_lookup rt c dst src iif rs out
      })"

definition ipv4_route_query ::
    "('d, 'x) app_runtime_scheme \<Rightarrow> u32 \<Rightarrow> u32 \<Rightarrow> u32 \<Rightarrow> route_result \<Rightarrow> (drop_reason \<times> route_result) option" where
  "ipv4_route_query rt dst src iif out =
     (case rt_network rt of
        None \<Rightarrow> Some (static_route_lookup rt dst out)
      | Some c \<Rightarrow>
          (case List.find (\<lambda>a. dst = na_ip a) (nc_addresses c) of
             Some a \<Rightarrow>
               if unat (na_dev a) < length (rt_ports rt)
               then Some (DROP_NONE, zero_route_result\<lparr>rr_table := NET_TABLE_LOCAL,
                      rr_netif_id := ucast (na_dev a), rr_source_ip_be := dst, rr_next_hop_be := dst,
                      rr_mtu := po_mtu (rt_ports rt ! unat (na_dev a)), rr_local := 1\<rparr>)
               else None
           | None \<Rightarrow>
               if \<not> ipv4_destination_valid rt dst then Some (DROP_INVALID_DESTINATION, out)
               else rule_lookup rt c dst src iif (nc_rules c) out))"

definition ipv4_route_lookup ::
    "('d, 'x) app_runtime_scheme \<Rightarrow> u32 \<Rightarrow> route_result \<Rightarrow> (drop_reason \<times> route_result) option" where
  "ipv4_route_lookup rt dst_ip_be out =
     (case rt_network rt of
        Some _ \<Rightarrow> ipv4_route_query rt dst_ip_be 0 NET_IIF_NONE out
      | None \<Rightarrow> Some (static_route_lookup rt dst_ip_be out))"

definition ipv4_route_errno :: "drop_reason \<Rightarrow> errno" where
  "ipv4_route_errno reason =
     (if reason = DROP_ROUTE_PROHIBIT then EACCES
      else if reason = DROP_ROUTE_BLACKHOLE then EINVAL
      else ENETUNREACH)"

definition net_direct :: "('d, 'x) app_runtime_scheme \<Rightarrow> u32 \<Rightarrow> u32 \<Rightarrow> bool" where
  "net_direct rt dev ip =
     (case rt_network rt of
        None \<Rightarrow> route_is_direct (rt_routes rt) (ucast dev) ip
      | Some c \<Rightarrow> net_unicast ip \<and>
          (\<exists>r\<in>set (nc_routes c). nr_dev r = dev \<and> nr_type r = 0 \<and> nr_gateway r = 0 \<and>
             net_match ip (nr_ip r) (nr_prefix r) \<and> net_host ip (nr_prefix r)))"


subsection \<open>Longest-prefix match\<close>

text \<open>A route a lookup may take, and the route it has to take: the longest prefix, the first on a tie.\<close>

definition eligible :: "('d, 'x) app_runtime_scheme \<Rightarrow> u32 \<Rightarrow> u32 \<Rightarrow> net_route \<Rightarrow> bool" where
  "eligible rt dst table r \<longleftrightarrow> nr_table r = table \<and> net_match dst (nr_ip r) (nr_prefix r) \<and>
     (nr_type r = NET_UNICAST \<longrightarrow> egress_up rt r)"

definition longest_match :: "(net_route \<Rightarrow> bool) \<Rightarrow> net_route list \<Rightarrow> nat \<Rightarrow> bool" where
  "longest_match P rs i \<longleftrightarrow> i < length rs \<and> P (rs ! i) \<and>
     (\<forall>j<length rs. P (rs ! j) \<longrightarrow>
        nr_prefix (rs ! j) < nr_prefix (rs ! i) \<or> nr_prefix (rs ! j) = nr_prefix (rs ! i) \<and> i \<le> j)"

lemma longest_matchD:
  assumes "longest_match P rs i"
  shows "i < length rs" "P (rs ! i)"
    and "j < length rs \<Longrightarrow> P (rs ! j) \<Longrightarrow>
      nr_prefix (rs ! j) < nr_prefix (rs ! i) \<or> nr_prefix (rs ! j) = nr_prefix (rs ! i) \<and> i \<le> j"
  using assms by (auto simp: longest_match_def)

lemma longest_match_unique:
  assumes "longest_match P rs i" "longest_match P rs j"
  shows "i = j"
proof -
  have "nr_prefix (rs ! j) < nr_prefix (rs ! i) \<or> nr_prefix (rs ! j) = nr_prefix (rs ! i) \<and> i \<le> j"
    by (rule longest_matchD [OF assms(1)]) (rule longest_matchD [OF assms(2)])+
  moreover have "nr_prefix (rs ! i) < nr_prefix (rs ! j) \<or> nr_prefix (rs ! i) = nr_prefix (rs ! j) \<and> j \<le> i"
    by (rule longest_matchD [OF assms(2)]) (rule longest_matchD [OF assms(1)])+
  ultimately show ?thesis by auto
qed

definition selects :: "(net_route \<Rightarrow> bool) \<Rightarrow> net_route list \<Rightarrow> net_route option \<Rightarrow> bool" where
  "selects P rs best = (case best of
     None \<Rightarrow> \<forall>r\<in>set rs. \<not> P r
   | Some r \<Rightarrow> \<exists>i. longest_match P rs i \<and> r = rs ! i)"

lemma selects_unique: "selects P rs a \<Longrightarrow> selects P rs b \<Longrightarrow> a = b"
  by (auto simp: selects_def split: option.splits dest: longest_match_unique)
     (metis longest_matchD(1,2) nth_mem)+

lemma scan_step_eq:
  "scan_step rt dst table r best =
     (if eligible rt dst table r \<and> (case best of None \<Rightarrow> True | Some b \<Rightarrow> nr_prefix b < nr_prefix r)
      then Some r else best)"
  by (auto simp: scan_step_def eligible_def split: option.splits)

lemma longest_match_snoc:
  "longest_match P (rs @ [r]) i \<longleftrightarrow>
     (if i < length rs then longest_match P rs i \<and> (P r \<longrightarrow> nr_prefix r \<le> nr_prefix (rs ! i))
      else i = length rs \<and> P r \<and> (\<forall>q\<in>set rs. P q \<longrightarrow> nr_prefix q < nr_prefix r))"
  by (auto simp: longest_match_def nth_append less_Suc_eq all_set_conv_all_nth)

lemma scan_routes_selects: "selects (eligible rt dst table) rs (scan_routes rt rs dst table)"
proof (induction rs rule: rev_induct)
  case (snoc r rs)
  let ?P = "eligible rt dst table"
  have step: "scan_routes rt (rs @ [r]) dst table = scan_step rt dst table r (scan_routes rt rs dst table)"
    by (simp add: scan_routes_def)
  show ?case
  proof (cases "scan_routes rt rs dst table")
    case None
    with snoc have "\<forall>q\<in>set rs. \<not> ?P q" by (simp add: selects_def)
    with None show ?thesis
      by (auto simp: step scan_step_eq selects_def longest_match_snoc intro!: exI [of _ "length rs"])
  next
    case (Some b)
    with snoc obtain i where i: "longest_match ?P rs i" "b = rs ! i" by (auto simp: selects_def)
    then have len: "i < length rs" by (simp add: longest_match_def)
    show ?thesis
    proof (cases "?P r \<and> nr_prefix b < nr_prefix r")
      case True
      have "\<forall>q\<in>set rs. ?P q \<longrightarrow> nr_prefix q < nr_prefix r"
        using i True by (fastforce simp: in_set_conv_nth dest: longest_matchD(3))
      with True have "longest_match ?P (rs @ [r]) (length rs)" by (simp add: longest_match_snoc)
      with True Some show ?thesis
        by (auto simp: step scan_step_eq selects_def intro!: exI [of _ "length rs"])
    next
      case False
      with i len have "longest_match ?P (rs @ [r]) i" by (auto simp: longest_match_snoc not_less)
      with False Some i len show ?thesis
        by (auto simp: step scan_step_eq selects_def nth_append intro!: exI [of _ i])
    qed
  qed
qed (simp add: scan_routes_def selects_def)

subsection \<open>The index\<close>

interpretation ro: comparison route_order
proof
  fix x y z :: net_route_index
  show "route_order x y \<le> 0 \<or> route_order y x \<le> 0"
    by (auto simp: route_order_def)
  show "route_order x y \<le> 0 \<Longrightarrow> route_order y z \<le> 0 \<Longrightarrow> route_order x z \<le> 0"
    by (auto simp: route_order_def split: if_splits)
qed

abbreviation index_of :: "net_route list \<Rightarrow> net_route_index list" where
  "index_of rs \<equiv> qsort route_order (map (route_index_entry rs) [0..<length rs])"

lemma sorted_tables: "sorted_wrt (\<lambda>x y. ni_table x \<le> ni_table y) (index_of rs)"
  by (rule sorted_wrt_mono_rel [OF _ ro.sorted_qsort]) (auto simp: route_order_def split: if_splits)

text \<open>The binary search finds the first entry whose table is not smaller.\<close>

lemma index_begin_bounds:
  assumes "sorted_wrt (\<lambda>x y. ni_table x \<le> ni_table y) ix" "e \<le> length ix" "b \<le> e"
    "\<forall>i<b. ni_table (ix ! i) < table" "\<forall>i. e \<le> i \<and> i < length ix \<longrightarrow> table \<le> ni_table (ix ! i)"
  shows "index_begin ix table b e \<le> e \<and>
    (\<forall>i<index_begin ix table b e. ni_table (ix ! i) < table) \<and>
    (\<forall>i. index_begin ix table b e \<le> i \<and> i < length ix \<longrightarrow> table \<le> ni_table (ix ! i))"
  using assms
proof (induction ix table b e rule: index_begin.induct)
  case (1 ix table b e)
  show ?case
  proof (cases "b < e")
    case False
    with "1.prems" show ?thesis by (simp add: index_begin.simps)
  next
    case True
    define mid where "mid = b + (e - b) div 2"
    have mid: "b \<le> mid" "mid < e" using True by (auto simp: mid_def)
    have mono: "ni_table (ix ! i) \<le> ni_table (ix ! j)" if "i \<le> j" "j < length ix" for i j
      using that "1.prems"(1) by (cases "i = j") (auto simp: sorted_wrt_iff_nth_less)
    show ?thesis
    proof (cases "ni_table (ix ! mid) < table")
      case less: True
      have "\<forall>i<mid + 1. ni_table (ix ! i) < table"
      proof (intro allI impI)
        fix i assume "i < mid + 1"
        then have "ni_table (ix ! i) \<le> ni_table (ix ! mid)" using mid "1.prems"(2) by (intro mono) auto
        then show "ni_table (ix ! i) < table" using less by (rule le_less_trans)
      qed
      then have "index_begin ix table (mid + 1) e \<le> e \<and>
        (\<forall>i<index_begin ix table (mid + 1) e. ni_table (ix ! i) < table) \<and>
        (\<forall>i. index_begin ix table (mid + 1) e \<le> i \<and> i < length ix \<longrightarrow> table \<le> ni_table (ix ! i))"
        using mid "1.prems"(2) by (intro "1.IH"(1) [OF True mid_def less "1.prems"(1) _ _ _ "1.prems"(5)]) auto
      moreover have "index_begin ix table b e = index_begin ix table (mid + 1) e"
        using True less by (simp add: index_begin.simps [of ix table b e] mid_def [symmetric] Let_def)
      ultimately show ?thesis by presburger
    next
      case ge: False
      have "\<forall>i. mid \<le> i \<and> i < length ix \<longrightarrow> table \<le> ni_table (ix ! i)"
      proof (intro allI impI)
        fix i assume "mid \<le> i \<and> i < length ix"
        then have "ni_table (ix ! mid) \<le> ni_table (ix ! i)" by (intro mono) auto
        with ge show "table \<le> ni_table (ix ! i)" by (simp add: not_less)
      qed
      then have "index_begin ix table b mid \<le> mid \<and>
        (\<forall>i<index_begin ix table b mid. ni_table (ix ! i) < table) \<and>
        (\<forall>i. index_begin ix table b mid \<le> i \<and> i < length ix \<longrightarrow> table \<le> ni_table (ix ! i))"
        using mid "1.prems"(2) by (intro "1.IH"(2) [OF True mid_def ge "1.prems"(1) _ _ "1.prems"(4)]) auto
      moreover have "index_begin ix table b e = index_begin ix table b mid"
        using True ge by (simp add: index_begin.simps [of ix table b e] mid_def [symmetric] Let_def)
      ultimately show ?thesis using mid(2) by auto
    qed
  qed
qed

definition entry_eligible ::
    "('d, 'x) app_runtime_scheme \<Rightarrow> net_route list \<Rightarrow> u32 \<Rightarrow> u32 \<Rightarrow> net_route_index \<Rightarrow> bool" where
  "entry_eligible rt rs dst table x \<longleftrightarrow> ni_table x = table \<and> dst AND ni_mask x = ni_ip x \<and>
     (nr_type (rs ! unat (ni_route x)) = 0 \<longrightarrow> egress_up rt (rs ! unat (ni_route x)))"

text \<open>In a sorted block that starts at the table, stopping at the next table loses nothing.\<close>

lemma index_scan_find:
  assumes "sorted_wrt (\<lambda>x y. ni_table x \<le> ni_table y) xs" "\<forall>x\<in>set xs. table \<le> ni_table x"
  shows "index_scan rt rs dst table xs =
    map_option (\<lambda>x. rs ! unat (ni_route x)) (List.find (entry_eligible rt rs dst table) xs)"
  using assms
proof (induction xs)
  case (Cons x xs)
  show ?case
  proof (cases "ni_table x = table")
    case True
    with Cons show ?thesis by (auto simp: entry_eligible_def Let_def)
  next
    case False
    with Cons.prems have "\<forall>y\<in>set (x # xs). table < ni_table y" by auto
    then have "\<forall>y\<in>set (x # xs). \<not> entry_eligible rt rs dst table y"
      by (auto simp: entry_eligible_def)
    then have "List.find (entry_eligible rt rs dst table) (x # xs) = None"
      by (simp only: find_None_iff) blast
    with False show ?thesis by simp
  qed
qed simp

lemma find_sorted:
  "List.find P xs = Some x \<Longrightarrow> sorted_wrt R xs \<Longrightarrow> y \<in> set xs \<Longrightarrow> P y \<Longrightarrow> y = x \<or> R x y"
  by (induction xs) (auto split: if_splits)

lemma find_append_None: "List.find P xs = None \<Longrightarrow> List.find P (xs @ ys) = List.find P ys"
  by (induction xs) (auto split: if_splits)

lemma indexed_scan_find:
  "index_scan rt rs dst table (drop (index_begin (index_of rs) table 0 (length rs)) (index_of rs)) =
     map_option (\<lambda>x. rs ! unat (ni_route x)) (List.find (entry_eligible rt rs dst table) (index_of rs))"
proof -
  let ?ix = "index_of rs" and ?P = "entry_eligible rt rs dst table"
  define b where "b = index_begin ?ix table 0 (length rs)"
  have bounds: "b \<le> length rs \<and> (\<forall>i<b. ni_table (?ix ! i) < table) \<and>
      (\<forall>i. b \<le> i \<and> i < length ?ix \<longrightarrow> table \<le> ni_table (?ix ! i))"
    unfolding b_def by (rule index_begin_bounds [OF sorted_tables]) auto
  have b: "b \<le> length rs" "\<forall>i<b. ni_table (?ix ! i) < table"
      "\<forall>i. b \<le> i \<and> i < length ?ix \<longrightarrow> table \<le> ni_table (?ix ! i)"
    using bounds by blast+
  have ge: "\<forall>x\<in>set (drop b ?ix). table \<le> ni_table x"
    using b(1,3) by (simp add: all_set_conv_all_nth)
  have "\<forall>x\<in>set (take b ?ix). ni_table x < table"
    using b(1,2) by (simp add: all_set_conv_all_nth)
  then have "List.find ?P (take b ?ix) = None"
    by (auto simp: find_None_iff entry_eligible_def)
  then have "List.find ?P (take b ?ix @ drop b ?ix) = List.find ?P (drop b ?ix)"
    by (rule find_append_None)
  then show ?thesis
    using index_scan_find [OF sorted_wrt_drop [OF sorted_tables] ge, of rt rs dst]
    by (simp add: b_def)
qed


text \<open>The entry the index yields is the longest match.\<close>

lemma index_entry_eligible:
  assumes "i < length rs" "length rs \<le> NET_ROUTE_MAX"
  shows "rs ! unat (ni_route (route_index_entry rs i)) = rs ! i"
    and "entry_eligible rt rs dst table (route_index_entry rs i) \<longleftrightarrow> eligible rt dst table (rs ! i)"
proof -
  have "unat (of_nat i :: u16) = i" using assms by (simp add: unat_of_nat)
  then show "rs ! unat (ni_route (route_index_entry rs i)) = rs ! i"
    and "entry_eligible rt rs dst table (route_index_entry rs i) \<longleftrightarrow> eligible rt dst table (rs ! i)"
    by (simp_all add: route_index_entry_def entry_eligible_def eligible_def net_match_def)
qed

lemma route_order_entries:
  assumes "route_order (route_index_entry rs i) (route_index_entry rs j) \<le> 0"
    and "nr_table (rs ! i) = nr_table (rs ! j)" "nr_prefix (rs ! i) \<le> 32" "nr_prefix (rs ! j) \<le> 32"
    and "i < 65536" "j < 65536"
  shows "nr_prefix (rs ! j) < nr_prefix (rs ! i) \<or> nr_prefix (rs ! j) = nr_prefix (rs ! i) \<and> i \<le> j"
proof -
  have u: "unat (ucast p :: u8) = unat p" if "p \<le> 32" for p :: u32
    using that by (intro unat_ucast_small) (simp add: word_le_nat_alt)
  show ?thesis
    using assms by (auto simp: route_order_def route_index_entry_def word_le_nat_alt word_less_nat_alt
        u unat_of_nat word_unat_eq_iff split: if_splits)
qed

lemma indexed_selects:
  assumes "length rs \<le> NET_ROUTE_MAX" "\<forall>r\<in>set rs. nr_prefix r \<le> 32"
  shows "selects (eligible rt dst table) rs
    (index_scan rt rs dst table (drop (index_begin (index_of rs) table 0 (length rs)) (index_of rs)))"
proof (cases "List.find (entry_eligible rt rs dst table) (index_of rs)")
  case None
  then have "\<forall>i<length rs. \<not> eligible rt dst table (rs ! i)"
    using assms(1) by (auto simp: find_None_iff index_entry_eligible)
  then have "\<forall>r\<in>set rs. \<not> eligible rt dst table r" by (simp add: all_set_conv_all_nth)
  with None show ?thesis by (simp add: indexed_scan_find selects_def)
next
  case (Some x)
  from find_SomeD [OF Some] obtain i where i: "i < length rs" "x = route_index_entry rs i"
    and x: "eligible rt dst table (rs ! i)"
    using assms(1) by (auto simp: index_entry_eligible)
  have "longest_match (eligible rt dst table) rs i"
    unfolding longest_match_def
  proof (intro conjI allI impI i x)
    fix j assume j: "j < length rs" "eligible rt dst table (rs ! j)"
    have "route_index_entry rs j = x \<or> route_order x (route_index_entry rs j) \<le> 0"
      using j assms(1) by (intro find_sorted [OF Some ro.sorted_qsort]) (auto simp: index_entry_eligible)
    then have "route_order (route_index_entry rs i) (route_index_entry rs j) \<le> 0"
      using i(2) ro.cmp_total [of x x] by auto
    then show "nr_prefix (rs ! j) < nr_prefix (rs ! i) \<or> nr_prefix (rs ! j) = nr_prefix (rs ! i) \<and> i \<le> j"
      using i j x assms by (intro route_order_entries) (auto simp: eligible_def)
  qed
  with Some i assms(1) show ?thesis
    by (auto simp: indexed_scan_find selects_def index_entry_eligible)
qed


text \<open>
  What \<open>net_config_prepare\<close> leaves behind: a valid configuration with the same content, indexed
  exactly when it has more than two routes.
\<close>

lemma net_config_prepare_None:
  assumes "net_config_prepare c ports = (None, c')"
  shows "net_config_validate c' ports = None" "nc_routes c' = nc_routes c"
    and "nc_addresses c' = nc_addresses c" "nc_rules c' = nc_rules c" "nc_acls c' = nc_acls c"
    and "nc_routes_indexed c' \<longleftrightarrow> 2 < length (nc_routes c)"
    and "nc_routes_indexed c' \<Longrightarrow> nc_route_index c' = index_of (nc_routes c)"
proof -
  have c': "nc_addresses c' = nc_addresses c \<and> nc_routes c' = nc_routes c \<and> nc_rules c' = nc_rules c \<and>
      nc_acls c' = nc_acls c \<and> nc_default_drop c' = nc_default_drop c \<and>
      (nc_routes_indexed c' \<longleftrightarrow> 2 < length (nc_routes c)) \<and>
      (nc_routes_indexed c' \<longrightarrow> nc_route_index c' = index_of (nc_routes c))"
    and v: "net_config_validate (c\<lparr>nc_routes_indexed := False\<rparr>) ports = None"
    using assms by (auto simp: net_config_prepare_def Let_def split: option.splits if_splits)
  have "net_config_validate c' ports = net_config_validate (c\<lparr>nc_routes_indexed := False\<rparr>) ports"
    by (rule net_config_validate_cong) (simp_all add: c')
  with v show "net_config_validate c' ports = None" by simp
  from c' show "nc_routes c' = nc_routes c" "nc_addresses c' = nc_addresses c" "nc_rules c' = nc_rules c"
    "nc_acls c' = nc_acls c" "nc_routes_indexed c' \<longleftrightarrow> 2 < length (nc_routes c)"
    "nc_routes_indexed c' \<Longrightarrow> nc_route_index c' = index_of (nc_routes c)" by simp_all
qed

lemma select_route_selects:
  assumes "net_config_prepare c ports = (None, c')"
  shows "selects (eligible rt dst table) (nc_routes c) (select_route rt c' dst table)"
proof (cases "nc_routes_indexed c'")
  case True
  have "length (nc_routes c) \<le> NET_ROUTE_MAX" "\<forall>r\<in>set (nc_routes c). nr_prefix r \<le> 32"
    using validate_lengths validate_route_prefix net_config_prepare_None [OF assms] by metis+
  from indexed_selects [OF this, of rt dst table] show ?thesis
    using True net_config_prepare_None [OF assms] by (simp add: select_route_def)
next
  case False
  then show ?thesis
    using scan_routes_selects net_config_prepare_None(2) [OF assms] by (simp add: select_route_def)
qed

abbreviation sample_prepared :: net_config where
  "sample_prepared \<equiv> snd (net_config_prepare sample_config 2)"

lemma sample_prepare: "net_config_prepare sample_config 2 = (None, sample_prepared)"
proof -
  have "net_config_validate (sample_config\<lparr>nc_routes_indexed := False\<rparr>) 2 = None"
    by (subst net_config_validate_cong [of _ sample_config]) (simp_all add: sample_config_valid)
  then show ?thesis by (simp add: net_config_prepare_def Let_def)
qed

lemma sample_egress: "nr_dev r = 0 \<or> nr_dev r = 1 \<Longrightarrow> egress_up (sample_runtime d c) r"
  by (elim disjE) (simp_all add: egress_up_def netif_by_id_def sample_runtime_def sample_port_def)

lemma sample_matches:
  "net_match (ip4 10 1 2 9) 0 0" "\<not> net_match (ip4 10 1 2 9) (ip4 10 0 0 0) 24"
  "net_match (ip4 10 1 2 9) (ip4 10 1 0 0) 16" "net_match (ip4 10 1 2 9) (ip4 10 1 2 0) 24"
  by code_simp+

text \<open>
  C16: the optimised route selection of \<open>table_lookup\<close> (the binary search in the index that
  \<open>net_config_prepare\<close> built, then the scan of the table's block up to the first usable entry)
  returns the same route as the plain scan of all routes, for every destination and table.
\<close>

theorem indexed_lookup_equals_scan:
  assumes "net_config_prepare c ports = (None, c')"
  shows "select_route rt c' dst table = scan_routes rt (nc_routes c) dst table"
  using select_route_selects [OF assms] scan_routes_selects by (rule selects_unique)

theorem indexed_lookup_equals_scan_witness:
  "select_route (sample_runtime () None) sample_prepared (ip4 10 1 2 9) NET_TABLE_MAIN =
     Some (sample_route (ip4 10 1 2 0) 24 0 0 NET_BLACKHOLE)"
  unfolding indexed_lookup_equals_scan [OF sample_prepare]
  by (simp add: scan_routes_def scan_step_def sample_config_def sample_route_def sample_matches sample_egress)

text \<open>
  C17: the selected route is the longest match: it belongs to the table, matches the destination,
  has a usable egress if it is a unicast route, and every other such route has a shorter prefix,
  or the same prefix and a later position.  No route is selected only if none qualifies.
\<close>

theorem select_route_longest_prefix:
  assumes "net_config_prepare c ports = (None, c')"
  shows "case select_route rt c' dst table of
      None \<Rightarrow> \<forall>r\<in>set (nc_routes c). \<not> eligible rt dst table r
    | Some r \<Rightarrow> \<exists>i. longest_match (eligible rt dst table) (nc_routes c) i \<and> r = nc_routes c ! i"
  using select_route_selects [OF assms, of rt dst table] by (simp add: selects_def)

theorem select_route_longest_prefix_witness:
  "case select_route (sample_runtime () None) sample_prepared (ip4 10 1 2 9) NET_TABLE_MAIN of
      None \<Rightarrow> False
    | Some r \<Rightarrow> \<exists>i. longest_match (eligible (sample_runtime () None) (ip4 10 1 2 9) NET_TABLE_MAIN)
        (nc_routes sample_config) i \<and> r = nc_routes sample_config ! i"
proof -
  have "\<exists>r\<in>set (nc_routes sample_config). eligible (sample_runtime () None) (ip4 10 1 2 9) NET_TABLE_MAIN r"
    by (simp add: eligible_def sample_config_def sample_route_def sample_matches sample_egress)
  then show ?thesis
    using select_route_longest_prefix [OF sample_prepare, of "sample_runtime () None" "ip4 10 1 2 9" NET_TABLE_MAIN]
    by (auto split: option.splits)
qed

end
