(* ===== verification/Neighbour.thy ===== *)
theory Neighbour
  imports Runtime
begin

text \<open>
  The neighbour table of \<^verbatim>\<open>src/neighbour.c\<close>: an open-addressing hash table with linear
  probing and 64 slots.  The operations of the table are here; the entry points that also emit
  events and release waiting packets are in the theory of the resolution.

  The invariant linearises the table at a slot that no probe path crosses: seen from there, every
  entry sits at or after its home slot and the slots in between are in use.  Under it the table
  implements a finite map from (interface, address) to entries.
\<close>

subsection \<open>Operations\<close>

definition hash :: "u32 \<Rightarrow> u32" where
  "hash x0 = (let x1 = x0 XOR drop_bit 16 x0;
                  x2 = x1 * 0x7feb352d;
                  x3 = x2 XOR drop_bit 15 x2;
                  x4 = x3 * 0x846ca68b
              in x4 XOR drop_bit 16 x4)"

definition nb_home :: "u16 \<Rightarrow> u32 \<Rightarrow> nat" where
  "nb_home dev ip = unat (hash (ip XOR ucast dev)) mod NEIGHBOUR_CAPACITY"

text \<open>The slots a probe visits, in order.\<close>

definition probe_seq :: "nat \<Rightarrow> nat list" where
  "probe_seq start = map (\<lambda>i. (start + i) mod NEIGHBOUR_CAPACITY) [0..<NEIGHBOUR_CAPACITY]"

definition same_key :: "neighbour_entry \<Rightarrow> u16 \<Rightarrow> u32 \<Rightarrow> bool" where
  "same_key e dev ip \<longleftrightarrow> ne_ip_be e = ip \<and> ne_netif_id e = dev"

definition find_slot :: "neighbour_table \<Rightarrow> u16 \<Rightarrow> u32 \<Rightarrow> nat option" where
  "find_slot table dev ip =
     List.find (\<lambda>p. \<not> ne_in_use (table ! p) \<or> same_key (table ! p) dev ip) (probe_seq (nb_home dev ip))"

definition new_entry :: "u16 \<Rightarrow> u32 \<Rightarrow> rte_ether_addr \<Rightarrow> bool \<Rightarrow> neighbour_entry" where
  "new_entry dev ip mac permanent =
     \<lparr>ne_ip_be = ip, ne_netif_id = dev, ne_mac = mac, ne_in_use = True, ne_permanent = permanent\<rparr>"

text \<open>\<open>valid_mac\<close> is DPDK's \<^verbatim>\<open>rte_is_valid_assigned_ether_addr\<close>.\<close>

definition neighbour_learn ::
    "(rte_ether_addr \<Rightarrow> bool) \<Rightarrow> neighbour_table \<Rightarrow> u16 \<Rightarrow> u32 \<Rightarrow> rte_ether_addr \<Rightarrow> rc \<times> neighbour_table" where
  "neighbour_learn valid_mac table dev ip mac =
     (if ip = 0 \<or> \<not> valid_mac mac then (Some EINVAL, table)
      else case find_slot table dev ip of
        None \<Rightarrow> (Some ENOSPC, table)
      | Some p \<Rightarrow>
          if \<not> ne_in_use (table ! p) then (None, table[p := new_entry dev ip mac False])
          else if \<not> ne_permanent (table ! p) then (None, table[p := (table ! p)\<lparr>ne_mac := mac\<rparr>])
          else (None, table))"

fun lookup_probe :: "neighbour_table \<Rightarrow> u16 \<Rightarrow> u32 \<Rightarrow> nat list \<Rightarrow> rte_ether_addr option" where
  "lookup_probe table dev ip [] = None"
| "lookup_probe table dev ip (p # ps) =
     (if \<not> ne_in_use (table ! p) then None
      else if same_key (table ! p) dev ip then Some (ne_mac (table ! p))
      else lookup_probe table dev ip ps)"

text \<open>\<open>None\<close> is the result \<open>-ENOENT\<close>.\<close>

definition neighbour_lookup :: "neighbour_table \<Rightarrow> u16 \<Rightarrow> u32 \<Rightarrow> rte_ether_addr option" where
  "neighbour_lookup table dev ip = lookup_probe table dev ip (probe_seq (nb_home dev ip))"

text \<open>
  The loop of \<open>neighbour_delete\<close> that closes the gap of a deleted entry; the last argument counts
  the iterations left.
\<close>

fun close_gap :: "neighbour_table \<Rightarrow> nat \<Rightarrow> nat \<Rightarrow> nat \<Rightarrow> neighbour_table \<times> nat" where
  "close_gap table hole i 0 = (table, hole)"
| "close_gap table hole i (Suc n) =
     (if \<not> ne_in_use (table ! i) then (table, hole)
      else let home = nb_home (ne_netif_id (table ! i)) (ne_ip_be (table ! i)) in
        if (i + NEIGHBOUR_CAPACITY - home) mod NEIGHBOUR_CAPACITY
             \<ge> (i + NEIGHBOUR_CAPACITY - hole) mod NEIGHBOUR_CAPACITY
        then close_gap (table[hole := table ! i]) i ((i + 1) mod NEIGHBOUR_CAPACITY) n
        else close_gap table hole ((i + 1) mod NEIGHBOUR_CAPACITY) n)"

definition neighbour_remove :: "neighbour_table \<Rightarrow> nat \<Rightarrow> neighbour_table" where
  "neighbour_remove table p =
     (case close_gap table p ((p + 1) mod NEIGHBOUR_CAPACITY) (NEIGHBOUR_CAPACITY - 1) of
        (table, hole) \<Rightarrow> table[hole := zero_neighbour])"

text \<open>The part of \<open>neighbour_set\<close> and of \<open>neighbour_delete\<close> that works on the table.\<close>

definition neighbour_put ::
    "neighbour_table \<Rightarrow> u16 \<Rightarrow> u32 \<Rightarrow> rte_ether_addr \<Rightarrow> bool \<Rightarrow> rc \<times> neighbour_table" where
  "neighbour_put table dev ip mac replace =
     (case find_slot table dev ip of
        None \<Rightarrow> (Some ENOSPC, table)
      | Some p \<Rightarrow>
          if ne_in_use (table ! p) \<and> \<not> replace then (Some EEXIST, table)
          else (None, table[p := new_entry dev ip mac True]))"

definition neighbour_unset :: "neighbour_table \<Rightarrow> u16 \<Rightarrow> u32 \<Rightarrow> rc \<times> neighbour_table" where
  "neighbour_unset table dev ip =
     (case find_slot table dev ip of
        None \<Rightarrow> (Some ENOENT, table)
      | Some p \<Rightarrow>
          if \<not> ne_in_use (table ! p) then (Some ENOENT, table)
          else (None, neighbour_remove table p))"

subsection \<open>The invariant\<close>

definition pos :: "nat \<Rightarrow> nat \<Rightarrow> nat" where
  "pos s k = (s + k) mod NEIGHBOUR_CAPACITY"

definition dist :: "nat \<Rightarrow> nat \<Rightarrow> nat" where
  "dist s i = (i + NEIGHBOUR_CAPACITY - s) mod NEIGHBOUR_CAPACITY"

definition entry_home :: "neighbour_entry \<Rightarrow> nat" where
  "entry_home e = nb_home (ne_netif_id e) (ne_ip_be e)"

lemma entry_home_less [simp]: "entry_home e < 64" "nb_home dev ip < 64"
  by (simp_all add: entry_home_def nb_home_def)

lemma pos_if: "s < 64 \<Longrightarrow> k < 64 \<Longrightarrow> pos s k = (if s + k < 64 then s + k else s + k - 64)"
  by (auto simp: pos_def mod_if)

lemma dist_if: "s < 64 \<Longrightarrow> i < 64 \<Longrightarrow> dist s i = (if s \<le> i then i - s else i + 64 - s)"
  by (auto simp: dist_def mod_if)

lemma pos_less [simp]: "pos s k < 64" and dist_less [simp]: "dist s k < 64"
  by (simp_all add: pos_def dist_def)

lemma pos_dist [simp]: "s < 64 \<Longrightarrow> i < 64 \<Longrightarrow> pos s (dist s i) = i"
  by (subst dist_if; (subst pos_if)?) (auto split: if_splits)

lemma dist_pos [simp]: "s < 64 \<Longrightarrow> k < 64 \<Longrightarrow> dist s (pos s k) = k"
  by (subst pos_if; (subst dist_if)?) (auto split: if_splits)

lemma pos_inj: "s < 64 \<Longrightarrow> k < 64 \<Longrightarrow> m < 64 \<Longrightarrow> pos s k = pos s m \<longleftrightarrow> k = m"
  by (metis dist_pos)

lemma pos_Suc: "s < 64 \<Longrightarrow> k < 64 \<Longrightarrow> (pos s k + 1) mod 64 = pos s ((k + 1) mod 64)"
  by (simp add: pos_def mod_simps add.assoc)

text \<open>\<open>chained live s t\<close>: seen from \<open>s\<close>, every live entry follows its home with no gap between.\<close>

definition chained :: "(nat \<Rightarrow> bool) \<Rightarrow> nat \<Rightarrow> neighbour_table \<Rightarrow> bool" where
  "chained live s t \<longleftrightarrow> (\<forall>k<64. live k \<and> ne_in_use (t ! pos s k) \<longrightarrow>
     dist s (entry_home (t ! pos s k)) \<le> k \<and>
     (\<forall>m. dist s (entry_home (t ! pos s k)) \<le> m \<and> m < k \<longrightarrow> ne_in_use (t ! pos s m)))"

definition unique_keys :: "(nat \<Rightarrow> bool) \<Rightarrow> neighbour_table \<Rightarrow> bool" where
  "unique_keys live t \<longleftrightarrow> (\<forall>i<64. \<forall>j<64. live i \<and> live j \<and> ne_in_use (t ! i) \<and> ne_in_use (t ! j) \<and>
     ne_ip_be (t ! i) = ne_ip_be (t ! j) \<and> ne_netif_id (t ! i) = ne_netif_id (t ! j) \<longrightarrow> i = j)"

definition nb_inv :: "neighbour_table \<Rightarrow> bool" where
  "nb_inv t \<longleftrightarrow> length t = 64 \<and> unique_keys (\<lambda>_. True) t \<and> (\<exists>s<64. chained (\<lambda>_. True) s t)"

text \<open>The table as a map, from a key to its entry.\<close>

definition nb_entries :: "neighbour_table \<Rightarrow> u16 \<Rightarrow> u32 \<Rightarrow> neighbour_entry option" where
  "nb_entries t dev ip = List.find (\<lambda>e. ne_in_use e \<and> same_key e dev ip) t"

definition key_at :: "neighbour_table \<Rightarrow> u16 \<Rightarrow> u32 \<Rightarrow> nat \<Rightarrow> bool" where
  "key_at t dev ip p \<longleftrightarrow> p < 64 \<and> ne_in_use (t ! p) \<and> same_key (t ! p) dev ip"

lemma unique_keysD:
  "unique_keys live t \<Longrightarrow> key_at t dev ip p \<Longrightarrow> key_at t dev ip q \<Longrightarrow> live p \<Longrightarrow> live q \<Longrightarrow> p = q"
  by (simp add: unique_keys_def key_at_def same_key_def)

lemma nb_entries_iff:
  assumes "length t = 64" "unique_keys (\<lambda>_. True) t"
  shows "nb_entries t dev ip = Some e \<longleftrightarrow> (\<exists>p. key_at t dev ip p \<and> e = t ! p)"
proof
  assume "nb_entries t dev ip = Some e"
  then show "\<exists>p. key_at t dev ip p \<and> e = t ! p"
    using assms(1) by (auto simp: nb_entries_def find_Some_iff key_at_def)
next
  assume "\<exists>p. key_at t dev ip p \<and> e = t ! p"
  then obtain p where p: "key_at t dev ip p" "e = t ! p" by blast
  have "\<not> (ne_in_use (t ! j) \<and> same_key (t ! j) dev ip)" if "j < p" for j
    using unique_keysD [OF assms(2) p(1), of j] that p(1) by (auto simp: key_at_def)
  with p assms(1) show "nb_entries t dev ip = Some e"
    by (auto simp: nb_entries_def find_Some_iff key_at_def)
qed

lemma nb_entries_None:
  "length t = 64 \<Longrightarrow> nb_entries t dev ip = None \<longleftrightarrow> (\<forall>p. \<not> key_at t dev ip p)"
  by (auto simp: nb_entries_def find_None_iff key_at_def in_set_conv_nth)

subsection \<open>Probing\<close>

lemma probe_seq_nth [simp]: "i < 64 \<Longrightarrow> probe_seq h ! i = pos h i"
  by (simp add: probe_seq_def pos_def)

lemma length_probe_seq [simp]: "length (probe_seq h) = 64"
  by (simp add: probe_seq_def)

lemma pos_pos: "pos (pos s l) j = pos s (l + j)"
  by (simp add: pos_def mod_simps add.assoc)

lemma find_slot_Some:
  "find_slot t dev ip = Some p \<longleftrightarrow> (\<exists>i<64. p = pos (nb_home dev ip) i \<and>
     (ne_in_use (t ! p) \<longrightarrow> same_key (t ! p) dev ip) \<and>
     (\<forall>j<i. ne_in_use (t ! pos (nb_home dev ip) j) \<and> \<not> same_key (t ! pos (nb_home dev ip) j) dev ip))"
  by (auto simp: find_slot_def find_Some_iff)

lemma find_slot_None:
  "find_slot t dev ip = None \<longleftrightarrow> (\<forall>p<64. ne_in_use (t ! p) \<and> \<not> same_key (t ! p) dev ip)"
proof -
  have "set (probe_seq (nb_home dev ip)) = {..<64}"
  proof
    show "set (probe_seq (nb_home dev ip)) \<subseteq> {..<64}" by (auto simp: probe_seq_def)
    show "{..<64} \<subseteq> set (probe_seq (nb_home dev ip))"
    proof
      fix p :: nat assume "p \<in> {..<64}"
      then have "p = probe_seq (nb_home dev ip) ! dist (nb_home dev ip) p" by simp
      then show "p \<in> set (probe_seq (nb_home dev ip))" by (metis dist_less length_probe_seq nth_mem)
    qed
  qed
  then show ?thesis by (auto simp: find_slot_def find_None_iff)
qed

lemma lookup_probe_find:
  "lookup_probe t dev ip ps =
     (case List.find (\<lambda>p. \<not> ne_in_use (t ! p) \<or> same_key (t ! p) dev ip) ps of
        None \<Rightarrow> None | Some p \<Rightarrow> if ne_in_use (t ! p) then Some (ne_mac (t ! p)) else None)"
  by (induction ps) auto

lemma neighbour_lookup_find:
  "neighbour_lookup t dev ip = (case find_slot t dev ip of
     None \<Rightarrow> None | Some p \<Rightarrow> if ne_in_use (t ! p) then Some (ne_mac (t ! p)) else None)"
  by (simp add: neighbour_lookup_def find_slot_def lookup_probe_find)

text \<open>A key in the table is found: nothing between its home and its slot stops the probe.\<close>

lemma find_slot_present:
  assumes "nb_inv t" "key_at t dev ip p"
  shows "find_slot t dev ip = Some p"
proof -
  from assms(1) obtain s where s: "s < 64" "chained (\<lambda>_. True) s t"
    and u: "unique_keys (\<lambda>_. True) t" by (auto simp: nb_inv_def)
  let ?h = "nb_home dev ip" and ?k = "dist s p"
  have p: "p < 64" "ne_in_use (t ! p)" "same_key (t ! p) dev ip" using assms(2) by (auto simp: key_at_def)
  then have h: "entry_home (t ! p) = ?h" by (simp add: entry_home_def same_key_def)
  have pk: "t ! pos s ?k = t ! p" using s(1) p(1) by simp
  have le: "dist s ?h \<le> ?k" and chain: "\<And>m. dist s ?h \<le> m \<Longrightarrow> m < ?k \<Longrightarrow> ne_in_use (t ! pos s m)"
    using s(2) [unfolded chained_def, rule_format, of ?k] p h by (auto simp: pk s(1))
  have hpos: "pos ?h j = pos s (dist s ?h + j)" for j
    using pos_pos [of s "dist s ?h" j] s(1) by simp
  have last: "pos ?h (?k - dist s ?h) = p" using le s(1) p(1) by (simp add: hpos)
  have "ne_in_use (t ! pos ?h j) \<and> \<not> same_key (t ! pos ?h j) dev ip" if j: "j < ?k - dist s ?h" for j
  proof
    show use: "ne_in_use (t ! pos ?h j)" using chain [of "dist s ?h + j"] j by (simp add: hpos)
    show "\<not> same_key (t ! pos ?h j) dev ip"
    proof
      assume "same_key (t ! pos ?h j) dev ip"
      with use have "pos ?h j = p"
        using unique_keysD [OF u, of dev ip "pos ?h j" p] assms(2) by (simp add: key_at_def)
      then have "dist s (pos s (dist s ?h + j)) = ?k" by (simp add: hpos)
      moreover have "dist s ?h + j < 64" using j dist_less [of s p] by linarith
      ultimately show False using j s(1) by simp
    qed
  qed
  moreover have "?k - dist s ?h < 64" using dist_less [of s p] by linarith
  ultimately show ?thesis
    using last p by (auto simp: find_slot_Some intro!: exI [of _ "?k - dist s ?h"])
qed

text \<open>A key that is not in the table leads to a free slot, if there is one.\<close>

lemma find_slot_absent:
  assumes "nb_entries t dev ip = None" "length t = 64"
  shows "neighbour_lookup t dev ip = None"
    and "find_slot t dev ip = Some p \<Longrightarrow> p < 64 \<and> \<not> ne_in_use (t ! p) \<and>
      (\<forall>j<dist (nb_home dev ip) p. ne_in_use (t ! pos (nb_home dev ip) j))"
    and "find_slot t dev ip = None \<Longrightarrow> \<forall>p<64. ne_in_use (t ! p)"
proof -
  have absent: "\<not> key_at t dev ip q" for q using assms by (simp add: nb_entries_None)
  show slot: "p < 64 \<and> \<not> ne_in_use (t ! p) \<and> (\<forall>j<dist (nb_home dev ip) p. ne_in_use (t ! pos (nb_home dev ip) j))"
    if "find_slot t dev ip = Some p" for p
    using that absent [of p] by (auto simp: find_slot_Some key_at_def)
  show "neighbour_lookup t dev ip = None"
    using slot by (auto simp: neighbour_lookup_find split: option.splits)
  show "\<forall>p<64. ne_in_use (t ! p)" if "find_slot t dev ip = None"
    using that by (simp add: find_slot_None)
qed

lemma neighbour_lookup_entries:
  assumes "nb_inv t"
  shows "neighbour_lookup t dev ip = map_option ne_mac (nb_entries t dev ip)"
proof (cases "nb_entries t dev ip")
  case None
  with find_slot_absent(1) assms show ?thesis by (simp add: nb_inv_def)
next
  case (Some e)
  then obtain p where "key_at t dev ip p" "e = t ! p"
    using nb_entries_iff assms by (auto simp: nb_inv_def)
  with Some find_slot_present [OF assms] show ?thesis by (simp add: neighbour_lookup_find key_at_def)
qed

subsection \<open>Writing an entry\<close>

lemma key_at_update:
  assumes "length t = 64" "p < 64" "ne_in_use e"
  shows "key_at (t[p := e]) dev ip q \<longleftrightarrow> (if q = p then same_key e dev ip else key_at t dev ip q)"
  using assms by (auto simp: key_at_def)

text \<open>Replacing an entry by one with the same key.\<close>

lemma nb_inv_replace:
  assumes "nb_inv t" "key_at t dev ip p" "ne_in_use e" "same_key e dev ip"
  shows "nb_inv (t[p := e])"
proof -
  from assms obtain s where s: "s < 64" "chained (\<lambda>_. True) s t"
    and u: "unique_keys (\<lambda>_. True) t" and len: "length t = 64" by (auto simp: nb_inv_def)
  have p: "p < 64" using assms(2) by (simp add: key_at_def)
  have same: "ne_in_use (t[p := e] ! q) = ne_in_use (t ! q)"
      "ne_ip_be (t[p := e] ! q) = ne_ip_be (t ! q)" "ne_netif_id (t[p := e] ! q) = ne_netif_id (t ! q)"
    if "q < 64" for q
    using assms(2-4) len that by (auto simp: key_at_def same_key_def nth_list_update)
  have "chained (\<lambda>_. True) s (t[p := e])"
    using s(2) unfolding chained_def by (simp add: same entry_home_def)
  moreover have "unique_keys (\<lambda>_. True) (t[p := e])"
    using u unfolding unique_keys_def by (simp add: same)
  ultimately show ?thesis using s(1) len by (auto simp: nb_inv_def)
qed

text \<open>Moving the origin of the linear view to just after a free slot.\<close>

lemma dist_shift:
  assumes "s < 64" "q < 64" "i < 64" "dist s i \<noteq> q"
  shows "dist (pos s (q + 1)) i = (if q < dist s i then dist s i - q - 1 else dist s i + 63 - q)"
  using assms by (cases "s + (q + 1) < 64"; cases "s + (q + 1) < 128")
    (auto simp: dist_if pos_def mod_if split: if_splits)

lemma pos_wrap: "pos s (64 + m) = pos s m"
  by (metis add.assoc add.commute mod_add_self2 pos_def)

lemma pos_shift: "pos (pos s (q + 1)) m = pos s (q + 1 + m)"
  by (simp add: pos_pos)

lemma chained_shift:
  assumes "s < 64" "chained live s t" "q < 64" "\<not> ne_in_use (t ! pos s q)"
  shows "chained (\<lambda>k. live (dist s (pos (pos s (q + 1)) k))) (pos s (q + 1)) t"
  unfolding chained_def
proof (intro allI impI, elim conjE)
  let ?s = "pos s (q + 1)"
  fix k assume k: "k < 64" and live: "live (dist s (pos ?s k))" and use: "ne_in_use (t ! pos ?s k)"
  define i where "i = pos ?s k"
  define h where "h = entry_home (t ! i)"
  have i: "i < 64" "pos s (dist s i) = i" "dist ?s i = k" using assms(1) k by (simp_all add: i_def)
  have ne: "dist s i \<noteq> q" using use assms(4) i(2) by (auto simp: i_def)
  have c: "dist s h \<le> dist s i" "\<forall>m. dist s h \<le> m \<and> m < dist s i \<longrightarrow> ne_in_use (t ! pos s m)"
    using assms(2) live use i(2) unfolding chained_def h_def i_def by (metis dist_less)+
  have neh: "dist s h \<noteq> q" using c ne assms(4) by (metis le_neq_implies_less le_refl)
  have side: "q < dist s h \<longleftrightarrow> q < dist s i"
    using c ne neh assms(4) by (metis less_le_trans linorder_neqE_nat order_less_imp_le)
  have h64: "h < 64" by (simp add: h_def)
  have dk: "k = (if q < dist s i then dist s i - q - 1 else dist s i + 63 - q)"
    using dist_shift [OF assms(1,3) i(1) ne] i(3) by simp
  have dh: "dist ?s h = (if q < dist s i then dist s h - q - 1 else dist s h + 63 - q)"
    using dist_shift [OF assms(1,3) h64 neh] side by simp
  have le: "dist ?s h \<le> k" using c(1) dk dh by auto
  have "ne_in_use (t ! pos ?s m)" if m: "dist ?s h \<le> m" "m < k" for m
  proof (cases "q < dist s i")
    case True
    then have "dist s h \<le> q + 1 + m \<and> q + 1 + m < dist s i" using m dk dh side by auto
    with c(2) have "ne_in_use (t ! pos s (q + 1 + m))" by blast
    then show ?thesis by (simp only: pos_shift)
  next
    case False
    have "q + 1 + m = 64 + (m - (63 - q))" using m False dh assms(3) by auto
    then have "pos s (q + 1 + m) = pos s (m - (63 - q))" by (simp only: pos_wrap)
    moreover have "dist s h \<le> m - (63 - q) \<and> m - (63 - q) < dist s i" using m dk dh False assms(3) by auto
    with c(2) have "ne_in_use (t ! pos s (m - (63 - q)))" by blast
    ultimately show ?thesis by (simp only: pos_shift)
  qed
  with le show "dist ?s (entry_home (t ! pos ?s k)) \<le> k \<and>
     (\<forall>m. dist ?s (entry_home (t ! pos ?s k)) \<le> m \<and> m < k \<longrightarrow> ne_in_use (t ! pos ?s m))"
    by (simp add: h_def i_def)
qed

text \<open>Writing a new key into the free slot the probe found.\<close>

lemma nb_inv_insert:
  assumes "nb_inv t" "nb_entries t dev ip = None" "find_slot t dev ip = Some p"
    and "ne_in_use e" "same_key e dev ip"
  shows "nb_inv (t[p := e])"
proof -
  from assms(1) obtain s where s: "s < 64" "chained (\<lambda>_. True) s t"
    and u: "unique_keys (\<lambda>_. True) t" and len: "length t = 64" by (auto simp: nb_inv_def)
  have p: "p < 64" "\<not> ne_in_use (t ! p)" and path: "\<And>j. j < dist (nb_home dev ip) p \<Longrightarrow>
      ne_in_use (t ! pos (nb_home dev ip) j)"
    using find_slot_absent(2) [OF assms(2) len assms(3)] by auto
  let ?q = "dist s p" and ?t = "t[p := e]"
  let ?s = "pos s (?q + 1)"
  have use: "ne_in_use (?t ! i) \<longleftrightarrow> i = p \<or> ne_in_use (t ! i)" if "i < 64" for i
    using assms(4) p len that by (auto simp: nth_list_update)
  have old: "chained (\<lambda>_. True) ?s t"
    by (rule chained_shift [OF s(1,2)]) (use p s(1) in simp_all)
  have last: "dist ?s p = 63" "pos ?s 63 = p"
  proof -
    have "pos ?s 63 = pos s ?q" by (simp add: pos_shift) (simp add: pos_def mod_simps)
    then show end_p: "pos ?s 63 = p" using s(1) p(1) by simp
    have "dist ?s (pos ?s 63) = 63" by (rule dist_pos) simp_all
    then show "dist ?s p = 63" unfolding end_p .
  qed
  have "chained (\<lambda>_. True) ?s ?t"
    unfolding chained_def
  proof (intro allI impI, elim conjE)
    fix k assume k: "k < 64" and in_use: "ne_in_use (?t ! pos ?s k)"
    show "dist ?s (entry_home (?t ! pos ?s k)) \<le> k \<and>
      (\<forall>m. dist ?s (entry_home (?t ! pos ?s k)) \<le> m \<and> m < k \<longrightarrow> ne_in_use (?t ! pos ?s m))"
    proof (cases "pos ?s k = p")
      case True
      then have k63: "k = 63" using k last by (metis dist_pos pos_less)
      have h: "entry_home (?t ! pos ?s k) = nb_home dev ip"
        using True p len assms(5) by (simp add: entry_home_def same_key_def)
      have "ne_in_use (t ! pos ?s m)" if m: "dist ?s (nb_home dev ip) \<le> m" "m < 63" for m
      proof -
        have eq: "pos ?s m = pos (nb_home dev ip) (m - dist ?s (nb_home dev ip))"
          using m pos_pos [of ?s "dist ?s (nb_home dev ip)" "m - dist ?s (nb_home dev ip)"] by simp
        have "p = pos (nb_home dev ip) (63 - dist ?s (nb_home dev ip))"
          using last pos_pos [of ?s "dist ?s (nb_home dev ip)" "63 - dist ?s (nb_home dev ip)"] m by simp
        moreover have "dist (nb_home dev ip) (pos (nb_home dev ip) (63 - dist ?s (nb_home dev ip))) =
            63 - dist ?s (nb_home dev ip)" by (rule dist_pos) auto
        ultimately have "dist (nb_home dev ip) p = 63 - dist ?s (nb_home dev ip)" by presburger
        then have "m - dist ?s (nb_home dev ip) < dist (nb_home dev ip) p" using m by linarith
        with eq show ?thesis using path by simp
      qed
      moreover have "dist ?s (nb_home dev ip) \<le> 63" using dist_less [of ?s "nb_home dev ip"] by linarith
      ultimately show ?thesis unfolding h using use by (auto simp: k63)
    next
      case False
      then have "?t ! pos ?s k = t ! pos ?s k" by simp
      with old k in_use use False show ?thesis unfolding chained_def by auto
    qed
  qed
  moreover have "unique_keys (\<lambda>_. True) ?t"
  proof -
    have "\<not> key_at t dev ip q" for q using assms(2) len by (simp add: nb_entries_None)
    then have absent: "\<not> (ne_in_use (t ! q) \<and> same_key (t ! q) dev ip)" if "q < 64" for q
      using that by (auto simp: key_at_def)
    show ?thesis
      unfolding unique_keys_def
    proof (intro allI impI, elim conjE)
      fix i j assume ij: "i < 64" "j < 64" "ne_in_use (?t ! i)" "ne_in_use (?t ! j)"
        "ne_ip_be (?t ! i) = ne_ip_be (?t ! j)" "ne_netif_id (?t ! i) = ne_netif_id (?t ! j)"
      consider "i = p" "j = p" | "i = p" "j \<noteq> p" | "i \<noteq> p" "j = p" | "i \<noteq> p" "j \<noteq> p" by blast
      then show "i = j"
        using ij u assms(5) absent [OF ij(1)] absent [OF ij(2)] p(1) len
        by cases (auto simp: unique_keys_def same_key_def)
    qed
  qed
  ultimately show ?thesis using len by (auto simp: nb_inv_def intro!: exI [of _ ?s])
qed

subsection \<open>Closing the gap of a removed entry\<close>

text \<open>
  Everything in linear coordinates: the hole is slot \<open>a\<close>, the loop is at \<open>k\<close>.  Entries whose
  probe path crosses the hole are still ahead of the loop.
\<close>

definition gap_inv :: "nat \<Rightarrow> neighbour_table \<Rightarrow> nat \<Rightarrow> nat \<Rightarrow> bool" where
  "gap_inv s t a k \<longleftrightarrow> length t = 64 \<and> s < 64 \<and> a < k \<and> k \<le> 64 \<and>
     ne_in_use (t ! pos s a) \<and> chained (\<lambda>j. j \<noteq> a) s t \<and> unique_keys (\<lambda>i. i \<noteq> pos s a) t \<and>
     (\<forall>j<64. j \<noteq> a \<and> ne_in_use (t ! pos s j) \<and> dist s (entry_home (t ! pos s j)) \<le> a \<and> a < j \<longrightarrow> k \<le> j)"

definition live_entries :: "neighbour_table \<Rightarrow> nat \<Rightarrow> neighbour_entry set" where
  "live_entries t p = {t ! i |i. i < 64 \<and> i \<noteq> p \<and> ne_in_use (t ! i)}"

lemma live_entries_image: "live_entries t p = (!) t ` {i. i < 64 \<and> i \<noteq> p \<and> ne_in_use (t ! i)}"
  by (auto simp: live_entries_def)

lemma home_test:
  assumes "s < 64" "a < 64" "k < 64" "h < 64" "dist s h \<le> k"
  shows "(pos s k + 64 - pos s a) mod 64 \<le> (pos s k + 64 - h) mod 64 \<longleftrightarrow>
    (if a < k then dist s h \<le> a else a = k)"
proof -
  have "(pos s k + 64 - pos s a) mod 64 = (if a \<le> k then k - a else k + 64 - a)"
    using assms by (auto simp: pos_if mod_if split: if_splits)
  moreover have "(pos s k + 64 - h) mod 64 = k - dist s h"
    using assms by (auto simp: pos_if dist_if mod_if split: if_splits)
  ultimately show ?thesis using assms by auto
qed

lemma gap_move:
  assumes "gap_inv s t a k" "k < 64" "ne_in_use (t ! pos s k)" "dist s (entry_home (t ! pos s k)) \<le> a"
  shows "gap_inv s (t[pos s a := t ! pos s k]) k (Suc k)"
    and "live_entries (t[pos s a := t ! pos s k]) (pos s k) = live_entries t (pos s a)"
proof -
  let ?t = "t[pos s a := t ! pos s k]"
  from assms have len: "length t = 64" and s: "s < 64" and ak: "a < k" and use_a: "ne_in_use (t ! pos s a)"
    and ch: "chained (\<lambda>j. j \<noteq> a) s t" and u: "unique_keys (\<lambda>i. i \<noteq> pos s a) t"
    by (auto simp: gap_inv_def)
  have a: "a < 64" using ak assms(2) by simp
  have ne: "pos s a \<noteq> pos s k" using pos_inj s a assms(2) ak by auto
  have at: "?t ! pos s j = (if j = a then t ! pos s k else t ! pos s j)" if "j < 64" for j
    using that a s len by (auto simp: pos_inj nth_list_update)
  have use: "ne_in_use (?t ! pos s j) = ne_in_use (t ! pos s j)" if "j < 64" for j
    using at [OF that] assms(3) use_a by simp
  have chk: "dist s (entry_home (t ! pos s j)) \<le> j"
      "\<forall>m. dist s (entry_home (t ! pos s j)) \<le> m \<and> m < j \<longrightarrow> ne_in_use (t ! pos s m)"
    if "j < 64" "j \<noteq> a" "ne_in_use (t ! pos s j)" for j
    using ch that unfolding chained_def by auto
  have "chained (\<lambda>j. j \<noteq> k) s ?t"
    unfolding chained_def
  proof (intro allI impI, elim conjE)
    fix j assume j: "j < 64" "j \<noteq> k" and in_use: "ne_in_use (?t ! pos s j)"
    show "dist s (entry_home (?t ! pos s j)) \<le> j \<and>
        (\<forall>m. dist s (entry_home (?t ! pos s j)) \<le> m \<and> m < j \<longrightarrow> ne_in_use (?t ! pos s m))"
    proof (cases "j = a")
      case True
      have "\<forall>m. dist s (entry_home (t ! pos s k)) \<le> m \<and> m < a \<longrightarrow> ne_in_use (t ! pos s m)"
        using chk(2) [OF assms(2) _ assms(3)] ak by auto
      with True assms(4) a use show ?thesis by (auto simp: at)
    next
      case False
      with chk [OF j(1) False] in_use j use show ?thesis by (auto simp: at)
    qed
  qed
  moreover have "unique_keys (\<lambda>i. i \<noteq> pos s k) ?t"
    unfolding unique_keys_def
  proof (intro allI impI, elim conjE)
    let ?f = "\<lambda>i. if i = pos s a then pos s k else i"
    have f: "?t ! i = t ! ?f i" if "i < 64" for i using that len by (simp add: nth_list_update)
    fix i j assume ij: "i < 64" "j < 64" "i \<noteq> pos s k" "j \<noteq> pos s k" "ne_in_use (?t ! i)" "ne_in_use (?t ! j)"
      "ne_ip_be (?t ! i) = ne_ip_be (?t ! j)" "ne_netif_id (?t ! i) = ne_netif_id (?t ! j)"
    then have "?f i = ?f j"
      using ne by (intro u [unfolded unique_keys_def, rule_format]) (simp_all add: f)
    with ij show "i = j" by (auto split: if_splits)
  qed
  ultimately show "gap_inv s ?t k (Suc k)"
    using assms(2,3) len s use [OF assms(2)] by (auto simp: gap_inv_def)
  show "live_entries ?t (pos s k) = live_entries t (pos s a)"
  proof
    show "live_entries ?t (pos s k) \<subseteq> live_entries t (pos s a)"
      using ne len assms(3) by (auto simp: live_entries_def nth_list_update split: if_splits)
    show "live_entries t (pos s a) \<subseteq> live_entries ?t (pos s k)"
    proof
      fix e assume "e \<in> live_entries t (pos s a)"
      then obtain i where i: "e = t ! i" "i < 64" "i \<noteq> pos s a" "ne_in_use (t ! i)"
        by (auto simp: live_entries_def)
      show "e \<in> live_entries ?t (pos s k)"
        unfolding live_entries_def
        using i ne len by (cases "i = pos s k") (auto intro: exI [of _ "pos s a"] exI [of _ i])
    qed
  qed
qed

lemma gap_skip:
  assumes "gap_inv s t a k" "k < 64" "ne_in_use (t ! pos s k)" "a < dist s (entry_home (t ! pos s k))"
  shows "gap_inv s t a (Suc k)"
  using assms unfolding gap_inv_def by (auto simp: Suc_le_eq order.strict_iff_order)

text \<open>Past the end of the linear view the loop only walks: no entry there belongs before the hole.\<close>

lemma close_gap_wrapped:
  assumes "gap_inv s t a k" "j + n \<le> a" "a < 64"
  shows "close_gap t (pos s a) (pos s j) n = (t, pos s a)"
  using assms(2)
proof (induction n arbitrary: j)
  case (Suc n)
  then have j: "j < a" "j < 64" using assms(3) by simp_all
  have s: "s < 64" and ch: "chained (\<lambda>j. j \<noteq> a) s t" using assms(1) by (auto simp: gap_inv_def)
  have succ: "(pos s j + 1) mod 64 = pos s (Suc j)" using pos_Suc [OF s j(2)] j assms(3) by simp
  show ?case
  proof (cases "ne_in_use (t ! pos s j)")
    case True
    then have "dist s (entry_home (t ! pos s j)) \<le> j"
      using ch j unfolding chained_def by auto
    with home_test [OF s assms(3) j(2) entry_home_less(1) this] j
    have "\<not> (pos s j + 64 - pos s a) mod 64 \<le> (pos s j + 64 - entry_home (t ! pos s j)) mod 64" by simp
    then show ?thesis using True Suc succ by (simp add: Let_def entry_home_def)
  qed simp
qed simp

text \<open>The loop ends with a hole that no probe path crosses, and keeps all other entries.\<close>

lemma close_gap_spec:
  assumes "gap_inv s t a k" "a0 \<le> a" "n + k = 64 + a0"
  shows "\<exists>t' b k'. close_gap t (pos s a) (pos s (k mod 64)) n = (t', pos s b) \<and> b < 64 \<and>
    gap_inv s t' b k' \<and> (k' = 64 \<or> \<not> ne_in_use (t' ! pos s k')) \<and>
    live_entries t' (pos s b) = live_entries t (pos s a)"
  using assms
proof (induction n arbitrary: t a k)
  case 0
  then have "a < k" "k \<le> 64" by (auto simp: gap_inv_def)
  with 0 have "k = 64" "a < 64" by simp_all
  with 0 show ?case by (intro exI [of _ t] exI [of _ a] exI [of _ k]) simp
next
  case (Suc n)
  from Suc.prems(1) have s: "s < 64" and ak: "a < k" "k \<le> 64" by (auto simp: gap_inv_def)
  then have a: "a < 64" by simp
  show ?case
  proof (cases "k = 64")
    case True
    have "close_gap t (pos s a) (pos s 0) (Suc n) = (t, pos s a)"
      using Suc.prems True by (intro close_gap_wrapped [OF Suc.prems(1)] a) simp
    with True Suc.prems(1) a show ?thesis by (intro exI [of _ t] exI [of _ a] exI [of _ k]) simp
  next
    case False
    then have k: "k < 64" using ak by simp
    then have km: "k mod 64 = k" by simp
    have succ: "(pos s k + 1) mod 64 = pos s (Suc k mod 64)" using pos_Suc [OF s k] by simp
    show ?thesis
    proof (cases "ne_in_use (t ! pos s k)")
      case unused: False
      with Suc.prems(1) a k show ?thesis by (intro exI [of _ t] exI [of _ a] exI [of _ k]) (simp add: km)
    next
      case use: True
      have "chained (\<lambda>j. j \<noteq> a) s t" using Suc.prems(1) by (simp add: gap_inv_def)
      then have "dist s (entry_home (t ! pos s k)) \<le> k" using k ak use unfolding chained_def by auto
      from home_test [OF s a k entry_home_less(1) this] ak
      have test: "(pos s k + 64 - pos s a) mod 64 \<le> (pos s k + 64 - entry_home (t ! pos s k)) mod 64 \<longleftrightarrow>
          dist s (entry_home (t ! pos s k)) \<le> a" by simp
      show ?thesis
      proof (cases "dist s (entry_home (t ! pos s k)) \<le> a")
        case True
        note move = gap_move [OF Suc.prems(1) k use True]
        have "close_gap t (pos s a) (pos s (k mod 64)) (Suc n) =
            close_gap (t[pos s a := t ! pos s k]) (pos s k) (pos s (Suc k mod 64)) n"
          using True use test succ by (simp add: km Let_def entry_home_def)
        with Suc.IH [OF move(1)] Suc.prems(2,3) ak show ?thesis by (simp add: move(2))
      next
        case stay: False
        then have skip: "gap_inv s t a (Suc k)" by (intro gap_skip [OF Suc.prems(1) k use]) simp
        have "close_gap t (pos s a) (pos s (k mod 64)) (Suc n) = close_gap t (pos s a) (pos s (Suc k mod 64)) n"
          using stay use test succ by (simp add: km Let_def entry_home_def)
        with Suc.IH [OF skip] Suc.prems(2,3) show ?thesis by simp
      qed
    qed
  qed
qed

lemma nb_inv_gap:
  assumes "nb_inv t" "p < 64" "ne_in_use (t ! p)"
  obtains s where "s < 64" "gap_inv s t (dist s p) (Suc (dist s p))"
proof -
  from assms(1) obtain s where s: "s < 64" "chained (\<lambda>_. True) s t"
    and u: "unique_keys (\<lambda>_. True) t" and len: "length t = 64" by (auto simp: nb_inv_def)
  have "chained (\<lambda>j. j \<noteq> dist s p) s t" using s(2) unfolding chained_def by simp
  moreover have "unique_keys (\<lambda>i. i \<noteq> p) t" using u unfolding unique_keys_def by simp
  ultimately have "gap_inv s t (dist s p) (Suc (dist s p))"
    using s(1) len assms(2,3) dist_less [of s p] by (auto simp: gap_inv_def Suc_le_eq)
  with s(1) that show ?thesis by blast
qed

lemma nb_inv_clear:
  assumes "gap_inv s t b k" "b < 64" "k = 64 \<or> \<not> ne_in_use (t ! pos s k)"
  shows "nb_inv (t[pos s b := zero_neighbour])"
proof -
  let ?t = "t[pos s b := zero_neighbour]"
  from assms(1) have len: "length t = 64" and s: "s < 64" and ch: "chained (\<lambda>j. j \<noteq> b) s t"
    and u: "unique_keys (\<lambda>i. i \<noteq> pos s b) t" and bk: "b < k" "k \<le> 64"
    and cross: "\<And>j. j < 64 \<Longrightarrow> j \<noteq> b \<Longrightarrow> ne_in_use (t ! pos s j) \<Longrightarrow>
        dist s (entry_home (t ! pos s j)) \<le> b \<Longrightarrow> b < j \<Longrightarrow> k \<le> j"
    by (auto simp: gap_inv_def)
  have at: "?t ! pos s j = (if j = b then zero_neighbour else t ! pos s j)" if "j < 64" for j
    using that assms(2) s len by (auto simp: pos_inj nth_list_update)
  have zero: "\<not> ne_in_use zero_neighbour" by (simp add: zero_neighbour_def)
  have "chained (\<lambda>_. True) s ?t"
    unfolding chained_def
  proof (intro allI impI, elim conjE)
    fix j assume j: "j < 64" and "ne_in_use (?t ! pos s j)"
    then have jb: "j \<noteq> b" and use: "ne_in_use (t ! pos s j)" and eq: "?t ! pos s j = t ! pos s j"
      using at [OF j] zero by (auto split: if_splits)
    from ch j jb use have c: "dist s (entry_home (t ! pos s j)) \<le> j"
        "\<And>m. dist s (entry_home (t ! pos s j)) \<le> m \<Longrightarrow> m < j \<Longrightarrow> ne_in_use (t ! pos s m)"
      unfolding chained_def by auto
    have "\<not> (dist s (entry_home (t ! pos s j)) \<le> b \<and> b < j)"
    proof
      assume over: "dist s (entry_home (t ! pos s j)) \<le> b \<and> b < j"
      with cross j jb use have kj: "k \<le> j" by blast
      with assms(3) j have "\<not> ne_in_use (t ! pos s k)" by auto
      moreover have "k \<noteq> j" using use calculation by auto
      then have "ne_in_use (t ! pos s k)" using c(2) [of k] kj over bk by auto
      ultimately show False by simp
    qed
    with c j show "dist s (entry_home (?t ! pos s j)) \<le> j \<and>
        (\<forall>m. dist s (entry_home (?t ! pos s j)) \<le> m \<and> m < j \<longrightarrow> ne_in_use (?t ! pos s m))"
      by (auto simp: eq at)
  qed
  moreover have "unique_keys (\<lambda>_. True) ?t"
    using u zero len unfolding unique_keys_def by (simp add: nth_list_update)
  ultimately show ?thesis using s len by (auto simp: nb_inv_def)
qed

lemma live_entries_clear:
  "length t = 64 \<Longrightarrow> live_entries (t[p := zero_neighbour]) 64 = live_entries t p"
proof -
  assume len: "length t = 64"
  have "ne_in_use (t[p := zero_neighbour] ! i) \<longleftrightarrow> i \<noteq> p \<and> ne_in_use (t ! i)" if "i < 64" for i
    using that len by (cases "i = p") (simp_all add: zero_neighbour_def)
  then have "{i. i < 64 \<and> i \<noteq> 64 \<and> ne_in_use (t[p := zero_neighbour] ! i)} = {i. i < 64 \<and> i \<noteq> p \<and> ne_in_use (t ! i)}"
    by auto
  then show ?thesis unfolding live_entries_image by (auto intro!: image_cong)
qed

lemma neighbour_remove_spec:
  assumes "nb_inv t" "p < 64" "ne_in_use (t ! p)"
  shows "nb_inv (neighbour_remove t p)"
    and "live_entries (neighbour_remove t p) 64 = live_entries t p"
proof -
  from assms obtain s where s: "s < 64" and g: "gap_inv s t (dist s p) (Suc (dist s p))"
    by (rule nb_inv_gap)
  let ?a = "dist s p"
  from close_gap_spec [OF g order_refl, of 63] obtain t' b k' where
      cg: "close_gap t (pos s ?a) (pos s (Suc ?a mod 64)) 63 = (t', pos s b)" and b: "b < 64"
      and g': "gap_inv s t' b k'" "k' = 64 \<or> \<not> ne_in_use (t' ! pos s k')"
      and live: "live_entries t' (pos s b) = live_entries t (pos s ?a)"
    by auto
  have "(p + 1) mod 64 = pos s (Suc ?a mod 64)" using pos_Suc [OF s dist_less [of s p]] s assms(2) by simp
  then have rm: "neighbour_remove t p = t'[pos s b := zero_neighbour]"
    using cg s assms(2) by (simp add: neighbour_remove_def)
  show "nb_inv (neighbour_remove t p)" unfolding rm by (rule nb_inv_clear [OF g'(1) b g'(2)])
  have "length t' = 64" using g'(1) by (simp add: gap_inv_def)
  then show "live_entries (neighbour_remove t p) 64 = live_entries t p"
    using live s assms(2) by (simp add: rm live_entries_clear)
qed

subsection \<open>The table as a map\<close>

lemma nb_entries_replace:
  assumes "nb_inv t" "nb_inv (t[p := e])" "p < 64" "ne_in_use e" "same_key e dev ip"
    and "\<not> ne_in_use (t ! p) \<or> same_key (t ! p) dev ip"
  shows "nb_entries (t[p := e]) dev' ip' =
    (if dev' = dev \<and> ip' = ip then Some e else nb_entries t dev' ip')"
proof -
  have len: "length t = 64" "length (t[p := e]) = 64" and u: "unique_keys (\<lambda>_. True) t"
      "unique_keys (\<lambda>_. True) (t[p := e])" using assms(1,2) by (auto simp: nb_inv_def)
  note key = key_at_update [OF len(1) assms(3,4)]
  show ?thesis
  proof (cases "dev' = dev \<and> ip' = ip")
    case True
    then have "key_at (t[p := e]) dev' ip' p" using assms(5) key by simp
    then show ?thesis using True nb_entries_iff [OF len(2) u(2)] assms(3) len(1) by auto
  next
    case False
    then have k: "key_at (t[p := e]) dev' ip' q \<longleftrightarrow> key_at t dev' ip' q \<and> q \<noteq> p" for q
      using assms(5) by (auto simp: key same_key_def)
    have k': "key_at t dev' ip' q \<Longrightarrow> q \<noteq> p" for q
      using assms(6) False by (auto simp: key_at_def same_key_def)
    have "nb_entries (t[p := e]) dev' ip' = Some x \<longleftrightarrow> nb_entries t dev' ip' = Some x" for x
      unfolding nb_entries_iff [OF len(2) u(2)] nb_entries_iff [OF len(1) u(1)]
      using k k' by (metis nth_list_update_neq)
    then have "nb_entries (t[p := e]) dev' ip' = nb_entries t dev' ip'"
      by (metis option.exhaust)
    with False show ?thesis by auto
  qed
qed

lemma nb_entries_live:
  assumes "nb_inv t"
  shows "nb_entries t dev ip = Some e \<longleftrightarrow> e \<in> live_entries t 64 \<and> same_key e dev ip"
  using assms nb_entries_iff [of t dev ip e] by (auto simp: nb_inv_def live_entries_def key_at_def)

lemma nb_entries_remove:
  assumes "nb_inv t" "key_at t dev ip p"
  shows "nb_entries (neighbour_remove t p) dev' ip' =
    (if dev' = dev \<and> ip' = ip then None else nb_entries t dev' ip')"
proof -
  have p: "p < 64" "ne_in_use (t ! p)" "same_key (t ! p) dev ip" using assms(2) by (auto simp: key_at_def)
  note rm = neighbour_remove_spec [OF assms(1) p(1,2)]
  have live: "e \<in> live_entries t p \<longleftrightarrow> e \<in> live_entries t 64 \<and> \<not> same_key e dev ip" for e
  proof
    assume "e \<in> live_entries t p"
    then obtain i where i: "e = t ! i" "i < 64" "i \<noteq> p" "ne_in_use (t ! i)" by (auto simp: live_entries_def)
    then have "\<not> same_key e dev ip"
      using unique_keysD [of _ t dev ip i p] assms by (auto simp: nb_inv_def key_at_def)
    with i show "e \<in> live_entries t 64 \<and> \<not> same_key e dev ip" by (auto simp: live_entries_def)
  next
    assume "e \<in> live_entries t 64 \<and> \<not> same_key e dev ip"
    with p show "e \<in> live_entries t p" by (auto simp: live_entries_def)
  qed
  have "nb_entries (neighbour_remove t p) dev' ip' = Some e \<longleftrightarrow>
      nb_entries t dev' ip' = Some e \<and> \<not> (dev' = dev \<and> ip' = ip)" for e
    unfolding nb_entries_live [OF rm(1)] nb_entries_live [OF assms(1)] rm(2) live
    by (auto simp: same_key_def)
  then show ?thesis by (metis option.exhaust)
qed

lemma nb_inv_empty: "nb_inv (replicate 64 zero_neighbour)"
  by (auto simp: nb_inv_def unique_keys_def chained_def zero_neighbour_def nth_replicate
      intro!: exI [of _ 0])

text \<open>The table is full exactly when the map has 64 keys.\<close>

definition nb_abs :: "neighbour_table \<Rightarrow> u16 \<times> u32 \<Rightarrow> neighbour_entry option" where
  "nb_abs t = (\<lambda>(dev, ip). nb_entries t dev ip)"

lemma nb_abs_apply [simp]: "nb_abs t (dev, ip) = nb_entries t dev ip"
  by (simp add: nb_abs_def)

lemma card_nb_abs:
  assumes "nb_inv t"
  shows "card (dom (nb_abs t)) = 64 \<longleftrightarrow> (\<forall>p<64. ne_in_use (t ! p))"
proof -
  let ?used = "{p. p < 64 \<and> ne_in_use (t ! p)}"
  let ?key = "\<lambda>p. (ne_netif_id (t ! p), ne_ip_be (t ! p))"
  have "dom (nb_abs t) = ?key ` ?used"
    using nb_entries_iff [of t] assms
    by (fastforce simp: dom_def nb_abs_def nb_inv_def key_at_def same_key_def)
  moreover have "inj_on ?key ?used"
    using assms by (auto simp: inj_on_def nb_inv_def unique_keys_def)
  ultimately have c: "card (dom (nb_abs t)) = card ?used" by (simp add: card_image)
  have "card ?used = 64 \<longleftrightarrow> ?used = {..<64}"
  proof
    assume "card ?used = 64"
    then show "?used = {..<64}" by (intro card_subset_eq) auto
  qed simp
  also have "\<dots> \<longleftrightarrow> (\<forall>p<64. ne_in_use (t ! p))" by auto
  finally show ?thesis using c by simp
qed

text \<open>The specification: a map that holds at most 64 keys.\<close>

datatype nb_op =
    NB_Lookup u16 u32
  | NB_Learn u16 u32 rte_ether_addr
  | NB_Put u16 u32 rte_ether_addr bool
  | NB_Unset u16 u32

type_synonym nb_result = "rc \<times> rte_ether_addr option"

primrec nb_step :: "(rte_ether_addr \<Rightarrow> bool) \<Rightarrow> nb_op \<Rightarrow> neighbour_table \<Rightarrow> nb_result \<times> neighbour_table" where
  "nb_step valid_mac (NB_Lookup dev ip) t = ((None, neighbour_lookup t dev ip), t)"
| "nb_step valid_mac (NB_Learn dev ip mac) t =
     (case neighbour_learn valid_mac t dev ip mac of (rc, t') \<Rightarrow> ((rc, None), t'))"
| "nb_step valid_mac (NB_Put dev ip mac replace) t =
     (case neighbour_put t dev ip mac replace of (rc, t') \<Rightarrow> ((rc, None), t'))"
| "nb_step valid_mac (NB_Unset dev ip) t =
     (case neighbour_unset t dev ip of (rc, t') \<Rightarrow> ((rc, None), t'))"

type_synonym nb_map = "u16 \<times> u32 \<Rightarrow> neighbour_entry option"

primrec nb_spec :: "(rte_ether_addr \<Rightarrow> bool) \<Rightarrow> nb_op \<Rightarrow> nb_map \<Rightarrow> nb_result \<times> nb_map" where
  "nb_spec valid_mac (NB_Lookup dev ip) m = ((None, map_option ne_mac (m (dev, ip))), m)"
| "nb_spec valid_mac (NB_Learn dev ip mac) m =
     (if ip = 0 \<or> \<not> valid_mac mac then ((Some EINVAL, None), m)
      else case m (dev, ip) of
        None \<Rightarrow> if card (dom m) = NEIGHBOUR_CAPACITY then ((Some ENOSPC, None), m)
                else ((None, None), m((dev, ip) \<mapsto> new_entry dev ip mac False))
      | Some e \<Rightarrow> ((None, None), if ne_permanent e then m else m((dev, ip) \<mapsto> e\<lparr>ne_mac := mac\<rparr>)))"
| "nb_spec valid_mac (NB_Put dev ip mac replace) m =
     (if m (dev, ip) = None \<and> card (dom m) = NEIGHBOUR_CAPACITY then ((Some ENOSPC, None), m)
      else if m (dev, ip) \<noteq> None \<and> \<not> replace then ((Some EEXIST, None), m)
      else ((None, None), m((dev, ip) \<mapsto> new_entry dev ip mac True)))"
| "nb_spec valid_mac (NB_Unset dev ip) m =
     (if m (dev, ip) = None then ((Some ENOENT, None), m) else ((None, None), m((dev, ip) := None)))"

text \<open>What the probe returns, in terms of the map.\<close>

lemma find_slot_cases:
  assumes "nb_inv t"
  obtains p where "nb_entries t dev ip = Some (t ! p)" "find_slot t dev ip = Some p" "p < 64"
      "key_at t dev ip p" "ne_in_use (t ! p)" "same_key (t ! p) dev ip"
  | p where "nb_entries t dev ip = None" "find_slot t dev ip = Some p" "p < 64" "\<not> ne_in_use (t ! p)"
      "card (dom (nb_abs t)) \<noteq> 64"
  | "nb_entries t dev ip = None" "find_slot t dev ip = None" "card (dom (nb_abs t)) = 64"
proof (cases "nb_entries t dev ip")
  case None
  have len: "length t = 64" using assms by (simp add: nb_inv_def)
  show ?thesis
  proof (cases "find_slot t dev ip")
    case full: None
    with None that(3) find_slot_absent(3) [OF None len full] show ?thesis
      by (simp add: card_nb_abs [OF assms])
  next
    case (Some p)
    with None that(2) find_slot_absent(2) [OF None len Some] show ?thesis
      by (auto simp: card_nb_abs [OF assms])
  qed
next
  case (Some e)
  then obtain p where p: "key_at t dev ip p" "e = t ! p"
    using nb_entries_iff assms by (auto simp: nb_inv_def)
  with Some that(1) find_slot_present [OF assms p(1)] show ?thesis by (simp add: key_at_def)
qed

lemma nb_abs_replace:
  assumes "nb_inv t" "nb_inv (t[p := e])" "p < 64" "ne_in_use e" "same_key e dev ip"
    and "\<not> ne_in_use (t ! p) \<or> same_key (t ! p) dev ip"
  shows "nb_abs (t[p := e]) = (nb_abs t)((dev, ip) \<mapsto> e)"
  by (rule ext) (auto simp: nb_abs_def nb_entries_replace [OF assms] split: prod.splits)

lemma new_entry_simps [simp]:
  "ne_in_use (new_entry dev ip mac b)" "same_key (new_entry dev ip mac b) dev ip"
  by (simp_all add: new_entry_def same_key_def)

lemma neighbour_learn_refines:
  assumes "nb_inv t"
  shows "nb_inv (snd (nb_step v (NB_Learn dev ip mac) t)) \<and>
    nb_spec v (NB_Learn dev ip mac) (nb_abs t) =
      (fst (nb_step v (NB_Learn dev ip mac) t), nb_abs (snd (nb_step v (NB_Learn dev ip mac) t)))"
proof (cases "ip = 0 \<or> \<not> v mac")
  case True
  with assms show ?thesis by (auto simp: neighbour_learn_def)
next
  case False
  from assms show ?thesis
  proof (cases rule: find_slot_cases [of t dev ip])
    case (1 p)
    let ?e = "(t ! p)\<lparr>ne_mac := mac\<rparr>"
    have e: "ne_in_use ?e" "same_key ?e dev ip" using 1 by (simp_all add: same_key_def)
    have inv: "nb_inv (t[p := ?e])" by (rule nb_inv_replace [OF assms 1(4) e])
    show ?thesis
      using False 1 assms inv nb_abs_replace [OF assms inv 1(3) e] by (auto simp: neighbour_learn_def)
  next
    case (2 p)
    let ?e = "new_entry dev ip mac False"
    have inv: "nb_inv (t[p := ?e])" by (rule nb_inv_insert [OF assms 2(1,2)]) simp_all
    show ?thesis
      using False 2 inv nb_abs_replace [OF assms inv 2(3), of dev ip] by (auto simp: neighbour_learn_def)
  next
    case 3
    with False assms show ?thesis by (auto simp: neighbour_learn_def)
  qed
qed

lemma neighbour_put_refines:
  assumes "nb_inv t"
  shows "nb_inv (snd (nb_step v (NB_Put dev ip mac r) t)) \<and>
    nb_spec v (NB_Put dev ip mac r) (nb_abs t) =
      (fst (nb_step v (NB_Put dev ip mac r) t), nb_abs (snd (nb_step v (NB_Put dev ip mac r) t)))"
  using assms
proof (cases rule: find_slot_cases [of t dev ip])
  case (1 p)
  let ?e = "new_entry dev ip mac True"
  have inv: "nb_inv (t[p := ?e])" by (rule nb_inv_replace [OF assms 1(4)]) simp_all
  show ?thesis
    using 1 assms inv nb_abs_replace [OF assms inv 1(3), of dev ip] by (auto simp: neighbour_put_def)
next
  case (2 p)
  let ?e = "new_entry dev ip mac True"
  have inv: "nb_inv (t[p := ?e])" by (rule nb_inv_insert [OF assms 2(1,2)]) simp_all
  show ?thesis
    using 2 inv nb_abs_replace [OF assms inv 2(3), of dev ip] by (auto simp: neighbour_put_def)
next
  case 3
  with assms show ?thesis by (auto simp: neighbour_put_def)
qed

lemma neighbour_unset_refines:
  assumes "nb_inv t"
  shows "nb_inv (snd (nb_step v (NB_Unset dev ip) t)) \<and>
    nb_spec v (NB_Unset dev ip) (nb_abs t) =
      (fst (nb_step v (NB_Unset dev ip) t), nb_abs (snd (nb_step v (NB_Unset dev ip) t)))"
  using assms
proof (cases rule: find_slot_cases [of t dev ip])
  case (1 p)
  have "nb_abs (neighbour_remove t p) = (nb_abs t)((dev, ip) := None)"
    by (rule ext) (auto simp: nb_abs_def nb_entries_remove [OF assms 1(4)] split: prod.splits)
  with 1 neighbour_remove_spec(1) [OF assms 1(3,5)] show ?thesis
    by (auto simp: neighbour_unset_def)
qed (use assms in \<open>auto simp: neighbour_unset_def\<close>)

interpretation nb: refinement nb_inv nb_abs "nb_step valid_mac" "nb_spec valid_mac" for valid_mac
proof
  fix t :: neighbour_table and x
  assume inv: "nb_inv t"
  have "nb_inv (snd (nb_step valid_mac x t)) \<and>
      nb_spec valid_mac x (nb_abs t) = (fst (nb_step valid_mac x t), nb_abs (snd (nb_step valid_mac x t)))"
  proof (cases x)
    case (NB_Lookup dev ip)
    with inv show ?thesis by (simp add: neighbour_lookup_entries)
  qed (simp_all only: neighbour_learn_refines [OF inv] neighbour_put_refines [OF inv]
      neighbour_unset_refines [OF inv])
  then show "nb_inv (snd (nb_step valid_mac x t))"
    and "nb_spec valid_mac x (nb_abs t) = (fst (nb_step valid_mac x t), nb_abs (snd (nb_step valid_mac x t)))"
    by blast+
qed

lemma nb_abs_empty: "nb_abs (replicate 64 zero_neighbour) = (\<lambda>_. None)"
  by (rule ext) (auto simp: nb_abs_def nb_entries_None key_at_def zero_neighbour_def split: prod.splits)

text \<open>
  C23: the neighbour table behaves as a finite map of at most 64 entries.  Whatever sequence of
  look-ups, learnings, administrative additions and deletions runs on a table that starts empty,
  every result (error codes included) is the one the map gives, the probe chains stay intact (no
  entry is lost when a deletion closes its gap, also across the wrap-around and in a full table),
  and the table holds exactly the entries of the map.
\<close>

theorem neighbour_table_refines_map:
  "fst (run_ops (nb_step valid_mac) ops (replicate NEIGHBOUR_CAPACITY zero_neighbour)) =
     fst (run_ops (nb_spec valid_mac) ops (\<lambda>_. None)) \<and>
   nb_abs (snd (run_ops (nb_step valid_mac) ops (replicate NEIGHBOUR_CAPACITY zero_neighbour))) =
     snd (run_ops (nb_spec valid_mac) ops (\<lambda>_. None)) \<and>
   nb_inv (snd (run_ops (nb_step valid_mac) ops (replicate NEIGHBOUR_CAPACITY zero_neighbour)))"
  using nb.run_refines [OF nb_inv_empty, of valid_mac ops] nb.run_inv [OF nb_inv_empty, of valid_mac ops]
  by (simp add: nb_abs_empty)

end
