(* ===== verification/Packet.thy ===== *)
theory Packet
  imports Net_Config Route Neighbour
begin

text \<open>
  What the code uses of DPDK, and the access to packet bytes.

  Every DPDK function is a field of the record \<open>dpdk\<close>, over the state \<open>'d\<close> of the timers, the
  buffer pool and the devices.  The fields of an mbuf that the code reads directly (segments,
  lengths, reference count) are fields of \<open>rte_mbuf\<close>.  The headers are read and written at the
  byte offsets of their wire formats (RFC 826, 791, 792, 768, 793), which are the layouts of the
  DPDK header structs; a multi-byte field is loaded as the little-endian host does.  An access
  outside the data of the buffer gives \<open>None\<close>.
\<close>

subsection \<open>DPDK\<close>

record 'd dpdk =
  d_timer_hz :: u64
  d_timer_cycles :: "'d \<Rightarrow> u64 \<times> 'd"
  d_rand :: "'d \<Rightarrow> u64 \<times> 'd"
  d_mbuf_alloc :: "'d \<Rightarrow> rte_mbuf option \<times> 'd"
  d_mbuf_free :: "rte_mbuf \<Rightarrow> 'd \<Rightarrow> 'd"
  d_append :: "rte_mbuf \<Rightarrow> nat \<Rightarrow> rte_mbuf option"
  d_prepend :: "rte_mbuf \<Rightarrow> nat \<Rightarrow> rte_mbuf option"
  d_adj :: "rte_mbuf \<Rightarrow> nat \<Rightarrow> rte_mbuf"
  d_trim :: "rte_mbuf \<Rightarrow> nat \<Rightarrow> rte_mbuf"
  d_valid_mac :: "rte_ether_addr \<Rightarrow> bool"
  d_multicast_mac :: "rte_ether_addr \<Rightarrow> bool"
  d_broadcast_mac :: "rte_ether_addr \<Rightarrow> bool"
  d_raw_cksum :: "u8 list \<Rightarrow> u16"
  d_ipv4_cksum :: "u8 list \<Rightarrow> u16"
  d_phdr_cksum :: "u8 list \<Rightarrow> u16"
  d_udptcp_cksum :: "u8 list \<Rightarrow> u8 list \<Rightarrow> u16"
  d_tx_burst :: "u16 \<Rightarrow> rte_mbuf list \<Rightarrow> 'd \<Rightarrow> nat \<times> 'd"
  d_rx_burst :: "u16 \<Rightarrow> nat \<Rightarrow> 'd \<Rightarrow> rte_mbuf list \<times> 'd"

text \<open>
  The documented behaviour of the buffer operations that the code relies on: an append or a
  prepend makes room for the requested number of bytes and leaves the others, an adj or a trim
  removes bytes at the start or at the end, a fresh buffer is empty and contiguous, and a burst
  sends a prefix of the packets.
\<close>

definition mbuf_like :: "rte_mbuf \<Rightarrow> rte_mbuf \<Rightarrow> bool" where
  "mbuf_like m m' \<longleftrightarrow> mb_segs m' = mb_segs m \<and> mb_direct m' = mb_direct m \<and> mb_refcnt m' = mb_refcnt m"

definition dpdk_append_ok :: "('d, 'x) dpdk_scheme \<Rightarrow> bool" where
  "dpdk_append_ok D \<longleftrightarrow> (\<forall>m n m'. d_append D m n = Some m' \<longrightarrow> mbuf_like m m' \<and>
     mb_pkt_len m' = mb_pkt_len m + n \<and>
     (\<exists>bs. length bs = n \<and> mb_data m' = mb_data m @ bs))"

definition dpdk_prepend_ok :: "('d, 'x) dpdk_scheme \<Rightarrow> bool" where
  "dpdk_prepend_ok D \<longleftrightarrow> (\<forall>m n m'. d_prepend D m n = Some m' \<longrightarrow> mbuf_like m m' \<and>
     mb_pkt_len m' = mb_pkt_len m + n \<and>
     (\<exists>bs. length bs = n \<and> mb_data m' = bs @ mb_data m))"

definition dpdk_adj_ok :: "('d, 'x) dpdk_scheme \<Rightarrow> bool" where
  "dpdk_adj_ok D \<longleftrightarrow> (\<forall>m n. n \<le> length (mb_data m) \<longrightarrow> mbuf_like m (d_adj D m n) \<and>
     mb_pkt_len (d_adj D m n) = mb_pkt_len m - n \<and> mb_data (d_adj D m n) = drop n (mb_data m))"

definition dpdk_trim_ok :: "('d, 'x) dpdk_scheme \<Rightarrow> bool" where
  "dpdk_trim_ok D \<longleftrightarrow> (\<forall>m n. n \<le> length (mb_data m) \<longrightarrow> mbuf_like m (d_trim D m n) \<and>
     mb_pkt_len (d_trim D m n) = mb_pkt_len m - n \<and>
     mb_data (d_trim D m n) = take (length (mb_data m) - n) (mb_data m))"

definition dpdk_alloc_ok :: "('d, 'x) dpdk_scheme \<Rightarrow> bool" where
  "dpdk_alloc_ok D \<longleftrightarrow> (\<forall>d m d'. d_mbuf_alloc D d = (Some m, d') \<longrightarrow>
     mb_data m = [] \<and> mb_pkt_len m = 0 \<and> mb_segs m = 1 \<and> mb_direct m \<and> mb_refcnt m = 1)"

definition dpdk_burst_ok :: "('d, 'x) dpdk_scheme \<Rightarrow> bool" where
  "dpdk_burst_ok D \<longleftrightarrow> (\<forall>port ms d. fst (d_tx_burst D port ms d) \<le> length ms)"

definition dpdk_ok :: "('d, 'x) dpdk_scheme \<Rightarrow> bool" where
  "dpdk_ok D \<longleftrightarrow> dpdk_append_ok D \<and> dpdk_prepend_ok D \<and> dpdk_adj_ok D \<and> dpdk_trim_ok D \<and>
     dpdk_alloc_ok D \<and> dpdk_burst_ok D"

subsection \<open>Bytes\<close>

definition rd_bytes :: "rte_mbuf \<Rightarrow> nat \<Rightarrow> nat \<Rightarrow> u8 list option" where
  "rd_bytes m off n =
     (if off + n \<le> length (mb_data m) then Some (take n (drop off (mb_data m))) else None)"

definition rd8 :: "rte_mbuf \<Rightarrow> nat \<Rightarrow> u8 option" where
  "rd8 m off = map_option (\<lambda>bs. bs ! 0) (rd_bytes m off 1)"

definition rd16 :: "rte_mbuf \<Rightarrow> nat \<Rightarrow> u16 option" where
  "rd16 m off = map_option le16_of (rd_bytes m off 2)"

definition rd32 :: "rte_mbuf \<Rightarrow> nat \<Rightarrow> u32 option" where
  "rd32 m off = map_option le32_of (rd_bytes m off 4)"

definition wr_bytes :: "rte_mbuf \<Rightarrow> nat \<Rightarrow> u8 list \<Rightarrow> rte_mbuf option" where
  "wr_bytes m off bs =
     (if off + length bs \<le> length (mb_data m)
      then Some (m\<lparr>mb_data := memcpy_at (mb_data m) off bs\<rparr>) else None)"

definition wr8 :: "rte_mbuf \<Rightarrow> nat \<Rightarrow> u8 \<Rightarrow> rte_mbuf option" where
  "wr8 m off b = wr_bytes m off [b]"

definition wr16 :: "rte_mbuf \<Rightarrow> nat \<Rightarrow> u16 \<Rightarrow> rte_mbuf option" where
  "wr16 m off w = wr_bytes m off (le16_bytes w)"

definition wr32 :: "rte_mbuf \<Rightarrow> nat \<Rightarrow> u32 \<Rightarrow> rte_mbuf option" where
  "wr32 m off w = wr_bytes m off (le32_bytes w)"

text \<open>Sizes of the headers.\<close>

abbreviation (input) ETH_HDR :: nat where "ETH_HDR \<equiv> 14"
abbreviation (input) ARP_HDR :: nat where "ARP_HDR \<equiv> 28"
abbreviation (input) IPV4_HDR :: nat where "IPV4_HDR \<equiv> 20"
abbreviation (input) ICMP_HDR :: nat where "ICMP_HDR \<equiv> 8"
abbreviation (input) UDP_HDR :: nat where "UDP_HDR \<equiv> 8"
abbreviation (input) TCP_HDR :: nat where "TCP_HDR \<equiv> 20"

abbreviation (input) RTE_ETHER_TYPE_IPV4 :: u16 where "RTE_ETHER_TYPE_IPV4 \<equiv> 0x0800"
abbreviation (input) RTE_ETHER_TYPE_ARP :: u16 where "RTE_ETHER_TYPE_ARP \<equiv> 0x0806"
abbreviation (input) RTE_ARP_OP_REQUEST :: u16 where "RTE_ARP_OP_REQUEST \<equiv> 1"
abbreviation (input) RTE_ARP_OP_REPLY :: u16 where "RTE_ARP_OP_REPLY \<equiv> 2"
abbreviation (input) RTE_IPV4_HDR_DF_FLAG :: u16 where "RTE_IPV4_HDR_DF_FLAG \<equiv> 0x4000"
abbreviation (input) RTE_IPV4_HDR_MF_FLAG :: u16 where "RTE_IPV4_HDR_MF_FLAG \<equiv> 0x2000"
abbreviation (input) RTE_IPV4_HDR_OFFSET_MASK :: u16 where "RTE_IPV4_HDR_OFFSET_MASK \<equiv> 0x1fff"
abbreviation (input) RTE_TCP_FIN_FLAG :: u8 where "RTE_TCP_FIN_FLAG \<equiv> 0x01"
abbreviation (input) RTE_TCP_SYN_FLAG :: u8 where "RTE_TCP_SYN_FLAG \<equiv> 0x02"
abbreviation (input) RTE_TCP_RST_FLAG :: u8 where "RTE_TCP_RST_FLAG \<equiv> 0x04"
abbreviation (input) RTE_TCP_PSH_FLAG :: u8 where "RTE_TCP_PSH_FLAG \<equiv> 0x08"
abbreviation (input) RTE_TCP_ACK_FLAG :: u8 where "RTE_TCP_ACK_FLAG \<equiv> 0x10"
abbreviation (input) RTE_TCP_URG_FLAG :: u8 where "RTE_TCP_URG_FLAG \<equiv> 0x20"

text \<open>An IPv4 header as the code builds it: every field it does not name is zero.\<close>

definition ipv4_header :: "u16 \<Rightarrow> u16 \<Rightarrow> u16 \<Rightarrow> u8 \<Rightarrow> u8 \<Rightarrow> u16 \<Rightarrow> u32 \<Rightarrow> u32 \<Rightarrow> u8 list" where
  "ipv4_header total_be ident_be frag_be ttl proto cksum src dst =
     [0x45, 0] @ le16_bytes total_be @ le16_bytes ident_be @ le16_bytes frag_be @ [ttl, proto]
       @ le16_bytes cksum @ le32_bytes src @ le32_bytes dst"

lemma length_le16_bytes [simp]: "length (le16_bytes w) = 2"
  by (simp add: le16_bytes_def)

lemma length_ipv4_header [simp]: "length (ipv4_header a b c d e f g h) = IPV4_HDR"
  by (simp add: ipv4_header_def)

lemma rd_bytes_Some: "off + n \<le> length (mb_data m) \<Longrightarrow> rd_bytes m off n = Some (take n (drop off (mb_data m)))"
  by (simp add: rd_bytes_def)

lemma wr_bytes_Some:
  "off + length bs \<le> length (mb_data m) \<Longrightarrow>
     wr_bytes m off bs = Some (m\<lparr>mb_data := memcpy_at (mb_data m) off bs\<rparr>)"
  by (simp add: wr_bytes_def)

subsection \<open>Time\<close>

definition rte_get_timer_cycles :: "('d, 'x) dpdk_scheme \<Rightarrow> 'd app_runtime \<Rightarrow> u64 \<times> 'd app_runtime" where
  "rte_get_timer_cycles D rt = (case d_timer_cycles D (rt_dev rt) of (t, d) \<Rightarrow> (t, rt\<lparr>rt_dev := d\<rparr>))"

definition rte_pktmbuf_alloc :: "('d, 'x) dpdk_scheme \<Rightarrow> 'd app_runtime \<Rightarrow> rte_mbuf option \<times> 'd app_runtime" where
  "rte_pktmbuf_alloc D rt = (case d_mbuf_alloc D (rt_dev rt) of (m, d) \<Rightarrow> (m, rt\<lparr>rt_dev := d\<rparr>))"

definition rte_pktmbuf_free :: "('d, 'x) dpdk_scheme \<Rightarrow> rte_mbuf \<Rightarrow> 'd app_runtime \<Rightarrow> 'd app_runtime" where
  "rte_pktmbuf_free D m rt = rt\<lparr>rt_dev := d_mbuf_free D m (rt_dev rt)\<rparr>"

definition rte_rand :: "('d, 'x) dpdk_scheme \<Rightarrow> 'd app_runtime \<Rightarrow> u64 \<times> 'd app_runtime" where
  "rte_rand D rt = (case d_rand D (rt_dev rt) of (r, d) \<Rightarrow> (r, rt\<lparr>rt_dev := d\<rparr>))"

end
