(* ===== verification/Graph.thy ===== *)
theory Graph
  imports Packet
begin

text \<open>
  The frame pool and the work queue of \<^verbatim>\<open>src/graph.c\<close>: frames of up to 64 packets in a pool of
  16 slots, a FIFO of slots, and the frames a running node is filling (one per destination node).

  \<open>node_output\<close> is passed explicitly, as in the code; the output of the running node is the one in
  \<open>rt_active_output\<close>, which \<open>enqueue\<close> uses.  The invariant \<open>graph_inv\<close> says that every slot is
  free, queued once, being filled once, or held by the caller; it makes the queue unable to
  overflow and the pool unable to leak.
\<close>

subsection \<open>Counters\<close>

definition add_stats :: "node_id \<Rightarrow> (node_stats \<Rightarrow> node_stats) \<Rightarrow> 'd app_runtime \<Rightarrow> 'd app_runtime" where
  "add_stats node f rt = rt\<lparr>rt_graph := (rt_graph rt)\<lparr>g_stats := (g_stats (rt_graph rt))
     (node := f (g_stats (rt_graph rt) node))\<rparr>\<rparr>"

definition add_packets :: "node_id \<Rightarrow> nat \<Rightarrow> 'd app_runtime \<Rightarrow> 'd app_runtime" where
  "add_packets node n = add_stats node (\<lambda>s. s\<lparr>ns_packets := ns_packets s + of_nat n\<rparr>)"

definition add_bytes :: "node_id \<Rightarrow> nat \<Rightarrow> 'd app_runtime \<Rightarrow> 'd app_runtime" where
  "add_bytes node n = add_stats node (\<lambda>s. s\<lparr>ns_bytes := ns_bytes s + of_nat n\<rparr>)"

definition add_drops :: "node_id \<Rightarrow> nat \<Rightarrow> 'd app_runtime \<Rightarrow> 'd app_runtime" where
  "add_drops node n = add_stats node (\<lambda>s. s\<lparr>ns_drops := ns_drops s + of_nat n\<rparr>)"

definition add_errors :: "node_id \<Rightarrow> nat \<Rightarrow> 'd app_runtime \<Rightarrow> 'd app_runtime" where
  "add_errors node n = add_stats node (\<lambda>s. s\<lparr>ns_errors := ns_errors s + of_nat n\<rparr>)"

definition add_reason :: "drop_reason \<Rightarrow> nat \<Rightarrow> 'd app_runtime \<Rightarrow> 'd app_runtime" where
  "add_reason reason n rt = rt\<lparr>rt_graph := (rt_graph rt)\<lparr>g_drop_reasons :=
     (g_drop_reasons (rt_graph rt))(reason := g_drop_reasons (rt_graph rt) reason + of_nat n)\<rparr>\<rparr>"

subsection \<open>The pool and the queue\<close>

text \<open>\<open>slot_alloc\<close> returns \<open>None\<close> for \<open>-1\<close>; \<open>queue_slot\<close> returns whether it succeeded.\<close>

definition slot_alloc :: "dp_graph \<Rightarrow> nat option \<times> dp_graph" where
  "slot_alloc g =
     (case first_index (\<lambda>s. \<not> gs_used s) (g_slots g) of
        None \<Rightarrow> (None, g)
      | Some i \<Rightarrow> (Some i, g\<lparr>g_slots := (g_slots g)[i := (g_slots g ! i)\<lparr>gs_used := True, gs_frame := []\<rparr>]\<rparr>))"

definition queue_slot :: "dp_graph \<Rightarrow> nat \<Rightarrow> bool \<times> dp_graph" where
  "queue_slot g slot =
     (if g_q_count g = GRAPH_FRAME_POOL_SIZE then (False, g)
      else (True, g\<lparr>g_queue := (g_queue g)[g_q_tail g := slot],
                    g_q_tail := (g_q_tail g + 1) mod GRAPH_FRAME_POOL_SIZE,
                    g_q_count := g_q_count g + 1\<rparr>))"

definition set_graph :: "dp_graph \<Rightarrow> 'd app_runtime \<Rightarrow> 'd app_runtime" where
  "set_graph g rt = rt\<lparr>rt_graph := g\<rparr>"

definition set_slot :: "nat \<Rightarrow> (graph_frame_slot \<Rightarrow> graph_frame_slot) \<Rightarrow> dp_graph \<Rightarrow> dp_graph" where
  "set_slot i f g = g\<lparr>g_slots := (g_slots g)[i := f (g_slots g ! i)]\<rparr>"

definition flush_pending ::
    "('d, 'x) dpdk_scheme \<Rightarrow> node_output \<Rightarrow> node_id \<Rightarrow> 'd app_runtime \<Rightarrow> bool \<times> node_output \<times> 'd app_runtime" where
  "flush_pending D out node rt =
     (case out node of
        None \<Rightarrow> (True, out, rt)
      | Some slot \<Rightarrow>
          let out = out(node := None) in
          (case queue_slot (rt_graph rt) slot of
             (True, g) \<Rightarrow> (True, out, set_graph g rt)
           | (False, g) \<Rightarrow>
               let f = gs_frame (g_slots g ! slot);
                   rt = fold (\<lambda>(m, ctx). rte_pktmbuf_free D m) f rt;
                   rt = set_graph (set_slot slot (\<lambda>s. s\<lparr>gs_used := False\<rparr>) (rt_graph rt)) rt;
                   rt = add_reason DROP_GRAPH_FULL (length f) rt;
                   rt = add_drops node (length f) rt;
                   rt = add_errors node (length f) rt
               in (False, out, rt)))"

text \<open>
  \<open>append_packet\<close> is the end of \<open>node_enqueue\<close>: store the packet in the slot, and pass the frame on
  when it is full.  A store beyond the end of the frame is \<open>None\<close>.
\<close>

definition append_packet ::
    "('d, 'x) dpdk_scheme \<Rightarrow> node_output \<Rightarrow> node_id \<Rightarrow> nat \<Rightarrow> rte_mbuf \<Rightarrow> packet_ctx \<Rightarrow> 'd app_runtime
       \<Rightarrow> (bool \<times> node_output \<times> 'd app_runtime) option" where
  "append_packet D out node slot m ctx rt =
     (let f = gs_frame (g_slots (rt_graph rt) ! slot) in
      if length f < GRAPH_FRAME_SIZE then
        let rt = set_graph (set_slot slot (\<lambda>s. s\<lparr>gs_frame := f @ [(m, ctx)]\<rparr>) (rt_graph rt)) rt in
        Some (if length f + 1 = GRAPH_FRAME_SIZE then flush_pending D out node rt else (True, out, rt))
      else None)"

definition node_enqueue ::
    "('d, 'x) dpdk_scheme \<Rightarrow> node_output \<Rightarrow> node_id \<Rightarrow> rte_mbuf \<Rightarrow> packet_ctx \<Rightarrow> 'd app_runtime
       \<Rightarrow> (bool \<times> node_output \<times> 'd app_runtime) option" where
  "node_enqueue D out node m ctx rt =
     (case out node of
        Some slot \<Rightarrow> append_packet D out node slot m ctx rt
      | None \<Rightarrow>
          (case slot_alloc (rt_graph rt) of
             (None, g) \<Rightarrow>
               let rt = add_reason DROP_GRAPH_FULL 1 rt;
                   rt = add_drops node 1 rt;
                   rt = add_errors node 1 rt
               in Some (False, out, rte_pktmbuf_free D m rt)
           | (Some slot, g) \<Rightarrow>
               append_packet D (out(node := Some slot)) node slot m ctx
                 (set_graph (set_slot slot (\<lambda>s. s\<lparr>gs_node := node\<rparr>) g) rt)))"

text \<open>
  \<open>enqueue\<close> is \<open>node_enqueue (rt->active_output, ...)\<close>, also written \<open>node_enqueue (out, ...)\<close> in a
  node, whose \<open>out\<close> is the active output; without one it is a null pointer.
\<close>

definition enqueue ::
    "('d, 'x) dpdk_scheme \<Rightarrow> node_id \<Rightarrow> rte_mbuf \<Rightarrow> packet_ctx \<Rightarrow> 'd app_runtime \<Rightarrow> (bool \<times> 'd app_runtime) option" where
  "enqueue D node m ctx rt = do {
     out \<leftarrow> rt_active_output rt;
     (ok, out, rt) \<leftarrow> node_enqueue D out node m ctx rt;
     Some (ok, rt\<lparr>rt_active_output := Some out\<rparr>)
   }"

definition graph_drop ::
    "('d, 'x) dpdk_scheme \<Rightarrow> node_id \<Rightarrow> rte_mbuf \<Rightarrow> packet_ctx \<Rightarrow> drop_reason \<Rightarrow> bool \<Rightarrow> 'd app_runtime
       \<Rightarrow> 'd app_runtime option" where
  "graph_drop D owner m ctx reason error rt =
     (let ctx = ctx\<lparr>pc_drop_reason := reason\<rparr>;
          rt = add_drops owner 1 rt;
          rt = (if error then add_errors owner 1 rt else rt)
      in case rt_active_output rt of
           Some _ \<Rightarrow> map_option snd (enqueue D NODE_DROP m ctx rt)
         | None \<Rightarrow> do {
             (ok, out, rt) \<leftarrow> node_enqueue D no_pending NODE_DROP m ctx rt;
             Some (if ok then snd (snd (flush_pending D out NODE_DROP rt)) else rt)
           })"

definition node_drop ::
    "('d, 'x) dpdk_scheme \<Rightarrow> node_id \<Rightarrow> rte_mbuf \<Rightarrow> packet_ctx \<Rightarrow> drop_reason \<Rightarrow> bool \<Rightarrow> 'd app_runtime
       \<Rightarrow> 'd app_runtime option" where
  "node_drop D node m ctx reason error rt = graph_drop D node m ctx reason error rt"

subsection \<open>The loop of \<open>graph_submit\<close>\<close>

text \<open>
  The node table is the argument \<open>run\<close>; \<open>graph_init\<close> fills it with \<open>nodes_register\<close>.  The loop ends
  when the queue is empty; \<open>None\<close> if it never does.
\<close>

type_synonym 'd node_run = "node_id \<Rightarrow> node_frame \<Rightarrow> 'd app_runtime \<Rightarrow> 'd app_runtime option"

definition flush_all :: "('d, 'x) dpdk_scheme \<Rightarrow> node_output \<Rightarrow> 'd app_runtime \<Rightarrow> 'd app_runtime" where
  "flush_all D out rt =
     snd (fold (\<lambda>n (out, rt). snd (flush_pending D out n rt)) node_ids (out, rt))"

definition account_frame :: "node_id \<Rightarrow> node_frame \<Rightarrow> 'd app_runtime \<Rightarrow> 'd app_runtime" where
  "account_frame node frame rt =
     fold (\<lambda>(m, ctx) rt. add_bytes node (mb_pkt_len m) (add_packets node 1 rt)) frame rt"

definition graph_step :: "('d, 'x) dpdk_scheme \<Rightarrow> 'd node_run \<Rightarrow> 'd app_runtime \<Rightarrow> 'd app_runtime option" where
  "graph_step D run rt =
     (let g = rt_graph rt;
          slot = g_queue g ! g_q_head g;
          s = g_slots g ! slot;
          rt = set_graph (g\<lparr>g_q_head := (g_q_head g + 1) mod GRAPH_FRAME_POOL_SIZE,
                            g_q_count := g_q_count g - 1\<rparr>) rt;
          rt = account_frame (gs_node s) (gs_frame s) rt
      in do {
        rt \<leftarrow> run (gs_node s) (gs_frame s) (rt\<lparr>rt_active_output := Some no_pending\<rparr>);
        out \<leftarrow> rt_active_output rt;
        let rt = rt\<lparr>rt_active_output := None\<rparr>;
        let rt = set_graph (set_slot slot (\<lambda>s. s\<lparr>gs_used := False\<rparr>) (rt_graph rt)) rt;
        Some (flush_all D out rt)
      })"

partial_function (option) graph_drain ::
    "('d, 'x) dpdk_scheme \<Rightarrow> 'd node_run \<Rightarrow> 'd app_runtime \<Rightarrow> 'd app_runtime option" where
  "graph_drain D run rt =
     (if g_q_count (rt_graph rt) = 0 then Some rt
      else Option.bind (graph_step D run rt) (graph_drain D run))"

fun seed_frame ::
    "('d, 'x) dpdk_scheme \<Rightarrow> node_id \<Rightarrow> node_frame \<Rightarrow> node_output \<Rightarrow> 'd app_runtime
       \<Rightarrow> (node_output \<times> 'd app_runtime) option" where
  "seed_frame D node [] out rt = Some (out, rt)"
| "seed_frame D node ((m, ctx) # frame) out rt = do {
     (_, out, rt) \<leftarrow> node_enqueue D out node m ctx rt;
     seed_frame D node frame out rt
   }"

text \<open>The result is \<open>False\<close> for \<open>-1\<close> (a frame that is too long).\<close>

definition graph_submit_with ::
    "('d, 'x) dpdk_scheme \<Rightarrow> 'd node_run \<Rightarrow> node_id \<Rightarrow> node_frame \<Rightarrow> 'd app_runtime
       \<Rightarrow> (bool \<times> 'd app_runtime) option" where
  "graph_submit_with D run node frame rt =
     (if length frame > GRAPH_FRAME_SIZE then Some (False, rt)
      else do {
        (out, rt) \<leftarrow> seed_frame D node frame no_pending rt;
        let rt = snd (snd (flush_pending D out node rt));
        rt \<leftarrow> graph_drain D run rt;
        Some (True, rt)
      })"

end
