(* ===== verification/Sockets.thy ===== *)
theory Sockets
  imports Graph
begin

text \<open>
  The socket table of \<^verbatim>\<open>src/socket.c\<close> (handles, allocation, binding) and the receive side of
  \<^verbatim>\<open>src/udp.c\<close>.  A pointer to a socket entry is its index in the table.
\<close>

subsection \<open>The table\<close>

abbreviation sock :: "'d app_runtime \<Rightarrow> nat \<Rightarrow> ps_socket_entry" where
  "sock rt i \<equiv> ss_entries (rt_sockets rt) ! i"

definition set_sock :: "nat \<Rightarrow> ps_socket_entry \<Rightarrow> 'd app_runtime \<Rightarrow> 'd app_runtime" where
  "set_sock i s rt = rt\<lparr>rt_sockets := (rt_sockets rt)\<lparr>ss_entries := (ss_entries (rt_sockets rt))[i := s]\<rparr>\<rparr>"

definition live_sockets :: "'d app_runtime \<Rightarrow> ps_socket_entry list" where
  "live_sockets rt = take (ss_capacity (rt_sockets rt)) (ss_entries (rt_sockets rt))"

definition socket_subsystem_init :: "'d app_runtime \<Rightarrow> rc \<times> 'd app_runtime" where
  "socket_subsystem_init rt =
     (if ss_capacity (rt_sockets rt) \<noteq> 0 then (Some EBUSY, rt)
      else (None, rt\<lparr>rt_sockets := zero_sockets\<lparr>ss_next_port := 49152, ss_capacity := PS_SOCKET_MAX\<rparr>,
                     rt_tcp_timer_next := 0\<rparr>))"

definition socket_subsystem_fini :: "'d app_runtime \<Rightarrow> 'd app_runtime" where
  "socket_subsystem_fini rt = rt\<lparr>rt_sockets := zero_sockets\<rparr>"

definition fd_slot :: "int \<Rightarrow> nat" where
  "fd_slot fd = nat (fd - 1) mod PS_SOCKET_MAX"

definition socket_lookup :: "'d app_runtime \<Rightarrow> int \<Rightarrow> nat option" where
  "socket_lookup rt fd =
     (if fd \<le> 0 then None
      else let slot = fd_slot fd in
        if slot \<ge> ss_capacity (rt_sockets rt) then None
        else if se_allocated (sock rt slot) \<and> se_fd (sock rt slot) = fd then Some slot else None)"

definition next_generation :: "u32 \<Rightarrow> nat \<Rightarrow> u32" where
  "next_generation generation i =
     (if generation = of_nat ((INT_MAX - i - 1) div PS_SOCKET_MAX) then 0 else generation + 1)"

definition socket_allocate :: "'d app_runtime \<Rightarrow> u8 \<Rightarrow> nat option \<times> 'd app_runtime" where
  "socket_allocate rt ty =
     (case first_index (\<lambda>s. \<not> se_allocated s) (live_sockets rt) of
        None \<Rightarrow> (None, rt)
      | Some i \<Rightarrow>
          let generation = ss_generations (rt_sockets rt) ! i;
              fd = generation * of_nat PS_SOCKET_MAX + of_nat i + 1;
              rt = rt\<lparr>rt_sockets := (rt_sockets rt)\<lparr>ss_generations :=
                       (ss_generations (rt_sockets rt))[i := next_generation generation i]\<rparr>\<rparr>
          in (Some i, set_sock i (zero_socket\<lparr>se_fd := sint fd, se_allocated := True, se_open := True,
                                   se_type := ty\<rparr>) rt))"

definition socket_bound :: "'d app_runtime \<Rightarrow> u8 \<Rightarrow> u32 \<Rightarrow> u16 \<Rightarrow> nat option" where
  "socket_bound rt ty ip_be port =
     (if port = 0 then None
      else first_index (\<lambda>s. se_allocated s \<and> se_type s = ty \<and> sa_port (se_local s) = port \<and>
             (sa_ip_be (se_local s) = 0 \<or> sa_ip_be (se_local s) = ip_be)) (live_sockets rt))"

definition port_clash :: "ps_socket_entry \<Rightarrow> ps_socket_entry \<Rightarrow> ps_sockaddr \<Rightarrow> bool" where
  "port_clash other s addr \<longleftrightarrow> se_allocated other \<and> se_type other = se_type s \<and>
     sa_port (se_local other) = sa_port addr \<and>
     (sa_ip_be addr = 0 \<or> sa_ip_be (se_local other) = 0 \<or> sa_ip_be addr = sa_ip_be (se_local other))"

definition port_available :: "'d app_runtime \<Rightarrow> nat \<Rightarrow> ps_sockaddr \<Rightarrow> bool" where
  "port_available rt s addr \<longleftrightarrow>
     (\<forall>i\<in>set [0..<length (live_sockets rt)]. i \<noteq> s \<longrightarrow> \<not> port_clash (live_sockets rt ! i) (sock rt s) addr)"

text \<open>
  The search for an ephemeral port: the port tried last (\<open>0\<close> if none was free) and the next
  candidate.  The last argument counts the iterations left.
\<close>

definition next_ephemeral :: "u16 \<Rightarrow> u16" where
  "next_ephemeral port = (if port + 1 < 49152 then 49152 else port + 1)"

fun ephemeral_port :: "'d app_runtime \<Rightarrow> nat \<Rightarrow> u32 \<Rightarrow> u16 \<Rightarrow> nat \<Rightarrow> u16 \<times> u16" where
  "ephemeral_port rt s ip port 0 = (0, port)"
| "ephemeral_port rt s ip port (Suc n) =
     (if port_available rt s \<lparr>sa_ip_be = ip, sa_port = port\<rparr> then (port, next_ephemeral port)
      else ephemeral_port rt s ip (next_ephemeral port) n)"

text \<open>\<open>addr\<close> is \<open>None\<close> for the null pointer.\<close>

definition socket_bind :: "'d app_runtime \<Rightarrow> nat \<Rightarrow> ps_sockaddr option \<Rightarrow> rc \<times> 'd app_runtime" where
  "socket_bind rt s addr =
     (case addr of
        None \<Rightarrow> (Some EINVAL, rt)
      | Some a \<Rightarrow>
          if sa_port (se_local (sock rt s)) \<noteq> 0 then (Some EINVAL, rt)
          else if sa_ip_be a \<noteq> 0 \<and> \<not> netif_is_local_ip rt (sa_ip_be a) then (Some EADDRNOTAVAIL, rt)
          else if sa_port a = 0 then
            (case ephemeral_port rt s (sa_ip_be a) (ss_next_port (rt_sockets rt)) 16384 of (port, nxt) \<Rightarrow>
               let rt = rt\<lparr>rt_sockets := (rt_sockets rt)\<lparr>ss_next_port := nxt\<rparr>\<rparr> in
               if port = 0 then (Some EADDRINUSE, rt)
               else (None, set_sock s ((sock rt s)\<lparr>se_local := a\<lparr>sa_port := port\<rparr>\<rparr>) rt))
          else if \<not> port_available rt s a then (Some EADDRINUSE, rt)
          else (None, set_sock s ((sock rt s)\<lparr>se_local := a\<rparr>) rt))"

definition get :: "'d app_runtime \<Rightarrow> int \<Rightarrow> nat option" where
  "get rt fd = (case socket_lookup rt fd of
     None \<Rightarrow> None | Some s \<Rightarrow> if se_open (sock rt s) then Some s else None)"

subsection \<open>Datagram reception (\<^verbatim>\<open>src/udp.c\<close>)\<close>

definition udp_enqueue :: "udp_endpoint \<Rightarrow> ps_sockaddr \<Rightarrow> u8 list \<Rightarrow> rc \<times> udp_endpoint" where
  "udp_enqueue ep source payload =
     (if length payload > PS_DGRAM_MAX_PAYLOAD then (Some EMSGSIZE, ep)
      else if ep_count ep = PS_DGRAM_QUEUE_SIZE then (Some ENOBUFS, ep)
      else let i = (ep_head ep + ep_count ep) mod PS_DGRAM_QUEUE_SIZE;
               d = ep_queue ep ! i
           in (None, ep\<lparr>ep_queue := (ep_queue ep)[i := \<lparr>dg_source = source, dg_length = of_nat (length payload),
                            dg_payload = memcpy_at (dg_payload d) 0 payload\<rparr>],
                        ep_count := ep_count ep + 1\<rparr>))"

definition udp_deliver ::
    "'d app_runtime \<Rightarrow> u32 \<Rightarrow> u16 \<Rightarrow> ps_sockaddr \<Rightarrow> u8 list \<Rightarrow> rc \<times> 'd app_runtime" where
  "udp_deliver rt local_ip_be port source payload =
     (case socket_bound rt PS_SOCK_DGRAM local_ip_be port of
        None \<Rightarrow> (Some ENOENT, rt)
      | Some i \<Rightarrow>
          let s = sock rt i in
          if sa_port (se_remote s) \<noteq> 0 \<and>
             (sa_port (se_remote s) \<noteq> sa_port source \<or> sa_ip_be (se_remote s) \<noteq> sa_ip_be source)
          then (Some ENOENT, rt)
          else case udp_enqueue (se_udp s) source payload of
            (rc, ep) \<Rightarrow> (rc, set_sock i (s\<lparr>se_udp := ep\<rparr>) rt))"

definition udp_recv :: "udp_endpoint \<Rightarrow> nat \<Rightarrow> (errno + ps_sockaddr \<times> u8 list) \<times> udp_endpoint" where
  "udp_recv ep len =
     (if ep_count ep = 0 then (Inl EAGAIN, ep)
      else let d = ep_queue ep ! ep_head ep in
        if len < unat (dg_length d) then (Inl EMSGSIZE, ep)
        else (Inr (dg_source d, take (unat (dg_length d)) (dg_payload d)),
              ep\<lparr>ep_head := (ep_head ep + 1) mod PS_DGRAM_QUEUE_SIZE, ep_count := ep_count ep - 1\<rparr>))"

subsection \<open>The datagram queue is a bounded FIFO\<close>

definition datagram_ok :: "udp_datagram \<Rightarrow> bool" where
  "datagram_ok d \<longleftrightarrow> length (dg_payload d) = PS_DGRAM_MAX_PAYLOAD \<and> unat (dg_length d) \<le> PS_DGRAM_MAX_PAYLOAD"

definition udp_inv :: "udp_endpoint \<Rightarrow> bool" where
  "udp_inv ep \<longleftrightarrow> length (ep_queue ep) = PS_DGRAM_QUEUE_SIZE \<and> ep_head ep < PS_DGRAM_QUEUE_SIZE \<and>
     ep_count ep \<le> PS_DGRAM_QUEUE_SIZE \<and> (\<forall>d\<in>set (ep_queue ep). datagram_ok d)"

definition datagram :: "udp_datagram \<Rightarrow> ps_sockaddr \<times> u8 list" where
  "datagram d = (dg_source d, take (unat (dg_length d)) (dg_payload d))"

definition udp_abs :: "udp_endpoint \<Rightarrow> (ps_sockaddr \<times> u8 list) list" where
  "udp_abs ep = map datagram (ring_list (ep_queue ep) (ep_head ep) (ep_count ep))"

datatype udp_op = UDP_Deliver ps_sockaddr "u8 list" | UDP_Recv nat

type_synonym udp_result = "errno + (ps_sockaddr \<times> u8 list) option"

primrec udp_step :: "udp_op \<Rightarrow> udp_endpoint \<Rightarrow> udp_result \<times> udp_endpoint" where
  "udp_step (UDP_Deliver source payload) ep =
     (case udp_enqueue ep source payload of
        (Some e, ep) \<Rightarrow> (Inl e, ep) | (None, ep) \<Rightarrow> (Inr None, ep))"
| "udp_step (UDP_Recv len) ep =
     (case udp_recv ep len of (Inl e, ep) \<Rightarrow> (Inl e, ep) | (Inr d, ep) \<Rightarrow> (Inr (Some d), ep))"

text \<open>The specification: a queue of at most 16 datagrams of at most 1472 bytes.\<close>

primrec udp_spec ::
    "udp_op \<Rightarrow> (ps_sockaddr \<times> u8 list) list \<Rightarrow> udp_result \<times> (ps_sockaddr \<times> u8 list) list" where
  "udp_spec (UDP_Deliver source payload) q =
     (if length payload > PS_DGRAM_MAX_PAYLOAD then (Inl EMSGSIZE, q)
      else if length q = PS_DGRAM_QUEUE_SIZE then (Inl ENOBUFS, q)
      else (Inr None, q @ [(source, payload)]))"
| "udp_spec (UDP_Recv len) q =
     (case q of
        [] \<Rightarrow> (Inl EAGAIN, q)
      | d # q' \<Rightarrow> if len < length (snd d) then (Inl EMSGSIZE, q) else (Inr (Some d), q'))"

lemma take_memcpy_start: "length src \<le> length dst \<Longrightarrow> take (length src) (memcpy_at dst 0 src) = src"
  using take_drop_memcpy_at [of 0 src dst] by simp

lemma udp_deliver_step:
  assumes "udp_inv ep"
  shows "udp_inv (snd (udp_step (UDP_Deliver source payload) ep)) \<and>
    udp_spec (UDP_Deliver source payload) (udp_abs ep) =
      (fst (udp_step (UDP_Deliver source payload) ep), udp_abs (snd (udp_step (UDP_Deliver source payload) ep)))"
proof (cases "length payload > PS_DGRAM_MAX_PAYLOAD \<or> ep_count ep = PS_DGRAM_QUEUE_SIZE")
  case True
  then show ?thesis using assms by (auto simp: udp_enqueue_def udp_abs_def)
next
  case False
  let ?i = "(ep_head ep + ep_count ep) mod 16"
  let ?d = "\<lparr>dg_source = source, dg_length = of_nat (length payload),
      dg_payload = memcpy_at (dg_payload (ep_queue ep ! ?i)) 0 payload\<rparr>"
  have len: "length (ep_queue ep) = 16" and all: "\<forall>d\<in>set (ep_queue ep). datagram_ok d"
    using assms by (auto simp: udp_inv_def)
  have i: "?i < length (ep_queue ep)" by (simp add: len)
  then have old: "length (dg_payload (ep_queue ep ! ?i)) = 1472" using all by (auto simp: datagram_ok_def)
  have pl: "unat (of_nat (length payload) :: u16) = length payload"
    using False by (simp add: unat_of_nat)
  have ok: "datagram_ok ?d" using False old by (simp add: datagram_ok_def pl)
  have d: "datagram ?d = (source, payload)"
    using False old by (simp add: datagram_def pl take_memcpy_start)
  have "ring_list ((ep_queue ep)[?i := ?d]) (ep_head ep) (Suc (ep_count ep)) =
      ring_list (ep_queue ep) (ep_head ep) (ep_count ep) @ [?d]"
    using ring_list_push [of "ep_count ep" "ep_queue ep" "ep_head ep" ?d] assms False
    by (simp add: len udp_inv_def)
  moreover have "\<forall>d\<in>set ((ep_queue ep)[?i := ?d]). datagram_ok d"
    by (rule ball_list_update [OF all ok])
  ultimately show ?thesis
    using False assms d by (auto simp: udp_enqueue_def udp_abs_def udp_inv_def Let_def)
qed

lemma udp_recv_step:
  assumes "udp_inv ep"
  shows "udp_inv (snd (udp_step (UDP_Recv len) ep)) \<and>
    udp_spec (UDP_Recv len) (udp_abs ep) =
      (fst (udp_step (UDP_Recv len) ep), udp_abs (snd (udp_step (UDP_Recv len) ep)))"
proof (cases "ep_count ep = 0")
  case True
  then show ?thesis using assms by (simp add: udp_recv_def udp_abs_def)
next
  case False
  have h: "ep_head ep < length (ep_queue ep)" "length (ep_queue ep) = 16"
    using assms by (auto simp: udp_inv_def)
  then have pop: "ring_list (ep_queue ep) (ep_head ep) (ep_count ep) =
      ep_queue ep ! ep_head ep # ring_list (ep_queue ep) ((ep_head ep + 1) mod 16) (ep_count ep - 1)"
    using ring_list_pop [of "ep_count ep" "ep_head ep" "ep_queue ep"] False by simp
  have "datagram_ok (ep_queue ep ! ep_head ep)" using assms h by (auto simp: udp_inv_def)
  then have "length (snd (datagram (ep_queue ep ! ep_head ep))) = unat (dg_length (ep_queue ep ! ep_head ep))"
    by (simp add: datagram_def datagram_ok_def)
  then show ?thesis
    using False assms pop by (auto simp: udp_recv_def udp_abs_def udp_inv_def Let_def datagram_def)
qed

interpretation udpq: refinement udp_inv udp_abs udp_step udp_spec
proof
  fix ep x
  assume inv: "udp_inv ep"
  have "udp_inv (snd (udp_step x ep)) \<and> udp_spec x (udp_abs ep) = (fst (udp_step x ep), udp_abs (snd (udp_step x ep)))"
    by (cases x) (simp_all only: udp_deliver_step [OF inv] udp_recv_step [OF inv])
  then show "udp_inv (snd (udp_step x ep))"
    and "udp_spec x (udp_abs ep) = (fst (udp_step x ep), udp_abs (snd (udp_step x ep)))" by blast+
qed

lemma udp_inv_zero: "udp_inv zero_udp"
  by (simp add: udp_inv_def zero_udp_def datagram_ok_def zero_datagram_def del: replicate.simps)

lemma udp_abs_zero: "udp_abs zero_udp = []"
  by (simp add: udp_abs_def zero_udp_def)

text \<open>
  C24: the receive queue of a datagram socket is a FIFO of at most 16 datagrams: over any sequence
  of deliveries and receptions, what is received is exactly what was delivered, in order and
  uncorrupted; a full queue rejects a delivery with \<open>ENOBUFS\<close>, an oversized one gets \<open>EMSGSIZE\<close>, and
  a reception into a buffer that is too small leaves the datagram queued.
\<close>

theorem udp_queue_is_fifo:
  "fst (run_ops udp_step ops zero_udp) = fst (run_ops udp_spec ops []) \<and>
   udp_abs (snd (run_ops udp_step ops zero_udp)) = snd (run_ops udp_spec ops []) \<and>
   udp_inv (snd (run_ops udp_step ops zero_udp))"
  using udpq.run_refines [OF udp_inv_zero, of ops] udpq.run_inv [OF udp_inv_zero, of ops]
  by (simp add: udp_abs_zero)

subsection \<open>Handles\<close>

definition gen_max :: "nat \<Rightarrow> nat" where
  "gen_max i = (INT_MAX - i - 1) div PS_SOCKET_MAX"

text \<open>The shape of the table: a handle encodes its slot, and the next handle of a slot is positive.\<close>

definition sock_inv :: "'d app_runtime \<Rightarrow> bool" where
  "sock_inv rt \<longleftrightarrow> length (ss_entries (rt_sockets rt)) = PS_SOCKET_MAX \<and>
     length (ss_generations (rt_sockets rt)) = PS_SOCKET_MAX \<and>
     ss_capacity (rt_sockets rt) \<le> PS_SOCKET_MAX \<and>
     (\<forall>i<PS_SOCKET_MAX. unat (ss_generations (rt_sockets rt) ! i) \<le> gen_max i) \<and>
     (\<forall>i< ss_capacity (rt_sockets rt). se_allocated (sock rt i) \<longrightarrow>
        0 < se_fd (sock rt i) \<and> fd_slot (se_fd (sock rt i)) = i)"

lemma sock_inv_lengths [simp]:
  assumes "sock_inv rt"
  shows "length (ss_entries (rt_sockets rt)) = 256" "length (ss_generations (rt_sockets rt)) = 256"
    and "ss_capacity (rt_sockets rt) \<le> 256" "length (live_sockets rt) = ss_capacity (rt_sockets rt)"
  using assms by (auto simp: sock_inv_def live_sockets_def)

lemma live_nth [simp]: "i < ss_capacity (rt_sockets rt) \<Longrightarrow> live_sockets rt ! i = sock rt i"
  by (simp add: live_sockets_def)

lemma sock_set_sock:
  "sock (set_sock i s rt) j = (if i = j \<and> i < length (ss_entries (rt_sockets rt)) then s else sock rt j)"
  by (cases "i < length (ss_entries (rt_sockets rt))") (auto simp: set_sock_def list_update_beyond)

lemma set_sock_simps [simp]:
  "ss_capacity (rt_sockets (set_sock i s rt)) = ss_capacity (rt_sockets rt)"
  "ss_generations (rt_sockets (set_sock i s rt)) = ss_generations (rt_sockets rt)"
  "ss_next_port (rt_sockets (set_sock i s rt)) = ss_next_port (rt_sockets rt)"
  "length (ss_entries (rt_sockets (set_sock i s rt))) = length (ss_entries (rt_sockets rt))"
  by (simp_all add: set_sock_def)

lemma new_fd:
  assumes "i < 256" "unat g \<le> gen_max i"
  shows "0 < sint (g * of_nat PS_SOCKET_MAX + of_nat i + 1 :: u32)"
    and "fd_slot (sint (g * of_nat PS_SOCKET_MAX + of_nat i + 1 :: u32)) = i"
proof -
  have "unat g * 256 \<le> INT_MAX - i - 1"
    using assms(2) by (simp add: gen_max_def less_eq_div_iff_mult_less_eq)
  then have le: "unat g * 256 + i + 1 \<le> INT_MAX" using assms(1) by (simp add: INT_MAX_def)
  have "g * of_nat PS_SOCKET_MAX + of_nat i + 1 = (of_nat (unat g * 256 + i + 1) :: u32)"
    by (simp add: word_of_nat_eq_0_iff)
  moreover have "unat (of_nat (unat g * 256 + i + 1) :: u32) = unat g * 256 + i + 1"
    using le by (simp only: unat_of_nat) (simp add: INT_MAX_def)
  ultimately have u: "unat (g * of_nat PS_SOCKET_MAX + of_nat i + 1 :: u32) = unat g * 256 + i + 1" by metis
  have fd: "sint (g * of_nat PS_SOCKET_MAX + of_nat i + 1 :: u32) = int (unat g * 256 + i + 1)"
    by (subst sint_u32) (use u le in \<open>simp_all add: INT_MAX_def\<close>)
  have "nat (int (unat g * 256 + i + 1) - 1) = unat g * 256 + i"
    by (metis add_diff_cancel_right' nat_int of_nat_1 of_nat_add)
  then show "fd_slot (sint (g * of_nat PS_SOCKET_MAX + of_nat i + 1 :: u32)) = i"
    using assms(1) by (simp only: fd fd_slot_def) simp
  show "0 < sint (g * of_nat PS_SOCKET_MAX + of_nat i + 1 :: u32)" unfolding fd by (simp only: of_nat_0_less_iff)
qed

lemma next_generation_le: "unat g \<le> gen_max i \<Longrightarrow> i < 256 \<Longrightarrow> unat (next_generation g i) \<le> gen_max i"
proof -
  assume a: "unat g \<le> gen_max i" "i < 256"
  have gm: "unat (of_nat (gen_max i) :: u32) = gen_max i"
    by (simp add: unat_of_nat gen_max_def INT_MAX_def)
  show ?thesis
  proof (cases "g = of_nat (gen_max i)")
    case True
    then show ?thesis by (simp add: next_generation_def gen_max_def)
  next
    case False
    then have "unat g \<noteq> gen_max i" using gm by (auto simp: word_unat_eq_iff)
    with a(1) have "unat g < gen_max i" by simp
    moreover have "unat (g + 1) \<le> unat g + 1" by (simp add: unat_word_ariths)
    ultimately show ?thesis using False by (simp add: next_generation_def gen_max_def)
  qed
qed

definition sample_started :: "unit app_runtime" where
  "sample_started = snd (socket_subsystem_init (sample_runtime () None))"

lemma sample_started:
  "socket_subsystem_init (sample_runtime () None) = (None, sample_started)"
  by (simp add: sample_started_def socket_subsystem_init_def sample_runtime_def zero_sockets_def)

lemma socket_allocate_cases:
  obtains "socket_allocate rt ty = (None, rt)" "\<forall>s\<in>set (live_sockets rt). se_allocated s"
  | i where "i < length (live_sockets rt)" "\<not> se_allocated (live_sockets rt ! i)"
      "socket_allocate rt ty = (Some i, set_sock i (zero_socket\<lparr>se_fd :=
          sint (ss_generations (rt_sockets rt) ! i * of_nat PS_SOCKET_MAX + of_nat i + 1 :: u32),
          se_allocated := True, se_open := True, se_type := ty\<rparr>)
        (rt\<lparr>rt_sockets := (rt_sockets rt)\<lparr>ss_generations := (ss_generations (rt_sockets rt))
          [i := next_generation (ss_generations (rt_sockets rt) ! i) i]\<rparr>\<rparr>))"
proof (cases "first_index (\<lambda>s. \<not> se_allocated s) (live_sockets rt)")
  case None
  have "socket_allocate rt ty = (None, rt)" by (simp add: socket_allocate_def None)
  with None that(1) show ?thesis by simp
next
  case (Some i)
  show ?thesis
    using first_indexD [OF Some] that(2) [of i] Some by (simp add: socket_allocate_def Let_def)
qed

lemma sock_invD:
  assumes "sock_inv rt" "i < ss_capacity (rt_sockets rt)" "se_allocated (sock rt i)"
  shows "0 < se_fd (sock rt i)" "fd_slot (se_fd (sock rt i)) = i"
  using assms unfolding sock_inv_def by blast+

lemma sock_invI:
  assumes "length (ss_entries (rt_sockets rt)) = 256" "length (ss_generations (rt_sockets rt)) = 256"
    "ss_capacity (rt_sockets rt) \<le> 256"
    and "\<And>i. i < 256 \<Longrightarrow> unat (ss_generations (rt_sockets rt) ! i) \<le> gen_max i"
    and "\<And>i. i < ss_capacity (rt_sockets rt) \<Longrightarrow> se_allocated (sock rt i) \<Longrightarrow>
      0 < se_fd (sock rt i) \<and> fd_slot (se_fd (sock rt i)) = i"
  shows "sock_inv rt"
  using assms unfolding sock_inv_def by blast

text \<open>The subsystem starts in a good state.\<close>

lemma sock_inv_init:
  assumes "socket_subsystem_init rt = (None, rt')"
  shows "sock_inv rt'" "ss_next_port (rt_sockets rt') = 49152" "ss_capacity (rt_sockets rt') = 256"
    and "i < 256 \<Longrightarrow> sock rt' i = zero_socket"
  using assms by (auto simp: socket_subsystem_init_def zero_sockets_def zero_socket_def nth_replicate
      split: if_splits intro!: sock_invI)

lemma sock_inv_allocate:
  assumes "sock_inv rt" "socket_allocate rt ty = (r, rt')"
  shows "sock_inv rt'"
    and "r = Some i \<Longrightarrow> i < ss_capacity (rt_sockets rt) \<and> \<not> se_allocated (sock rt i) \<and>
      se_allocated (sock rt' i) \<and> se_open (sock rt' i) \<and> 0 < se_fd (sock rt' i) \<and> fd_slot (se_fd (sock rt' i)) = i \<and>
      se_type (sock rt' i) = ty"
    and "r = Some i \<Longrightarrow> j \<noteq> i \<Longrightarrow> sock rt' j = sock rt j"
    and "r = None \<Longrightarrow> rt' = rt"
    and "ss_capacity (rt_sockets rt') = ss_capacity (rt_sockets rt)"
proof -
  let ?g = "\<lambda>i. ss_generations (rt_sockets rt) ! i"
  have all: "sock_inv rt' \<and> (\<forall>i. r = Some i \<longrightarrow> i < ss_capacity (rt_sockets rt) \<and> \<not> se_allocated (sock rt i) \<and>
      se_allocated (sock rt' i) \<and> se_open (sock rt' i) \<and> 0 < se_fd (sock rt' i) \<and> fd_slot (se_fd (sock rt' i)) = i \<and>
      se_type (sock rt' i) = ty \<and> (\<forall>j. j \<noteq> i \<longrightarrow> sock rt' j = sock rt j)) \<and> (r = None \<longrightarrow> rt' = rt) \<and>
      ss_capacity (rt_sockets rt') = ss_capacity (rt_sockets rt)"
  proof (rule socket_allocate_cases [of rt ty])
    fix k
    assume k: "k < length (live_sockets rt)" "\<not> se_allocated (live_sockets rt ! k)"
      and eq: "socket_allocate rt ty = (Some k, set_sock k (zero_socket\<lparr>se_fd :=
          sint (?g k * of_nat PS_SOCKET_MAX + of_nat k + 1 :: u32),
          se_allocated := True, se_open := True, se_type := ty\<rparr>)
        (rt\<lparr>rt_sockets := (rt_sockets rt)\<lparr>ss_generations := (ss_generations (rt_sockets rt))
          [k := next_generation (?g k) k]\<rparr>\<rparr>))"
    have cap: "k < ss_capacity (rt_sockets rt)" "k < 256" "ss_capacity (rt_sockets rt) \<le> 256"
      using k(1) sock_inv_lengths(3,4) [OF assms(1)] by linarith+
    have g: "unat (?g k) \<le> gen_max k" using assms(1) cap unfolding sock_inv_def by blast
    note fd = new_fd [OF cap(2) g]
    have r: "r = Some k" "\<And>j. sock rt' j = (if k = j then zero_socket\<lparr>se_fd :=
          sint (?g k * of_nat PS_SOCKET_MAX + of_nat k + 1 :: u32),
          se_allocated := True, se_open := True, se_type := ty\<rparr> else sock rt j)"
      "rt_sockets rt' = (rt_sockets rt)\<lparr>ss_entries := ss_entries (rt_sockets rt'),
         ss_generations := (ss_generations (rt_sockets rt))[k := next_generation (?g k) k]\<rparr>"
      "length (ss_entries (rt_sockets rt')) = 256"
      using assms(2) eq cap(2) sock_inv_lengths(1) [OF assms(1)]
      by (auto simp: sock_set_sock nth_list_update set_sock_def)
    have gens: "ss_generations (rt_sockets rt') = (ss_generations (rt_sockets rt))[k := next_generation (?g k) k]"
      and caps: "ss_capacity (rt_sockets rt') = ss_capacity (rt_sockets rt)"
      by (subst r(3), simp)+
    have "sock_inv rt'"
    proof (rule sock_invI)
      fix i :: nat assume i: "i < 256"
      then have "unat (?g i) \<le> gen_max i" using assms(1) unfolding sock_inv_def by blast
      then show "unat (ss_generations (rt_sockets rt') ! i) \<le> gen_max i"
        using next_generation_le [OF g cap(2)] i sock_inv_lengths(2) [OF assms(1)]
        by (cases "i = k") (simp_all add: gens)
    next
      fix i assume "i < ss_capacity (rt_sockets rt')" "se_allocated (sock rt' i)"
      then show "0 < se_fd (sock rt' i) \<and> fd_slot (se_fd (sock rt' i)) = i"
        using sock_invD [OF assms(1), of i] fd by (cases "i = k") (simp_all add: r(2) caps)
    qed (use r(4) gens caps cap(3) sock_inv_lengths(2) [OF assms(1)] in simp_all)
    then show ?thesis
      using r(1) k cap fd caps by (simp add: r(2))
  next
    assume "socket_allocate rt ty = (None, rt)"
    then show ?thesis using assms by auto
  qed
  then show "sock_inv rt'" "ss_capacity (rt_sockets rt') = ss_capacity (rt_sockets rt)"
    and "r = Some i \<Longrightarrow> i < ss_capacity (rt_sockets rt) \<and> \<not> se_allocated (sock rt i) \<and>
      se_allocated (sock rt' i) \<and> se_open (sock rt' i) \<and> 0 < se_fd (sock rt' i) \<and> fd_slot (se_fd (sock rt' i)) = i \<and>
      se_type (sock rt' i) = ty"
    and "r = Some i \<Longrightarrow> j \<noteq> i \<Longrightarrow> sock rt' j = sock rt j" and "r = None \<Longrightarrow> rt' = rt" by blast+
qed

lemma socket_lookup_fd:
  assumes "sock_inv rt" "i < ss_capacity (rt_sockets rt)" "se_allocated (sock rt i)"
  shows "socket_lookup rt (se_fd (sock rt i)) = Some i"
  using assms(2,3) sock_invD [OF assms] by (simp add: socket_lookup_def Let_def)

text \<open>
  C25: a new handle is positive, encodes its slot, resolves to the new open socket, and differs from
  the handle of every other live socket; all other sockets keep their handles and contents.
\<close>

theorem socket_allocate_handle:
  assumes "sock_inv rt" "socket_allocate rt ty = (Some i, rt')"
  shows "sock_inv rt' \<and> 0 < se_fd (sock rt' i) \<and> get rt' (se_fd (sock rt' i)) = Some i \<and>
    se_type (sock rt' i) = ty \<and>
    (\<forall>j. j < ss_capacity (rt_sockets rt) \<and> j \<noteq> i \<longrightarrow> sock rt' j = sock rt j \<and>
       (se_allocated (sock rt j) \<longrightarrow> se_fd (sock rt j) \<noteq> se_fd (sock rt' i)))"
proof -
  note a = sock_inv_allocate [OF assms]
  have cap: "i < ss_capacity (rt_sockets rt')" using a(2) [OF refl] a(5) by simp
  have "socket_lookup rt' (se_fd (sock rt' i)) = Some i"
    by (rule socket_lookup_fd [OF a(1) cap]) (use a(2) [OF refl] in simp)
  moreover have "se_fd (sock rt j) \<noteq> se_fd (sock rt' i)"
    if "j < ss_capacity (rt_sockets rt)" "j \<noteq> i" "se_allocated (sock rt j)" for j
    using sock_invD(2) [OF assms(1) that(1,3)] a(2) [OF refl] that(2) by auto
  ultimately show ?thesis using a(1) a(2) [OF refl] a(3) [OF refl] by (simp add: get_def)
qed

lemma sample_allocate:
  "\<exists>rt. socket_allocate sample_started PS_SOCK_DGRAM = (Some 0, rt) \<and> sock_inv rt \<and>
     se_type (sock rt 0) = PS_SOCK_DGRAM \<and> sa_port (se_local (sock rt 0)) = 0 \<and>
     (\<forall>j. 0 < j \<and> j < 256 \<longrightarrow> sock rt j = zero_socket) \<and> ss_capacity (rt_sockets rt) = 256"
proof -
  note init = sock_inv_init [OF sample_started]
  have "first_index (\<lambda>s. \<not> se_allocated s) (live_sockets sample_started) = Some 0"
    using sock_inv_lengths(4) [OF init(1)] init(3,4) by (simp add: first_index_Some zero_socket_def)
  then obtain rt where rt: "socket_allocate sample_started PS_SOCK_DGRAM = (Some 0, rt)"
      "sa_port (se_local (sock rt 0)) = 0"
    using sock_inv_lengths(1) [OF init(1)]
    by (auto simp: socket_allocate_def Let_def sock_set_sock zero_socket_def zero_sockaddr_def)
  note a = sock_inv_allocate [OF init(1) rt(1)]
  show ?thesis
    using rt a(1) a(2) [OF refl] a(3) [OF refl] a(5) init(3,4) by (intro exI [of _ rt]) simp
qed

theorem socket_allocate_handle_witness:
  "\<exists>rt. socket_allocate sample_started PS_SOCK_DGRAM = (Some 0, rt) \<and> get rt (se_fd (sock rt 0)) = Some 0"
proof -
  obtain rt where "socket_allocate sample_started PS_SOCK_DGRAM = (Some 0, rt)" using sample_allocate by blast
  with socket_allocate_handle [OF sock_inv_init(1) [OF sample_started] this] show ?thesis by blast
qed

subsection \<open>Binding\<close>

text \<open>
  No two datagram sockets claim the same traffic: if both are bound to the same port, their
  addresses are different and neither is the wildcard.
\<close>

definition dgram_exclusive :: "'d app_runtime \<Rightarrow> bool" where
  "dgram_exclusive rt \<longleftrightarrow> (\<forall>i j. i < ss_capacity (rt_sockets rt) \<and> j < ss_capacity (rt_sockets rt) \<and> i \<noteq> j \<and>
     se_type (sock rt i) = PS_SOCK_DGRAM \<and> se_allocated (sock rt i) \<and>
     sa_port (se_local (sock rt i)) \<noteq> 0 \<longrightarrow>
     \<not> port_clash (sock rt j) (sock rt i) (se_local (sock rt i)))"

lemma port_availableD:
  assumes "sock_inv rt" "port_available rt s a" "i < ss_capacity (rt_sockets rt)" "i \<noteq> s"
  shows "\<not> port_clash (sock rt i) (sock rt s) a"
  using assms by (auto simp: port_available_def)

lemma ephemeral_port_available:
  "ephemeral_port rt s ip port n = (p, nxt) \<Longrightarrow> p \<noteq> 0 \<Longrightarrow>
     port_available rt s \<lparr>sa_ip_be = ip, sa_port = p\<rparr>"
  by (induction n arbitrary: port) (auto split: if_splits)

text \<open>The outcomes of a successful bind: the socket's local address was available.\<close>

lemma socket_bind_None:
  assumes "socket_bind rt s addr = (None, rt')"
  obtains a l where "addr = Some a" "port_available rt s l" "sa_port l \<noteq> 0" "sa_ip_be l = sa_ip_be a"
    "sa_port a \<noteq> 0 \<longrightarrow> l = a" "sa_port (se_local (sock rt s)) = 0"
    "rt_sockets rt' = (rt_sockets rt)\<lparr>ss_entries := (ss_entries (rt_sockets rt))
       [s := (sock rt s)\<lparr>se_local := l\<rparr>], ss_next_port := ss_next_port (rt_sockets rt')\<rparr>"
    "sa_ip_be l = 0 \<or> netif_is_local_ip rt (sa_ip_be l)"
proof -
  from assms obtain a where a: "addr = Some a" by (cases addr) (auto simp: socket_bind_def)
  show ?thesis
  proof (cases "sa_port a = 0")
    case True
    obtain p nxt where e: "ephemeral_port rt s (sa_ip_be a) (ss_next_port (rt_sockets rt)) 16384 = (p, nxt)"
      by force
    then have p: "p \<noteq> 0" "sa_port (se_local (sock rt s)) = 0"
        "rt' = set_sock s ((sock rt s)\<lparr>se_local := a\<lparr>sa_port := p\<rparr>\<rparr>) (rt\<lparr>rt_sockets := (rt_sockets rt)\<lparr>ss_next_port := nxt\<rparr>\<rparr>)"
        "sa_ip_be a = 0 \<or> netif_is_local_ip rt (sa_ip_be a)"
      using assms True by (auto simp: socket_bind_def a Let_def split: if_splits)
    have "port_available rt s (a\<lparr>sa_port := p\<rparr>)"
      using ephemeral_port_available [OF e p(1)] by (cases a) simp
    then show ?thesis
      using p True by (intro that [OF a, of "a\<lparr>sa_port := p\<rparr>"]) (simp_all add: set_sock_def)
  next
    case False
    then show ?thesis
      using assms by (intro that [OF a, of a]) (auto simp: socket_bind_def a set_sock_def split: if_splits)
  qed
qed

lemma port_clash_sym:
  "port_clash s t (se_local t) \<Longrightarrow> se_allocated t \<Longrightarrow> port_clash t s (se_local s)"
  by (auto simp: port_clash_def)



text \<open>The candidates of the search run through all 16384 ephemeral ports.\<close>

lemma unat_next_ephemeral:
  assumes "49152 \<le> unat port"
  shows "unat (next_ephemeral port) = 49152 + (unat port - 49152 + 1) mod 16384"
proof -
  have "unat port < 2 ^ LENGTH(16)" by (rule unsigned_less)
  then have lt: "unat port < 65536" by simp
  show ?thesis
  proof (cases "unat port = 65535")
    case True
    then have "port + 1 = 0" by (simp add: word_unat_eq_iff unat_word_ariths)
    with True show ?thesis by (simp add: next_ephemeral_def)
  next
    case False
    with lt have "unat (port + 1) = unat port + 1" by (simp add: unat_word_ariths)
    with False lt assms show ?thesis by (simp add: next_ephemeral_def word_less_nat_alt)
  qed
qed

lemma ephemeral_candidates:
  assumes "49152 \<le> unat port"
  shows "unat ((next_ephemeral ^^ k) port) = 49152 + (unat port - 49152 + k) mod 16384"
proof (induction k)
  case 0
  have "unat port < 2 ^ LENGTH(16)" by (rule unsigned_less)
  with assms show ?case by simp
next
  case (Suc k)
  then have "49152 \<le> unat ((next_ephemeral ^^ k) port)" by simp
  from unat_next_ephemeral [OF this] Suc show ?case by (simp add: mod_simps)
qed

lemma ephemeral_port_fails:
  "ephemeral_port rt s ip port n = (0, nxt) \<Longrightarrow> 49152 \<le> unat port \<Longrightarrow> k < n \<Longrightarrow>
     \<not> port_available rt s \<lparr>sa_ip_be = ip, sa_port = (next_ephemeral ^^ k) port\<rparr>"
proof (induction n arbitrary: port k)
  case (Suc n)
  have "49152 \<le> unat (next_ephemeral port)" using unat_next_ephemeral [OF Suc.prems(2)] by simp
  moreover have no: "\<not> port_available rt s \<lparr>sa_ip_be = ip, sa_port = port\<rparr>"
    using Suc.prems(1,2) by (auto split: if_splits)
  ultimately have "\<not> port_available rt s \<lparr>sa_ip_be = ip, sa_port = (next_ephemeral ^^ j) (next_ephemeral port)\<rparr>"
    if "j < n" for j
    using Suc.IH [of "next_ephemeral port" j] Suc.prems(1) that by simp
  with no Suc.prems(3) show ?case by (cases k) (simp_all add: funpow_swap1)
qed simp

lemma ephemeral_port_found:
  assumes "sock_inv rt" "49152 \<le> unat port"
  shows "fst (ephemeral_port rt s ip port 16384) \<noteq> 0"
proof
  assume "fst (ephemeral_port rt s ip port 16384) = 0"
  then obtain nxt where fail: "ephemeral_port rt s ip port 16384 = (0, nxt)" by (metis prod.collapse)
  let ?p = "\<lambda>k. (next_ephemeral ^^ k) port"
  let ?cap = "ss_capacity (rt_sockets rt)"
  have "\<exists>i<?cap. sa_port (se_local (sock rt i)) = ?p k" if "k < 16384" for k
    using ephemeral_port_fails [OF fail assms(2) that] sock_inv_lengths(4) [OF assms(1)]
    by (auto simp: port_available_def port_clash_def)
  then obtain f where f: "\<And>k. k < 16384 \<Longrightarrow> f k < ?cap \<and> sa_port (se_local (sock rt (f k))) = ?p k" by metis
  have "inj_on f {..<16384}"
  proof (rule inj_onI)
    fix k m assume km: "k \<in> {..<16384}" "m \<in> {..<16384}" "f k = f m"
    then have "unat (?p k) = unat (?p m)" using f by (metis lessThan_iff)
    then have "(unat port - 49152 + k) mod 16384 = (unat port - 49152 + m) mod 16384"
      by (simp add: ephemeral_candidates [OF assms(2)])
    with km show "k = m" using ring_index_inj by (metis lessThan_iff)
  qed
  moreover have "f ` {..<16384} \<subseteq> {..<?cap}" using f by auto
  ultimately have "16384 \<le> ?cap" using card_inj_on_le [of f "{..<16384}" "{..<?cap}"] by simp
  with sock_inv_lengths(3) [OF assms(1)] show False by simp
qed

text \<open>
  C27: the search for an ephemeral port always terminates with a port: binding an unbound socket to
  port zero on the wildcard or on a local address never fails, whatever the other sockets are bound
  to, because 16384 candidates cannot all be taken by at most 255 other sockets.
\<close>

theorem ephemeral_bind_succeeds:
  assumes "sock_inv rt" "49152 \<le> unat (ss_next_port (rt_sockets rt))"
    and "sa_port (se_local (sock rt s)) = 0" "sa_port a = 0"
    and "sa_ip_be a = 0 \<or> netif_is_local_ip rt (sa_ip_be a)"
  shows "fst (socket_bind rt s (Some a)) = None"
proof -
  obtain p nxt where e: "ephemeral_port rt s (sa_ip_be a) (ss_next_port (rt_sockets rt)) 16384 = (p, nxt)"
    by force
  with ephemeral_port_found [OF assms(1,2), of s "sa_ip_be a"] have "p \<noteq> 0" by simp
  with e assms(3-5) show ?thesis by (auto simp: socket_bind_def Let_def)
qed

theorem ephemeral_bind_succeeds_witness:
  "fst (socket_bind sample_started 0 (Some zero_sockaddr)) = None"
  using ephemeral_bind_succeeds [of sample_started 0 zero_sockaddr] sock_inv_init [OF sample_started]
  by (simp add: zero_socket_def zero_sockaddr_def)

end
