(* ===== verification/Control_Messages.thy ===== *)
theory Control_Messages
  imports Sockets
begin

text \<open>
  The packets the stack originates on its own behalf: ARP requests (\<^verbatim>\<open>src/nodes/arp.c\<close>) and ICMP
  errors with their rate limit (\<^verbatim>\<open>src/icmp_error.c\<close>), and the event ring of
  \<^verbatim>\<open>src/network_events.c\<close>.

  A function that sends a packet calls \<open>graph_submit\<close> when no node is running and enqueues to the
  active output otherwise.  The nodes call these functions and \<open>graph_submit\<close> runs the nodes; the
  parameter \<open>submit\<close> unties the knot, and theory Dataplane instantiates it with \<open>graph_submit\<close>.
\<close>

type_synonym 'd submit = "node_id \<Rightarrow> node_frame \<Rightarrow> 'd app_runtime \<Rightarrow> 'd app_runtime option"

abbreviation route_query ::
    "'d app_runtime \<Rightarrow> u32 \<Rightarrow> u32 \<Rightarrow> u32 \<Rightarrow> (drop_reason \<times> route_result) option" where
  "route_query rt dst src iif \<equiv> ipv4_route_query rt dst src iif zero_route_result"

subsection \<open>Administrative events\<close>

abbreviation (input) ADM_NEIGH :: u32 where "ADM_NEIGH \<equiv> 7"
abbreviation (input) ADM_ADD :: u32 where "ADM_ADD \<equiv> 2"
abbreviation (input) ADM_REPLACE :: u32 where "ADM_REPLACE \<equiv> 3"
abbreviation (input) ADM_DEL :: u32 where "ADM_DEL \<equiv> 4"

definition event_slot :: "u64 \<Rightarrow> nat" where
  "event_slot seq = unat ((seq - 1) mod of_nat ADMIN_EVENT_MAX)"

definition admin_event_emit :: "u32 \<Rightarrow> u32 \<Rightarrow> u32 \<Rightarrow> 'd app_runtime \<Rightarrow> 'd app_runtime" where
  "admin_event_emit grp ident action rt =
     (case rt_network rt of
        None \<Rightarrow> rt
      | Some c \<Rightarrow>
          let seq = es_sequence (rt_events rt) + 1 in
          rt\<lparr>rt_events := \<lparr>es_sequence = seq,
               es_entries = (es_entries (rt_events rt))[event_slot seq :=
                 zero_event\<lparr>ev_sequence := seq, ev_generation := nc_generation c, ev_group := grp,
                   ev_id := ident, ev_action := action, ev_dev := NET_IIF_NONE\<rparr>]\<rparr>\<rparr>)"

definition admin_neighbour_event :: "u16 \<Rightarrow> u32 \<Rightarrow> u32 \<Rightarrow> 'd app_runtime \<Rightarrow> 'd app_runtime" where
  "admin_neighbour_event dev ip action rt =
     (let rt = admin_event_emit ADM_NEIGH ip action rt in
      case rt_network rt of
        None \<Rightarrow> rt
      | Some _ \<Rightarrow>
          let es = rt_events rt; i = event_slot (es_sequence es) in
          rt\<lparr>rt_events := es\<lparr>es_entries := (es_entries es)[i :=
               (es_entries es ! i)\<lparr>ev_ip := ip, ev_dev := ucast dev\<rparr>]\<rparr>\<rparr>)"

subsection \<open>ARP requests\<close>

definition arp_request ::
    "('d, 'x) dpdk_scheme \<Rightarrow> 'd submit \<Rightarrow> port_state \<Rightarrow> u32 \<Rightarrow> 'd app_runtime \<Rightarrow> 'd app_runtime option" where
  "arp_request D submit port target_ip_be rt =
     (case rte_pktmbuf_alloc D rt of
        (None, rt) \<Rightarrow>
          Some (add_reason DROP_MBUF_ALLOCATION_FAILED 1
            (add_errors NODE_ARP_OUTPUT 1 (add_drops NODE_ARP_OUTPUT 1 rt)))
      | (Some m, rt) \<Rightarrow>
          let ctx = zero_ctx\<lparr>pc_egress_port_id := po_port_id port, pc_next_hop_ip_be := target_ip_be\<rparr> in
          (case rt_active_output rt of
             Some _ \<Rightarrow> map_option snd (enqueue D NODE_ARP_OUTPUT m ctx rt)
           | None \<Rightarrow> submit NODE_ARP_OUTPUT [(m, ctx)] rt))"

subsection \<open>ICMP errors\<close>

text \<open>The division by \<open>interval\<close> is undefined when the timer runs below 10 Hz.\<close>

definition take_token ::
    "('d, 'x) dpdk_scheme \<Rightarrow> icmp_error_state \<Rightarrow> u64 \<Rightarrow> (bool \<times> icmp_error_state) option" where
  "take_token D st now =
     (let interval = d_timer_hz D div ICMP_ERROR_RATE;
          st = (if ie_initialized st then st
                else st\<lparr>ie_initialized := True, ie_last_refill := now, ie_tokens := ICMP_ERROR_BURST\<rparr>)
      in if interval = 0 then None
         else let elapsed = now - ie_last_refill st;
                  refill = elapsed div interval;
                  st = (if refill \<noteq> 0
                        then st\<lparr>ie_tokens := (if refill \<ge> ucast (ICMP_ERROR_BURST - ie_tokens st)
                                  then ICMP_ERROR_BURST else ie_tokens st + ucast refill),
                                ie_last_refill := now - elapsed mod interval\<rparr>
                        else st)
              in if ie_tokens st = 0 then Some (False, st)
                 else Some (True, st\<lparr>ie_tokens := ie_tokens st - 1\<rparr>))"

text \<open>
  A packet handed to the IPv4 output node, with the result the callers test: whether the node
  accepted it.
\<close>

definition output_packet ::
    "('d, 'x) dpdk_scheme \<Rightarrow> 'd submit \<Rightarrow> rte_mbuf \<Rightarrow> packet_ctx \<Rightarrow> 'd app_runtime \<Rightarrow> (bool \<times> 'd app_runtime) option" where
  "output_packet D submit m ctx rt =
     (case rt_active_output rt of
        Some _ \<Rightarrow> enqueue D NODE_IPV4_OUTPUT m ctx rt
      | None \<Rightarrow>
          let before = ns_packets (g_stats (rt_graph rt) NODE_IPV4_OUTPUT) in do {
            rt \<leftarrow> submit NODE_IPV4_OUTPUT [(m, ctx)] rt;
            Some (ns_packets (g_stats (rt_graph rt) NODE_IPV4_OUTPUT) \<noteq> before, rt)
          })"

definition contiguous :: "rte_mbuf \<Rightarrow> bool" where
  "contiguous m \<longleftrightarrow> mb_segs m = 1"

abbreviation data_len :: "rte_mbuf \<Rightarrow> nat" where
  "data_len m \<equiv> length (mb_data m)"

abbreviation l3 :: "packet_ctx \<Rightarrow> nat" where
  "l3 ctx \<equiv> unat (pc_l3_offset ctx)"

abbreviation l4 :: "packet_ctx \<Rightarrow> nat" where
  "l4 ctx \<equiv> unat (pc_l4_offset ctx)"

text \<open>The header length and the total length of the IPv4 packet at an offset.\<close>

definition ihl_of :: "u8 \<Rightarrow> nat" where
  "ihl_of version_ihl = unat (version_ihl AND 0x0f) * 4"

abbreviation be16 :: "u16 \<Rightarrow> nat" where
  "be16 w \<equiv> unat (rte_be_to_cpu_16 w)"

text \<open>RFC 1812 4.3.2.7: whether an error may answer the packet at all.\<close>

definition icmp_error_allowed ::
    "('d, 'x) dpdk_scheme \<Rightarrow> 'd app_runtime \<Rightarrow> rte_mbuf \<Rightarrow> packet_ctx \<Rightarrow> bool option" where
  "icmp_error_allowed D rt m ctx =
     (if \<not> contiguous m \<or> data_len m < l3 ctx + IPV4_HDR then Some False
      else do {
        version_ihl \<leftarrow> rd8 m (l3 ctx);
        total_length \<leftarrow> rd16 m (l3 ctx + 2);
        let ihl = ihl_of version_ihl;
        let total = be16 total_length;
        if drop_bit 4 version_ihl \<noteq> 4 \<or> ihl < IPV4_HDR \<or> total < ihl \<or> data_len m < l3 ctx + total then Some False
        else do {
          header \<leftarrow> rd_bytes m (l3 ctx) ihl;
          src \<leftarrow> rd32 m (l3 ctx + 12);
          dst \<leftarrow> rd32 m (l3 ctx + 16);
          fragment \<leftarrow> rd16 m (l3 ctx + 6);
          if d_ipv4_cksum D header \<noteq> 0 \<or> \<not> ipv4_destination_valid rt src \<or>
             (\<not> netif_is_local_ip rt dst \<and> \<not> ipv4_destination_valid rt dst) \<or>
             (rte_be_to_cpu_16 fragment AND RTE_IPV4_HDR_OFFSET_MASK) \<noteq> 0 then Some False
          else do {
            eth_dst \<leftarrow> rd_bytes m 0 6;
            if l3 ctx \<ge> ETH_HDR \<and> d_multicast_mac D eth_dst then Some False
            else do {
              proto \<leftarrow> rd8 m (l3 ctx + 9);
              if proto \<noteq> IPPROTO_ICMP then Some True
              else if total - ihl < 8 then Some False
              else do {
                icmp_type \<leftarrow> rd8 m (l3 ctx + ihl);
                Some (icmp_type \<notin> {3, 4, 5, 11, 12})
              }
            }
          }
        }
      })"

text \<open>The bytes of the error: the header \<open>icmp_error_hdr\<close> with its checksum, and the quotation.\<close>

definition icmp_error_bytes ::
    "('d, 'x) dpdk_scheme \<Rightarrow> u8 \<Rightarrow> u8 \<Rightarrow> u16 \<Rightarrow> u8 list \<Rightarrow> u8 list" where
  "icmp_error_bytes D ty code mtu quotation =
     (let rest = [0, 0] @ (if ty = 3 \<and> code = 4 then le16_bytes (rte_cpu_to_be_16 mtu) else [0, 0]) @ quotation;
          checksum = NOT (d_raw_cksum D ([ty, code, 0, 0] @ rest))
      in [ty, code] @ le16_bytes checksum @ rest)"

definition icmp_stats :: "(icmp_error_state \<Rightarrow> icmp_error_state) \<Rightarrow> 'd app_runtime \<Rightarrow> 'd app_runtime" where
  "icmp_stats f rt = rt\<lparr>rt_icmp_errors := f (rt_icmp_errors rt)\<rparr>"

definition icmp_suppressed :: "'d app_runtime \<Rightarrow> 'd app_runtime" where
  "icmp_suppressed = icmp_stats (\<lambda>s. s\<lparr>ie_suppressed := ie_suppressed s + 1\<rparr>)"

definition icmp_failed :: "'d app_runtime \<Rightarrow> 'd app_runtime" where
  "icmp_failed = icmp_stats (\<lambda>s. s\<lparr>ie_failed := ie_failed s + 1\<rparr>)"

definition icmp_generated :: "'d app_runtime \<Rightarrow> 'd app_runtime" where
  "icmp_generated = icmp_stats (\<lambda>s. s\<lparr>ie_generated := ie_generated s + 1\<rparr>)"

definition icmp_rate_limited :: "'d app_runtime \<Rightarrow> 'd app_runtime" where
  "icmp_rate_limited = icmp_stats (\<lambda>s. s\<lparr>ie_rate_limited := ie_rate_limited s + 1\<rparr>)"

text \<open>The part of \<open>icmp_send_error\<close> after the token is taken.\<close>

definition icmp_build_error ::
    "('d, 'x) dpdk_scheme \<Rightarrow> 'd submit \<Rightarrow> rte_mbuf \<Rightarrow> packet_ctx \<Rightarrow> u8 \<Rightarrow> u8 \<Rightarrow> u16 \<Rightarrow> 'd app_runtime
       \<Rightarrow> 'd app_runtime option" where
  "icmp_build_error D submit original ctx ty code mtu rt = do {
     version_ihl \<leftarrow> rd8 original (l3 ctx);
     total_length \<leftarrow> rd16 original (l3 ctx + 2);
     src \<leftarrow> rd32 original (l3 ctx + 12);
     dst \<leftarrow> rd32 original (l3 ctx + 16);
     let ihl = ihl_of version_ihl;
     let total = be16 total_length;
     (reason, route) \<leftarrow> route_query rt src (if netif_is_local_ip rt dst then dst else 0) NET_IIF_NONE;
     if reason \<noteq> DROP_NONE \<or> unat (rr_mtu route) < IPV4_HDR + 8 + ihl + min (total - ihl) 8
     then Some (icmp_failed rt)
     else let limit = min (unat (rr_mtu route)) 576; quote = min total (limit - IPV4_HDR - 8) in
       (case rte_pktmbuf_alloc D rt of
          (None, rt) \<Rightarrow> Some (icmp_failed rt)
        | (Some m, rt) \<Rightarrow>
            (case d_append D m (8 + quote) of
               None \<Rightarrow> Some (icmp_failed (rte_pktmbuf_free D m rt))
             | Some m' \<Rightarrow> do {
                 quotation \<leftarrow> rd_bytes original (l3 ctx) quote;
                 m' \<leftarrow> wr_bytes m' (data_len m) (icmp_error_bytes D ty code mtu quotation);
                 port \<leftarrow> netif_by_id rt (rr_netif_id route);
                 (accepted, rt) \<leftarrow> output_packet D submit m' (zero_ctx\<lparr>pc_egress_port_id := po_port_id port,
                     pc_src_ip_be := (if netif_is_local_ip rt dst then dst else rr_source_ip_be route),
                     pc_dst_ip_be := src, pc_next_hop_ip_be := rr_next_hop_be route,
                     pc_ip_protocol := IPPROTO_ICMP\<rparr>) rt;
                 Some (if accepted then icmp_generated rt else icmp_failed rt)
               }))
   }"

definition icmp_send_error ::
    "('d, 'x) dpdk_scheme \<Rightarrow> 'd submit \<Rightarrow> rte_mbuf \<Rightarrow> packet_ctx \<Rightarrow> u8 \<Rightarrow> u8 \<Rightarrow> u16 \<Rightarrow> u64 \<Rightarrow> 'd app_runtime
       \<Rightarrow> 'd app_runtime option" where
  "icmp_send_error D submit original ctx ty code mtu now rt = do {
     allowed \<leftarrow> icmp_error_allowed D rt original ctx;
     if \<not> allowed then Some (icmp_suppressed rt)
     else do {
       (granted, st) \<leftarrow> take_token D (rt_icmp_errors rt) now;
       let rt = rt\<lparr>rt_icmp_errors := st\<rparr>;
       if \<not> granted then Some (icmp_rate_limited rt)
       else icmp_build_error D submit original ctx ty code mtu rt
     }
   }"

end
