(* ===== verification/Resolution.thy ===== *)
theory Resolution
  imports Control_Messages
begin

text \<open>
  Packets that wait for a neighbour's hardware address: \<^verbatim>\<open>src/neighbour_resolution.c\<close>, and the
  administrative operations \<open>neighbour_set\<close> and \<open>neighbour_delete\<close> of \<^verbatim>\<open>src/neighbour.c\<close>.  A
  pointer to a pending entry is its index; \<open>pn_packets\<close> pairs the arrays \<open>packets\<close> and \<open>contexts\<close>.
\<close>

definition set_pending :: "nat \<Rightarrow> pending_neighbour \<Rightarrow> 'd app_runtime \<Rightarrow> 'd app_runtime" where
  "set_pending i p rt = rt\<lparr>rt_pending := (rt_pending rt)[i := p]\<rparr>"

definition release_pending ::
    "('d, 'x) dpdk_scheme \<Rightarrow> 'd submit \<Rightarrow> nat \<Rightarrow> 'd app_runtime \<Rightarrow> 'd app_runtime option" where
  "release_pending D submit i rt =
     (let frame = pn_packets (rt_pending rt ! i);
          rt = set_pending i zero_pending rt
      in case rt_active_output rt of
           Some _ \<Rightarrow> for_each (\<lambda>(m, ctx) rt. map_option snd (enqueue D NODE_ETH_OUTPUT m ctx rt)) frame rt
         | None \<Rightarrow> submit NODE_ETH_OUTPUT frame rt)"

definition discard_packet ::
    "('d, 'x) dpdk_scheme \<Rightarrow> 'd submit \<Rightarrow> drop_reason \<Rightarrow> u64 \<Rightarrow> rte_mbuf \<times> packet_ctx \<Rightarrow> 'd app_runtime
       \<Rightarrow> 'd app_runtime option" where
  "discard_packet D submit reason now = (\<lambda>(m, ctx) rt. do {
     rt \<leftarrow> (if reason = DROP_NEIGHBOUR_RESOLUTION_TIMEOUT \<and> pc_transit ctx
           then icmp_send_error D submit m ctx 3 1 0 now rt else Some rt);
     Some (rte_pktmbuf_free D m (add_bytes NODE_DROP (mb_pkt_len m) rt))
   })"

definition discard_pending ::
    "('d, 'x) dpdk_scheme \<Rightarrow> 'd submit \<Rightarrow> nat \<Rightarrow> drop_reason \<Rightarrow> u64 \<Rightarrow> 'd app_runtime \<Rightarrow> 'd app_runtime option" where
  "discard_pending D submit i reason now rt =
     (let detached = pn_packets (rt_pending rt ! i);
          n = length detached;
          rt = set_pending i zero_pending rt;
          rt = add_packets NODE_DROP n rt;
          rt = add_drops NODE_DROP n rt;
          rt = add_drops NODE_ETH_OUTPUT n rt;
          rt = add_reason reason n rt
      in for_each (discard_packet D submit reason now) detached rt)"

text \<open>
  The search of \<open>neighbour_queue\<close>: the entry of the next hop if there is one, else the first empty
  entry.
\<close>

definition pending_slot :: "pending_neighbour list \<Rightarrow> u16 \<Rightarrow> u32 \<Rightarrow> nat option" where
  "pending_slot ps netif_id next_hop =
     (case first_index (\<lambda>p. pn_packets p \<noteq> [] \<and> pn_netif_id p = netif_id \<and> pn_ip_be p = next_hop) ps of
        Some i \<Rightarrow> Some i
      | None \<Rightarrow> first_index (\<lambda>p. pn_packets p = []) ps)"

definition neighbour_queue ::
    "('d, 'x) dpdk_scheme \<Rightarrow> 'd submit \<Rightarrow> u16 \<Rightarrow> rte_mbuf \<Rightarrow> packet_ctx \<Rightarrow> u64 \<Rightarrow> 'd app_runtime
       \<Rightarrow> (drop_reason \<times> 'd app_runtime) option" where
  "neighbour_queue D submit netif_id m ctx now rt =
     (case pending_slot (rt_pending rt) netif_id (pc_next_hop_ip_be ctx) of
        None \<Rightarrow> Some (DROP_NEIGHBOUR_PENDING_FULL, rt)
      | Some i \<Rightarrow>
          let p = rt_pending rt ! i in
          if length (pn_packets p) = NEIGHBOUR_PENDING_QUEUE_MAX then Some (DROP_NEIGHBOUR_QUEUE_FULL, rt)
          else case netif_by_id rt netif_id of
            None \<Rightarrow> Some (DROP_INVALID_EGRESS, rt)
          | Some port \<Rightarrow>
              if \<not> port_up port \<or> po_port_id port \<noteq> pc_egress_port_id ctx then Some (DROP_INVALID_EGRESS, rt)
              else
                let first = (pn_packets p = []);
                    p = (if first then p\<lparr>pn_netif_id := netif_id, pn_ip_be := pc_next_hop_ip_be ctx,
                                         pn_requests := 1, pn_last_request := now\<rparr> else p);
                    p = p\<lparr>pn_packets := pn_packets p @ [(m, ctx\<lparr>pc_report_acceptance := False\<rparr>)]\<rparr>;
                    rt = set_pending i p rt;
                    rt = (if pc_report_acceptance ctx then rt\<lparr>rt_accepted_sends := rt_accepted_sends rt + 1\<rparr> else rt)
                in do {
                  rt \<leftarrow> (if first then arp_request D submit port (pn_ip_be p) rt else Some rt);
                  Some (DROP_NONE, rt)
                })"

definition neighbour_update ::
    "('d, 'x) dpdk_scheme \<Rightarrow> 'd submit \<Rightarrow> u16 \<Rightarrow> u32 \<Rightarrow> rte_ether_addr \<Rightarrow> 'd app_runtime
       \<Rightarrow> (rc \<times> 'd app_runtime) option" where
  "neighbour_update D submit netif_id ip_be mac rt =
     (let previous = neighbour_lookup (rt_neighbours rt) netif_id ip_be in
      case neighbour_learn (d_valid_mac D) (rt_neighbours rt) netif_id ip_be mac of
        (Some e, table) \<Rightarrow> Some (Some e, rt\<lparr>rt_neighbours := table\<rparr>)
      | (None, table) \<Rightarrow>
          let rt = rt\<lparr>rt_neighbours := table\<rparr>;
              current = neighbour_lookup table netif_id ip_be;
              rt = (if current \<noteq> None \<and> previous \<noteq> current
                    then admin_neighbour_event netif_id ip_be ADM_REPLACE rt else rt)
          in do {
            rt \<leftarrow> for_each (\<lambda>i rt.
                let p = rt_pending rt ! i in
                if pn_packets p \<noteq> [] \<and> pn_netif_id p = netif_id \<and> pn_ip_be p = ip_be
                then release_pending D submit i rt else Some rt)
              [0..<NEIGHBOUR_PENDING_MAX] rt;
            Some (None, rt)
          })"

definition tick_pending ::
    "('d, 'x) dpdk_scheme \<Rightarrow> 'd submit \<Rightarrow> u64 \<Rightarrow> nat \<Rightarrow> 'd app_runtime \<Rightarrow> 'd app_runtime option" where
  "tick_pending D submit now i rt =
     (let p = rt_pending rt ! i in
      if pn_packets p = [] then Some rt
      else case netif_by_id rt (pn_netif_id p) of
        None \<Rightarrow> discard_pending D submit i DROP_INVALID_EGRESS now rt
      | Some port \<Rightarrow>
          if \<not> port_up port then discard_pending D submit i DROP_INVALID_EGRESS now rt
          else if neighbour_lookup (rt_neighbours rt) (pn_netif_id p) (pn_ip_be p) \<noteq> None
          then release_pending D submit i rt
          else if now - pn_last_request p < d_timer_hz D * ARP_RETRY_SECONDS then Some rt
          else if pn_requests p = ARP_MAX_REQUESTS
          then discard_pending D submit i DROP_NEIGHBOUR_RESOLUTION_TIMEOUT now rt
          else arp_request D submit port (pn_ip_be p)
                 (set_pending i (p\<lparr>pn_requests := pn_requests p + 1, pn_last_request := now\<rparr>) rt))"

definition neighbour_tick ::
    "('d, 'x) dpdk_scheme \<Rightarrow> 'd submit \<Rightarrow> u64 \<Rightarrow> 'd app_runtime \<Rightarrow> 'd app_runtime option" where
  "neighbour_tick D submit now rt = for_each (tick_pending D submit now) [0..<NEIGHBOUR_PENDING_MAX] rt"

definition neighbour_fini :: "('d, 'x) dpdk_scheme \<Rightarrow> 'd submit \<Rightarrow> 'd app_runtime \<Rightarrow> 'd app_runtime option" where
  "neighbour_fini D submit rt =
     for_each (\<lambda>i. discard_pending D submit i DROP_NEIGHBOUR_CANCELLED 0) [0..<NEIGHBOUR_PENDING_MAX] rt"

definition neighbour_cancel ::
    "('d, 'x) dpdk_scheme \<Rightarrow> 'd submit \<Rightarrow> u16 \<Rightarrow> u32 \<Rightarrow> 'd app_runtime \<Rightarrow> 'd app_runtime option" where
  "neighbour_cancel D submit dev ip rt =
     for_each (\<lambda>i rt.
         let p = rt_pending rt ! i in
         if pn_packets p \<noteq> [] \<and> pn_netif_id p = dev \<and> (ip = 0 \<or> pn_ip_be p = ip)
         then discard_pending D submit i DROP_NEIGHBOUR_CANCELLED 0 rt else Some rt)
       [0..<NEIGHBOUR_PENDING_MAX] rt"

definition neighbour_set ::
    "('d, 'x) dpdk_scheme \<Rightarrow> 'd submit \<Rightarrow> u16 \<Rightarrow> u32 \<Rightarrow> rte_ether_addr \<Rightarrow> bool \<Rightarrow> 'd app_runtime
       \<Rightarrow> (rc \<times> 'd app_runtime) option" where
  "neighbour_set D submit dev ip mac replace rt =
     (if netif_by_id rt dev = None \<or> \<not> ipv4_destination_valid rt ip \<or> \<not> d_valid_mac D mac then Some (Some EINVAL, rt)
      else case neighbour_put (rt_neighbours rt) dev ip mac replace of
        (Some e, _) \<Rightarrow> Some (Some e, rt)
      | (None, table) \<Rightarrow>
          neighbour_update D submit dev ip mac
            (admin_neighbour_event dev ip (if replace then ADM_REPLACE else ADM_ADD) (rt\<lparr>rt_neighbours := table\<rparr>)))"

definition neighbour_delete ::
    "('d, 'x) dpdk_scheme \<Rightarrow> 'd submit \<Rightarrow> u16 \<Rightarrow> u32 \<Rightarrow> 'd app_runtime \<Rightarrow> (rc \<times> 'd app_runtime) option" where
  "neighbour_delete D submit dev ip rt =
     (case neighbour_unset (rt_neighbours rt) dev ip of
        (Some e, _) \<Rightarrow> Some (Some e, rt)
      | (None, table) \<Rightarrow> do {
          rt \<leftarrow> neighbour_cancel D submit dev ip (admin_neighbour_event dev ip ADM_DEL (rt\<lparr>rt_neighbours := table\<rparr>));
          Some (None, rt)
        })"

end
