(* ===== verification/Tcp.thy ===== *)
theory Tcp
  imports Resolution
begin

text \<open>
  TCP: \<^verbatim>\<open>src/tcp.c\<close>, \<^verbatim>\<open>src/tcp_output.c\<close> and \<^verbatim>\<open>src/tcp_timer.c\<close>.

  A socket pointer is an index \<open>i\<close> of the socket table; \<open>tcp rt i\<close> is its \<open>transport.tcp\<close>.  Sequence
  numbers, lengths and windows keep their widths.  \<open>error\<close> arguments are \<open>None\<close> for \<open>0\<close>.  A copy
  outside the 8192-byte buffers gives \<open>None\<close>; theory Tcp_Safety shows that it cannot happen.
\<close>

abbreviation tcp :: "'d app_runtime \<Rightarrow> nat \<Rightarrow> tcp_connection" where
  "tcp rt i \<equiv> se_tcp (sock rt i)"

definition upd_tcp :: "nat \<Rightarrow> (tcp_connection \<Rightarrow> tcp_connection) \<Rightarrow> 'd app_runtime \<Rightarrow> 'd app_runtime" where
  "upd_tcp i f rt = set_sock i ((sock rt i)\<lparr>se_tcp := f (tcp rt i)\<rparr>) rt"

definition tcp_count :: "(tcp_stats \<Rightarrow> tcp_stats) \<Rightarrow> 'd app_runtime \<Rightarrow> 'd app_runtime" where
  "tcp_count f rt = rt\<lparr>rt_tcp_stats := f (rt_tcp_stats rt)\<rparr>"

abbreviation has_flag :: "u8 \<Rightarrow> u8 \<Rightarrow> bool" where
  "has_flag flags bits \<equiv> flags AND bits \<noteq> 0"

definition before :: "u32 \<Rightarrow> u32 \<Rightarrow> bool" where
  "before a b \<longleftrightarrow> sint (a - b) < 0"

subsection \<open>Look-ups\<close>

definition connection :: "'d app_runtime \<Rightarrow> ps_sockaddr \<Rightarrow> ps_sockaddr \<Rightarrow> nat option" where
  "connection rt local remote =
     first_index (\<lambda>s. se_allocated s \<and> se_type s = PS_SOCK_STREAM \<and> tc_state (se_tcp s) \<noteq> TCP_CLOSED \<and>
         tc_state (se_tcp s) \<noteq> TCP_LISTEN \<and> sa_ip_be (se_local s) = sa_ip_be local \<and>
         sa_port (se_local s) = sa_port local \<and> sa_ip_be (se_remote s) = sa_ip_be remote \<and>
         sa_port (se_remote s) = sa_port remote)
       (live_sockets rt)"

definition listener :: "'d app_runtime \<Rightarrow> ps_sockaddr \<Rightarrow> nat option" where
  "listener rt local =
     first_index (\<lambda>s. se_allocated s \<and> se_open s \<and> se_type s = PS_SOCK_STREAM \<and>
         tc_state (se_tcp s) = TCP_LISTEN \<and> sa_port (se_local s) = sa_port local \<and>
         (sa_ip_be (se_local s) = 0 \<or> sa_ip_be (se_local s) = sa_ip_be local))
       (live_sockets rt)"

subsection \<open>The flight\<close>

definition start_flight :: "('d, 'x) dpdk_scheme \<Rightarrow> u8 \<Rightarrow> u16 \<Rightarrow> u64 \<Rightarrow> tcp_connection \<Rightarrow> tcp_connection" where
  "start_flight D flags len now c =
     c\<lparr>tc_flight_flags := flags, tc_flight_len := len,
       tc_snd_nxt := tc_snd_una c + ucast len + of_bool (has_flag flags (RTE_TCP_SYN_FLAG OR RTE_TCP_FIN_FLAG)),
       tc_rto := d_timer_hz D, tc_deadline := now + d_timer_hz D, tc_retries := 0\<rparr>"

definition initialize :: "('d, 'x) dpdk_scheme \<Rightarrow> nat \<Rightarrow> u64 \<Rightarrow> 'd app_runtime \<Rightarrow> 'd app_runtime" where
  "initialize D i now rt =
     (case rte_rand D rt of (r, rt) \<Rightarrow>
        let isn = ucast r XOR ucast now in
        upd_tcp i (\<lambda>c. c\<lparr>tc_snd_una := isn, tc_snd_nxt := isn, tc_mss := 536, tc_peer_window := 65535\<rparr>) rt)"

definition queued_match :: "ps_socket_entry \<Rightarrow> packet_ctx \<Rightarrow> bool" where
  "queued_match s ctx \<longleftrightarrow> pc_ip_protocol ctx = IPPROTO_TCP \<and> pc_src_ip_be ctx = sa_ip_be (se_local s) \<and>
     pc_dst_ip_be ctx = sa_ip_be (se_remote s) \<and> pc_src_port ctx = sa_port (se_local s) \<and>
     pc_dst_port ctx = sa_port (se_remote s)"

definition cancel_packet :: "('d, 'x) dpdk_scheme \<Rightarrow> rte_mbuf \<Rightarrow> 'd app_runtime \<Rightarrow> 'd app_runtime" where
  "cancel_packet D m rt =
     (let rt = add_packets NODE_DROP 1 rt;
          rt = add_drops NODE_DROP 1 rt;
          rt = add_bytes NODE_DROP (mb_pkt_len m) rt;
          rt = add_drops NODE_ETH_OUTPUT 1 rt;
          rt = add_reason DROP_NEIGHBOUR_CANCELLED 1 rt
      in rte_pktmbuf_free D m rt)"

definition cancel_entry :: "('d, 'x) dpdk_scheme \<Rightarrow> ps_socket_entry \<Rightarrow> nat \<Rightarrow> 'd app_runtime \<Rightarrow> 'd app_runtime" where
  "cancel_entry D s j rt =
     (let p = rt_pending rt ! j;
          keep = filter (\<lambda>(m, ctx). \<not> queued_match s ctx) (pn_packets p);
          rt = fold (\<lambda>(m, ctx) rt. if queued_match s ctx then cancel_packet D m rt else rt) (pn_packets p) rt
      in set_pending j (if keep = [] then zero_pending else p\<lparr>pn_packets := keep\<rparr>) rt)"

definition cancel_queued :: "('d, 'x) dpdk_scheme \<Rightarrow> nat \<Rightarrow> 'd app_runtime \<Rightarrow> 'd app_runtime" where
  "cancel_queued D i rt = fold (cancel_entry D (sock rt i)) [0..<NEIGHBOUR_PENDING_MAX] rt"

definition tcp_fail :: "('d, 'x) dpdk_scheme \<Rightarrow> nat \<Rightarrow> rc \<Rightarrow> 'd app_runtime \<Rightarrow> 'd app_runtime" where
  "tcp_fail D i error rt =
     (let rt = (if tc_state (tcp rt i) \<noteq> TCP_CLOSED
                then tcp_count (\<lambda>s. s\<lparr>ts_closed := ts_closed s + 1\<rparr>) (cancel_queued D i rt) else rt)
      in if \<not> se_open (sock rt i) then set_sock i zero_socket rt
         else set_sock i ((sock rt i)\<lparr>se_error := error, se_tcp := zero_tcp\<rparr>) rt)"

definition tcp_time_wait :: "('d, 'x) dpdk_scheme \<Rightarrow> u64 \<Rightarrow> tcp_connection \<Rightarrow> tcp_connection" where
  "tcp_time_wait D now c =
     c\<lparr>tc_state := TCP_TIME_WAIT, tc_flight_flags := 0, tc_deadline := 0,
       tc_expires := now + TCP_TIME_WAIT_SECONDS * d_timer_hz D\<rparr>"

subsection \<open>Output\<close>

definition tcp_header :: "ps_sockaddr \<Rightarrow> ps_sockaddr \<Rightarrow> u32 \<Rightarrow> u32 \<Rightarrow> u8 \<Rightarrow> u16 \<Rightarrow> u16 \<Rightarrow> u16 \<Rightarrow> u8 list" where
  "tcp_header local remote seq ack flags window cksum mtu =
     le16_bytes (rte_cpu_to_be_16 (sa_port local)) @ le16_bytes (rte_cpu_to_be_16 (sa_port remote)) @
     le32_bytes (rte_cpu_to_be_32 seq) @ le32_bytes (rte_cpu_to_be_32 ack) @
     [if has_flag flags RTE_TCP_SYN_FLAG then 0x60 else 0x50, flags] @ le16_bytes (rte_cpu_to_be_16 window) @
     le16_bytes cksum @ [0, 0] @
     (if has_flag flags RTE_TCP_SYN_FLAG
      then let mss = mtu - 40 in [2, 4, ucast (drop_bit 8 mss), ucast mss] else [])"

definition tcp_segment ::
    "('d, 'x) dpdk_scheme \<Rightarrow> ps_sockaddr \<Rightarrow> ps_sockaddr \<Rightarrow> u32 \<Rightarrow> u32 \<Rightarrow> u8 \<Rightarrow> u16 \<Rightarrow> u16 \<Rightarrow> u8 list \<Rightarrow> u8 list" where
  "tcp_segment D local remote seq ack flags window mtu payload =
     (let unsummed = tcp_header local remote seq ack flags window 0 mtu @ payload;
          pseudo = ipv4_header (rte_cpu_to_be_16 (of_nat (20 + length unsummed))) 0 0 0 IPPROTO_TCP 0
                     (sa_ip_be local) (sa_ip_be remote);
          cksum = d_udptcp_cksum D pseudo unsummed
      in tcp_header local remote seq ack flags window cksum mtu @ payload)"

definition tcp_output_failed :: "'d app_runtime \<Rightarrow> 'd app_runtime" where
  "tcp_output_failed = tcp_count (\<lambda>s. s\<lparr>ts_output_failed := ts_output_failed s + 1\<rparr>)"

definition tcp_emit ::
    "('d, 'x) dpdk_scheme \<Rightarrow> 'd submit \<Rightarrow> ps_sockaddr \<Rightarrow> ps_sockaddr \<Rightarrow> u32 \<Rightarrow> u32 \<Rightarrow> u8 \<Rightarrow> u16 \<Rightarrow> u8 list \<Rightarrow> u16
       \<Rightarrow> 'd app_runtime \<Rightarrow> (rc \<times> 'd app_runtime) option" where
  "tcp_emit D submit local remote seq ack flags window buffer len rt = do {
     (reason, route) \<leftarrow> route_query rt (sa_ip_be remote) (sa_ip_be local) NET_IIF_NONE;
     if reason \<noteq> DROP_NONE then Some (Some (ipv4_route_errno reason), tcp_output_failed rt)
     else let header_len = TCP_HDR + (if has_flag flags RTE_TCP_SYN_FLAG then 4 else 0) in
       if unat (rr_mtu route) < 20 + header_len + unat len then Some (Some EMSGSIZE, tcp_output_failed rt)
       else case rte_pktmbuf_alloc D rt of
         (None, rt) \<Rightarrow> Some (Some ENOMEM, tcp_output_failed rt)
       | (Some m, rt) \<Rightarrow>
           (case d_append D m (header_len + unat len) of
              None \<Rightarrow> Some (Some ENOBUFS, tcp_output_failed (rte_pktmbuf_free D m rt))
            | Some m' \<Rightarrow> do {
                payload \<leftarrow> (if unat len \<le> length buffer then Some (take (unat len) buffer) else None);
                m' \<leftarrow> wr_bytes m' (data_len m) (tcp_segment D local remote seq ack flags window (rr_mtu route) payload);
                port \<leftarrow> netif_by_id rt (rr_netif_id route);
                (accepted, rt) \<leftarrow> output_packet D submit m' (zero_ctx\<lparr>pc_egress_port_id := po_port_id port,
                    pc_src_ip_be := sa_ip_be local, pc_dst_ip_be := sa_ip_be remote,
                    pc_next_hop_ip_be := rr_next_hop_be route, pc_src_port := sa_port local,
                    pc_dst_port := sa_port remote, pc_ip_protocol := IPPROTO_TCP\<rparr>) rt;
                Some (if accepted then (None, tcp_count (\<lambda>s. s\<lparr>ts_sent := ts_sent s + 1\<rparr>) rt)
                      else (Some ENOBUFS, tcp_output_failed rt))
              })
   }"

definition rx_window :: "tcp_connection \<Rightarrow> u16" where
  "rx_window c = of_nat TCP_BUFFER_SIZE - tc_rx_len c"

definition tcp_emit_flight ::
    "('d, 'x) dpdk_scheme \<Rightarrow> 'd submit \<Rightarrow> nat \<Rightarrow> 'd app_runtime \<Rightarrow> (rc \<times> 'd app_runtime) option" where
  "tcp_emit_flight D submit i rt =
     (let s = sock rt i; c = se_tcp s in
      tcp_emit D submit (se_local s) (se_remote s) (tc_snd_una c) (tc_rcv_nxt c) (tc_flight_flags c)
        (rx_window c) (tc_tx c) (tc_flight_len c) rt)"

text \<open>The results of \<open>tcp_emit_flight\<close> and \<open>tcp_emit\<close> are ignored by every caller below.\<close>

definition emit_flight ::
    "('d, 'x) dpdk_scheme \<Rightarrow> 'd submit \<Rightarrow> nat \<Rightarrow> 'd app_runtime \<Rightarrow> 'd app_runtime option" where
  "emit_flight D submit i rt = map_option snd (tcp_emit_flight D submit i rt)"

definition tcp_ack ::
    "('d, 'x) dpdk_scheme \<Rightarrow> 'd submit \<Rightarrow> nat \<Rightarrow> 'd app_runtime \<Rightarrow> 'd app_runtime option" where
  "tcp_ack D submit i rt =
     (let s = sock rt i; c = se_tcp s in
      map_option snd (tcp_emit D submit (se_local s) (se_remote s) (tc_snd_nxt c) (tc_rcv_nxt c)
        RTE_TCP_ACK_FLAG (rx_window c) [] 0 rt))"

definition tcp_kick ::
    "('d, 'x) dpdk_scheme \<Rightarrow> 'd submit \<Rightarrow> nat \<Rightarrow> u64 \<Rightarrow> 'd app_runtime \<Rightarrow> 'd app_runtime option" where
  "tcp_kick D submit i now rt =
     (let s = sock rt i; c = se_tcp s in
      if tc_flight_flags c \<noteq> 0 \<or> (tc_state c \<noteq> TCP_ESTABLISHED \<and> tc_state c \<noteq> TCP_CLOSE_WAIT) then Some rt
      else if tc_peer_window c = 0 \<and> (tc_tx_len c \<noteq> 0 \<or> tc_closing c) then
        Some (if tc_deadline c = 0
              then upd_tcp i (\<lambda>c. c\<lparr>tc_rto := d_timer_hz D, tc_deadline := now + d_timer_hz D, tc_retries := 0\<rparr>) rt
              else rt)
      else if tc_tx_len c \<noteq> 0 then do {
        (reason, route) \<leftarrow> route_query rt (sa_ip_be (se_remote s)) (sa_ip_be (se_local s)) NET_IIF_NONE;
        if reason \<noteq> DROP_NONE \<or> rr_mtu route \<le> 40 then Some (tcp_fail D i (Some (ipv4_route_errno reason)) rt)
        else let len = min (tc_tx_len c) (min (tc_peer_window c) (min (tc_mss c) (rr_mtu route - 40))) in
          emit_flight D submit i (upd_tcp i (start_flight D (RTE_TCP_ACK_FLAG OR RTE_TCP_PSH_FLAG) len now) rt)
      }
      else if tc_closing c then
        emit_flight D submit i (upd_tcp i (\<lambda>c. start_flight D (RTE_TCP_FIN_FLAG OR RTE_TCP_ACK_FLAG) 0 now
          (c\<lparr>tc_state := (if tc_state c = TCP_CLOSE_WAIT then TCP_LAST_ACK else TCP_FIN_WAIT_1)\<rparr>)) rt)
      else Some rt)"

subsection \<open>The operations of the application\<close>

definition tcp_connect ::
    "('d, 'x) dpdk_scheme \<Rightarrow> 'd submit \<Rightarrow> nat \<Rightarrow> ps_sockaddr \<Rightarrow> 'd app_runtime \<Rightarrow> (rc \<times> 'd app_runtime) option" where
  "tcp_connect D submit i addr rt =
     (let s = sock rt i; c = se_tcp s in
      if se_error s \<noteq> None then Some (se_error s, rt)
      else if tc_state c = TCP_SYN_SENT \<or> tc_state c = TCP_SYN_RECEIVED then Some (Some EALREADY, rt)
      else if tc_state c \<noteq> TCP_CLOSED then Some (Some (if tc_state c = TCP_LISTEN then EINVAL else EISCONN), rt)
      else do {
        (reason, route) \<leftarrow> route_query rt (sa_ip_be addr) (sa_ip_be (se_local s)) NET_IIF_NONE;
        if reason \<noteq> DROP_NONE \<or> rr_mtu route < 44 then Some (Some (ipv4_route_errno reason), rt)
        else case (if sa_port (se_local s) = 0 then socket_bind rt i (Some zero_sockaddr) else (None, rt)) of
          (Some e, rt) \<Rightarrow> Some (Some e, rt)
        | (None, rt) \<Rightarrow>
            let s = sock rt i;
                local = (if sa_ip_be (se_local s) = 0 then (se_local s)\<lparr>sa_ip_be := rr_source_ip_be route\<rparr>
                         else se_local s);
                rt = set_sock i (s\<lparr>se_local := local, se_remote := addr\<rparr>) rt
            in case rte_get_timer_cycles D rt of (now, rt) \<Rightarrow>
              let rt = initialize D i now rt;
                  rt = upd_tcp i (\<lambda>c. start_flight D RTE_TCP_SYN_FLAG 0 now (c\<lparr>tc_state := TCP_SYN_SENT\<rparr>)) rt
              in do {
                rt \<leftarrow> emit_flight D submit i rt;
                Some (Some EINPROGRESS, rt)
              }
      })"

definition tcp_listen :: "nat \<Rightarrow> int \<Rightarrow> 'd app_runtime \<Rightarrow> rc \<times> 'd app_runtime" where
  "tcp_listen i backlog rt =
     (let s = sock rt i; c = se_tcp s in
      if backlog \<le> 0 \<or> sa_port (se_local s) = 0 then (Some EINVAL, rt)
      else if tc_state c \<noteq> TCP_CLOSED \<and> tc_state c \<noteq> TCP_LISTEN then (Some EINVAL, rt)
      else (None, upd_tcp i (\<lambda>c. c\<lparr>tc_backlog := of_int (min backlog (int PS_SOCKET_MAX - 1)),
                                   tc_state := TCP_LISTEN\<rparr>) rt))"

definition child_of :: "int \<Rightarrow> ps_socket_entry \<Rightarrow> bool" where
  "child_of fd s \<longleftrightarrow> se_allocated s \<and> se_type s = PS_SOCK_STREAM \<and> tc_parent (se_tcp s) = fd"

definition tcp_accept :: "nat \<Rightarrow> 'd app_runtime \<Rightarrow> (errno + int \<times> ps_sockaddr) \<times> 'd app_runtime" where
  "tcp_accept i rt =
     (if tc_state (tcp rt i) \<noteq> TCP_LISTEN then (Inl EINVAL, rt)
      else case first_index (\<lambda>s. child_of (se_fd (sock rt i)) s \<and>
                  (tc_state (se_tcp s) = TCP_ESTABLISHED \<or> tc_state (se_tcp s) = TCP_CLOSE_WAIT)) (live_sockets rt) of
        None \<Rightarrow> (Inl EAGAIN, rt)
      | Some k \<Rightarrow>
          let child = sock rt k in
          (Inr (se_fd child, se_remote child),
           set_sock k (child\<lparr>se_open := True, se_tcp := (se_tcp child)\<lparr>tc_parent := 0, tc_expires := 0\<rparr>\<rparr>) rt))"

definition close_child ::
    "('d, 'x) dpdk_scheme \<Rightarrow> 'd submit \<Rightarrow> int \<Rightarrow> nat \<Rightarrow> 'd app_runtime \<Rightarrow> 'd app_runtime option" where
  "close_child D submit fd k rt =
     (let child = sock rt k in
      if \<not> child_of fd child then Some rt
      else map_option snd (tcp_emit D submit (se_local child) (se_remote child)
             (tc_snd_nxt (se_tcp child)) (tc_rcv_nxt (se_tcp child)) (RTE_TCP_RST_FLAG OR RTE_TCP_ACK_FLAG) 0 [] 0
             (tcp_fail D k (Some ECONNRESET) rt)))"

definition tcp_close ::
    "('d, 'x) dpdk_scheme \<Rightarrow> 'd submit \<Rightarrow> nat \<Rightarrow> u64 \<Rightarrow> 'd app_runtime \<Rightarrow> 'd app_runtime option" where
  "tcp_close D submit i now rt =
     (let rt = set_sock i ((sock rt i)\<lparr>se_open := False\<rparr>) rt; s = sock rt i; state = tc_state (se_tcp s) in
      if state = TCP_LISTEN then do {
        rt \<leftarrow> for_each (close_child D submit (se_fd s)) [0..<ss_capacity (rt_sockets rt)] rt;
        Some (set_sock i zero_socket rt)
      }
      else if state = TCP_CLOSED \<or> state = TCP_SYN_SENT \<or> state = TCP_SYN_RECEIVED then
        Some (tcp_fail D i (Some ECONNABORTED) rt)
      else tcp_kick D submit i now (upd_tcp i (\<lambda>c. c\<lparr>tc_closing := True\<rparr>) rt))"

definition tcp_send ::
    "('d, 'x) dpdk_scheme \<Rightarrow> 'd submit \<Rightarrow> nat \<Rightarrow> u8 list \<Rightarrow> 'd app_runtime \<Rightarrow> ((errno + nat) \<times> 'd app_runtime) option" where
  "tcp_send D submit i payload rt =
     (let s = sock rt i; c = se_tcp s in
      case se_error s of Some e \<Rightarrow> Some (Inl e, rt)
      | None \<Rightarrow>
        if tc_state c \<noteq> TCP_ESTABLISHED \<and> tc_state c \<noteq> TCP_CLOSE_WAIT then Some (Inl ENOTCONN, rt)
        else if payload = [] then Some (Inr 0, rt)
        else if unat (tc_tx_len c) > TCP_BUFFER_SIZE then None
        else let accepted = min (length payload) (TCP_BUFFER_SIZE - unat (tc_tx_len c)) in
          if accepted = 0 then Some (Inl EAGAIN, rt)
          else
            let rt = upd_tcp i (\<lambda>c. c\<lparr>tc_tx := memcpy_at (tc_tx c) (unat (tc_tx_len c)) (take accepted payload),
                                      tc_tx_len := tc_tx_len c + of_nat accepted\<rparr>) rt
            in case rte_get_timer_cycles D rt of (now, rt) \<Rightarrow> do {
              rt \<leftarrow> tcp_kick D submit i now rt;
              Some (case se_error (sock rt i) of Some e \<Rightarrow> Inl e | None \<Rightarrow> Inr accepted, rt)
            })"

definition tcp_recv ::
    "('d, 'x) dpdk_scheme \<Rightarrow> 'd submit \<Rightarrow> nat \<Rightarrow> nat \<Rightarrow> 'd app_runtime \<Rightarrow> ((errno + u8 list) \<times> 'd app_runtime) option" where
  "tcp_recv D submit i len rt =
     (let s = sock rt i; c = se_tcp s in
      if len = 0 then Some (Inr [], rt)
      else if tc_rx_len c = 0 then
        Some (case se_error s of Some e \<Rightarrow> Inl e
              | None \<Rightarrow> if tc_peer_fin c then Inr []
                        else Inl (if tc_state c = TCP_ESTABLISHED then EAGAIN else ENOTCONN), rt)
      else if unat (tc_rx_len c) > TCP_BUFFER_SIZE then None
      else
        let received = min len (unat (tc_rx_len c));
            left = unat (tc_rx_len c) - received;
            rt = upd_tcp i (\<lambda>c. c\<lparr>tc_rx := memcpy_at (tc_rx c) 0 (take left (drop received (tc_rx c))),
                                  tc_rx_len := of_nat left\<rparr>) rt
        in do {
          rt \<leftarrow> tcp_ack D submit i rt;
          Some (Inr (take received (tc_rx c)), rt)
        })"

subsection \<open>Input\<close>

definition reset_reply ::
    "('d, 'x) dpdk_scheme \<Rightarrow> 'd submit \<Rightarrow> ps_sockaddr \<Rightarrow> ps_sockaddr \<Rightarrow> u32 \<Rightarrow> u32 \<Rightarrow> u8 \<Rightarrow> u16 \<Rightarrow> 'd app_runtime
       \<Rightarrow> 'd app_runtime option" where
  "reset_reply D submit local remote seq ack flags len rt =
     (if has_flag flags RTE_TCP_RST_FLAG then Some rt
      else
        let (response, response_seq, response_ack) =
              (if \<not> has_flag flags RTE_TCP_ACK_FLAG
               then (RTE_TCP_RST_FLAG OR RTE_TCP_ACK_FLAG, 0,
                     seq + ucast len + of_bool (has_flag flags RTE_TCP_SYN_FLAG) + of_bool (has_flag flags RTE_TCP_FIN_FLAG))
               else (RTE_TCP_RST_FLAG, ack, 0))
        in do {
          (_, rt) \<leftarrow> tcp_emit D submit local remote response_seq response_ack response 0 [] 0 rt;
          Some (tcp_count (\<lambda>s. s\<lparr>ts_resets := ts_resets s + 1\<rparr>) rt)
        })"

definition passive_open ::
    "('d, 'x) dpdk_scheme \<Rightarrow> 'd submit \<Rightarrow> nat \<Rightarrow> ps_sockaddr \<Rightarrow> ps_sockaddr \<Rightarrow> u32 \<Rightarrow> u16 \<Rightarrow> u16 \<Rightarrow> u64 \<Rightarrow> 'd app_runtime
       \<Rightarrow> (drop_reason \<times> 'd app_runtime) option" where
  "passive_open D submit listen local remote seq window mss now rt =
     (let parent = sock rt listen;
          pending = length (filter (child_of (se_fd parent)) (live_sockets rt))
      in if pending \<ge> unat (tc_backlog (se_tcp parent)) then Some (DROP_TCP_BACKLOG_FULL, rt)
         else case socket_allocate rt PS_SOCK_STREAM of
           (None, rt) \<Rightarrow> Some (DROP_TCP_BACKLOG_FULL, rt)
         | (Some i, rt) \<Rightarrow>
             let rt = set_sock i ((sock rt i)\<lparr>se_open := False, se_owner := se_owner parent,
                        se_local := local, se_remote := remote\<rparr>) rt;
                 rt = initialize D i now rt;
                 rt = upd_tcp i (\<lambda>c. start_flight D (RTE_TCP_SYN_FLAG OR RTE_TCP_ACK_FLAG) 0 now
                        (c\<lparr>tc_parent := se_fd parent, tc_state := TCP_SYN_RECEIVED, tc_rcv_nxt := seq + 1,
                           tc_peer_window := window, tc_mss := mss, tc_snd_wl1 := seq\<rparr>)) rt
             in do {
               rt \<leftarrow> emit_flight D submit i rt;
               Some (DROP_NONE, tcp_count (\<lambda>s. s\<lparr>ts_syns := ts_syns s + 1\<rparr>) rt)
             })"

text \<open>
  \<open>acknowledge\<close>.  The 16-bit subtractions are modular, as in the code; the copy reads \<open>tx_len\<close>
  bytes from \<open>tx + bytes\<close>.
\<close>

definition ack_flight :: "u32 \<Rightarrow> u64 \<Rightarrow> tcp_connection \<Rightarrow> tcp_connection option" where
  "ack_flight ack now c =
     (let bytes = ack - tc_snd_una c in
      if tc_flight_len c \<noteq> 0 then
        let tx_len = tc_tx_len c - ucast bytes in
        if unat bytes + unat tx_len \<le> TCP_BUFFER_SIZE then
          Some (c\<lparr>tc_tx_len := tx_len, tc_flight_len := tc_flight_len c - ucast bytes,
                  tc_tx := memcpy_at (tc_tx c) 0 (take (unat tx_len) (drop (unat bytes) (tc_tx c))),
                  tc_snd_una := ack, tc_deadline := now + tc_rto c\<rparr>)
        else None
      else Some (c\<lparr>tc_snd_una := ack, tc_deadline := now + tc_rto c\<rparr>))"

definition acknowledge ::
    "('d, 'x) dpdk_scheme \<Rightarrow> nat \<Rightarrow> u32 \<Rightarrow> u64 \<Rightarrow> 'd app_runtime \<Rightarrow> 'd app_runtime option" where
  "acknowledge D i ack now rt =
     (let c = tcp rt i in
      if \<not> before (tc_snd_una c) ack
      then Some (tcp_count (\<lambda>s. s\<lparr>ts_duplicate_acks := ts_duplicate_acks s + 1\<rparr>) rt)
      else do {
        c \<leftarrow> ack_flight ack now c;
        if ack \<noteq> tc_snd_nxt c then Some (upd_tcp i (\<lambda>_. c) rt)
        else
          let flags = tc_flight_flags c;
              c = c\<lparr>tc_flight_flags := 0, tc_deadline := 0, tc_retries := 0\<rparr>;
              rt = upd_tcp i (\<lambda>_. c) rt
          in Some (if \<not> has_flag flags RTE_TCP_FIN_FLAG then rt
                   else if tc_state c = TCP_LAST_ACK then tcp_fail D i None rt
                   else if tc_peer_fin c then upd_tcp i (tcp_time_wait D now) rt
                   else upd_tcp i (\<lambda>c. c\<lparr>tc_state := TCP_FIN_WAIT_2,
                          tc_expires := now + TCP_FIN_WAIT_SECONDS * d_timer_hz D\<rparr>) rt)
      })"

text \<open>A segment as \<open>tcp_input\<close> reads it; \<open>sg_payload\<close> is where its bytes are.\<close>

record segment =
  sg_local :: ps_sockaddr
  sg_remote :: ps_sockaddr
  sg_seq :: u32
  sg_ack :: u32
  sg_window :: u16
  sg_flags :: u8
  sg_len :: u16
  sg_mss :: u16
  sg_mbuf :: rte_mbuf
  sg_payload :: nat

definition input_unknown ::
    "('d, 'x) dpdk_scheme \<Rightarrow> 'd submit \<Rightarrow> segment \<Rightarrow> u64 \<Rightarrow> 'd app_runtime \<Rightarrow> (drop_reason \<times> 'd app_runtime) option" where
  "input_unknown D submit sg now rt =
     (let reset = do {
            rt \<leftarrow> reset_reply D submit (sg_local sg) (sg_remote sg) (sg_seq sg) (sg_ack sg) (sg_flags sg) (sg_len sg) rt;
            Some (DROP_TCP_NO_SOCKET, rt)
          }
      in case listener rt (sg_local sg) of
        None \<Rightarrow> reset
      | Some listen \<Rightarrow>
          if \<not> has_flag (sg_flags sg) RTE_TCP_RST_FLAG \<and> \<not> has_flag (sg_flags sg) RTE_TCP_ACK_FLAG \<and>
             has_flag (sg_flags sg) RTE_TCP_SYN_FLAG
          then passive_open D submit listen (sg_local sg) (sg_remote sg) (sg_seq sg) (sg_window sg) (sg_mss sg) now rt
          else reset)"

definition input_syn_sent ::
    "('d, 'x) dpdk_scheme \<Rightarrow> 'd submit \<Rightarrow> segment \<Rightarrow> nat \<Rightarrow> 'd app_runtime \<Rightarrow> (drop_reason \<times> 'd app_runtime) option" where
  "input_syn_sent D submit sg i rt =
     (let flags = sg_flags sg in
      if has_flag flags RTE_TCP_ACK_FLAG \<and> sg_ack sg \<noteq> tc_snd_nxt (tcp rt i) then do {
        rt \<leftarrow> reset_reply D submit (sg_local sg) (sg_remote sg) (sg_seq sg) (sg_ack sg) flags (sg_len sg) rt;
        Some (DROP_TCP_INVALID_STATE, rt)
      }
      else if has_flag flags RTE_TCP_RST_FLAG then
        Some (DROP_NONE, if has_flag flags RTE_TCP_ACK_FLAG then tcp_fail D i (Some ECONNREFUSED) rt else rt)
      else if flags AND (RTE_TCP_SYN_FLAG OR RTE_TCP_ACK_FLAG) \<noteq> RTE_TCP_SYN_FLAG OR RTE_TCP_ACK_FLAG
      then Some (DROP_TCP_INVALID_STATE, rt)
      else
        let rt = upd_tcp i (\<lambda>c. c\<lparr>tc_rcv_nxt := sg_seq sg + 1, tc_snd_una := sg_ack sg, tc_flight_flags := 0,
                   tc_deadline := 0, tc_mss := sg_mss sg, tc_peer_window := sg_window sg, tc_snd_wl1 := sg_seq sg,
                   tc_snd_wl2 := sg_ack sg, tc_state := TCP_ESTABLISHED\<rparr>) rt;
            rt = tcp_count (\<lambda>s. s\<lparr>ts_established := ts_established s + 1\<rparr>) rt
        in do {
          rt \<leftarrow> tcp_ack D submit i rt;
          Some (DROP_NONE, rt)
        })"

text \<open>The payload of an acceptable segment; the flag says whether all of it was stored.\<close>

definition input_payload :: "segment \<Rightarrow> nat \<Rightarrow> 'd app_runtime \<Rightarrow> (bool \<times> 'd app_runtime) option" where
  "input_payload sg i rt =
     (let c = tcp rt i in
      if tc_peer_fin c \<or> sg_len sg = 0 then Some (True, rt)
      else if unat (tc_rx_len c) > TCP_BUFFER_SIZE then None
      else let received = min (unat (sg_len sg)) (TCP_BUFFER_SIZE - unat (tc_rx_len c)) in do {
        bytes \<leftarrow> rd_bytes (sg_mbuf sg) (sg_payload sg) received;
        Some (received = unat (sg_len sg),
              upd_tcp i (\<lambda>c. c\<lparr>tc_rx := memcpy_at (tc_rx c) (unat (tc_rx_len c)) bytes,
                tc_rx_len := tc_rx_len c + of_nat received, tc_rcv_nxt := tc_rcv_nxt c + of_nat received\<rparr>) rt)
      })"

definition input_fin :: "('d, 'x) dpdk_scheme \<Rightarrow> segment \<Rightarrow> nat \<Rightarrow> u64 \<Rightarrow> 'd app_runtime \<Rightarrow> 'd app_runtime" where
  "input_fin D sg i now rt =
     (let c = tcp rt i in
      if \<not> tc_peer_fin c \<and> has_flag (sg_flags sg) RTE_TCP_FIN_FLAG \<and> unat (tc_rx_len c) < TCP_BUFFER_SIZE then
        let c = c\<lparr>tc_peer_fin := True, tc_rcv_nxt := tc_rcv_nxt c + 1\<rparr> in
        upd_tcp i (\<lambda>_. if tc_state c = TCP_ESTABLISHED then c\<lparr>tc_state := TCP_CLOSE_WAIT\<rparr>
                       else if tc_state c = TCP_FIN_WAIT_2 then tcp_time_wait D now c else c) rt
      else rt)"

text \<open>The window update, the payload and the FIN of an acceptable segment.\<close>

definition input_accept ::
    "('d, 'x) dpdk_scheme \<Rightarrow> 'd submit \<Rightarrow> segment \<Rightarrow> nat \<Rightarrow> u64 \<Rightarrow> 'd app_runtime
       \<Rightarrow> (drop_reason \<times> 'd app_runtime) option" where
  "input_accept D submit sg i now rt = do {
     let rt = upd_tcp i (\<lambda>c.
           if \<not> before (sg_seq sg) (tc_snd_wl1 c) \<and>
              (sg_seq sg \<noteq> tc_snd_wl1 c \<or> \<not> before (sg_ack sg) (tc_snd_wl2 c))
           then c\<lparr>tc_peer_window := sg_window sg, tc_snd_wl1 := sg_seq sg, tc_snd_wl2 := sg_ack sg\<rparr> else c) rt;
     (complete, rt) \<leftarrow> input_payload sg i rt;
     if \<not> complete then do {
       rt \<leftarrow> tcp_ack D submit i rt;
       rt \<leftarrow> tcp_kick D submit i now rt;
       Some (DROP_NONE, rt)
     }
     else do {
       let rt = input_fin D sg i now rt;
       rt \<leftarrow> (if sg_len sg \<noteq> 0 \<or> has_flag (sg_flags sg) RTE_TCP_FIN_FLAG then tcp_ack D submit i rt else Some rt);
       rt \<leftarrow> tcp_kick D submit i now rt;
       Some (DROP_NONE, rt)
     }
   }"

text \<open>A segment whose sequence number is the next one expected.\<close>

definition input_in_order ::
    "('d, 'x) dpdk_scheme \<Rightarrow> 'd submit \<Rightarrow> segment \<Rightarrow> nat \<Rightarrow> u64 \<Rightarrow> 'd app_runtime
       \<Rightarrow> (drop_reason \<times> 'd app_runtime) option" where
  "input_in_order D submit sg i now rt =
     (let c = tcp rt i; flags = sg_flags sg;
          ack_then = (\<lambda>reason. map_option (Pair reason) (tcp_ack D submit i rt))
      in if has_flag flags RTE_TCP_RST_FLAG then
           Some (DROP_NONE, tcp_fail D i (Some ECONNRESET) (tcp_count (\<lambda>s. s\<lparr>ts_resets := ts_resets s + 1\<rparr>) rt))
         else if has_flag flags RTE_TCP_SYN_FLAG then ack_then DROP_TCP_INVALID_STATE
         else if (sg_len sg \<noteq> 0 \<or> has_flag flags RTE_TCP_FIN_FLAG) \<and> tc_rx_len c = of_nat TCP_BUFFER_SIZE
         then ack_then DROP_TCP_OUT_OF_ORDER
         else if \<not> has_flag flags RTE_TCP_ACK_FLAG then Some (DROP_TCP_INVALID_STATE, rt)
         else if before (tc_snd_nxt c) (sg_ack sg) then ack_then DROP_TCP_INVALID_STATE
         else if tc_state c = TCP_SYN_RECEIVED \<and> sg_ack sg \<noteq> tc_snd_nxt c then do {
           rt \<leftarrow> reset_reply D submit (sg_local sg) (sg_remote sg) (sg_seq sg) (sg_ack sg) flags (sg_len sg) rt;
           Some (DROP_TCP_INVALID_STATE, rt)
         }
         else do {
           let rt = (if tc_state c = TCP_SYN_RECEIVED
                     then tcp_count (\<lambda>s. s\<lparr>ts_established := ts_established s + 1\<rparr>)
                            (upd_tcp i (\<lambda>c. c\<lparr>tc_state := TCP_ESTABLISHED, tc_expires := now + 60 * d_timer_hz D\<rparr>) rt)
                     else rt);
           rt \<leftarrow> acknowledge D i (sg_ack sg) now rt;
           if \<not> se_allocated (sock rt i) \<or> tc_state (tcp rt i) = TCP_CLOSED then Some (DROP_NONE, rt)
           else input_accept D submit sg i now rt
         })"

definition input_known ::
    "('d, 'x) dpdk_scheme \<Rightarrow> 'd submit \<Rightarrow> segment \<Rightarrow> nat \<Rightarrow> u64 \<Rightarrow> 'd app_runtime
       \<Rightarrow> (drop_reason \<times> 'd app_runtime) option" where
  "input_known D submit sg i now rt =
     (let c = tcp rt i; flags = sg_flags sg; seq = sg_seq sg; rst = has_flag flags RTE_TCP_RST_FLAG in
      if tc_state c = TCP_SYN_SENT then input_syn_sent D submit sg i rt
      else if tc_state c = TCP_SYN_RECEIVED \<and> has_flag flags RTE_TCP_SYN_FLAG \<and> seq + 1 = tc_rcv_nxt c
      then map_option (Pair DROP_NONE) (emit_flight D submit i rt)
      else if tc_state c = TCP_TIME_WAIT then
        (if rst then Some (DROP_NONE, rt)
         else do {
           rt \<leftarrow> tcp_ack D submit i rt;
           Some (DROP_NONE, if has_flag flags RTE_TCP_FIN_FLAG \<and> seq + ucast (sg_len sg) + 1 = tc_rcv_nxt (tcp rt i)
                            then upd_tcp i (tcp_time_wait D now) rt else rt)
         })
      else if seq \<noteq> tc_rcv_nxt c then do {
        rt \<leftarrow> (if \<not> rst \<or> (\<not> before seq (tc_rcv_nxt c) \<and>
                         before seq (tc_rcv_nxt c + of_nat TCP_BUFFER_SIZE - ucast (tc_rx_len c)))
              then tcp_ack D submit i rt else Some rt);
        Some (DROP_TCP_OUT_OF_ORDER, tcp_count (\<lambda>s. s\<lparr>ts_out_of_order := ts_out_of_order s + 1\<rparr>) rt)
      }
      else input_in_order D submit sg i now rt)"

definition tcp_input ::
    "('d, 'x) dpdk_scheme \<Rightarrow> 'd submit \<Rightarrow> packet_ctx \<Rightarrow> rte_mbuf \<Rightarrow> nat \<Rightarrow> nat \<Rightarrow> u16 \<Rightarrow> u16 \<Rightarrow> u64 \<Rightarrow> 'd app_runtime
       \<Rightarrow> (drop_reason \<times> 'd app_runtime) option" where
  "tcp_input D submit ctx m off header_len len mss now rt = do {
     dst_port \<leftarrow> rd16 m (off + 2);
     src_port \<leftarrow> rd16 m off;
     if \<not> ipv4_destination_valid rt (pc_src_ip_be ctx) then Some (DROP_INVALID_SOURCE, rt)
     else do {
       sent_seq \<leftarrow> rd32 m (off + 4);
       recv_ack \<leftarrow> rd32 m (off + 8);
       rx_win \<leftarrow> rd16 m (off + 14);
       flags \<leftarrow> rd8 m (off + 13);
       let sg = \<lparr>sg_local = \<lparr>sa_ip_be = pc_dst_ip_be ctx, sa_port = rte_be_to_cpu_16 dst_port\<rparr>,
                 sg_remote = \<lparr>sa_ip_be = pc_src_ip_be ctx, sa_port = rte_be_to_cpu_16 src_port\<rparr>,
                 sg_seq = rte_be_to_cpu_32 sent_seq, sg_ack = rte_be_to_cpu_32 recv_ack,
                 sg_window = rte_be_to_cpu_16 rx_win, sg_flags = flags, sg_len = len, sg_mss = mss,
                 sg_mbuf = m, sg_payload = off + header_len\<rparr>;
       case connection rt (sg_local sg) (sg_remote sg) of
         None \<Rightarrow> input_unknown D submit sg now rt
       | Some i \<Rightarrow> input_known D submit sg i now rt
     }
   }"

subsection \<open>Timers\<close>

definition tick_retry :: "('d, 'x) dpdk_scheme \<Rightarrow> u64 \<Rightarrow> tcp_connection \<Rightarrow> tcp_connection" where
  "tick_retry D now c =
     (let rto = min (tc_rto c * 2) (60 * d_timer_hz D) in
      c\<lparr>tc_retries := tc_retries c + 1, tc_rto := rto, tc_deadline := now + rto\<rparr>)"

definition tick_socket ::
    "('d, 'x) dpdk_scheme \<Rightarrow> 'd submit \<Rightarrow> u64 \<Rightarrow> nat \<Rightarrow> 'd app_runtime \<Rightarrow> 'd app_runtime option" where
  "tick_socket D submit now i rt =
     (let s = sock rt i; c = se_tcp s;
          timeout = tcp_count (\<lambda>s. s\<lparr>ts_timeouts := ts_timeouts s + 1\<rparr>)
      in if \<not> se_allocated s \<or> se_type s \<noteq> PS_SOCK_STREAM then Some rt
         else if tc_expires c \<noteq> 0 \<and> now \<ge> tc_expires c then
           Some (if tc_state c = TCP_TIME_WAIT then tcp_fail D i None rt
                 else tcp_fail D i (Some ETIMEDOUT) (timeout rt))
         else if tc_deadline c = 0 \<or> now < tc_deadline c then Some rt
         else if tc_retries c = TCP_MAX_RETRIES then Some (tcp_fail D i (Some ETIMEDOUT) (timeout rt))
         else if tc_flight_flags c \<noteq> 0 then do {
           rt \<leftarrow> emit_flight D submit i rt;
           Some (upd_tcp i (tick_retry D now)
             (tcp_count (\<lambda>s. s\<lparr>ts_retransmissions := ts_retransmissions s + 1\<rparr>) rt))
         }
         else if (tc_tx_len c \<noteq> 0 \<or> tc_closing c) \<and> tc_peer_window c = 0 then do {
           (_, rt) \<leftarrow> tcp_emit D submit (se_local s) (se_remote s) (tc_snd_nxt c - 1) (tc_rcv_nxt c)
             RTE_TCP_ACK_FLAG (rx_window c) [] 0 rt;
           Some (upd_tcp i (tick_retry D now) rt)
         }
         else Some (upd_tcp i (\<lambda>c. c\<lparr>tc_deadline := 0\<rparr>) rt))"

definition tcp_tick ::
    "('d, 'x) dpdk_scheme \<Rightarrow> 'd submit \<Rightarrow> u64 \<Rightarrow> 'd app_runtime \<Rightarrow> 'd app_runtime option" where
  "tcp_tick D submit now rt = for_each (tick_socket D submit now) [0..<ss_capacity (rt_sockets rt)] rt"

definition tcp_timer_progress ::
    "('d, 'x) dpdk_scheme \<Rightarrow> 'd submit \<Rightarrow> u64 \<Rightarrow> 'd app_runtime \<Rightarrow> 'd app_runtime option" where
  "tcp_timer_progress D submit now rt =
     (if now < rt_tcp_timer_next rt then Some rt
      else tcp_tick D submit now (rt\<lparr>rt_tcp_timer_next := now + max 1 (d_timer_hz D div 1000)\<rparr>))"

end
