(* ===== verification/Graph_Inv.thy ===== *)
theory Graph_Inv
  imports Graph
begin

text \<open>
  The frame pool and the scheduling loop of \<^verbatim>\<open>src/graph.c\<close>: the invariant of the pool, and why the
  loop of \<open>graph_submit\<close> ends.

  Every slot of the pool is in exactly one place: free, in the queue, being filled for a node, or held
  by the loop while its frame is processed.  So a slot that is being filled always finds room in the
  queue.  The nodes have ranks, and a running node only fills frames of nodes of lower rank; with at
  most 16 frames in the pool, the sum of \<open>17 ^ rank\<close> over the queue goes down at every step.

  The invariant is relative to what the nodes expect of their packets, a parameter \<open>pre\<close> here.
\<close>

subsection \<open>The invariant of the pool\<close>

definition qlist :: "dp_graph \<Rightarrow> nat list" where
  "qlist g = ring_list (g_queue g) (g_q_head g) (g_q_count g)"

definition qnodes :: "dp_graph \<Rightarrow> node_id list" where
  "qnodes g = map (\<lambda>s. gs_node (g_slots g ! s)) (qlist g)"

type_synonym packet_pre = "node_id \<Rightarrow> rte_mbuf \<times> packet_ctx \<Rightarrow> bool"

definition frame_ok :: "packet_pre \<Rightarrow> graph_frame_slot \<Rightarrow> bool" where
  "frame_ok pre s \<longleftrightarrow> length (gs_frame s) \<le> GRAPH_FRAME_SIZE \<and> (\<forall>p\<in>set (gs_frame s). pre (gs_node s) p)"

definition graph_inv :: "packet_pre \<Rightarrow> nat set \<Rightarrow> node_output \<Rightarrow> dp_graph \<Rightarrow> bool" where
  "graph_inv pre held out g \<longleftrightarrow>
     length (g_slots g) = GRAPH_FRAME_POOL_SIZE \<and> length (g_queue g) = GRAPH_FRAME_POOL_SIZE \<and>
     g_q_head g < GRAPH_FRAME_POOL_SIZE \<and> g_q_count g \<le> GRAPH_FRAME_POOL_SIZE \<and>
     g_q_tail g = (g_q_head g + g_q_count g) mod GRAPH_FRAME_POOL_SIZE \<and>
     distinct (qlist g) \<and> (\<forall>n n' s. out n = Some s \<and> out n' = Some s \<longrightarrow> n = n') \<and>
     set (qlist g) \<inter> ran out = {} \<and> held \<inter> (set (qlist g) \<union> ran out) = {} \<and>
     set (qlist g) \<union> ran out \<union> held = {s. s < GRAPH_FRAME_POOL_SIZE \<and> gs_used (g_slots g ! s)} \<and>
     (\<forall>s\<in>set (qlist g) \<union> ran out. frame_ok pre (g_slots g ! s)) \<and>
     (\<forall>n s. out n = Some s \<longrightarrow> gs_node (g_slots g ! s) = n \<and> length (gs_frame (g_slots g ! s)) < GRAPH_FRAME_SIZE)"

lemma graph_invD:
  assumes "graph_inv pre held out g"
  shows "length (g_slots g) = 16" "length (g_queue g) = 16" "g_q_head g < 16" "g_q_count g \<le> 16"
    and "g_q_tail g = (g_q_head g + g_q_count g) mod 16" "distinct (qlist g)"
    and "out n = Some s \<Longrightarrow> out n' = Some s \<Longrightarrow> n = n'"
    and "set (qlist g) \<inter> ran out = {}" "held \<inter> (set (qlist g) \<union> ran out) = {}"
    and "set (qlist g) \<union> ran out \<union> held = {s. s < 16 \<and> gs_used (g_slots g ! s)}"
    and "t \<in> set (qlist g) \<union> ran out \<Longrightarrow> frame_ok pre (g_slots g ! t)"
    and "out n = Some s \<Longrightarrow> gs_node (g_slots g ! s) = n \<and> length (gs_frame (g_slots g ! s)) < 64"
  using assms unfolding graph_inv_def by blast+

lemma graph_invI:
  assumes "length (g_slots g) = 16" "length (g_queue g) = 16" "g_q_head g < 16" "g_q_count g \<le> 16"
    "g_q_tail g = (g_q_head g + g_q_count g) mod 16" "distinct (qlist g)"
    "\<And>n n' s. out n = Some s \<Longrightarrow> out n' = Some s \<Longrightarrow> n = n'"
    "set (qlist g) \<inter> ran out = {}" "held \<inter> (set (qlist g) \<union> ran out) = {}"
    "set (qlist g) \<union> ran out \<union> held = {s. s < 16 \<and> gs_used (g_slots g ! s)}"
    "\<And>s. s \<in> set (qlist g) \<union> ran out \<Longrightarrow> frame_ok pre (g_slots g ! s)"
    "\<And>n s. out n = Some s \<Longrightarrow> gs_node (g_slots g ! s) = n \<and> length (gs_frame (g_slots g ! s)) < 64"
  shows "graph_inv pre held out g"
  using assms unfolding graph_inv_def by blast

text \<open>The counters are no part of it.\<close>

definition same_pool :: "dp_graph \<Rightarrow> dp_graph \<Rightarrow> bool" where
  "same_pool g g' \<longleftrightarrow> g_slots g' = g_slots g \<and> g_queue g' = g_queue g \<and> g_q_head g' = g_q_head g \<and>
     g_q_tail g' = g_q_tail g \<and> g_q_count g' = g_q_count g"

lemma same_pool_refl [simp]: "same_pool g g"
  by (simp add: same_pool_def)

lemma same_pool_trans: "same_pool g g' \<Longrightarrow> same_pool g' g'' \<Longrightarrow> same_pool g g''"
  by (simp add: same_pool_def)

lemma same_pool_stats [simp]:
  "same_pool g (rt_graph (add_packets n k rt)) = same_pool g (rt_graph rt)"
  "same_pool g (rt_graph (add_bytes n k rt)) = same_pool g (rt_graph rt)"
  "same_pool g (rt_graph (add_drops n k rt)) = same_pool g (rt_graph rt)"
  "same_pool g (rt_graph (add_errors n k rt)) = same_pool g (rt_graph rt)"
  "same_pool g (rt_graph (add_reason r k rt)) = same_pool g (rt_graph rt)"
  by (simp_all add: same_pool_def add_packets_def add_bytes_def add_drops_def add_errors_def add_reason_def add_stats_def)

lemma qlist_same: "same_pool g g' \<Longrightarrow> qlist g' = qlist g"
  by (simp add: same_pool_def qlist_def)

lemma qnodes_same: "same_pool g g' \<Longrightarrow> qnodes g' = qnodes g"
  by (simp add: same_pool_def qnodes_def qlist_def)

lemma graph_inv_same: "same_pool g g' \<Longrightarrow> graph_inv pre held out g' = graph_inv pre held out g"
  unfolding graph_inv_def same_pool_def qlist_def by (elim conjE) (simp only:)

lemma graph_inv_stats [simp]:
  "graph_inv pre held out (rt_graph (add_packets n k rt)) = graph_inv pre held out (rt_graph rt)"
  "graph_inv pre held out (rt_graph (add_bytes n k rt)) = graph_inv pre held out (rt_graph rt)"
  "graph_inv pre held out (rt_graph (add_drops n k rt)) = graph_inv pre held out (rt_graph rt)"
  "graph_inv pre held out (rt_graph (add_errors n k rt)) = graph_inv pre held out (rt_graph rt)"
  "graph_inv pre held out (rt_graph (add_reason r k rt)) = graph_inv pre held out (rt_graph rt)"
  by (rule graph_inv_same, simp)+

lemma qnodes_stats [simp]:
  "qnodes (rt_graph (add_packets n k rt)) = qnodes (rt_graph rt)"
  "qnodes (rt_graph (add_bytes n k rt)) = qnodes (rt_graph rt)"
  "qnodes (rt_graph (add_drops n k rt)) = qnodes (rt_graph rt)"
  "qnodes (rt_graph (add_errors n k rt)) = qnodes (rt_graph rt)"
  "qnodes (rt_graph (add_reason r k rt)) = qnodes (rt_graph rt)"
  by (rule qnodes_same, simp)+

text \<open>A slot that is being filled leaves room in the queue.\<close>

lemma graph_inv_room:
  assumes "graph_inv pre held out g" and "out n = Some s"
  shows "g_q_count g < 16" "s < 16" "s \<notin> set (qlist g)"
proof -
  note D = graph_invD [OF assms(1)]
  have s: "s \<in> ran out" using assms(2) by (auto simp: ran_def)
  have sub: "set (qlist g) \<union> ran out \<subseteq> {..<16}" using D(10) by blast
  then show "s < 16" using s by auto
  show nin: "s \<notin> set (qlist g)" using s D(8) by blast
  have "insert s (set (qlist g)) \<subseteq> {..<16}" using sub s by blast
  then have "card (insert s (set (qlist g))) \<le> 16" using card_mono [of "{..<16::nat}"] by fastforce
  moreover have "card (set (qlist g)) = g_q_count g" using distinct_card [OF D(6)] by (simp add: qlist_def)
  ultimately show "g_q_count g < 16" using nin by simp
qed

lemma graph_inv_length: "graph_inv pre held out g \<Longrightarrow> length (qnodes g) \<le> 16"
  by (simp add: graph_inv_def qnodes_def qlist_def)

subsection \<open>Effects on the graph only\<close>

text \<open>What an operation of the graph may change: the device (freed buffers), the graph, the active output.\<close>

definition graph_effect :: "'d app_runtime \<Rightarrow> 'd app_runtime \<Rightarrow> bool" where
  "graph_effect rt rt' \<longleftrightarrow> rt_ports rt' = rt_ports rt \<and> rt_routes rt' = rt_routes rt \<and> rt_network rt' = rt_network rt \<and>
     rt_acl_stats rt' = rt_acl_stats rt \<and> rt_events rt' = rt_events rt \<and> rt_neighbours rt' = rt_neighbours rt \<and>
     rt_pending rt' = rt_pending rt \<and> rt_sockets rt' = rt_sockets rt \<and> rt_tcp_stats rt' = rt_tcp_stats rt \<and>
     rt_tcp_timer_next rt' = rt_tcp_timer_next rt \<and> rt_icmp_errors rt' = rt_icmp_errors rt \<and>
     rt_ipv4_forwarding rt' = rt_ipv4_forwarding rt \<and>
     rt_neighbour_learn_failures rt' = rt_neighbour_learn_failures rt \<and> rt_next_ip_id rt' = rt_next_ip_id rt \<and>
     rt_tx_packets rt' = rt_tx_packets rt \<and> rt_accepted_sends rt' = rt_accepted_sends rt"

lemmas graph_op_defs = add_packets_def add_bytes_def add_drops_def add_errors_def add_reason_def add_stats_def
  set_graph_def rte_pktmbuf_free_def

lemma graph_effect_refl [simp]: "graph_effect rt rt"
  by (simp add: graph_effect_def)

lemma graph_effect_trans: "graph_effect rt rt' \<Longrightarrow> graph_effect rt' rt'' \<Longrightarrow> graph_effect rt rt''"
  by (simp add: graph_effect_def)

lemma graph_effect_steps [simp]:
  "graph_effect rt (set_graph g rt') = graph_effect rt rt'"
  "graph_effect rt (rte_pktmbuf_free D m rt') = graph_effect rt rt'"
  "graph_effect rt (add_packets n k rt') = graph_effect rt rt'"
  "graph_effect rt (add_bytes n k rt') = graph_effect rt rt'"
  "graph_effect rt (add_drops n k rt') = graph_effect rt rt'"
  "graph_effect rt (add_errors n k rt') = graph_effect rt rt'"
  "graph_effect rt (add_reason r k rt') = graph_effect rt rt'"
  "graph_effect rt (rt'\<lparr>rt_active_output := out\<rparr>) = graph_effect rt rt'"
  by (simp_all add: graph_effect_def graph_op_defs)

lemma graph_op_fields [simp]:
  "rt_graph (set_graph g rt) = g"
  "rt_graph (rte_pktmbuf_free D m rt) = rt_graph rt"
  "rt_active_output (set_graph g rt) = rt_active_output rt"
  "rt_active_output (rte_pktmbuf_free D m rt) = rt_active_output rt"
  "rt_active_output (add_packets n k rt) = rt_active_output rt"
  "rt_active_output (add_bytes n k rt) = rt_active_output rt"
  "rt_active_output (add_drops n k rt) = rt_active_output rt"
  "rt_active_output (add_errors n k rt) = rt_active_output rt"
  "rt_active_output (add_reason r k rt) = rt_active_output rt"
  by (simp_all add: graph_op_defs)

subsection \<open>Taking, filling and queueing a slot\<close>

lemma qlist_slots [simp]: "qlist (g\<lparr>g_slots := s\<rparr>) = qlist g"
  by (simp add: qlist_def)

lemma graph_inv_alloc:
  assumes inv: "graph_inv pre held out g" and "out n = None" and "slot_alloc g = (Some s, g')"
  shows "graph_inv pre held (out(n \<mapsto> s)) (set_slot s (\<lambda>x. x\<lparr>gs_node := n\<rparr>) g')"
    and "qnodes (set_slot s (\<lambda>x. x\<lparr>gs_node := n\<rparr>) g') = qnodes g"
    and "gs_frame (g_slots (set_slot s (\<lambda>x. x\<lparr>gs_node := n\<rparr>) g') ! s) = []"
proof -
  note D = graph_invD [OF inv]
  obtain i where i: "first_index (\<lambda>s. \<not> gs_used s) (g_slots g) = Some i" "i = s"
      "g' = g\<lparr>g_slots := (g_slots g)[s := (g_slots g ! s)\<lparr>gs_used := True, gs_frame := []\<rparr>]\<rparr>"
    using assms(3) by (auto simp: slot_alloc_def split: option.splits)
  have s: "s < 16" "\<not> gs_used (g_slots g ! s)"
    using first_indexD [OF i(1)] D(1) i(2) by auto
  let ?x = "(g_slots g ! s)\<lparr>gs_used := True, gs_frame := [], gs_node := n\<rparr>"
  have g'': "set_slot s (\<lambda>x. x\<lparr>gs_node := n\<rparr>) g' = g\<lparr>g_slots := (g_slots g)[s := ?x]\<rparr>"
    using s(1) D(1) by (simp add: i(3) set_slot_def)
  have fresh: "s \<notin> set (qlist g)" "s \<notin> ran out" "s \<notin> held" using s(2) D(10) by auto
  then have out: "out m \<noteq> Some s" for m by (auto simp: ran_def)
  have ran: "ran (out(n \<mapsto> s)) = insert s (ran out)" using assms(2) by (rule ran_map_upd)
  have nth: "(g_slots g)[s := ?x] ! t = (if t = s then ?x else g_slots g ! t)" for t
    using s(1) D(1) by (simp add: nth_list_update)
  show "graph_inv pre held (out(n \<mapsto> s)) (set_slot s (\<lambda>x. x\<lparr>gs_node := n\<rparr>) g')"
    unfolding g''
  proof (rule graph_invI)
    show "set (qlist (g\<lparr>g_slots := (g_slots g)[s := ?x]\<rparr>)) \<union> ran (out(n \<mapsto> s)) \<union> held =
        {t. t < 16 \<and> gs_used (g_slots (g\<lparr>g_slots := (g_slots g)[s := ?x]\<rparr>) ! t)}"
      using D(10) s(1) unfolding ran by (auto simp: nth)
    show "m = m'" if "(out(n \<mapsto> s)) m = Some t" "(out(n \<mapsto> s)) m' = Some t" for m m' t
      using that out D(7) by (auto split: if_splits)
    show "frame_ok pre (g_slots (g\<lparr>g_slots := (g_slots g)[s := ?x]\<rparr>) ! t)"
      if "t \<in> set (qlist (g\<lparr>g_slots := (g_slots g)[s := ?x]\<rparr>)) \<union> ran (out(n \<mapsto> s))" for t
      using that D(11) unfolding ran by (auto simp: nth frame_ok_def)
    show "gs_node (g_slots (g\<lparr>g_slots := (g_slots g)[s := ?x]\<rparr>) ! t) = m \<and>
        length (gs_frame (g_slots (g\<lparr>g_slots := (g_slots g)[s := ?x]\<rparr>) ! t)) < 64"
      if "(out(n \<mapsto> s)) m = Some t" for m t
      using that out [of m] D(12) by (auto simp: nth split: if_splits)
  qed (use D fresh in \<open>simp_all add: ran\<close>)
  show "qnodes (set_slot s (\<lambda>x. x\<lparr>gs_node := n\<rparr>) g') = qnodes g"
    unfolding g'' qnodes_def using fresh(1) by (auto simp: nth)
  show "gs_frame (g_slots (set_slot s (\<lambda>x. x\<lparr>gs_node := n\<rparr>) g') ! s) = []"
    unfolding g'' by (simp add: nth)
qed

lemma graph_inv_fill:
  assumes inv: "graph_inv pre held out g" and "out n = Some s" and "pre n p"
    and f: "f = gs_frame (g_slots g ! s)" and "length f + 1 < 64"
  shows "graph_inv pre held out (set_slot s (\<lambda>x. x\<lparr>gs_frame := f @ [p]\<rparr>) g)"
    and "qnodes (set_slot s (\<lambda>x. x\<lparr>gs_frame := f @ [p]\<rparr>) g) = qnodes g"
proof -
  note D = graph_invD [OF inv]
  have s: "s < 16" "s \<notin> set (qlist g)" "s \<in> ran out"
    using graph_inv_room [OF inv assms(2)] assms(2) by (auto simp: ran_def)
  let ?x = "(g_slots g ! s)\<lparr>gs_frame := f @ [p]\<rparr>"
  have nth: "(g_slots g)[s := ?x] ! t = (if t = s then ?x else g_slots g ! t)" for t
    using s(1) D(1) by (simp add: nth_list_update)
  have x: "frame_ok pre ?x"
    using D(11) [of s] s(3) assms(3,5) D(12) [OF assms(2)] unfolding frame_ok_def f by auto
  show "graph_inv pre held out (set_slot s (\<lambda>x. x\<lparr>gs_frame := f @ [p]\<rparr>) g)"
    unfolding set_slot_def
  proof (rule graph_invI)
    show "set (qlist (g\<lparr>g_slots := (g_slots g)[s := ?x]\<rparr>)) \<union> ran out \<union> held =
        {t. t < 16 \<and> gs_used (g_slots (g\<lparr>g_slots := (g_slots g)[s := ?x]\<rparr>) ! t)}"
      using D(10) by (auto simp: nth)
    show "frame_ok pre (g_slots (g\<lparr>g_slots := (g_slots g)[s := ?x]\<rparr>) ! t)"
      if "t \<in> set (qlist (g\<lparr>g_slots := (g_slots g)[s := ?x]\<rparr>)) \<union> ran out" for t
      using that D(11) [of t] x by (simp add: nth)
    show "gs_node (g_slots (g\<lparr>g_slots := (g_slots g)[s := ?x]\<rparr>) ! t) = m \<and>
        length (gs_frame (g_slots (g\<lparr>g_slots := (g_slots g)[s := ?x]\<rparr>) ! t)) < 64"
      if "out m = Some t" for m t
      using that D(12) [of m t] assms(5) by (auto simp: nth)
  qed (use D in simp_all)
  show "qnodes (set_slot s (\<lambda>x. x\<lparr>gs_frame := f @ [p]\<rparr>) g) = qnodes g"
    unfolding set_slot_def qnodes_def using s(2) by (auto simp: nth)
qed

lemma graph_inv_queue:
  assumes inv: "graph_inv pre held out g" and "out n = Some s"
    and x: "gs_node x = n" "gs_used x" "frame_ok pre x"
    and g1: "g1 = set_slot s (\<lambda>_. x) g"
  shows "\<exists>g2. queue_slot g1 s = (True, g2) \<and> graph_inv pre held (out(n := None)) g2 \<and> qnodes g2 = qnodes g @ [n]"
proof -
  note D = graph_invD [OF inv]
  note r = graph_inv_room [OF inv assms(2)]
  let ?g2 = "g1\<lparr>g_queue := (g_queue g)[g_q_tail g := s], g_q_tail := (g_q_tail g + 1) mod 16, g_q_count := g_q_count g + 1\<rparr>"
  have q: "queue_slot g1 s = (True, ?g2)"
    using r(1) by (simp add: queue_slot_def g1 set_slot_def)
  have slots: "g_slots ?g2 = (g_slots g)[s := x]" by (simp add: g1 set_slot_def)
  have nth: "(g_slots g)[s := x] ! t = (if t = s then x else g_slots g ! t)" for t
    using r(2) D(1) by (simp add: nth_list_update)
  have ql: "qlist ?g2 = qlist g @ [s]"
    using ring_list_push [of "g_q_count g" "g_queue g" "g_q_head g" s] r(1) D(2,5) by (simp add: qlist_def g1 set_slot_def)
  have others: "out m = Some t \<Longrightarrow> m \<noteq> n \<Longrightarrow> t \<noteq> s" for m t using D(7) [of m t n] assms(2) by blast
  have ran: "ran (out(n := None)) = ran out - {s}" using assms(2) others unfolding ran_def by (auto; metis option.inject)
  have s: "s \<in> ran out" using assms(2) by (auto simp: ran_def)
  have "graph_inv pre held (out(n := None)) ?g2"
  proof (rule graph_invI)
    show "g_q_tail ?g2 = (g_q_head ?g2 + g_q_count ?g2) mod 16"
      by (simp add: g1 set_slot_def D(5) mod_simps)
    show "set (qlist ?g2) \<union> ran (out(n := None)) \<union> held = {t. t < 16 \<and> gs_used (g_slots ?g2 ! t)}"
      using D(10) s x(2) unfolding ql ran slots by (auto simp: nth)
    show "frame_ok pre (g_slots ?g2 ! t)" if "t \<in> set (qlist ?g2) \<union> ran (out(n := None))" for t
      using that D(11) [of t] x(3) unfolding ql ran slots by (auto simp: nth)
    show "gs_node (g_slots ?g2 ! t) = m \<and> length (gs_frame (g_slots ?g2 ! t)) < 64"
      if "(out(n := None)) m = Some t" for m t
      using that D(12) [of m t] others [of m t] unfolding slots by (auto simp: nth split: if_splits)
    show "m = m'" if "(out(n := None)) m = Some t" "(out(n := None)) m' = Some t" for m m' t
      using that D(7) [of m t m'] by (auto split: if_splits)
    show "distinct (qlist ?g2)" using D(6) r(3) unfolding ql by simp
    show "set (qlist ?g2) \<inter> ran (out(n := None)) = {}" "held \<inter> (set (qlist ?g2) \<union> ran (out(n := None))) = {}"
      using D(8,9) s unfolding ql ran by auto
  qed (use D r(1) in \<open>simp_all add: g1 set_slot_def\<close>)
  moreover have "qnodes ?g2 = qnodes g @ [n]"
    unfolding qnodes_def ql slots using r(3) x(1) by (auto simp: nth)
  ultimately show ?thesis using q by blast
qed

lemma flush_pending_ok:
  assumes inv: "graph_inv pre held out (rt_graph rt)"
  shows "\<exists>g. flush_pending D out n rt = (True, out(n := None), set_graph g rt) \<and>
    graph_inv pre held (out(n := None)) g \<and>
    qnodes g = qnodes (rt_graph rt) @ (if out n = None then [] else [n])"
proof (cases "out n")
  case None
  then have "out(n := None) = out" by auto
  then show ?thesis using None inv by (auto simp: flush_pending_def set_graph_def intro: exI [of _ "rt_graph rt"])
next
  case (Some s)
  note D = graph_invD [OF inv]
  have s: "s \<in> ran out" using Some by (auto simp: ran_def)
  have "set_slot s (\<lambda>_. g_slots (rt_graph rt) ! s) (rt_graph rt) = rt_graph rt"
    by (simp add: set_slot_def)
  moreover have "gs_used (g_slots (rt_graph rt) ! s)" using s D(10) by blast
  ultimately obtain g2 where "queue_slot (rt_graph rt) s = (True, g2)" "graph_inv pre held (out(n := None)) g2"
      "qnodes g2 = qnodes (rt_graph rt) @ [n]"
    using graph_inv_queue [OF inv Some, of "g_slots (rt_graph rt) ! s" "rt_graph rt"] D(11) [of s] D(12) [OF Some] s
    by auto
  then show ?thesis using Some by (auto simp: flush_pending_def)
qed

subsection \<open>Enqueueing a packet\<close>

text \<open>What enqueueing packets for \<open>n\<close> may do: fill the frame of \<open>n\<close>, and queue frames of \<open>n\<close>.\<close>

definition enqueued :: "packet_pre \<Rightarrow> nat set \<Rightarrow> node_id \<Rightarrow> node_output \<Rightarrow> dp_graph \<Rightarrow> node_output \<Rightarrow> dp_graph \<Rightarrow> bool" where
  "enqueued pre held n out g out' g' \<longleftrightarrow> graph_inv pre held out' g' \<and> dom out' \<subseteq> insert n (dom out) \<and>
     (\<exists>k. qnodes g' = qnodes g @ replicate k n)"

lemma append_packet_ok:
  assumes inv: "graph_inv pre held out (rt_graph rt)" and "out n = Some s" and "pre n (m, ctx)"
  shows "ok (append_packet D out n s m ctx rt) (\<lambda>(b, out', rt'). enqueued pre held n out (rt_graph rt) out' (rt_graph rt') \<and>
    graph_effect rt rt' \<and> rt_active_output rt' = rt_active_output rt)"
proof -
  note D = graph_invD [OF inv]
  define f where "f = gs_frame (g_slots (rt_graph rt) ! s)"
  define g1 where "g1 = set_slot s (\<lambda>x. x\<lparr>gs_frame := f @ [(m, ctx)]\<rparr>) (rt_graph rt)"
  have s: "s \<in> ran out" using assms(2) by (auto simp: ran_def)
  have len: "length f < 64" using D(12) [OF assms(2)] by (simp add: f_def)
  show ?thesis
  proof (cases "length f + 1 = 64")
    case False
    then have l: "length f + 1 < 64" using len by linarith
    have "enqueued pre held n out (rt_graph rt) out g1"
      using graph_inv_fill [OF inv assms(2,3) f_def l] unfolding enqueued_def g1_def
      by (auto intro: exI [of _ 0])
    then show ?thesis using False len by (simp add: append_packet_def f_def [symmetric] g1_def [symmetric])
  next
    case True
    let ?x = "(g_slots (rt_graph rt) ! s)\<lparr>gs_frame := f @ [(m, ctx)]\<rparr>"
    have "gs_node ?x = n" using D(12) [OF assms(2)] by simp
    moreover have "gs_used ?x" using s D(10) by auto
    moreover have "frame_ok pre ?x"
      using D(11) [of s] s True assms(3) D(12) [OF assms(2)] unfolding frame_ok_def f_def by auto
    ultimately obtain g2 where g2: "queue_slot g1 s = (True, g2)" "graph_inv pre held (out(n := None)) g2"
        "qnodes g2 = qnodes (rt_graph rt) @ [n]"
      using graph_inv_queue [OF inv assms(2), of ?x g1] unfolding g1_def set_slot_def by blast
    have "enqueued pre held n out (rt_graph rt) (out(n := None)) g2"
      using g2(2,3) unfolding enqueued_def by (auto intro: exI [of _ 1])
    then show ?thesis
      using True len g2(1) assms(2) by (simp add: append_packet_def f_def [symmetric] g1_def [symmetric] flush_pending_def)
  qed
qed

lemma node_enqueue_ok:
  assumes inv: "graph_inv pre held out (rt_graph rt)" and "pre n (m, ctx)"
  shows "ok (node_enqueue D out n m ctx rt) (\<lambda>(b, out', rt'). enqueued pre held n out (rt_graph rt) out' (rt_graph rt') \<and>
    graph_effect rt rt' \<and> rt_active_output rt' = rt_active_output rt)"
proof (cases "out n")
  case (Some s)
  then show ?thesis using append_packet_ok [OF inv Some assms(2)] by (simp add: node_enqueue_def)
next
  case None
  obtain r g where a: "slot_alloc (rt_graph rt) = (r, g)" by (cases "slot_alloc (rt_graph rt)")
  show ?thesis
  proof (cases r)
    case None
    let ?rt = "add_errors n 1 (add_drops n 1 (add_reason DROP_GRAPH_FULL 1 rt))"
    have "enqueued pre held n out (rt_graph rt) out (rt_graph ?rt)"
      using inv unfolding enqueued_def by (auto intro: exI [of _ 0])
    then show ?thesis using \<open>out n = None\<close> a None by (simp add: node_enqueue_def)
  next
    case (Some s)
    let ?g = "set_slot s (\<lambda>x. x\<lparr>gs_node := n\<rparr>) g"
    note al = graph_inv_alloc [OF inv \<open>out n = None\<close> a [unfolded Some]]
    have "ok (append_packet D (out(n \<mapsto> s)) n s m ctx (set_graph ?g rt)) (\<lambda>(b, out', rt').
        enqueued pre held n (out(n \<mapsto> s)) ?g out' (rt_graph rt') \<and> graph_effect (set_graph ?g rt) rt' \<and>
        rt_active_output rt' = rt_active_output rt)"
      using append_packet_ok [of pre held "out(n \<mapsto> s)" "set_graph ?g rt" n s m ctx D] al(1) assms(2) by simp
    then have "ok (append_packet D (out(n \<mapsto> s)) n s m ctx (set_graph ?g rt)) (\<lambda>(b, out', rt').
        enqueued pre held n out (rt_graph rt) out' (rt_graph rt') \<and> graph_effect rt rt' \<and>
        rt_active_output rt' = rt_active_output rt)"
    proof (rule ok_mono, clarify)
      fix b out' rt'
      assume e: "enqueued pre held n (out(n \<mapsto> s)) ?g out' (rt_graph rt')" and "graph_effect (set_graph ?g rt) rt'"
        and ao: "rt_active_output rt' = rt_active_output rt"
      moreover have "graph_effect rt (set_graph ?g rt)" by simp
      ultimately have "graph_effect rt rt'" using graph_effect_trans by blast
      moreover have "enqueued pre held n out (rt_graph rt) out' (rt_graph rt')"
        using e unfolding enqueued_def al(2) by auto
      ultimately show "enqueued pre held n out (rt_graph rt) out' (rt_graph rt') \<and> graph_effect rt rt' \<and>
          rt_active_output rt' = rt_active_output rt" using ao by blast
    qed
    then show ?thesis using \<open>out n = None\<close> a Some by (simp add: node_enqueue_def)
  qed
qed

subsection \<open>A running node\<close>

text \<open>
  The rank of a node: what a node sends goes to nodes of lower rank.
\<close>

primrec rank :: "node_id \<Rightarrow> nat" where
  "rank NODE_DROP = 0"
| "rank NODE_TX = 1"
| "rank NODE_ARP_OUTPUT = 2"
| "rank NODE_ETH_OUTPUT = 3"
| "rank NODE_IPV4_OUTPUT = 4"
| "rank NODE_UDP_OUTPUT = 5"
| "rank NODE_IPV4_FORWARD = 5"
| "rank NODE_ICMP_INPUT = 5"
| "rank NODE_UDP_INPUT = 5"
| "rank NODE_TCP_INPUT = 5"
| "rank NODE_IPV4_ROUTE = 6"
| "rank NODE_IPV4_ACL = 6"
| "rank NODE_IPV4_INPUT = 7"
| "rank NODE_ARP_INPUT = 7"
| "rank NODE_ETH_INPUT = 8"

text \<open>
  \<open>in_node pre w h old rt\<close>: a node of rank \<open>w\<close> is running on the frame in slot \<open>h\<close>, the frames of
  \<open>old\<close> were in the queue before, and everything added since is for nodes of lower rank.
\<close>

definition in_node :: "packet_pre \<Rightarrow> nat \<Rightarrow> nat set \<Rightarrow> node_id list \<Rightarrow> 'd app_runtime \<Rightarrow> bool" where
  "in_node pre w held old rt \<longleftrightarrow> (\<exists>out new. rt_active_output rt = Some out \<and> graph_inv pre held out (rt_graph rt) \<and>
     qnodes (rt_graph rt) = old @ new \<and> (\<forall>n\<in>set new. rank n < w) \<and> (\<forall>n\<in>dom out. rank n < w))"

lemma in_node_cong:
  assumes "in_node pre w held old rt" and "same_pool (rt_graph rt) (rt_graph rt')"
    and "rt_active_output rt' = rt_active_output rt"
  shows "in_node pre w held old rt'"
  using assms(1) unfolding in_node_def assms(3) graph_inv_same [OF assms(2)] qnodes_same [OF assms(2)] .

lemma in_node_active: "in_node pre w held old rt \<Longrightarrow> rt_active_output rt \<noteq> None"
  by (auto simp: in_node_def)

lemma enqueue_ok:
  assumes "in_node pre w held old rt" and "rank n < w" and "pre n (m, ctx)"
  shows "ok (enqueue D n m ctx rt) (\<lambda>(b, rt'). in_node pre w held old rt' \<and> graph_effect rt rt')"
proof -
  obtain out new where a: "rt_active_output rt = Some out" "graph_inv pre held out (rt_graph rt)"
      "qnodes (rt_graph rt) = old @ new" "\<forall>n\<in>set new. rank n < w" "\<forall>n\<in>dom out. rank n < w"
    using assms(1) by (auto simp: in_node_def)
  have "in_node pre w held old (rt'\<lparr>rt_active_output := Some out'\<rparr>)"
    if e: "enqueued pre held n out (rt_graph rt) out' (rt_graph rt')" for out' rt'
  proof -
    obtain k where "qnodes (rt_graph rt') = old @ (new @ replicate k n)" and d: "dom out' \<subseteq> insert n (dom out)"
      and i: "graph_inv pre held out' (rt_graph rt')" using e a(3) unfolding enqueued_def by auto
    moreover have "\<forall>x\<in>set (new @ replicate k n). rank x < w" using a(4) assms(2) by auto
    moreover have "\<forall>x\<in>dom out'. rank x < w" using d a(5) assms(2) by auto
    ultimately show ?thesis unfolding in_node_def by (intro exI [of _ out'] exI [of _ "new @ replicate k n"]) simp
  qed
  then show ?thesis
    using node_enqueue_ok [OF a(2), of n m ctx D] assms(3)
    by (auto simp: enqueue_def a(1) ok_bind_iff elim!: ok_mono)
qed

lemma graph_drop_ok:
  assumes "in_node pre w held old rt" and "0 < w" and "\<And>p. pre NODE_DROP p"
  shows "ok (graph_drop D owner m ctx reason error rt) (\<lambda>rt'. in_node pre w held old rt' \<and> graph_effect rt rt')"
proof -
  let ?rt = "add_drops owner 1 rt" and ?rt' = "add_errors owner 1 (add_drops owner 1 rt)"
  have i: "in_node pre w held old (if error then ?rt' else ?rt)"
    using assms(1) by (auto intro: in_node_cong)
  have e: "graph_effect rt (if error then ?rt' else ?rt)" by simp
  have "rank NODE_DROP < w" using assms(2) by simp
  then have "ok (enqueue D NODE_DROP m (ctx\<lparr>pc_drop_reason := reason\<rparr>) (if error then ?rt' else ?rt))
      (\<lambda>(b, rt'). in_node pre w held old rt' \<and> graph_effect rt rt')"
    by (rule ok_mono [OF enqueue_ok [OF i _ assms(3)]]) (use e in \<open>auto intro: graph_effect_trans\<close>)
  then show ?thesis
    using in_node_active [OF assms(1)] by (cases error) (auto simp: graph_drop_def ok_iff)
qed

subsection \<open>The loop ends\<close>

definition weight :: "node_id list \<Rightarrow> nat" where
  "weight ns = sum_list (map (\<lambda>n. 17 ^ rank n) ns)"

lemma weight_lower: "\<forall>n\<in>set ns. rank n < w \<Longrightarrow> weight ns * 17 \<le> length ns * 17 ^ w"
proof (induction ns)
  case (Cons n ns)
  then have "17 ^ rank n * 17 \<le> (17 :: nat) ^ w"
    using power_increasing [of "Suc (rank n)" w "17 :: nat"] by simp
  with Cons show ?case by (simp add: weight_def)
qed (simp add: weight_def)

lemma weight_step:
  assumes "\<forall>n\<in>set new. rank n < w" and "length new \<le> 16"
  shows "weight (old @ new) < weight old + 17 ^ w"
proof -
  have "weight new * 17 \<le> 16 * 17 ^ w" using weight_lower [OF assms(1)] assms(2) mult_le_mono1 le_trans by blast
  then have "weight new < 17 ^ w" using zero_less_power [of "17 :: nat" w] by linarith
  then show ?thesis by (simp add: weight_def)
qed

lemma flush_nodes_ok:
  assumes "graph_inv pre held out (rt_graph rt)"
  shows "\<exists>g new. snd (fold (\<lambda>n (out, rt). snd (flush_pending D out n rt)) ns (out, rt)) = set_graph g rt \<and>
    fst (fold (\<lambda>n (out, rt). snd (flush_pending D out n rt)) ns (out, rt)) = out |` (- set ns) \<and>
    graph_inv pre held (out |` (- set ns)) g \<and> qnodes g = qnodes (rt_graph rt) @ new \<and> set new \<subseteq> dom out"
  using assms
proof (induction ns arbitrary: out rt)
  case Nil
  have "set_graph (rt_graph rt) rt = rt" by (simp add: set_graph_def)
  then show ?case using Nil by (auto intro!: exI [of _ "rt_graph rt"] exI [of _ "[]"])
next
  case (Cons n ns)
  obtain g1 where g1: "flush_pending D out n rt = (True, out(n := None), set_graph g1 rt)"
      "graph_inv pre held (out(n := None)) g1" "qnodes g1 = qnodes (rt_graph rt) @ (if out n = None then [] else [n])"
    using flush_pending_ok [OF Cons.prems, of D n] by blast
  have "graph_inv pre held (out(n := None)) (rt_graph (set_graph g1 rt))" using g1(2) by simp
  from Cons.IH [OF this, unfolded graph_op_fields] obtain g new where
    g: "snd (fold (\<lambda>n (out, rt). snd (flush_pending D out n rt)) ns (out(n := None), set_graph g1 rt)) =
        set_graph g (set_graph g1 rt)"
      "fst (fold (\<lambda>n (out, rt). snd (flush_pending D out n rt)) ns (out(n := None), set_graph g1 rt)) =
        (out(n := None)) |` (- set ns)"
      "graph_inv pre held ((out(n := None)) |` (- set ns)) g" "qnodes g = qnodes g1 @ new" "set new \<subseteq> dom (out(n := None))"
    by blast
  have restr: "(out(n := None)) |` (- set ns) = out |` (- set (n # ns))" by (auto simp: restrict_map_def)
  have "set_graph g (set_graph g1 rt) = set_graph g rt" by (simp add: set_graph_def)
  then show ?case
    using g g1 unfolding restr
    by (intro exI [of _ g] exI [of _ "(if out n = None then [] else [n]) @ new"]) auto
qed

lemma flush_all_ok:
  assumes "graph_inv pre held out (rt_graph rt)"
  shows "\<exists>g new. flush_all D out rt = set_graph g rt \<and> graph_inv pre held no_pending g \<and>
    qnodes g = qnodes (rt_graph rt) @ new \<and> set new \<subseteq> dom out"
proof -
  have "out |` (- set node_ids) = no_pending" by (auto simp: no_pending_def restrict_map_def)
  then show ?thesis using flush_nodes_ok [OF assms, of D node_ids] by (auto simp: flush_all_def)
qed

subsection \<open>One step of the loop\<close>

lemma graph_inv_pop:
  assumes inv: "graph_inv pre {} no_pending g" and "g_q_count g \<noteq> 0"
  defines "s \<equiv> g_queue g ! g_q_head g"
  defines "g1 \<equiv> g\<lparr>g_q_head := (g_q_head g + 1) mod 16, g_q_count := g_q_count g - 1\<rparr>"
  shows "graph_inv pre {s} no_pending g1" and "qnodes g = gs_node (g_slots g ! s) # qnodes g1"
    and "frame_ok pre (g_slots g ! s)"
proof -
  note D = graph_invD [OF inv]
  have ql: "qlist g = s # qlist g1"
    using ring_list_pop [of "g_q_count g" "g_q_head g" "g_queue g"] assms(2) D(2,3) by (simp add: qlist_def g1_def s_def)
  show "graph_inv pre {s} no_pending g1"
  proof (rule graph_invI)
    show "g_q_tail g1 = (g_q_head g1 + g_q_count g1) mod 16" 
    proof -
      obtain k where "g_q_count g = Suc k" using assms(2) not0_implies_Suc by blast
      then show ?thesis using D(5) by (simp add: g1_def mod_simps)
    qed
    show "set (qlist g1) \<union> ran no_pending \<union> {s} = {t. t < 16 \<and> gs_used (g_slots g1 ! t)}"
      using D(10) by (auto simp: ql no_pending_def g1_def)
    show "frame_ok pre (g_slots g1 ! t)" if "t \<in> set (qlist g1) \<union> ran no_pending" for t
      using that D(11) [of t] by (auto simp: ql no_pending_def g1_def)
  qed (use D ql in \<open>auto simp: g1_def no_pending_def\<close>)
  show "qnodes g = gs_node (g_slots g ! s) # qnodes g1" unfolding qnodes_def ql by (simp add: g1_def)
  show "frame_ok pre (g_slots g ! s)" using D(11) [of s] by (simp add: ql)
qed

lemma graph_inv_release:
  assumes inv: "graph_inv pre {s} out g"
  shows "graph_inv pre {} out (set_slot s (\<lambda>x. x\<lparr>gs_used := False\<rparr>) g)"
    and "qnodes (set_slot s (\<lambda>x. x\<lparr>gs_used := False\<rparr>) g) = qnodes g"
proof -
  note D = graph_invD [OF inv]
  let ?x = "(g_slots g ! s)\<lparr>gs_used := False\<rparr>"
  have s: "s < 16" "s \<notin> set (qlist g)" "s \<notin> ran out" using D(9,10) by auto
  have nth: "(g_slots g)[s := ?x] ! t = (if t = s then ?x else g_slots g ! t)" for t
    using s(1) D(1) by (simp add: nth_list_update)
  show "graph_inv pre {} out (set_slot s (\<lambda>x. x\<lparr>gs_used := False\<rparr>) g)"
    unfolding set_slot_def
  proof (rule graph_invI)
    have "set (qlist g) \<union> ran out = {t. t < 16 \<and> gs_used (g_slots g ! t)} - {s}" using D(10) s by blast
    then show "set (qlist (g\<lparr>g_slots := (g_slots g)[s := ?x]\<rparr>)) \<union> ran out \<union> {} =
        {t. t < 16 \<and> gs_used (g_slots (g\<lparr>g_slots := (g_slots g)[s := ?x]\<rparr>) ! t)}"
      by (auto simp: nth)
    show "frame_ok pre (g_slots (g\<lparr>g_slots := (g_slots g)[s := ?x]\<rparr>) ! t)"
      if "t \<in> set (qlist (g\<lparr>g_slots := (g_slots g)[s := ?x]\<rparr>)) \<union> ran out" for t
      using that D(11) [of t] s by (auto simp: nth)
    show "gs_node (g_slots (g\<lparr>g_slots := (g_slots g)[s := ?x]\<rparr>) ! t) = m \<and>
        length (gs_frame (g_slots (g\<lparr>g_slots := (g_slots g)[s := ?x]\<rparr>) ! t)) < 64"
      if "out m = Some t" for m t
      using that D(12) [of m t] by (auto simp: nth)
  qed (use D in simp_all)
  show "qnodes (set_slot s (\<lambda>x. x\<lparr>gs_used := False\<rparr>) g) = qnodes g"
    unfolding set_slot_def qnodes_def using s(2) by (auto simp: nth)
qed

lemma account_frame_effect:
  "graph_effect rt (account_frame n frame rt) \<and> same_pool (rt_graph rt) (rt_graph (account_frame n frame rt)) \<and>
   rt_active_output (account_frame n frame rt) = rt_active_output rt"
proof (induction frame arbitrary: rt)
  case (Cons p frame)
  let ?rt = "add_bytes n (mb_pkt_len (fst p)) (add_packets n 1 rt)"
  have "account_frame n (p # frame) rt = account_frame n frame ?rt"
    by (simp add: account_frame_def case_prod_beta)
  moreover have "graph_effect rt ?rt" "same_pool (rt_graph rt) (rt_graph ?rt)" by simp_all
  moreover note Cons.IH [of ?rt]
  ultimately show ?case
    using graph_effect_trans [of rt ?rt] same_pool_trans [of "rt_graph rt" "rt_graph ?rt"] by simp
qed (simp add: account_frame_def)

text \<open>
  What the scheduler relies on: a node table whose nodes, up to the rank \<open>limit\<close>, keep the state
  \<open>I\<close> of the runtime and send packets their receivers expect, to nodes of lower rank.
\<close>

definition at_rest :: "packet_pre \<Rightarrow> 'd app_runtime \<Rightarrow> bool" where
  "at_rest pre rt \<longleftrightarrow> rt_active_output rt = None \<and> graph_inv pre {} no_pending (rt_graph rt)"

locale node_table =
  fixes D :: "('d, 'x) dpdk_scheme" and run :: "'d node_run" and pre :: packet_pre
    and I :: "'d app_runtime \<Rightarrow> bool" and limit :: nat
  assumes I_effect: "I rt \<Longrightarrow> graph_effect rt rt' \<Longrightarrow> I rt'"
    and run_ok: "rank n \<le> limit \<Longrightarrow> in_node pre (rank n) held old rt \<Longrightarrow> I rt \<Longrightarrow> \<forall>p\<in>set frame. pre n p \<Longrightarrow>
      length frame \<le> 64 \<Longrightarrow> ok (run n frame rt) (\<lambda>rt'. in_node pre (rank n) held old rt' \<and> I rt')"
begin

lemma graph_step_ok:
  assumes rest: "at_rest pre rt" and I: "I rt" and "g_q_count (rt_graph rt) \<noteq> 0"
    and lim: "\<forall>n\<in>set (qnodes (rt_graph rt)). rank n \<le> limit"
  shows "ok (graph_step D run rt) (\<lambda>rt'. at_rest pre rt' \<and> I rt' \<and>
    weight (qnodes (rt_graph rt')) < weight (qnodes (rt_graph rt)) \<and> (\<forall>n\<in>set (qnodes (rt_graph rt')). rank n \<le> limit))"
proof -
  let ?g = "rt_graph rt"
  define s where "s = g_queue ?g ! g_q_head ?g"
  define x where "x = g_slots ?g ! s"
  define g1 where "g1 = ?g\<lparr>g_q_head := (g_q_head ?g + 1) mod 16, g_q_count := g_q_count ?g - 1\<rparr>"
  define rt1 where "rt1 = account_frame (gs_node x) (gs_frame x) (set_graph g1 rt)"
  let ?w = "rank (gs_node x)"
  have inv: "graph_inv pre {} no_pending ?g" using rest by (simp add: at_rest_def)
  note pop = graph_inv_pop [OF inv assms(3), folded s_def, folded g1_def x_def]
  have eff1: "graph_effect rt rt1" "same_pool g1 (rt_graph rt1)"
    using account_frame_effect [of "set_graph g1 rt" "gs_node x" "gs_frame x"]
      graph_effect_trans [of rt "set_graph g1 rt"] by (simp_all add: rt1_def)
  have node: "in_node pre ?w {s} (qnodes g1) (rt1\<lparr>rt_active_output := Some no_pending\<rparr>)"
    using pop(1) unfolding in_node_def
    by (intro exI [of _ no_pending] exI [of _ "[]"])
      (simp add: graph_inv_same [OF eff1(2)] qnodes_same [OF eff1(2)] no_pending_def)
  have "I (rt1\<lparr>rt_active_output := Some no_pending\<rparr>)" using I_effect [OF I] eff1(1) by simp
  moreover have "?w \<le> limit" using lim pop(2) by simp
  ultimately have "ok (run (gs_node x) (gs_frame x) (rt1\<lparr>rt_active_output := Some no_pending\<rparr>))
      (\<lambda>rt'. in_node pre ?w {s} (qnodes g1) rt' \<and> I rt')"
    using run_ok [OF _ node] pop(3) by (simp add: frame_ok_def)
  then obtain rt2 where run: "run (gs_node x) (gs_frame x) (rt1\<lparr>rt_active_output := Some no_pending\<rparr>) = Some rt2"
    and rt2: "in_node pre ?w {s} (qnodes g1) rt2" "I rt2" by (auto simp: ok_iff)
  obtain out new where out: "rt_active_output rt2 = Some out" "graph_inv pre {s} out (rt_graph rt2)"
      "qnodes (rt_graph rt2) = qnodes g1 @ new" "\<forall>n\<in>set new. rank n < ?w" "\<forall>n\<in>dom out. rank n < ?w"
    using rt2(1) by (auto simp: in_node_def)
  let ?rt3 = "set_graph (set_slot s (\<lambda>x. x\<lparr>gs_used := False\<rparr>) (rt_graph rt2)) (rt2\<lparr>rt_active_output := None\<rparr>)"
  have "graph_inv pre {} out (rt_graph ?rt3)" using graph_inv_release(1) [OF out(2)] by simp
  from flush_all_ok [OF this, of D] obtain g4 new' where
    g4: "flush_all D out ?rt3 = set_graph g4 ?rt3" "graph_inv pre {} no_pending g4"
      "qnodes g4 = qnodes g1 @ (new @ new')" "set new' \<subseteq> dom out"
    using out(3) graph_inv_release(2) [OF out(2)] by auto
  have step: "graph_step D run rt = Some (set_graph g4 ?rt3)"
    using run out(1) g4(1) by (simp add: graph_step_def Let_def s_def [symmetric] x_def [symmetric] g1_def [symmetric, simplified] rt1_def [symmetric])
  have low: "\<forall>n\<in>set (new @ new'). rank n < ?w" using out(4,5) g4(4) by auto
  have "length (new @ new') \<le> 16" using graph_inv_length [OF g4(2)] g4(3) by simp
  from weight_step [OF low this, of "qnodes g1"]
  have "weight (qnodes g4) < weight (qnodes ?g)" unfolding g4(3) pop(2) by (simp add: weight_def)
  moreover have "\<forall>n\<in>set (qnodes g4). rank n \<le> limit" 
    using lim less_le_trans less_imp_le low unfolding g4(3) pop(2) by (metis Un_iff list.set_intros set_append)
  moreover have "I (set_graph g4 ?rt3)" using I_effect [OF rt2(2)] by simp
  ultimately show ?thesis using g4(2) by (simp add: step at_rest_def)
qed

lemma graph_drain_ok:
  assumes "at_rest pre rt" and "I rt" and "\<forall>n\<in>set (qnodes (rt_graph rt)). rank n \<le> limit"
  shows "ok (graph_drain D run rt) (\<lambda>rt'. at_rest pre rt' \<and> I rt' \<and> qnodes (rt_graph rt') = [])"
  using assms
proof (induction "weight (qnodes (rt_graph rt))" arbitrary: rt rule: less_induct)
  case less
  show ?case
  proof (cases "g_q_count (rt_graph rt) = 0")
    case True
    then show ?thesis using less.prems by (subst graph_drain.simps) (simp add: qnodes_def qlist_def)
  next
    case False
    show ?thesis
      using False graph_step_ok [OF less.prems(1,2) False less.prems(3)]
      by (subst graph_drain.simps) (auto simp: ok_bind_iff elim!: ok_mono intro: less.hyps)
  qed
qed

lemma seed_frame_ok:
  assumes "graph_inv pre {} out (rt_graph rt)" and "dom out \<subseteq> {n}" and "set (qnodes (rt_graph rt)) \<subseteq> {n}"
    and "\<forall>p\<in>set frame. pre n p" and "rt_active_output rt = None" and "I rt"
  shows "ok (seed_frame D n frame out rt) (\<lambda>(out', rt'). graph_inv pre {} out' (rt_graph rt') \<and> dom out' \<subseteq> {n} \<and>
    set (qnodes (rt_graph rt')) \<subseteq> {n} \<and> rt_active_output rt' = None \<and> I rt')"
  using assms
proof (induction frame arbitrary: out rt)
  case (Cons p frame)
  obtain m ctx where p: "p = (m, ctx)" by (cases p)
  have "ok (node_enqueue D out n m ctx rt) (\<lambda>(b, out', rt'). enqueued pre {} n out (rt_graph rt) out' (rt_graph rt') \<and>
      graph_effect rt rt' \<and> rt_active_output rt' = rt_active_output rt)"
    by (rule node_enqueue_ok [OF Cons.prems(1)]) (use Cons.prems(4) p in simp)
  then obtain b out' rt' where e: "node_enqueue D out n m ctx rt = Some (b, out', rt')"
      "enqueued pre {} n out (rt_graph rt) out' (rt_graph rt')" "graph_effect rt rt'"
      "rt_active_output rt' = rt_active_output rt"
    by (auto simp: ok_iff)
  have "graph_inv pre {} out' (rt_graph rt')" "dom out' \<subseteq> {n}" "set (qnodes (rt_graph rt')) \<subseteq> {n}"
    using e(2) Cons.prems(2,3) unfolding enqueued_def by (blast, blast, auto)
  with Cons.IH [of out' rt'] Cons.prems(4-6) e(3,4) I_effect show ?case by (auto simp: p e(1))
qed simp

lemma graph_submit_ok:
  assumes "at_rest pre rt" and "qnodes (rt_graph rt) = []" and "I rt" and "rank n \<le> limit"
    and "\<forall>p\<in>set frame. pre n p"
  shows "ok (graph_submit_with D run n frame rt) (\<lambda>(b, rt'). (b \<longleftrightarrow> length frame \<le> 64) \<and>
    at_rest pre rt' \<and> I rt' \<and> qnodes (rt_graph rt') = [])"
proof (cases "length frame > 64")
  case True
  then show ?thesis using assms by (simp add: graph_submit_with_def)
next
  case False
  have "ok (seed_frame D n frame no_pending rt) (\<lambda>(out', rt'). graph_inv pre {} out' (rt_graph rt') \<and> dom out' \<subseteq> {n} \<and>
      set (qnodes (rt_graph rt')) \<subseteq> {n} \<and> rt_active_output rt' = None \<and> I rt')"
    using assms by (intro seed_frame_ok) (simp_all add: at_rest_def no_pending_def)
  then obtain out rt1 where s: "seed_frame D n frame no_pending rt = Some (out, rt1)"
      "graph_inv pre {} out (rt_graph rt1)" "dom out \<subseteq> {n}" "set (qnodes (rt_graph rt1)) \<subseteq> {n}"
      "rt_active_output rt1 = None" "I rt1"
    by (auto simp: ok_iff)
  obtain g where g: "flush_pending D out n rt1 = (True, out(n := None), set_graph g rt1)"
      "graph_inv pre {} (out(n := None)) g" "qnodes g = qnodes (rt_graph rt1) @ (if out n = None then [] else [n])"
    using flush_pending_ok [OF s(2)] by blast
  have "out(n := None) = no_pending" 
    by (rule ext) (use s(3) in \<open>auto simp: no_pending_def\<close>)
  then have "at_rest pre (set_graph g rt1)" using g(2) s(5) by (simp add: at_rest_def)
  moreover have "I (set_graph g rt1)" using I_effect [OF s(6)] by simp
  moreover have "\<forall>k\<in>set (qnodes g). rank k \<le> limit" using g(3) s(4) assms(4) by auto
  ultimately have "ok (graph_drain D run (set_graph g rt1)) (\<lambda>rt'. at_rest pre rt' \<and> I rt' \<and> qnodes (rt_graph rt') = [])"
    by (intro graph_drain_ok) simp_all
  then show ?thesis using False by (auto simp: graph_submit_with_def s(1) g(1) ok_bind_iff elim!: ok_mono)
qed

end

end
