(* ===== verification/Runtime_Inv.thy ===== *)
theory Runtime_Inv
  imports Tcp Graph_Inv
begin

text \<open>
  The well-formedness of the runtime between and during the operations of the dataplane: the type
  invariant of a TCP connection (its buffers, its flight and its sequence numbers agree), the socket
  table, the ports and the published configuration, the neighbours and the packets that wait for them.
\<close>

subsection \<open>TCP connections\<close>

text \<open>
  The send buffer holds \<open>tx_len\<close> bytes, the first \<open>flight_len\<close> of which are in flight; \<open>snd_nxt\<close> is
  what the flight occupies after \<open>snd_una\<close>: its bytes, or one number for a SYN or a FIN.  A connection
  that is being opened has no byte in flight, and one whose FIN is acknowledged has no flight.
  A flight is sent again at most five times.
\<close>

abbreviation syn_or_fin :: "u8 \<Rightarrow> bool" where
  "syn_or_fin flags \<equiv> has_flag flags (RTE_TCP_SYN_FLAG OR RTE_TCP_FIN_FLAG)"

definition tcp_inv :: "tcp_connection \<Rightarrow> bool" where
  "tcp_inv c \<longleftrightarrow> length (tc_tx c) = TCP_BUFFER_SIZE \<and> length (tc_rx c) = TCP_BUFFER_SIZE \<and>
     unat (tc_tx_len c) \<le> TCP_BUFFER_SIZE \<and> unat (tc_rx_len c) \<le> TCP_BUFFER_SIZE \<and>
     tc_flight_len c \<le> tc_tx_len c \<and> (tc_flight_flags c = 0 \<longrightarrow> tc_flight_len c = 0) \<and>
     (syn_or_fin (tc_flight_flags c) \<longrightarrow> tc_flight_len c = 0) \<and>
     tc_snd_nxt c = tc_snd_una c + ucast (tc_flight_len c) + of_bool (syn_or_fin (tc_flight_flags c)) \<and>
     (tc_state c = TCP_SYN_SENT \<longrightarrow> tc_flight_len c = 0) \<and>
     (tc_state c = TCP_FIN_WAIT_2 \<or> tc_state c = TCP_TIME_WAIT \<longrightarrow> tc_flight_flags c = 0) \<and>
     tc_retries c \<le> TCP_MAX_RETRIES"

lemma tcp_invD:
  assumes "tcp_inv c"
  shows "length (tc_tx c) = 8192" "length (tc_rx c) = 8192" "unat (tc_tx_len c) \<le> 8192" "unat (tc_rx_len c) \<le> 8192"
    and "unat (tc_flight_len c) \<le> unat (tc_tx_len c)" "tc_flight_flags c = 0 \<Longrightarrow> tc_flight_len c = 0"
    and "syn_or_fin (tc_flight_flags c) \<Longrightarrow> tc_flight_len c = 0"
    and "tc_snd_nxt c = tc_snd_una c + ucast (tc_flight_len c) + of_bool (syn_or_fin (tc_flight_flags c))"
    and "tc_state c = TCP_SYN_SENT \<Longrightarrow> tc_flight_len c = 0"
    and "tc_state c = TCP_FIN_WAIT_2 \<or> tc_state c = TCP_TIME_WAIT \<Longrightarrow> tc_flight_flags c = 0"
    and "tc_retries c \<le> 5"
  using assms unfolding tcp_inv_def by (simp_all add: word_le_nat_alt)

lemma tcp_inv_zero [simp]: "tcp_inv zero_tcp"
  by (simp add: tcp_inv_def zero_tcp_def del: replicate.simps)

lemma tcp_inv_other [simp]:
  "tcp_inv (c\<lparr>tc_parent := p\<rparr>) = tcp_inv c"
  "tcp_inv (c\<lparr>tc_backlog := b\<rparr>) = tcp_inv c" "tcp_inv (c\<lparr>tc_mss := k\<rparr>) = tcp_inv c"
  "tcp_inv (c\<lparr>tc_peer_window := k\<rparr>) = tcp_inv c" "tcp_inv (c\<lparr>tc_rcv_nxt := q\<rparr>) = tcp_inv c"
  "tcp_inv (c\<lparr>tc_snd_wl1 := q\<rparr>) = tcp_inv c" "tcp_inv (c\<lparr>tc_snd_wl2 := q\<rparr>) = tcp_inv c"
  "tcp_inv (c\<lparr>tc_closing := x\<rparr>) = tcp_inv c"
  "tcp_inv (c\<lparr>tc_peer_fin := x\<rparr>) = tcp_inv c" "tcp_inv (c\<lparr>tc_deadline := t\<rparr>) = tcp_inv c"
  "tcp_inv (c\<lparr>tc_rto := t\<rparr>) = tcp_inv c" "tcp_inv (c\<lparr>tc_expires := t\<rparr>) = tcp_inv c"
  by (simp_all add: tcp_inv_def)

lemma tcp_inv_state [simp]:
  "tcp_inv c \<Longrightarrow> st \<noteq> TCP_SYN_SENT \<Longrightarrow> st \<noteq> TCP_FIN_WAIT_2 \<Longrightarrow> st \<noteq> TCP_TIME_WAIT \<Longrightarrow> tcp_inv (c\<lparr>tc_state := st\<rparr>)"
  "tcp_inv c \<Longrightarrow> tc_flight_flags c = 0 \<Longrightarrow> tcp_inv (c\<lparr>tc_state := st\<rparr>)"
  "tcp_inv c \<Longrightarrow> r \<le> 5 \<Longrightarrow> tcp_inv (c\<lparr>tc_retries := r\<rparr>)"
  by (simp_all add: tcp_inv_def)

lemma tcp_inv_start_flight:
  assumes "tcp_inv c" and "tc_state c \<notin> {TCP_SYN_SENT, TCP_FIN_WAIT_2, TCP_TIME_WAIT}" and "len \<le> tc_tx_len c" and "flags = 0 \<or> syn_or_fin flags \<longrightarrow> len = 0"
  shows "tcp_inv (start_flight D flags len now c)"
  using assms by (simp add: tcp_inv_def start_flight_def)

lemma tcp_inv_isn: "tcp_inv c \<Longrightarrow> tc_flight_flags c = 0 \<Longrightarrow> tcp_inv (c\<lparr>tc_snd_una := isn, tc_snd_nxt := isn\<rparr>)"
  by (simp add: tcp_inv_def)

text \<open>An acknowledgement that is after \<open>snd_una\<close> and not after \<open>snd_nxt\<close> covers at most the flight.\<close>

lemma before_iff: "before a b \<longleftrightarrow> 2 ^ 31 \<le> unat (a - b)"
  by (simp add: before_def sint_u32_neg)

lemma unat_uminus:
  assumes "(d :: u32) \<noteq> 0"
  shows "unat (- d) = 2 ^ 32 - unat d"
proof -
  have lt: "unat d < 2 ^ LENGTH(32)" by (rule unsigned_less)
  have "2 ^ 32 - unat d < 2 ^ 32" using assms by (simp add: unat_gt_0)
  moreover have "- d = of_nat (2 ^ 32 - unat d)"
    using lt by (subst of_nat_diff) simp_all
  ultimately show ?thesis by (simp only: unat_of_nat) simp
qed

lemma acknowledged_le:
  fixes una ack :: u32
  assumes "before una ack" and "\<not> before (una + of_nat k) ack" and "k < 2 ^ 31"
  shows "0 < unat (ack - una)" "unat (ack - una) \<le> k"
proof -
  define d where "d = ack - una"
  have neg: "una - ack = - d" by (simp add: d_def)
  have nz: "d \<noteq> 0" using assms(1) by (auto simp: before_iff neg)
  then show "0 < unat (ack - una)" by (simp add: d_def unat_gt_0)
  have le: "unat d \<le> 2 ^ 31"
  proof -
    have "unat (- d) = 2 ^ 32 - unat d" using nz by (simp add: unat_uminus)
    moreover have "unat d < 2 ^ LENGTH(32)" by (rule unsigned_less)
    ultimately show ?thesis using assms(1) unfolding before_iff neg by simp
  qed
  show "unat (ack - una) \<le> k"
  proof (rule ccontr)
    assume "\<not> unat (ack - una) \<le> k"
    then have k: "k < unat d" by (simp add: d_def)
    have e: "una + of_nat k - ack = - (d - of_nat k)" by (simp add: d_def)
    have uk: "unat (d - of_nat k) = unat d - k"
      using k assms(3) by (subst unat_sub) (simp_all add: word_le_nat_alt unat_of_nat)
    have nz': "d - of_nat k \<noteq> 0" using uk k by (metis less_irrefl unat_0 zero_less_diff)
    have "unat (una + of_nat k - ack) = 2 ^ 32 - (unat d - k)" unfolding e unat_uminus [OF nz'] uk ..
    then show False using assms(2) le k unfolding before_iff by simp
  qed
qed

subsection \<open>Sockets\<close>

definition entry_wf :: "nat \<Rightarrow> ps_socket_entry \<Rightarrow> bool" where
  "entry_wf i s \<longleftrightarrow> tcp_inv (se_tcp s) \<and> udp_inv (se_udp s) \<and>
     (se_allocated s \<longrightarrow> 0 < se_fd s \<and> fd_slot (se_fd s) = i)"

definition sockets_wf :: "socket_subsystem \<Rightarrow> bool" where
  "sockets_wf ss \<longleftrightarrow> length (ss_entries ss) = PS_SOCKET_MAX \<and> length (ss_generations ss) = PS_SOCKET_MAX \<and>
     ss_capacity ss \<le> PS_SOCKET_MAX \<and> (\<forall>i<PS_SOCKET_MAX. unat (ss_generations ss ! i) \<le> gen_max i) \<and>
     (\<forall>i<PS_SOCKET_MAX. entry_wf i (ss_entries ss ! i))"

lemma sockets_wfD:
  assumes "sockets_wf ss"
  shows "length (ss_entries ss) = 256" "length (ss_generations ss) = 256" "ss_capacity ss \<le> 256"
    and "i < 256 \<Longrightarrow> entry_wf i (ss_entries ss ! i)"
  using assms by (simp_all add: sockets_wf_def)

lemma entry_wf_zero [simp]: "entry_wf i zero_socket"
  by (simp add: entry_wf_def zero_socket_def udp_inv_zero)

lemma sockets_wf_zero: "sockets_wf zero_sockets"
proof -
  have "ss_entries zero_sockets = replicate 256 zero_socket" "ss_generations zero_sockets = replicate 256 0"
    "ss_capacity zero_sockets = 0"
    by (simp_all only: zero_sockets_def socket_subsystem.select_convs)
  then show ?thesis
    unfolding sockets_wf_def
    by (intro conjI allI impI) (simp_all only: length_replicate nth_replicate entry_wf_zero unat_0 zero_le)
qed

lemma sockets_wf_sock_inv: "sockets_wf (rt_sockets rt) \<Longrightarrow> sock_inv rt"
  unfolding sockets_wf_def sock_inv_def entry_wf_def by (blast intro: less_le_trans)

lemma entry_wf_tcp: "entry_wf i s \<Longrightarrow> tcp_inv c \<Longrightarrow> entry_wf i (s\<lparr>se_tcp := c\<rparr>)"
  by (simp add: entry_wf_def)

lemma sockets_wf_set:
  assumes "sockets_wf (rt_sockets rt)" and "i < 256 \<Longrightarrow> entry_wf i s"
  shows "sockets_wf (rt_sockets (set_sock i s rt))"
proof -
  have "entry_wf j (sock (set_sock i s rt) j)" if "j < 256" for j
    using sockets_wfD(4) [OF assms(1) that] assms(2) that by (auto simp: sock_set_sock)
  then show ?thesis using assms(1) by (simp add: sockets_wf_def)
qed

lemma sockets_wf_upd_tcp:
  assumes "sockets_wf (rt_sockets rt)" and "i < 256 \<Longrightarrow> tcp_inv (f (tcp rt i))"
  shows "sockets_wf (rt_sockets (upd_tcp i f rt))"
  unfolding upd_tcp_def using assms sockets_wfD(4) [OF assms(1), of i] by (intro sockets_wf_set entry_wf_tcp) simp_all

lemma sockets_wf_tcp: "sockets_wf (rt_sockets rt) \<Longrightarrow> i < 256 \<Longrightarrow> tcp_inv (tcp rt i)"
  using sockets_wfD(4) by (simp add: entry_wf_def)

lemma socket_allocate_wf:
  assumes rt_wf: "sockets_wf (rt_sockets rt)" and a: "socket_allocate rt ty = (r, rt')"
  shows "sockets_wf (rt_sockets rt')" and "r = Some i \<Longrightarrow> i < 256 \<and> se_tcp (sock rt' i) = zero_tcp"
proof -
  have inv: "sock_inv rt'" by (rule sock_inv_allocate(1) [OF sockets_wf_sock_inv [OF rt_wf] a])
  note D = sockets_wfD [OF rt_wf]
  have "(\<forall>j<256. entry_wf j (sock rt' j)) \<and> ss_capacity (rt_sockets rt') = ss_capacity (rt_sockets rt) \<and>
      (\<forall>i. r = Some i \<longrightarrow> i < 256 \<and> se_tcp (sock rt' i) = zero_tcp)"
  proof (cases "first_index (\<lambda>s. \<not> se_allocated s) (live_sockets rt)")
    case None
    show ?thesis using a D(4) unfolding socket_allocate_def None by auto
  next
    case (Some k)
    then have k: "k < ss_capacity (rt_sockets rt)" "k < 256"
      using first_indexD [OF Some] D(1,3) by (simp_all add: live_sockets_def)
    define s where "s = zero_socket\<lparr>se_fd := sint (ss_generations (rt_sockets rt) ! k * of_nat PS_SOCKET_MAX + of_nat k + 1),
      se_allocated := True, se_open := True, se_type := ty\<rparr>"
    have r: "r = Some k" "ss_entries (rt_sockets rt') = (ss_entries (rt_sockets rt))[k := s]"
        "ss_capacity (rt_sockets rt') = ss_capacity (rt_sockets rt)"
      using a Some by (auto simp: socket_allocate_def set_sock_def s_def Let_def)
    have "sock rt' k = s" using k D(1) by (simp add: r(2))
    moreover have "0 < se_fd s \<and> fd_slot (se_fd s) = k"
      using new_fd [OF k(2), of "ss_generations (rt_sockets rt) ! k"] rt_wf k(2) by (simp add: s_def sockets_wf_def)
    ultimately have "entry_wf k (sock rt' k)" by (simp add: entry_wf_def s_def zero_socket_def udp_inv_zero)
    then have "\<forall>j<256. entry_wf j (sock rt' j)" 
      using D(4) unfolding r(2) by (metis nth_list_update_neq)
    then show ?thesis using r k \<open>sock rt' k = s\<close> by (simp add: s_def zero_socket_def)
  qed
  then show "sockets_wf (rt_sockets rt')" "r = Some i \<Longrightarrow> i < 256 \<and> se_tcp (sock rt' i) = zero_tcp"
    using inv unfolding sockets_wf_def sock_inv_def by blast+
qed

lemma socket_bind_wf:
  assumes rt_wf: "sockets_wf (rt_sockets rt)" and b: "socket_bind rt i addr = (r, rt')"
  shows "sockets_wf (rt_sockets rt')" and "se_tcp (sock rt' i) = se_tcp (sock rt i)"
    and "\<exists>ss. rt' = rt\<lparr>rt_sockets := ss\<rparr>"
proof -
  have rt_wf': "sockets_wf (rt_sockets (rt\<lparr>rt_sockets := (rt_sockets rt)\<lparr>ss_next_port := p\<rparr>\<rparr>))" for p
    using rt_wf by (simp add: sockets_wf_def)
  have set: "sockets_wf (rt_sockets (set_sock i ((sock rt' i)\<lparr>se_local := a\<rparr>) rt'))"
    if "sockets_wf (rt_sockets rt')" for rt' a
    using that sockets_wfD(4) [OF that, of i] by (intro sockets_wf_set) (simp_all add: entry_wf_def)
  have set': "sockets_wf (rt_sockets (set_sock i ((sock rt i)\<lparr>se_local := a\<rparr>)
      (rt\<lparr>rt_sockets := (rt_sockets rt)\<lparr>ss_next_port := p\<rparr>\<rparr>)))" for a p
    using set [OF rt_wf'] by simp
  show "sockets_wf (rt_sockets rt')"
    using b rt_wf rt_wf' set set' unfolding socket_bind_def Let_def
    by (cases addr; cases "ephemeral_port rt i (sa_ip_be (the addr)) (ss_next_port (rt_sockets rt)) 16384")
      (auto split: if_split_asm)
  show "se_tcp (sock rt' i) = se_tcp (sock rt i)"
    using b by (auto simp: socket_bind_def Let_def sock_set_sock split: option.splits if_splits prod.splits)
  show "\<exists>ss. rt' = rt\<lparr>rt_sockets := ss\<rparr>"
    using b by (auto simp: socket_bind_def set_sock_def Let_def intro: exI [of _ "rt_sockets rt"]
        split: option.splits if_splits prod.splits)
qed

subsection \<open>Ports, configuration and routes\<close>

definition config_wf :: "nat \<Rightarrow> net_config \<Rightarrow> bool" where
  "config_wf ports c \<longleftrightarrow> net_config_validate c (of_nat ports) = None \<and>
     (nc_routes_indexed c \<longrightarrow> nc_route_index c = index_of (nc_routes c))"

definition net_wf :: "port_state list \<Rightarrow> net_config option \<Rightarrow> bool" where
  "net_wf ports net \<longleftrightarrow> length ports \<le> NETIF_MAX \<and>
     (\<forall>i<length ports. po_configured (ports ! i) \<and> po_id (ports ! i) = of_nat i \<and> length (po_mac (ports ! i)) = 6) \<and>
     (\<forall>c. net = Some c \<longrightarrow> config_wf (length ports) c)"

lemma net_wfD:
  assumes "net_wf ports net"
  shows "length ports \<le> 8" "i < length ports \<Longrightarrow> po_configured (ports ! i) \<and> po_id (ports ! i) = of_nat i"
    and "p \<in> set ports \<Longrightarrow> length (po_mac p) = 6" "net = Some c \<Longrightarrow> config_wf (length ports) c"
  using assms by (auto simp: net_wf_def in_set_conv_nth)

lemma netif_by_id_port:
  assumes "net_wf (rt_ports rt) net" and "dev < of_nat (length (rt_ports rt))"
  shows "netif_by_id rt (ucast (dev :: u32)) = Some (rt_ports rt ! unat dev)" "unat dev < length (rt_ports rt)"
proof -
  note D = net_wfD [OF assms(1)]
  show d: "unat dev < length (rt_ports rt)"
    using assms(2) D(1) by (simp add: word_less_nat_alt unat_of_nat)
  then have "unat dev < 8" using D(1) by linarith
  then have "unat (ucast dev :: u16) = unat dev" by (intro unat_ucast_small) simp
  moreover have "po_id (rt_ports rt ! unat dev) = ucast dev" using D(2) [OF d] by (simp add: unsigned_of_nat)
  ultimately show "netif_by_id rt (ucast dev) = Some (rt_ports rt ! unat dev)"
    using D(2) [OF d] d by (simp add: netif_by_id_def)
qed

lemma netif_by_id_self: "netif_by_id rt nid = Some p \<Longrightarrow> netif_by_id rt (po_id p) = Some p"
  using netif_by_id_Some(3) [of rt nid p] by simp

lemma select_route_member:
  assumes "config_wf ports c" and "select_route rt c dst table = Some r"
  shows "r \<in> set (nc_routes c)" "eligible rt dst table r"
proof -
  have v: "net_config_validate c (of_nat ports) = None" using assms(1) by (simp add: config_wf_def)
  have "selects (eligible rt dst table) (nc_routes c) (select_route rt c dst table)"
  proof (cases "nc_routes_indexed c")
    case True
    have "length (nc_routes c) \<le> NET_ROUTE_MAX" "\<forall>r\<in>set (nc_routes c). nr_prefix r \<le> 32"
      using validate_lengths [OF v] validate_route_prefix [OF v] by simp_all
    from indexed_selects [OF this, of rt dst table] show ?thesis
      using True assms(1) by (simp add: select_route_def config_wf_def)
  next
    case False
    then show ?thesis using scan_routes_selects by (simp add: select_route_def)
  qed
  then show "r \<in> set (nc_routes c)" "eligible rt dst table r"
    using assms(2) by (auto simp: selects_def longest_match_def)
qed

text \<open>A query never reads a port that does not exist, and a route it returns has an existing egress.\<close>

definition routed :: "'d app_runtime \<Rightarrow> drop_reason \<times> route_result \<Rightarrow> bool" where
  "routed rt = (\<lambda>(reason, route). reason = DROP_NONE \<longrightarrow> netif_by_id rt (rr_netif_id route) \<noteq> None)"

lemma routed_None: "reason \<noteq> DROP_NONE \<Longrightarrow> routed rt (reason, route)"
  and routed_Some: "netif_by_id rt (rr_netif_id route) = Some p \<Longrightarrow> routed rt (reason, route)"
  by (simp_all add: routed_def)

lemma route_action_none: "ty \<noteq> 0 \<Longrightarrow> ty \<le> NET_PROHIBIT \<Longrightarrow> route_action ty \<noteq> DROP_NONE"
proof -
  assume "ty \<noteq> 0" "ty \<le> NET_PROHIBIT"
  then have "unat ty \<noteq> 0" "unat ty \<le> 3" by (simp_all add: word_le_nat_alt unat_eq_0)
  then have "unat ty = unat (1 :: u32) \<or> unat ty = unat (2 :: u32) \<or> unat ty = unat (3 :: u32)" by simp arith
  then have "ty = 1 \<or> ty = 2 \<or> ty = 3" by (simp only: word_unat_eq_iff)
  then show ?thesis by (auto simp: route_action_def)
qed

lemma validated_rule_type:
  assumes "net_config_validate c ports = None" and "r \<in> set (nc_rules c)"
  shows "ru_type r \<le> NET_PROHIBIT"
proof -
  obtain i where i: "i < length (nc_rules c)" "r = nc_rules c ! i" using assms(2) by (auto simp: in_set_conv_nth)
  show ?thesis
    using net_config_validate_parts(3) [OF assms(1) i(1)] by (simp add: validate_rule_def Let_def i(2) not_less split: if_splits)
qed

lemma table_lookup_ok:
  assumes "net_wf (rt_ports rt) (Some c)"
  shows "ok (table_lookup rt c dst src table pref out) (routed rt)"
proof (cases "select_route rt c dst table")
  case None
  then show ?thesis by (simp add: table_lookup_def routed_None)
next
  case (Some r)
  have cw: "config_wf (length (rt_ports rt)) c" using net_wfD(4) [OF assms] by simp
  note m = select_route_member [OF cw Some]
  have v: "net_config_validate c (of_nat (length (rt_ports rt))) = None" using cw by (simp add: config_wf_def)
  show ?thesis
  proof (cases "nr_type r = 0")
    case True
    then obtain p where "netif_by_id rt (ucast (nr_dev r)) = Some p"
      using m(2) by (auto simp: eligible_def egress_up_def split: option.splits)
    then show ?thesis using True Some by (simp add: table_lookup_def Let_def routed_def)
  next
    case False
    then show ?thesis
      using Some route_action_none [OF False] validated_route(4) [OF v m(1)]
      by (simp add: table_lookup_def Let_def routed_None)
  qed
qed

lemma rule_lookup_ok:
  assumes "net_wf (rt_ports rt) (Some c)" and "set rs \<subseteq> set (nc_rules c)"
  shows "ok (rule_lookup rt c dst src iif rs out) (routed rt)"
  using assms(2)
proof (induction rs arbitrary: out)
  case Nil
  show ?case
    unfolding rule_lookup.simps
    by (rule ok_bindI [OF table_lookup_ok [OF assms(1)]]) (auto simp: table_lookup_ok [OF assms(1)])
next
  case (Cons r rs)
  have v: "net_config_validate c (of_nat (length (rt_ports rt))) = None"
    using net_wfD(4) [OF assms(1)] by (simp add: config_wf_def)
  have IH: "ok (rule_lookup rt c dst src iif rs out) (routed rt)" for out using Cons by simp
  have "ru_type r \<noteq> 0 \<Longrightarrow> route_action (ru_type r) \<noteq> DROP_NONE"
    using Cons.prems validated_rule_type [OF v, of r] route_action_none by simp
  then show ?case
    unfolding rule_lookup.simps
    by (intro ok_ifI ok_bindI [OF table_lookup_ok [OF assms(1)]]) (auto simp: IH routed_None)
qed

lemma route_query_ok:
  assumes "net_wf (rt_ports rt) (rt_network rt)"
  shows "ok (route_query rt dst src iif) (routed rt)"
proof (cases "rt_network rt")
  case None
  then show ?thesis
    by (auto simp: ipv4_route_query_def static_route_lookup_def Let_def routed_def dest: netif_by_id_self split: option.splits)
next
  case (Some c)
  have nw: "net_wf (rt_ports rt) (Some c)" using assms Some by simp
  have v: "net_config_validate c (of_nat (length (rt_ports rt))) = None"
    using net_wfD(4) [OF nw] by (simp add: config_wf_def)
  show ?thesis
  proof (cases "List.find (\<lambda>a. dst = na_ip a) (nc_addresses c)")
    case None
    then show ?thesis using Some rule_lookup_ok [OF nw] by (simp add: ipv4_route_query_def routed_None)
  next
    case (Some a)
    then have "na_dev a < of_nat (length (rt_ports rt))"
      using find_SomeD validated_addresses(2) [OF v] by fastforce
    note p = netif_by_id_port [OF nw this]
    show ?thesis using Some \<open>rt_network rt = Some c\<close> p by (simp add: ipv4_route_query_def routed_Some)
  qed
qed

subsection \<open>Neighbours and waiting packets\<close>

definition nb_wf :: "neighbour_table \<Rightarrow> bool" where
  "nb_wf t \<longleftrightarrow> nb_inv t \<and> (\<forall>e\<in>set t. length (ne_mac e) = 6)"

lemma neighbour_learn_wf:
  assumes "nb_wf t" and "length mac = 6"
  shows "nb_wf (snd (neighbour_learn valid t dev ip mac))"
proof -
  have "nb_inv (snd (nb_step valid (NB_Learn dev ip mac) t))"
    using assms(1) by (intro nb.step_inv) (simp add: nb_wf_def)
  then have "nb_inv (snd (neighbour_learn valid t dev ip mac))"
    by (simp split: prod.splits)
  moreover have "\<forall>e\<in>set (snd (neighbour_learn valid t dev ip mac)). length (ne_mac e) = 6"
    using assms by (auto simp: neighbour_learn_def nb_wf_def new_entry_def split: option.splits dest!: set_update_subset_insert [THEN subsetD])
  ultimately show ?thesis by (simp add: nb_wf_def)
qed

lemma neighbour_put_wf:
  assumes "nb_wf t" and "length mac = 6"
  shows "nb_wf (snd (neighbour_put t dev ip mac replace))"
proof -
  have "nb_inv (snd (nb_step (\<lambda>_. True) (NB_Put dev ip mac replace) t))"
    using assms(1) by (intro nb.step_inv) (simp add: nb_wf_def)
  then have "nb_inv (snd (neighbour_put t dev ip mac replace))"
    by (simp split: prod.splits)
  moreover have "\<forall>e\<in>set (snd (neighbour_put t dev ip mac replace)). length (ne_mac e) = 6"
    using assms by (auto simp: neighbour_put_def nb_wf_def new_entry_def split: option.splits dest!: set_update_subset_insert [THEN subsetD])
  ultimately show ?thesis by (simp add: nb_wf_def)
qed

lemma close_gap_macs:
  assumes "\<forall>e\<in>set t. length (ne_mac e) = 6" and "length t = 64" and "i < 64"
  shows "\<forall>e\<in>set (fst (close_gap t hole i n)). length (ne_mac e) = 6"
  using assms
proof (induction n arbitrary: t hole i)
  case (Suc n)
  have "length (ne_mac (t ! i)) = 6" using Suc.prems by simp
  then have u: "\<forall>e\<in>set (t[hole := t ! i]). length (ne_mac e) = 6" by (rule ball_list_update [OF Suc.prems(1)])
  have "\<forall>e\<in>set (fst (close_gap (t[hole := t ! i]) i ((i + 1) mod 64) n)). length (ne_mac e) = 6"
    by (rule Suc.IH [OF u]) (simp_all add: Suc.prems(2))
  moreover have "\<forall>e\<in>set (fst (close_gap t hole ((i + 1) mod 64) n)). length (ne_mac e) = 6"
    by (rule Suc.IH [OF Suc.prems(1,2)]) simp
  ultimately show ?case using Suc.prems(1) by (simp only: close_gap.simps Let_def split: if_split) simp
qed simp

lemma neighbour_unset_wf:
  assumes "nb_wf t"
  shows "nb_wf (snd (neighbour_unset t dev ip))"
proof -
  have "nb_inv (snd (nb_step (\<lambda>_. True) (NB_Unset dev ip) t))"
    using assms(1) by (intro nb.step_inv) (simp add: nb_wf_def)
  then have "nb_inv (snd (neighbour_unset t dev ip))"
    by (simp split: prod.splits)
  moreover have "\<forall>e\<in>set (neighbour_remove t p). length (ne_mac e) = 6" for p
  proof -
    have "\<forall>e\<in>set (fst (close_gap t p ((p + 1) mod 64) (64 - 1))). length (ne_mac e) = 6"
      using assms by (intro close_gap_macs) (simp_all add: nb_wf_def nb_inv_def)
    from ball_list_update [OF this, of zero_neighbour] show ?thesis
      by (simp add: neighbour_remove_def case_prod_beta zero_neighbour_def)
  qed
  ultimately show ?thesis
    using assms by (auto simp: nb_wf_def neighbour_unset_def split: option.splits if_splits)
qed

lemma neighbour_lookup_mac:
  assumes "nb_wf t" and "neighbour_lookup t dev ip = Some mac"
  shows "length mac = 6"
proof -
  have "lookup_probe t dev ip ps = Some mac \<Longrightarrow> set ps \<subseteq> {..<64} \<Longrightarrow> length mac = 6" for ps
    using assms(1) by (induction ps) (auto simp: nb_wf_def nb_inv_def split: if_splits)
  moreover have "set (probe_seq (nb_home dev ip)) \<subseteq> {..<64}" by (auto simp: probe_seq_def)
  ultimately show ?thesis using assms(2) by (simp add: neighbour_lookup_def)
qed

definition pending_wf :: "pending_neighbour list \<Rightarrow> bool" where
  "pending_wf ps \<longleftrightarrow> length ps = NEIGHBOUR_PENDING_MAX \<and> (\<forall>p\<in>set ps. length (pn_packets p) \<le> NEIGHBOUR_PENDING_QUEUE_MAX)"

lemma pending_wf_set:
  "pending_wf (rt_pending rt) \<Longrightarrow> length (pn_packets p) \<le> 8 \<Longrightarrow> pending_wf (rt_pending (set_pending i p rt))"
  by (auto simp: pending_wf_def set_pending_def dest!: set_update_subset_insert [THEN subsetD])

lemma pending_wf_nth: "pending_wf ps \<Longrightarrow> i < 16 \<Longrightarrow> length (pn_packets (ps ! i)) \<le> 8"
  by (simp add: pending_wf_def)

subsection \<open>The runtime\<close>

text \<open>\<open>ids\<close> are the DPDK ports of the configured interfaces, the ports packets under way may carry.\<close>

definition ports_wf :: "u16 set \<Rightarrow> port_state list \<Rightarrow> bool" where
  "ports_wf ids ports \<longleftrightarrow> ids = po_port_id ` {p \<in> set ports. po_configured p}"

definition rt_wf :: "u16 set \<Rightarrow> 'd app_runtime \<Rightarrow> bool" where
  "rt_wf ids rt \<longleftrightarrow> sockets_wf (rt_sockets rt) \<and> net_wf (rt_ports rt) (rt_network rt) \<and> ports_wf ids (rt_ports rt) \<and>
     nb_wf (rt_neighbours rt) \<and> pending_wf (rt_pending rt)"

lemma rt_wfD:
  assumes "rt_wf ids rt"
  shows "sockets_wf (rt_sockets rt)" "net_wf (rt_ports rt) (rt_network rt)" "ports_wf ids (rt_ports rt)"
    "nb_wf (rt_neighbours rt)" "pending_wf (rt_pending rt)"
  using assms by (simp_all add: rt_wf_def)

lemma rt_wf_cong:
  assumes "rt_wf ids rt" and "rt_sockets rt' = rt_sockets rt" "rt_ports rt' = rt_ports rt" "rt_network rt' = rt_network rt"
    "rt_neighbours rt' = rt_neighbours rt" "rt_pending rt' = rt_pending rt"
  shows "rt_wf ids rt'"
  using assms by (simp add: rt_wf_def)

lemma rt_wf_effect: "rt_wf ids rt \<Longrightarrow> graph_effect rt rt' \<Longrightarrow> rt_wf ids rt'"
  by (erule rt_wf_cong) (simp_all add: graph_effect_def)

lemma rt_wf_sockets: "rt_wf ids rt \<Longrightarrow> sockets_wf ss \<Longrightarrow> rt_wf ids (rt\<lparr>rt_sockets := ss\<rparr>)"
  by (simp add: rt_wf_def)

lemma rt_wf_set_sock: "rt_wf ids rt \<Longrightarrow> (i < 256 \<Longrightarrow> entry_wf i s) \<Longrightarrow> rt_wf ids (set_sock i s rt)"
  using sockets_wf_set [of rt i s] by (simp add: rt_wf_def) (simp add: set_sock_def)

lemma rt_wf_upd_tcp: "rt_wf ids rt \<Longrightarrow> (i < 256 \<Longrightarrow> tcp_inv (f (tcp rt i))) \<Longrightarrow> rt_wf ids (upd_tcp i f rt)"
  using sockets_wf_upd_tcp [of rt i f] by (simp add: rt_wf_def) (simp add: upd_tcp_def set_sock_def)

lemma rt_wf_set_pending: "rt_wf ids rt \<Longrightarrow> length (pn_packets p) \<le> 8 \<Longrightarrow> rt_wf ids (set_pending i p rt)"
  using pending_wf_set [of rt p i] by (simp add: rt_wf_def) (simp add: set_pending_def)

end
