(* ===== verification/Senders.thy ===== *)
theory Senders
  imports Runtime_Inv
begin

text \<open>
  The code that originates packets (ICMP errors, ARP requests, waiting packets, TCP segments) runs in
  two contexts: inside a node, where a packet goes to a frame of the active output, and outside the
  graph, where \<open>graph_submit\<close> runs it at once.  The locale \<open>sender\<close> states what such code may rely
  on in either context; its lemmas show that the code is defined and keeps the runtime well formed.
\<close>

subsection \<open>Reading and writing inside a packet\<close>

lemma rd8_eq: "off < length (mb_data m) \<Longrightarrow> rd8 m off = Some (mb_data m ! off)"
  by (simp add: rd8_def rd_bytes_def hd_drop_conv_nth take_Suc_conv_app_nth)

lemma rd16_eq: "off + 2 \<le> length (mb_data m) \<Longrightarrow> rd16 m off = Some (le16_of (take 2 (drop off (mb_data m))))"
  by (simp add: rd16_def rd_bytes_def)

lemma rd32_eq: "off + 4 \<le> length (mb_data m) \<Longrightarrow> rd32 m off = Some (le32_of (take 4 (drop off (mb_data m))))"
  by (simp add: rd32_def rd_bytes_def)

lemma wr_bytes_ok: "off + length bs \<le> length (mb_data m) \<Longrightarrow>
    ok (wr_bytes m off bs) (\<lambda>m'. m' = m\<lparr>mb_data := memcpy_at (mb_data m) off bs\<rparr>)"
  by (simp add: wr_bytes_def)

lemmas rd_eqs = rd8_eq rd16_eq rd32_eq rd_bytes_Some

lemma ok_map [simp]: "ok (map_option f m) Q = ok m (\<lambda>r. Q (f r))"
  by (cases m) simp_all

lemma netif_dev [simp]: "netif_by_id (rt\<lparr>rt_dev := d\<rparr>) = netif_by_id rt"
  by (rule netif_by_id_cong) simp

lemma enqueue_active: "enqueue D n m ctx rt = Some (b, rt') \<Longrightarrow> rt_active_output rt' \<noteq> None"
  by (auto simp: enqueue_def bind_eq_Some_conv split: prod.splits)

lemma pending_slot_less: "pending_slot ps dev ip = Some i \<Longrightarrow> i < length ps"
  by (auto simp: pending_slot_def split: option.splits dest: first_indexD)

text \<open>An IPv4 packet at an offset lies inside the buffer.\<close>

abbreviation ip_ihl :: "rte_mbuf \<Rightarrow> nat \<Rightarrow> nat" where
  "ip_ihl m off \<equiv> ihl_of (mb_data m ! off)"

abbreviation ip_total :: "rte_mbuf \<Rightarrow> nat \<Rightarrow> nat" where
  "ip_total m off \<equiv> be16 (le16_of (take 2 (drop (off + 2) (mb_data m))))"

definition ip_inside :: "rte_mbuf \<Rightarrow> nat \<Rightarrow> bool" where
  "ip_inside m off \<longleftrightarrow> off + IPV4_HDR \<le> data_len m \<and> IPV4_HDR \<le> ip_ihl m off \<and> ip_ihl m off \<le> ip_total m off \<and>
     off + ip_total m off \<le> data_len m"

lemma icmp_error_allowed_ok:
  "ok (icmp_error_allowed D rt m ctx) (\<lambda>a. a \<longrightarrow> ip_inside m (l3 ctx))"
proof (cases "contiguous m \<and> l3 ctx + 20 \<le> data_len m")
  case True
  then obtain a b c d e where rd: "rd8 m (l3 ctx) = Some (mb_data m ! l3 ctx)"
      "rd16 m (l3 ctx + 2) = Some (le16_of (take 2 (drop (l3 ctx + 2) (mb_data m))))" "rd32 m (l3 ctx + 12) = Some a"
      "rd32 m (l3 ctx + 16) = Some b" "rd16 m (l3 ctx + 6) = Some c" "rd_bytes m 0 6 = Some d" "rd8 m (l3 ctx + 9) = Some e"
    by (simp add: rd_eqs)
  show ?thesis
  proof (cases "ip_inside m (l3 ctx)")
    case True
    then have d: "l3 ctx + ip_ihl m (l3 ctx) \<le> data_len m"
        "8 \<le> ip_total m (l3 ctx) - ip_ihl m (l3 ctx) \<Longrightarrow> l3 ctx + ip_ihl m (l3 ctx) < data_len m"
      unfolding ip_inside_def by linarith+
    show ?thesis
      using True unfolding icmp_error_allowed_def rd Option.bind.bind_lunit Let_def rd_bytes_Some [OF d(1)]
      by (simp add: not_less rd8_eq [OF d(2)])
  next
    case False
    then show ?thesis
      using True unfolding icmp_error_allowed_def rd Option.bind.bind_lunit Let_def ip_inside_def by auto
  qed
qed (auto simp: icmp_error_allowed_def)

lemma length_icmp_error_bytes: "length (icmp_error_bytes D ty code mtu q) = 8 + length q"
  by (simp add: icmp_error_bytes_def Let_def)

subsection \<open>The contract of a sender\<close>

text \<open>The effect of sending: the context and the well-formedness are kept, the sockets are not touched.\<close>

definition sent :: "('d app_runtime \<Rightarrow> bool) \<Rightarrow> u16 set \<Rightarrow> 'd app_runtime \<Rightarrow> 'd app_runtime \<Rightarrow> bool" where
  "sent C ids rt rt' \<longleftrightarrow> C rt' \<and> rt_wf ids rt' \<and> rt_sockets rt' = rt_sockets rt"

text \<open>A well-formed runtime in a context.\<close>

definition kept :: "('d app_runtime \<Rightarrow> bool) \<Rightarrow> u16 set \<Rightarrow> 'd app_runtime \<Rightarrow> bool" where
  "kept C ids rt \<longleftrightarrow> C rt \<and> rt_wf ids rt"

text \<open>The devices behave as documented, and the clock is fast enough for the ICMP token bucket.\<close>

definition device_ok :: "('d, 'x) dpdk_scheme \<Rightarrow> bool" where
  "device_ok D \<longleftrightarrow> dpdk_ok D \<and> 10 \<le> d_timer_hz D"

locale sender =
  fixes D :: "('d, 'x) dpdk_scheme" and submit :: "'d submit" and ids :: "u16 set"
    and C :: "'d app_runtime \<Rightarrow> bool" and w :: nat
  assumes device: "C rt \<Longrightarrow> device_ok D"
    and C_cong: "C rt \<Longrightarrow> same_pool (rt_graph rt) (rt_graph rt') \<Longrightarrow> rt_active_output rt' = rt_active_output rt \<Longrightarrow>
      rt_network rt' = rt_network rt \<Longrightarrow> C rt'"
    and C_enqueue: "C rt \<Longrightarrow> rt_active_output rt \<noteq> None \<Longrightarrow> rank n \<le> 4 \<Longrightarrow> rank n < w \<Longrightarrow>
      ok (enqueue D n m ctx rt) (\<lambda>(b, rt'). C rt' \<and> graph_effect rt rt')"
    and C_submit: "C rt \<Longrightarrow> rt_wf ids rt \<Longrightarrow> rt_active_output rt = None \<Longrightarrow> rank n \<le> 4 \<Longrightarrow> length frame \<le> 64 \<Longrightarrow>
      ok (submit n frame rt) (sent C ids rt)"
begin

lemma sent_refl: "C rt \<Longrightarrow> rt_wf ids rt \<Longrightarrow> sent C ids rt rt"
  by (simp add: sent_def)

lemma sent_trans: "sent C ids rt rt' \<Longrightarrow> sent C ids rt' rt'' \<Longrightarrow> sent C ids rt rt''"
  by (simp add: sent_def)

text \<open>Changes outside the graph and the well-formed parts.\<close>

lemma sent_other:
  assumes "sent C ids rt rt'" and "same_pool (rt_graph rt') (rt_graph rt'')" "rt_active_output rt'' = rt_active_output rt'"
    and "rt_sockets rt'' = rt_sockets rt'" "rt_ports rt'' = rt_ports rt'" "rt_network rt'' = rt_network rt'"
    "rt_neighbours rt'' = rt_neighbours rt'" "rt_pending rt'' = rt_pending rt'"
  shows "sent C ids rt rt''"
  using assms C_cong [of rt' rt''] rt_wf_cong [of ids rt' rt''] by (simp add: sent_def)

lemma sent_stats:
  assumes "sent C ids rt rt'"
  shows "sent C ids rt (add_packets n k rt')" "sent C ids rt (add_bytes n k rt')" "sent C ids rt (add_drops n k rt')"
    "sent C ids rt (add_errors n k rt')" "sent C ids rt (add_reason r k rt')" "sent C ids rt (rte_pktmbuf_free D m rt')"
    "sent C ids rt (rt'\<lparr>rt_dev := d\<rparr>)" "sent C ids rt (icmp_stats f rt')" "sent C ids rt (tcp_count g rt')"
    "sent C ids rt (rt'\<lparr>rt_events := es\<rparr>)" "sent C ids rt (rt'\<lparr>rt_accepted_sends := a\<rparr>)"
  by (rule sent_other [OF assms]; simp add: graph_op_defs same_pool_def icmp_stats_def tcp_count_def)+

lemma enqueue_sent:
  assumes "C rt" "rt_wf ids rt" "rt_active_output rt \<noteq> None" "rank n \<le> 4" "rank n < w"
  shows "ok (enqueue D n m ctx rt) (\<lambda>r. sent C ids rt (snd r))"
  by (rule ok_mono [OF C_enqueue [OF assms(1,3-5)]])
    (auto simp: sent_def graph_effect_def intro: rt_wf_effect [OF assms(2), unfolded graph_effect_def])

lemma output_packet_sent:
  assumes "C rt" "rt_wf ids rt" "4 < w"
  shows "ok (output_packet D submit m ctx rt) (\<lambda>r. sent C ids rt (snd r))"
proof (cases "rt_active_output rt")
  case None
  have "ok (submit NODE_IPV4_OUTPUT [(m, ctx)] rt) (sent C ids rt)"
    by (rule C_submit [OF assms(1,2) None]) simp_all
  then show ?thesis by (simp add: output_packet_def None ok_bind_iff Let_def)
next
  case (Some out)
  then show ?thesis using enqueue_sent [of rt NODE_IPV4_OUTPUT] assms by (simp add: output_packet_def)
qed

lemma output_packet_bind:
  assumes "sent C ids rt0 rt" "4 < w" and "\<And>b rt'. sent C ids rt0 rt' \<Longrightarrow> ok (f b rt') Q"
  shows "ok (Option.bind (output_packet D submit m ctx rt) (\<lambda>(b, rt). f b rt)) Q"
proof -
  have "ok (output_packet D submit m ctx rt) (\<lambda>r. sent C ids rt (snd r))"
    using assms(1,2) by (intro output_packet_sent) (simp_all add: sent_def)
  then show ?thesis
  proof (rule ok_bindI)
    fix r :: "bool \<times> 'd app_runtime"
    assume "sent C ids rt (snd r)"
    then have "sent C ids rt0 (snd r)" by (rule sent_trans [OF assms(1)])
    then show "ok (case r of (b, rt) \<Rightarrow> f b rt) Q" using assms(3) by (simp add: case_prod_beta)
  qed
qed

lemma arp_request_sent:
  assumes "C rt" "rt_wf ids rt" "2 < w"
  shows "ok (arp_request D submit port ip rt) (sent C ids rt)"
proof -
  obtain r d where a: "d_mbuf_alloc D (rt_dev rt) = (r, d)" by (cases "d_mbuf_alloc D (rt_dev rt)")
  have s: "sent C ids rt (rt\<lparr>rt_dev := d\<rparr>)" using sent_refl [OF assms(1,2)] by (rule sent_stats)
  show ?thesis
  proof (cases r)
    case None
    then show ?thesis using s by (simp add: arp_request_def rte_pktmbuf_alloc_def a sent_stats)
  next
    case (Some m)
    let ?rt = "rt\<lparr>rt_dev := d\<rparr>"
    have c: "C ?rt" "rt_wf ids ?rt" using s by (simp_all add: sent_def)
    have "ok (enqueue D NODE_ARP_OUTPUT m ctx ?rt) (\<lambda>r. sent C ids rt (snd r))" if "rt_active_output rt \<noteq> None" for ctx
      by (rule ok_mono [OF enqueue_sent [OF c]]) (use that assms(3) s in \<open>auto intro: sent_trans\<close>)
    moreover have "ok (submit NODE_ARP_OUTPUT [p] ?rt) (sent C ids rt)" if "rt_active_output rt = None" for p
      by (rule ok_mono [OF C_submit [OF c]]) (use that s in \<open>auto intro: sent_trans\<close>)
    ultimately show ?thesis
      by (cases "rt_active_output rt") (simp_all add: arp_request_def rte_pktmbuf_alloc_def a Some Let_def)
  qed
qed

subsection \<open>ICMP errors\<close>

lemma append_data:
  "C rt \<Longrightarrow> d_append D m n = Some m' \<Longrightarrow> length (mb_data m') = length (mb_data m) + n \<and> mb_pkt_len m' = mb_pkt_len m + n \<and> mb_segs m' = mb_segs m"
  using device [of rt] unfolding device_ok_def dpdk_ok_def dpdk_append_ok_def mbuf_like_def by (metis length_append)

lemma icmp_build_error_sent:
  assumes "C rt" "rt_wf ids rt" "4 < w" and "ip_inside original (l3 ctx)"
  shows "ok (icmp_build_error D submit original ctx ty code mtu rt) (sent C ids rt)"
proof -
  have s: "sent C ids rt rt" by (rule sent_refl [OF assms(1,2)])
  have rd: "l3 ctx + 20 \<le> data_len original" using assms(4) by (simp add: ip_inside_def)
  obtain reason route where q: "route_query rt (le32_of (take 4 (drop (l3 ctx + 12) (mb_data original))))
      (if netif_is_local_ip rt (le32_of (take 4 (drop (l3 ctx + 16) (mb_data original))))
       then le32_of (take 4 (drop (l3 ctx + 16) (mb_data original))) else 0) NET_IIF_NONE = Some (reason, route)"
      "routed rt (reason, route)"
    using route_query_ok [OF rt_wfD(2) [OF assms(2)]] unfolding ok_iff by fast
  obtain r d where a: "d_mbuf_alloc D (rt_dev rt) = (r, d)" by (cases "d_mbuf_alloc D (rt_dev rt)")
  have sd: "sent C ids rt (rt\<lparr>rt_dev := d\<rparr>)" using s by (rule sent_stats)
  then have c: "C (rt\<lparr>rt_dev := d\<rparr>)" "rt_wf ids (rt\<lparr>rt_dev := d\<rparr>)" by (simp_all add: sent_def)
  have out: "ok (do {
        quotation \<leftarrow> rd_bytes original (l3 ctx) quote;
        m' \<leftarrow> wr_bytes m' (data_len m) (icmp_error_bytes D ty code mtu quotation);
        port \<leftarrow> netif_by_id rt (rr_netif_id route);
        (accepted, rt) \<leftarrow> output_packet D submit m' (f port) (rt\<lparr>rt_dev := d\<rparr>);
        Some (if accepted then icmp_generated rt else icmp_failed rt)
      }) (sent C ids rt)"
    if ap: "d_append D m (8 + quote) = Some m'" and le: "quote \<le> ip_total original (l3 ctx)" and "reason = DROP_NONE" for m m' quote f
  proof -
    have "l3 ctx + quote \<le> data_len original" using le assms(4) by (simp add: ip_inside_def)
    moreover obtain port where "netif_by_id rt (rr_netif_id route) = Some port"
      using q(2) \<open>reason = DROP_NONE\<close> by (auto simp: routed_def)
    ultimately show ?thesis
      using append_data [OF assms(1) ap]
      by (simp add: rd_bytes_Some wr_bytes_def length_icmp_error_bytes)
        (rule output_packet_bind [OF sd assms(3)], simp add: icmp_generated_def icmp_failed_def sent_stats)
  qed
  show ?thesis
    using rd s sd
    by (cases r)
      (auto simp: icmp_build_error_def rd_eqs q(1) Let_def rte_pktmbuf_alloc_def a icmp_failed_def sent_stats
        intro!: out split: option.split)
qed

lemma icmp_send_error_sent:
  assumes "C rt" "rt_wf ids rt" "4 < w"
  shows "ok (icmp_send_error D submit original ctx ty code mtu now rt) (sent C ids rt)"
proof -
  have s: "sent C ids rt rt" by (rule sent_refl [OF assms(1,2)])
  have div: "d_timer_hz D div 10 \<noteq> 0"
  proof -
    have "unat (d_timer_hz D div 10) = unat (d_timer_hz D) div 10" by (simp add: unat_div)
    moreover have "10 \<le> unat (d_timer_hz D)" using device [OF assms(1)] by (simp add: device_ok_def word_le_nat_alt)
    ultimately have "0 < unat (d_timer_hz D div 10)" by (simp add: div_greater_zero_iff)
    then show ?thesis by (rule unat_gt_0 [THEN iffD1])
  qed
  then have "take_token D (rt_icmp_errors rt) now \<noteq> None" unfolding take_token_def Let_def by auto
  then obtain granted st where t: "take_token D (rt_icmp_errors rt) now = Some (granted, st)"
    by (metis old.prod.exhaust option.exhaust)
  have st: "sent C ids rt (rt\<lparr>rt_icmp_errors := st\<rparr>)" using s by (rule sent_other) simp_all
  have b: "ok (icmp_build_error D submit original ctx ty code mtu (rt\<lparr>rt_icmp_errors := st\<rparr>)) (sent C ids rt)"
    if "ip_inside original (l3 ctx)"
    using st by (intro ok_mono [OF icmp_build_error_sent [OF _ _ assms(3) that]])
      (auto simp: sent_def)
  show ?thesis
    unfolding icmp_send_error_def
    by (rule ok_bindI [OF icmp_error_allowed_ok])
      (auto simp: t Let_def icmp_suppressed_def icmp_rate_limited_def s st sent_stats b)
qed

subsection \<open>Packets waiting for a neighbour\<close>

lemma sent_pending: "sent C ids rt rt' \<Longrightarrow> length (pn_packets p) \<le> 8 \<Longrightarrow> sent C ids rt (set_pending i p rt')"
  using C_cong [of rt' "set_pending i p rt'"] rt_wf_set_pending [of ids rt' p i]
  by (simp add: sent_def set_pending_def)

lemma enqueue_all_sent:
  assumes "C rt" "rt_wf ids rt" "rt_active_output rt \<noteq> None" "rank n \<le> 4" "rank n < w"
  shows "ok (for_each (\<lambda>(m, ctx) rt. map_option snd (enqueue D n m ctx rt)) frame rt)
    (\<lambda>rt'. sent C ids rt rt' \<and> rt_active_output rt' \<noteq> None)"
proof (rule for_each_ok)
  show "sent C ids rt rt \<and> rt_active_output rt \<noteq> None" using sent_refl [OF assms(1,2)] assms(3) by blast
  fix p :: "rte_mbuf \<times> packet_ctx" and rt'
  assume i: "sent C ids rt rt' \<and> rt_active_output rt' \<noteq> None"
  obtain m ctx where p: "p = (m, ctx)" by (cases p)
  have "ok (enqueue D n m ctx rt') (\<lambda>r. sent C ids rt' (snd r))"
    using i assms(4,5) by (intro enqueue_sent) (simp_all add: sent_def)
  then obtain b rt'' where e: "enqueue D n m ctx rt' = Some (b, rt'')" "sent C ids rt' rt''" by (auto simp: ok_iff)
  then show "ok ((\<lambda>(m, ctx) rt. map_option snd (enqueue D n m ctx rt)) p rt')
      (\<lambda>rt'. sent C ids rt rt' \<and> rt_active_output rt' \<noteq> None)"
    using i enqueue_active [OF e(1)] sent_trans [of rt rt' rt''] by (simp add: p)
qed

lemma release_pending_sent:
  assumes "C rt" "rt_wf ids rt" "3 < w" "i < 16"
  shows "ok (release_pending D submit i rt) (sent C ids rt)"
proof -
  let ?rt = "set_pending i zero_pending rt" and ?f = "pn_packets (rt_pending rt ! i)"
  have s: "sent C ids rt ?rt" using sent_refl [OF assms(1,2)] by (rule sent_pending) (simp add: zero_pending_def)
  then have c: "C ?rt" "rt_wf ids ?rt" by (simp_all add: sent_def)
  have len: "length ?f \<le> 64" using pending_wf_nth [OF rt_wfD(5) [OF assms(2)] assms(4)] by simp
  have act: "rt_active_output ?rt = rt_active_output rt" by (simp add: set_pending_def)
  show ?thesis
  proof (cases "rt_active_output rt")
    case None
    have "ok (submit NODE_ETH_OUTPUT ?f ?rt) (sent C ids ?rt)"
      by (rule C_submit [OF c]) (use None act len in simp_all)
    then have "ok (submit NODE_ETH_OUTPUT ?f ?rt) (sent C ids rt)"
      by (rule ok_mono) (rule sent_trans [OF s])
    then show ?thesis using None by (simp add: release_pending_def Let_def act)
  next
    case (Some out)
    have "ok (for_each (\<lambda>(m, ctx) rt. map_option snd (enqueue D NODE_ETH_OUTPUT m ctx rt)) ?f ?rt) (sent C ids rt)"
      by (rule ok_mono [OF enqueue_all_sent [OF c]]) (use Some act assms(3) in \<open>auto intro: sent_trans [OF s]\<close>)
    then show ?thesis using Some by (simp add: release_pending_def Let_def act)
  qed
qed

lemma discard_pending_sent:
  assumes "C rt" "rt_wf ids rt" "4 < w"
  shows "ok (discard_pending D submit i reason now rt) (sent C ids rt)"
proof -
  have step: "ok (discard_packet D submit reason now p rt') (sent C ids rt)" if s: "sent C ids rt rt'" for p rt'
  proof -
    obtain m ctx where p: "p = (m, ctx)" by (cases p)
    have "ok (icmp_send_error D submit m ctx 3 1 0 now rt') (sent C ids rt)"
      using s assms(3) by (intro ok_mono [OF icmp_send_error_sent]) (auto simp: sent_def)
    then show ?thesis
      using s by (auto simp: discard_packet_def p ok_bind_iff sent_stats elim!: ok_mono)
  qed
  have "sent C ids rt (set_pending i zero_pending rt)"
    using sent_refl [OF assms(1,2)] by (rule sent_pending) (simp add: zero_pending_def)
  then show ?thesis
    unfolding discard_pending_def Let_def by (intro for_each_ok step) (simp_all add: sent_stats)
qed

lemma sent_event: "sent C ids rt rt' \<Longrightarrow> sent C ids rt (admin_neighbour_event dev ip action rt')"
  by (erule sent_other) (simp_all add: admin_neighbour_event_def admin_event_emit_def Let_def split: option.split)

lemma neighbour_queue_sent:
  assumes "C rt" "rt_wf ids rt" "2 < w"
  shows "ok (neighbour_queue D submit dev m ctx now rt) (\<lambda>r. sent C ids rt (snd r))"
proof -
  have s: "sent C ids rt rt" by (rule sent_refl [OF assms(1,2)])
  have len: "pending_slot (rt_pending rt) dev ip = Some i \<Longrightarrow> length (pn_packets (rt_pending rt ! i)) \<le> 8" for ip i
    using pending_wf_nth [OF rt_wfD(5) [OF assms(2)], of i] pending_slot_less [of "rt_pending rt" dev ip i] rt_wfD(5) [OF assms(2)]
    by (simp add: pending_wf_def)
  have arp: "ok (arp_request D submit port ip rt') (sent C ids rt)" if "sent C ids rt rt'" for port ip rt'
    using that assms(3) by (intro ok_mono [OF arp_request_sent]) (auto simp: sent_def)
  show ?thesis
  proof (cases "pending_slot (rt_pending rt) dev (pc_next_hop_ip_be ctx)")
    case None
    then show ?thesis using s by (simp add: neighbour_queue_def)
  next
    case (Some i)
    define p where "p = rt_pending rt ! i"
    have p: "length (pn_packets p) \<le> 8" using len [OF Some] by (simp add: p_def)
    show ?thesis
    proof (cases "length (pn_packets p) = 8 \<or> netif_by_id rt dev = None")
      case True
      then show ?thesis using Some s by (auto simp: neighbour_queue_def Let_def p_def [symmetric])
    next
      case False
      then obtain port where port: "netif_by_id rt dev = Some port" by blast
      have pend: "sent C ids rt (set_pending i q rt)" if "length (pn_packets q) \<le> 8" for q
        using s that by (rule sent_pending)
      have "length (pn_packets p) < 8" using p False by simp
      then show ?thesis
        using Some s False port
        by (auto simp: neighbour_queue_def Let_def p_def [symmetric] ok_bind_iff intro!: arp sent_stats pend)
    qed
  qed
qed

lemma neighbour_update_sent:
  assumes "C rt" "rt_wf ids rt" "3 < w" "length mac = 6"
  shows "ok (neighbour_update D submit dev ip mac rt) (\<lambda>r. sent C ids rt (snd r))"
proof -
  obtain rc t where l: "neighbour_learn (d_valid_mac D) (rt_neighbours rt) dev ip mac = (rc, t)" by fastforce
  have "nb_wf t" using neighbour_learn_wf [OF rt_wfD(4) [OF assms(2)] assms(4), of "d_valid_mac D" dev ip] by (simp add: l)
  then have s: "sent C ids rt (rt\<lparr>rt_neighbours := t\<rparr>)"
    using assms(1,2) C_cong [of rt "rt\<lparr>rt_neighbours := t\<rparr>"] by (simp add: sent_def rt_wf_def)
  have rel: "ok (if b then release_pending D submit i rt' else Some rt') (sent C ids rt)"
    if "i \<in> set [0..<16]" "sent C ids rt rt'" for b i rt'
  proof -
    have "ok (release_pending D submit i rt') (sent C ids rt')"
      using that assms(3) by (intro release_pending_sent) (simp_all add: sent_def)
    then show ?thesis using that(2) by (auto elim!: ok_mono intro: sent_trans)
  qed
  have "ok (for_each (\<lambda>i rt. let p = rt_pending rt ! i in
        if pn_packets p \<noteq> [] \<and> pn_netif_id p = dev \<and> pn_ip_be p = ip then release_pending D submit i rt else Some rt)
      [0..<16] rt') (sent C ids rt)" if "sent C ids rt rt'" for rt'
    using that by (rule for_each_ok) (simp only: Let_def, rule rel)
  then show ?thesis
    using s by (cases rc) (simp_all add: neighbour_update_def l Let_def ok_bind_iff sent_event)
qed

lemma sent_step:
  assumes "sent C ids rt rt'" and "\<And>rt. C rt \<Longrightarrow> rt_wf ids rt \<Longrightarrow> ok (f rt) (sent C ids rt)"
  shows "ok (f rt') (sent C ids rt)"
  by (rule ok_mono [OF assms(2)]) (use assms(1) in \<open>auto simp: sent_def\<close>)

lemma tick_pending_sent:
  assumes "C rt" "rt_wf ids rt" "4 < w" "i < 16"
  shows "ok (tick_pending D submit now i rt) (sent C ids rt)"
proof -
  have s: "sent C ids rt rt" by (rule sent_refl [OF assms(1,2)])
  let ?p = "rt_pending rt ! i"
  have len: "length (pn_packets ?p) \<le> 8" by (rule pending_wf_nth [OF rt_wfD(5) [OF assms(2)] assms(4)])
  have "ok (discard_pending D submit i reason now rt) (sent C ids rt)" for reason
    by (rule discard_pending_sent [OF assms(1-3)])
  moreover have "ok (release_pending D submit i rt) (sent C ids rt)"
    using assms by (intro release_pending_sent) simp_all
  moreover have "ok (arp_request D submit port ip (set_pending i (?p\<lparr>pn_requests := n, pn_last_request := now\<rparr>) rt)) (sent C ids rt)"
    for port ip n
    by (rule sent_step [OF sent_pending [OF s]]) (use assms(3) len in \<open>simp_all add: arp_request_sent\<close>)
  ultimately show ?thesis using s by (simp add: tick_pending_def Let_def split: option.split)
qed

lemma neighbour_tick_sent:
  assumes "C rt" "rt_wf ids rt" "4 < w"
  shows "ok (neighbour_tick D submit now rt) (sent C ids rt)"
  unfolding neighbour_tick_def
proof (rule for_each_ok)
  show "sent C ids rt rt" by (rule sent_refl [OF assms(1,2)])
  fix i rt' assume "i \<in> set [0..<16]" "sent C ids rt rt'"
  then show "ok (tick_pending D submit now i rt') (sent C ids rt)"
    using assms(3) by (intro sent_step [of rt rt' "tick_pending D submit now i"] tick_pending_sent) simp_all
qed

lemma neighbour_cancel_sent:
  assumes "C rt" "rt_wf ids rt" "4 < w"
  shows "ok (neighbour_cancel D submit dev ip rt) (sent C ids rt)"
  unfolding neighbour_cancel_def
proof (rule for_each_ok)
  show "sent C ids rt rt" by (rule sent_refl [OF assms(1,2)])
  fix i rt' assume s: "sent C ids rt rt'"
  then have "ok (discard_pending D submit i DROP_NEIGHBOUR_CANCELLED 0 rt') (sent C ids rt)"
    using assms(3) by (intro sent_step [of rt rt' "discard_pending D submit i DROP_NEIGHBOUR_CANCELLED 0"] discard_pending_sent)
  then show "ok (let p = rt_pending rt' ! i in
      if pn_packets p \<noteq> [] \<and> pn_netif_id p = dev \<and> (ip = 0 \<or> pn_ip_be p = ip)
      then discard_pending D submit i DROP_NEIGHBOUR_CANCELLED 0 rt' else Some rt') (sent C ids rt)"
    using s by (simp add: Let_def)
qed

lemma sent_neighbours: "sent C ids rt rt' \<Longrightarrow> nb_wf t \<Longrightarrow> sent C ids rt (rt'\<lparr>rt_neighbours := t\<rparr>)"
  using C_cong [of rt' "rt'\<lparr>rt_neighbours := t\<rparr>"] by (auto simp: sent_def rt_wf_def)

lemma neighbour_set_sent:
  assumes "C rt" "rt_wf ids rt" "3 < w" "length mac = 6"
  shows "ok (neighbour_set D submit dev ip mac replace rt) (\<lambda>r. sent C ids rt (snd r))"
proof -
  have s: "sent C ids rt rt" by (rule sent_refl [OF assms(1,2)])
  obtain rc t where p: "neighbour_put (rt_neighbours rt) dev ip mac replace = (rc, t)" by fastforce
  have "nb_wf t" using neighbour_put_wf [OF rt_wfD(4) [OF assms(2)] assms(4), of dev ip replace] by (simp add: p)
  then have e: "sent C ids rt (admin_neighbour_event dev ip a (rt\<lparr>rt_neighbours := t\<rparr>))" for a
    by (intro sent_event sent_neighbours s)
  have "ok (neighbour_update D submit dev ip mac rt') (\<lambda>r. sent C ids rt (snd r))" if "sent C ids rt rt'" for rt'
    by (rule ok_mono [OF neighbour_update_sent [OF _ _ assms(3,4)]]) (use that in \<open>auto simp: sent_def\<close>)
  then show ?thesis using s e by (cases rc) (simp_all add: neighbour_set_def p)
qed

lemma neighbour_delete_sent:
  assumes "C rt" "rt_wf ids rt" "4 < w"
  shows "ok (neighbour_delete D submit dev ip rt) (\<lambda>r. sent C ids rt (snd r))"
proof -
  have s: "sent C ids rt rt" by (rule sent_refl [OF assms(1,2)])
  obtain rc t where p: "neighbour_unset (rt_neighbours rt) dev ip = (rc, t)" by fastforce
  have "nb_wf t" using neighbour_unset_wf [OF rt_wfD(4) [OF assms(2)], of dev ip] by (simp add: p)
  then have e: "sent C ids rt (admin_neighbour_event dev ip a (rt\<lparr>rt_neighbours := t\<rparr>))" for a
    by (intro sent_event sent_neighbours s)
  have "ok (neighbour_cancel D submit dev ip rt') (sent C ids rt)" if "sent C ids rt rt'" for rt'
    using that assms(3) by (intro sent_step [of rt rt' "neighbour_cancel D submit dev ip"] neighbour_cancel_sent)
  then show ?thesis using s e by (cases rc) (simp_all add: neighbour_delete_def p ok_bind_iff)
qed

end

end
