(* ===== verification/Tcp_Safety.thy ===== *)
theory Tcp_Safety
  imports Senders
begin

text \<open>
  TCP in any context that can send: every operation is defined (it never copies outside its buffers)
  and keeps the invariant of the connections.
\<close>

subsection \<open>Acknowledgements\<close>

lemma ucast_u32_u16: "unat (b :: u32) < 2 ^ 16 \<Longrightarrow> unat (ucast b :: u16) = unat b"
  by (rule unat_ucast_small) simp

text \<open>
  The effect of an acknowledgement on the flight: the acknowledged bytes leave the send buffer, and
  nothing wraps around.
\<close>

lemma ack_flight_inv:
  assumes inv: "tcp_inv c" and b: "before (tc_snd_una c) ack" and nb: "\<not> before (tc_snd_nxt c) ack"
  defines "d \<equiv> unat (ack - tc_snd_una c)"
  shows "\<exists>c'. ack_flight ack now c = Some c' \<and>
    take (unat (tc_tx_len c')) (tc_tx c') = (if tc_flight_len c = 0 then id else drop d) (take (unat (tc_tx_len c)) (tc_tx c)) \<and>
    tc_snd_una c' = ack \<and> tc_snd_nxt c' = tc_snd_nxt c \<and> tc_flight_flags c' = tc_flight_flags c \<and>
    (if ack = tc_snd_nxt c then tcp_inv (c'\<lparr>tc_flight_flags := 0\<rparr>) else tcp_inv c') \<and>
    tc_state c' = tc_state c \<and> tc_peer_fin c' = tc_peer_fin c"
proof -
  note I = tcp_invD [OF inv]
  let ?k = "unat (tc_flight_len c) + of_bool (syn_or_fin (tc_flight_flags c))"
  have k: "?k < 2 ^ 31" using I(3,5) by simp
  have nxt: "tc_snd_nxt c = tc_snd_una c + of_nat ?k"
    by (subst I(8)) (simp add: of_bool_def unsigned_ucast_eq)
  have d: "0 < d" "d \<le> ?k"
    using acknowledged_le [OF b _ k, folded nxt] nb by (simp_all add: d_def)
  show ?thesis
  proof (cases "tc_flight_len c = 0")
    case True
    then have "d = 1" "?k = 1" using d by (auto simp: of_bool_def split: if_splits)
    moreover have "ack = tc_snd_una c + of_nat d" by (simp add: d_def)
    ultimately have "ack = tc_snd_una c + 1" by simp
    then have a: "ack = tc_snd_nxt c" unfolding nxt \<open>?k = 1\<close> by simp
    show ?thesis
      using True I inv a by (auto simp: ack_flight_def Let_def tcp_inv_def)
  next
    case False
    then have nf: "\<not> syn_or_fin (tc_flight_flags c)" "tc_flight_flags c \<noteq> 0" using I(6,7) by auto
    have le: "d \<le> unat (tc_flight_len c)" "d \<le> unat (tc_tx_len c)" "d < 2 ^ 16" using d(2) nf I(3,5) by auto
    let ?b = "ucast (ack - tc_snd_una c) :: u16"
    have b: "unat ?b = d" unfolding d_def using le(3) by (intro ucast_u32_u16) (simp add: d_def)
    have tx: "unat (tc_tx_len c - ?b) = unat (tc_tx_len c) - d"
      using le(2) b by (subst unat_sub) (simp_all add: word_le_nat_alt)
    have fl: "unat (tc_flight_len c - ?b) = unat (tc_flight_len c) - d"
      using le(1) b by (subst unat_sub) (simp_all add: word_le_nat_alt)
    let ?tx = "memcpy_at (tc_tx c) 0 (take (unat (tc_tx_len c) - d) (drop d (tc_tx c)))"
    define c' where "c' = c\<lparr>tc_tx_len := tc_tx_len c - ?b, tc_flight_len := tc_flight_len c - ?b, tc_tx := ?tx,
      tc_snd_una := ack, tc_deadline := now + tc_rto c\<rparr>"
    have e: "ack_flight ack now c = Some c'"
      using False tx le(2) I(3) by (simp add: ack_flight_def Let_def c'_def d_def [symmetric])
    have take: "take (unat (tc_tx_len c')) (tc_tx c') = drop d (take (unat (tc_tx_len c)) (tc_tx c))"
    proof -
      have "length (take (unat (tc_tx_len c) - d) (drop d (tc_tx c))) = unat (tc_tx_len c) - d"
        using I(1,3) le(2) by simp
      then show ?thesis
        using take_memcpy_at [of 0 "take (unat (tc_tx_len c) - d) (drop d (tc_tx c))" "tc_tx c"] I(1,3) le(2)
        by (simp add: c'_def tx drop_take)
    qed
    have nxt': "tc_snd_nxt c = ack + ucast (tc_flight_len c - ?b)"
    proof -
      have "ucast (tc_flight_len c - ?b) = (of_nat (unat (tc_flight_len c) - d) :: u32)"
        by (simp add: fl [symmetric] unsigned_ucast_eq)
      also have "\<dots> = of_nat (unat (tc_flight_len c)) - (ack - tc_snd_una c)"
        using le(1) by (simp add: of_nat_diff d_def)
      finally show ?thesis using nxt nf by simp
    qed
    have len: "length ?tx = 8192" using I(1,3) le(2) by (subst length_memcpy_at) auto
    have none: "tc_flight_len c - ?b = 0" if "ack = tc_snd_nxt c"
    proof -
      have "ack - tc_snd_una c = of_nat ?k" unfolding that nxt by (rule add_diff_cancel_left')
      then have "d = unat (of_nat ?k :: u32)" by (simp only: d_def)
      also have "\<dots> = ?k" using k by (simp only: unat_of_nat) simp
      finally have "d = ?k" .
      then show ?thesis using nf fl by (simp add: unat_eq_0 [symmetric])
    qed
    have st: "tc_state c \<noteq> TCP_SYN_SENT" "tc_state c \<noteq> TCP_FIN_WAIT_2" "tc_state c \<noteq> TCP_TIME_WAIT"
      using I(9,10) False nf by auto
    have inv': "tcp_inv c'"
      using len nxt' nf st tx fl I(2-5,11) by (simp add: c'_def tcp_inv_def word_le_nat_alt diff_le_mono)
    have inv0: "tcp_inv (c'\<lparr>tc_flight_flags := 0\<rparr>)" if "ack = tc_snd_nxt c"
      using len none [OF that] that st tx I(2-5,11) by (simp add: c'_def tcp_inv_def)
    show ?thesis
      using e take inv' inv0 False by (intro exI [of _ c']) (simp add: c'_def)
  qed
qed

subsection \<open>Segments\<close>

lemma length_tcp_header: "length (tcp_header a b c d flags e f g) = (if has_flag flags RTE_TCP_SYN_FLAG then 24 else 20)"
  by (simp add: tcp_header_def Let_def)

lemma length_tcp_segment:
  "length (tcp_segment D a b c d flags e f p) = (if has_flag flags RTE_TCP_SYN_FLAG then 24 else 20) + length p"
  by (simp add: tcp_segment_def Let_def length_tcp_header)

lemma upd_tcp_twice:
  "i < length (ss_entries (rt_sockets rt)) \<Longrightarrow> upd_tcp i g (upd_tcp i f rt) = upd_tcp i (\<lambda>c. g (f c)) rt"
  by (simp add: upd_tcp_def set_sock_def)

lemma tcp_upd_tcp: "i < length (ss_entries (rt_sockets rt)) \<Longrightarrow> tcp (upd_tcp i f rt) i = f (tcp rt i)"
  by (simp add: upd_tcp_def sock_set_sock)

lemma upd_tcp_fields [simp]:
  "rt_graph (upd_tcp i f rt) = rt_graph rt" "rt_active_output (upd_tcp i f rt) = rt_active_output rt"
  "rt_graph (set_sock i s rt) = rt_graph rt" "rt_active_output (set_sock i s rt) = rt_active_output rt"
  "rt_graph (tcp_count g rt) = rt_graph rt" "rt_active_output (tcp_count g rt) = rt_active_output rt"
  "rt_sockets (tcp_count g rt) = rt_sockets rt" "rt_network (upd_tcp i f rt) = rt_network rt"
  "rt_network (set_sock i s rt) = rt_network rt"
  by (simp_all add: upd_tcp_def set_sock_def tcp_count_def)

context sender
begin

text \<open>A state in which the next operation may run.\<close>

abbreviation safe :: "'d app_runtime \<Rightarrow> bool" where
  "safe \<equiv> kept C ids"

lemma sent_safe: "sent C ids rt rt' \<Longrightarrow> safe rt'"
  by (simp add: sent_def kept_def)

lemma safe_sent: "safe rt \<Longrightarrow> sent C ids rt rt"
  by (simp add: sent_def kept_def)

lemma safe_tcp: "safe rt \<Longrightarrow> i < 256 \<Longrightarrow> tcp_inv (tcp rt i)"
  using sockets_wf_tcp [of rt i] rt_wfD(1) [of ids rt] by (simp add: kept_def)

lemma safe_length: "safe rt \<Longrightarrow> length (ss_entries (rt_sockets rt)) = 256"
  using sockets_wfD(1) [of "rt_sockets rt"] rt_wfD(1) [of ids rt] by (simp add: kept_def)

lemma safe_count: "safe rt \<Longrightarrow> safe (tcp_count f rt)"
  using sent_safe [OF sent_stats(9) [OF safe_sent]] .

lemma safe_dev: "safe rt \<Longrightarrow> safe (rt\<lparr>rt_dev := d\<rparr>)"
  using sent_safe [OF sent_stats(7) [OF safe_sent]] .

lemma safe_set_sock: "safe rt \<Longrightarrow> (i < 256 \<Longrightarrow> entry_wf i s) \<Longrightarrow> safe (set_sock i s rt)"
  using C_cong [of rt "set_sock i s rt"] rt_wf_set_sock [of ids rt i s] by (simp add: kept_def)

lemma safe_upd_tcp: "safe rt \<Longrightarrow> (i < 256 \<Longrightarrow> tcp_inv (f (tcp rt i))) \<Longrightarrow> safe (upd_tcp i f rt)"
  using C_cong [of rt "upd_tcp i f rt"] rt_wf_upd_tcp [of ids rt i f] by (simp add: kept_def)

lemma safe_upd_same: "safe rt \<Longrightarrow> (\<And>c. tcp_inv c \<Longrightarrow> tcp_inv (f c)) \<Longrightarrow> safe (upd_tcp i f rt)"
  by (rule safe_upd_tcp) (auto intro: safe_tcp)

lemma safe_entry: "safe rt \<Longrightarrow> i < 256 \<Longrightarrow> entry_wf i (sock rt i)"
  using sockets_wfD(4) [of "rt_sockets rt" i] rt_wfD(1) [of ids rt] by (simp add: kept_def)

lemma safe_clock: "safe rt \<Longrightarrow> safe (snd (rte_get_timer_cycles D rt))"
  by (simp add: rte_get_timer_cycles_def case_prod_beta safe_dev)

lemma tcp_emit_sent:
  assumes "safe rt" "4 < w" "unat len \<le> length buffer"
  shows "ok (tcp_emit D submit local remote seq ack flags window buffer len rt) (\<lambda>r. sent C ids rt (snd r))"
proof -
  have s: "sent C ids rt rt" by (rule safe_sent [OF assms(1)])
  have rt_wf: "rt_wf ids rt" using assms(1) by (simp add: kept_def)
  obtain reason route where q: "route_query rt (sa_ip_be remote) (sa_ip_be local) NET_IIF_NONE = Some (reason, route)"
      "routed rt (reason, route)"
    using route_query_ok [OF rt_wfD(2) [OF rt_wf]] unfolding ok_iff by fast
  obtain r d where a: "d_mbuf_alloc D (rt_dev rt) = (r, d)" by (cases "d_mbuf_alloc D (rt_dev rt)")
  have sd: "sent C ids rt (rt\<lparr>rt_dev := d\<rparr>)" using s by (rule sent_stats)
  have out: "ok (do {
        m' \<leftarrow> wr_bytes m' (data_len m) (tcp_segment D local remote seq ack flags window (rr_mtu route) (take (unat len) buffer));
        port \<leftarrow> netif_by_id rt (rr_netif_id route);
        (accepted, rt) \<leftarrow> output_packet D submit m' (f port) (rt\<lparr>rt_dev := d\<rparr>);
        Some (if accepted then (None, tcp_count (\<lambda>s. s\<lparr>ts_sent := ts_sent s + 1\<rparr>) rt) else (Some ENOBUFS, tcp_output_failed rt))
      }) (\<lambda>r. sent C ids rt (snd r))"
    if ap: "d_append D m n = Some m'" and n: "n = (if has_flag flags RTE_TCP_SYN_FLAG then 24 else 20) + unat len"
      and "reason = DROP_NONE" for m m' n f
  proof -
    obtain port where "netif_by_id rt (rr_netif_id route) = Some port"
      using q(2) \<open>reason = DROP_NONE\<close> by (auto simp: routed_def)
    moreover have "data_len m + length (tcp_segment D local remote seq ack flags window (rr_mtu route) (take (unat len) buffer))
        \<le> data_len m'"
      using append_data [OF _ ap, of rt] assms(1,3) n by (simp add: length_tcp_segment kept_def)
    ultimately show ?thesis
      by (simp add: wr_bytes_def)
        (rule output_packet_bind [OF sd assms(2)], simp add: tcp_output_failed_def sent_stats)
  qed
  have failed: "sent C ids rt (tcp_output_failed rt')" if "sent C ids rt rt'" for rt'
    using that by (simp add: tcp_output_failed_def sent_stats)
  show ?thesis
    using s sd assms(3)
    by (cases r)
      (auto simp: tcp_emit_def q(1) Let_def rte_pktmbuf_alloc_def a failed sent_stats intro!: out split: option.split)
qed

lemma emit_flight_sent:
  assumes "safe rt" "4 < w" "i < 256"
  shows "ok (emit_flight D submit i rt) (sent C ids rt)"
proof -
  have "unat (tc_flight_len (tcp rt i)) \<le> length (tc_tx (tcp rt i))"
    using tcp_invD(1,3,5) [OF safe_tcp [OF assms(1,3)]] by simp
  from tcp_emit_sent [OF assms(1,2) this] show ?thesis
    by (simp add: emit_flight_def tcp_emit_flight_def Let_def)
qed

lemma tcp_ack_sent:
  assumes "safe rt" "4 < w"
  shows "ok (tcp_ack D submit i rt) (sent C ids rt)"
  using tcp_emit_sent [OF assms, of 0 "[]"] by (simp add: tcp_ack_def Let_def)

subsection \<open>Failing a connection\<close>

lemma cancel_packet_sent: "sent C ids rt rt' \<Longrightarrow> sent C ids rt (cancel_packet D m rt')"
  by (simp add: cancel_packet_def Let_def sent_stats)

lemma cancel_entry_sent:
  assumes "sent C ids rt rt'" "j < 16"
  shows "sent C ids rt (cancel_entry D s j rt')"
proof -
  have "length (pn_packets (rt_pending rt' ! j)) \<le> 8"
    using pending_wf_nth [OF rt_wfD(5), of ids rt' j] assms by (simp add: sent_def)
  moreover have "length (filter P xs) \<le> k" if "length xs \<le> k" for P k and xs :: node_frame
    using that length_filter_le le_trans by blast
  moreover have "sent C ids rt (fold (\<lambda>(m, ctx) rt. if queued_match s ctx then cancel_packet D m rt else rt) xs rt')" for xs
    using assms(1) by (induction xs arbitrary: rt') (auto simp: cancel_packet_sent)
  ultimately show ?thesis
    by (simp add: cancel_entry_def Let_def sent_pending zero_pending_def)
qed

lemma cancel_queued_sent:
  assumes "safe rt"
  shows "sent C ids rt (cancel_queued D i rt)"
proof -
  have "sent C ids rt (fold (cancel_entry D s) js rt')" if "sent C ids rt rt'" "set js \<subseteq> {..<16}" for s js rt'
    using that by (induction js arbitrary: rt') (simp_all add: cancel_entry_sent)
  from this [OF safe_sent [OF assms], of "[0..<16]"] show ?thesis by (simp add: cancel_queued_def lessThan_atLeast0)
qed

lemma tcp_fail_safe:
  assumes "safe rt"
  shows "safe (tcp_fail D i error rt)"
proof -
  define rt1 where "rt1 = (if tc_state (tcp rt i) \<noteq> TCP_CLOSED
    then tcp_count (\<lambda>s. s\<lparr>ts_closed := ts_closed s + 1\<rparr>) (cancel_queued D i rt) else rt)"
  have s: "safe rt1"
    using assms safe_count [OF sent_safe [OF cancel_queued_sent [OF assms]]] by (simp add: rt1_def)
  have "entry_wf i ((sock rt1 i)\<lparr>se_error := error, se_tcp := zero_tcp\<rparr>)" if "i < 256"
    using safe_entry [OF s that] by (simp add: entry_wf_def)
  then show ?thesis
    using s by (simp add: tcp_fail_def Let_def rt1_def [symmetric] safe_set_sock)
qed

subsection \<open>Starting a flight\<close>

lemma tcp_kick_safe:
  assumes "safe rt" "4 < w" "i < 256"
  shows "ok (tcp_kick D submit i now rt) safe"
proof -
  note inv = safe_tcp [OF assms(1,3)]
  have wf: "rt_wf ids rt" using assms(1) by (simp add: kept_def)
  have fl: "ok (emit_flight D submit i rt') safe" if "safe rt'" for rt'
    by (rule ok_mono [OF emit_flight_sent [OF that assms(2,3)]]) (rule sent_safe)
  have data: "safe (upd_tcp i (start_flight D (RTE_TCP_ACK_FLAG OR RTE_TCP_PSH_FLAG) len now) rt)"
    if "len \<le> tc_tx_len (tcp rt i)" "tc_state (tcp rt i) = TCP_ESTABLISHED \<or> tc_state (tcp rt i) = TCP_CLOSE_WAIT" for len
    using inv that by (intro safe_upd_tcp assms(1) tcp_inv_start_flight) auto
  have fin: "safe (upd_tcp i (\<lambda>c. start_flight D (RTE_TCP_FIN_FLAG OR RTE_TCP_ACK_FLAG) 0 now 
      (c\<lparr>tc_state := (if tc_state c = TCP_CLOSE_WAIT then TCP_LAST_ACK else TCP_FIN_WAIT_1)\<rparr>)) rt)"
    using inv by (intro safe_upd_tcp assms(1) tcp_inv_start_flight) simp_all
  have wait: "safe (upd_tcp i (\<lambda>c. c\<lparr>tc_rto := a, tc_deadline := b, tc_retries := 0\<rparr>) rt)" for a b
    by (rule safe_upd_same [OF assms(1)]) simp
  obtain reason route where q: "route_query rt (sa_ip_be (se_remote (sock rt i))) (sa_ip_be (se_local (sock rt i))) NET_IIF_NONE
      = Some (reason, route)"
    using route_query_ok [OF rt_wfD(2) [OF wf]] unfolding ok_iff by fast
  show ?thesis
    by (auto simp: tcp_kick_def Let_def q assms(1) intro!: fl wait tcp_fail_safe data [simplified] fin [simplified])
qed

subsection \<open>The operations of the application\<close>

lemma sent_ok_safe: "ok m (sent C ids rt) \<Longrightarrow> ok m safe"
  by (erule ok_mono) (rule sent_safe)

lemma safe_active_bind:
  assumes "safe rt" "socket_bind rt i addr = (r, rt')"
  shows "safe rt'" and "se_tcp (sock rt' i) = se_tcp (sock rt i)"
proof -
  have wf: "rt_wf ids rt" using assms(1) by (simp add: kept_def)
  obtain ss where ss: "rt' = rt\<lparr>rt_sockets := ss\<rparr>" using socket_bind_wf(3) [OF rt_wfD(1) [OF wf] assms(2)] by blast
  moreover have "sockets_wf ss" using socket_bind_wf(1) [OF rt_wfD(1) [OF wf] assms(2)] ss by simp
  ultimately show "safe rt'" using wf assms(1) C_cong [of rt rt'] by (simp add: kept_def rt_wf_def)
  show "se_tcp (sock rt' i) = se_tcp (sock rt i)" by (rule socket_bind_wf(2) [OF rt_wfD(1) [OF wf] assms(2)])
qed

lemma safe_initialize:
  assumes "safe rt" and "i < 256" and "\<And>a b c. tcp_inv c \<Longrightarrow> 
      tcp_inv (f (c\<lparr>tc_snd_una := a, tc_snd_nxt := b, tc_mss := 536, tc_peer_window := 65535\<rparr>))"
  shows "safe (upd_tcp i f (initialize D i now rt))"
proof -
  obtain r d where r: "d_rand D (rt_dev rt) = (r, d)" by fastforce
  have s: "safe (rt\<lparr>rt_dev := d\<rparr>)" using assms(1) by (rule safe_dev)
  have "upd_tcp i f (initialize D i now rt) = upd_tcp i (\<lambda>c. f (c\<lparr>tc_snd_una := ucast r XOR ucast now,
      tc_snd_nxt := ucast r XOR ucast now, tc_mss := 536, tc_peer_window := 65535\<rparr>)) (rt\<lparr>rt_dev := d\<rparr>)"
    using safe_length [OF assms(1)] assms(2) by (simp add: initialize_def rte_rand_def r Let_def upd_tcp_twice)
  moreover have "safe \<dots>"
    by (rule safe_upd_same [OF s]) (rule assms(3))
  ultimately show ?thesis by simp
qed

lemma tcp_connect_safe:
  assumes "safe rt" "4 < w" "i < 256"
  shows "ok (tcp_connect D submit i addr rt) (\<lambda>r. safe (snd r))"
proof -
  have wf: "rt_wf ids rt" using assms(1) by (simp add: kept_def)
  obtain reason route where q: "route_query rt (sa_ip_be addr) (sa_ip_be (se_local (sock rt i))) NET_IIF_NONE = Some (reason, route)"
    using route_query_ok [OF rt_wfD(2) [OF wf]] unfolding ok_iff by fast
  obtain r rt1 where b: "(if sa_port (se_local (sock rt i)) = 0 then socket_bind rt i (Some zero_sockaddr) else (None, rt)) = (r, rt1)"
    by fastforce
  have s1: "safe rt1" using b safe_active_bind(1) [OF assms(1)] assms(1) by (auto split: if_splits)
  have start: "safe (upd_tcp i (\<lambda>c. start_flight D RTE_TCP_SYN_FLAG 0 now (c\<lparr>tc_state := TCP_SYN_SENT\<rparr>)) (initialize D i now rt'))"
    if "safe rt'" for rt' now
    by (rule safe_initialize [OF that assms(3)]) (simp add: tcp_inv_def start_flight_def)
  have go: "ok (case rte_get_timer_cycles D (set_sock i ((sock rt1 i)\<lparr>se_local := l, se_remote := addr\<rparr>) rt1) of (now, rt) \<Rightarrow>
      let rt = initialize D i now rt;
          rt = upd_tcp i (\<lambda>c. start_flight D RTE_TCP_SYN_FLAG 0 now (c\<lparr>tc_state := TCP_SYN_SENT\<rparr>)) rt
      in do { rt \<leftarrow> emit_flight D submit i rt; Some (Some EINPROGRESS, rt) }) (\<lambda>r. safe (snd r))" for l
  proof -
    have "safe (set_sock i ((sock rt1 i)\<lparr>se_local := l, se_remote := addr\<rparr>) rt1)"
      by (rule safe_set_sock [OF s1]) (use safe_entry [OF s1] in \<open>simp add: entry_wf_def\<close>)
    note start [OF safe_clock [OF this]]
    note sent_ok_safe [OF emit_flight_sent [OF this assms(2,3)]]
    then show ?thesis by (simp add: case_prod_beta Let_def ok_bind_iff)
  qed
  show ?thesis
    using assms(1) s1 go unfolding tcp_connect_def Let_def q
    by (cases r) (simp_all add: b del: if_split split: if_split)
qed

lemma tcp_listen_safe: "safe rt \<Longrightarrow> safe (snd (tcp_listen i backlog rt))"
  by (auto simp: tcp_listen_def Let_def intro!: safe_upd_same)

lemma tcp_accept_safe:
  assumes "safe rt"
  shows "safe (snd (tcp_accept i rt))"
proof -
  have "entry_wf k (sock rt k\<lparr>se_open := True, se_tcp := (se_tcp (sock rt k))\<lparr>tc_parent := 0, tc_expires := 0\<rparr>\<rparr>)" if "k < 256" for k
    using safe_entry [OF assms that] by (simp add: entry_wf_def)
  then show ?thesis using assms by (simp add: tcp_accept_def Let_def safe_set_sock split: option.split)
qed

lemma tcp_close_safe:
  assumes "safe rt" "4 < w" "i < 256"
  shows "ok (tcp_close D submit i now rt) safe"
proof -
  define rt1 where "rt1 = set_sock i ((sock rt i)\<lparr>se_open := False\<rparr>) rt"
  have s1: "safe rt1"
    unfolding rt1_def by (rule safe_set_sock [OF assms(1)]) (use safe_entry [OF assms(1)] in \<open>simp add: entry_wf_def\<close>)
  have child: "ok (close_child D submit fd k rt') safe" if "safe rt'" for fd k rt'
  proof -
    have "ok (tcp_emit D submit l r a b f wd [] 0 (tcp_fail D k e rt')) (\<lambda>x. safe (snd x))" for l r a b f wd e
      by (rule ok_mono [OF tcp_emit_sent [OF tcp_fail_safe [OF that] assms(2)]]) (auto intro: sent_safe)
    then show ?thesis using that by (simp add: close_child_def Let_def)
  qed
  have "ok (for_each (close_child D submit fd) ks rt1) safe" for fd ks
    using s1 by (rule for_each_ok) (rule child)
  then have listen: "ok (Option.bind (for_each (close_child D submit fd) ks rt1) (\<lambda>rt. Some (set_sock i zero_socket rt))) safe" for fd ks
    by (rule ok_bindI) (simp add: safe_set_sock)
  have kick: "ok (tcp_kick D submit i now (upd_tcp i (\<lambda>c. c\<lparr>tc_closing := True\<rparr>) rt1)) safe"
    by (rule tcp_kick_safe [OF safe_upd_same [OF s1] assms(2,3)]) simp
  show ?thesis
    unfolding tcp_close_def Let_def rt1_def [symmetric]
    by (intro ok_ifI listen kick) (simp add: tcp_fail_safe s1)
qed

lemma tcp_send_safe:
  assumes "safe rt" "4 < w" "i < 256"
  shows "ok (tcp_send D submit i payload rt) (\<lambda>r. safe (snd r))"
proof -
  note inv = safe_tcp [OF assms(1,3)]
  note I = tcp_invD [OF inv]
  define a where "a = min (length payload) (8192 - unat (tc_tx_len (tcp rt i)))"
  define rt1 where "rt1 = upd_tcp i (\<lambda>c. c\<lparr>tc_tx := memcpy_at (tc_tx c) (unat (tc_tx_len c)) (take a payload),
    tc_tx_len := tc_tx_len c + of_nat a\<rparr>) rt"
  have a: "a \<le> length payload" "unat (tc_tx_len (tcp rt i)) + a \<le> 8192" using I(3) by (simp_all add: a_def)
  have ua: "unat (of_nat a :: u16) = a" using a(2) by (simp add: unat_of_nat)
  have sum: "unat (tc_tx_len (tcp rt i) + of_nat a) = unat (tc_tx_len (tcp rt i)) + a"
    using a(2) ua by (subst unat_add_lem [THEN iffD1]) simp_all
  have "tcp_inv ((tcp rt i)\<lparr>tc_tx := memcpy_at (tc_tx (tcp rt i)) (unat (tc_tx_len (tcp rt i))) (take a payload),
      tc_tx_len := tc_tx_len (tcp rt i) + of_nat a\<rparr>)"
    using inv a sum by (auto simp: tcp_inv_def word_le_nat_alt)
  then have s1: "safe rt1" unfolding rt1_def by (intro safe_upd_tcp assms(1)) simp
  have "ok (tcp_kick D submit i now (snd (rte_get_timer_cycles D rt1))) safe" for now
    by (rule tcp_kick_safe [OF safe_clock [OF s1] assms(2,3)])
  then show ?thesis
    using assms(1) I(3) unfolding tcp_send_def Let_def a_def [symmetric]
    by (auto simp: rt1_def [symmetric] case_prod_beta ok_bind_iff not_less split: option.split)
qed

lemma tcp_recv_safe:
  assumes "safe rt" "4 < w" "i < 256"
  shows "ok (tcp_recv D submit i len rt) (\<lambda>r. safe (snd r))"
proof -
  note inv = safe_tcp [OF assms(1,3)]
  note I = tcp_invD [OF inv]
  define k where "k = min len (unat (tc_rx_len (tcp rt i)))"
  define l where "l = unat (tc_rx_len (tcp rt i)) - k"
  define rt1 where "rt1 = upd_tcp i (\<lambda>c. c\<lparr>tc_rx := memcpy_at (tc_rx c) 0 (take l (drop k (tc_rx c))), tc_rx_len := of_nat l\<rparr>) rt"
  have l: "l \<le> 8192" "unat (of_nat l :: u16) = l" using I(4) by (simp_all add: l_def unat_of_nat)
  have "tcp_inv ((tcp rt i)\<lparr>tc_rx := memcpy_at (tc_rx (tcp rt i)) 0 (take l (drop k (tc_rx (tcp rt i)))), tc_rx_len := of_nat l\<rparr>)"
    using inv l by (auto simp: tcp_inv_def)
  then have s1: "safe rt1" unfolding rt1_def by (intro safe_upd_tcp assms(1)) simp
  have "ok (tcp_ack D submit i rt1) safe" by (rule sent_ok_safe [OF tcp_ack_sent [OF s1 assms(2)]])
  then show ?thesis
    using assms(1) I(4) unfolding tcp_recv_def Let_def k_def [symmetric] l_def [symmetric]
    by (auto simp: rt1_def [symmetric] ok_bind_iff)
qed

subsection \<open>Input\<close>

lemma reset_reply_safe:
  assumes "safe rt" "4 < w"
  shows "ok (reset_reply D submit l r seq ack flags len rt) safe"
proof -
  have "ok (do { (_, rt) \<leftarrow> tcp_emit D submit l r a b f 0 [] 0 rt; Some (tcp_count g rt) }) safe" for a b f g
    by (rule ok_bindI [OF tcp_emit_sent [OF assms]]) (auto simp: case_prod_beta intro: safe_count sent_safe)
  then show ?thesis
    unfolding reset_reply_def Let_def by (auto simp: assms(1))
qed

lemma safe_allocate:
  assumes "safe rt" "socket_allocate rt ty = (r, rt')"
  shows "safe rt'" and "r = Some i \<Longrightarrow> i < 256"
proof -
  have wf: "rt_wf ids rt" using assms(1) by (simp add: kept_def)
  note a = socket_allocate_wf [OF rt_wfD(1) [OF wf] assms(2)]
  have "rt_wf ids rt' \<and> rt_graph rt' = rt_graph rt \<and> rt_active_output rt' = rt_active_output rt \<and>
      rt_network rt' = rt_network rt"
    using assms(2) a(1) wf by (auto simp: socket_allocate_def Let_def rt_wf_def set_sock_def split: option.splits)
  then show "safe rt'" using assms(1) C_cong [of rt rt'] by (simp add: kept_def)
  show "r = Some i \<Longrightarrow> i < 256" using a(2) by blast
qed

lemma passive_open_safe:
  assumes "safe rt" "4 < w"
  shows "ok (passive_open D submit listen l r seq window mss now rt) (\<lambda>r. safe (snd r))"
proof -
  obtain k rt1 where a: "socket_allocate rt PS_SOCK_STREAM = (k, rt1)" by fastforce
  note s1 = safe_allocate [OF assms(1) a]
  have go: "ok (emit_flight D submit i (upd_tcp i (\<lambda>c. start_flight D (RTE_TCP_SYN_FLAG OR RTE_TCP_ACK_FLAG) 0 now
      (c\<lparr>tc_parent := p, tc_state := TCP_SYN_RECEIVED, tc_rcv_nxt := seq + 1, tc_peer_window := window, tc_mss := mss,
         tc_snd_wl1 := seq\<rparr>)) (initialize D i now (set_sock i ((sock rt1 i)\<lparr>se_open := False, se_owner := ow,
           se_local := l, se_remote := r\<rparr>) rt1)))) safe" if "i < 256" for i p ow
  proof -
    have "safe (set_sock i ((sock rt1 i)\<lparr>se_open := False, se_owner := ow, se_local := l, se_remote := r\<rparr>) rt1)"
      by (rule safe_set_sock [OF s1(1)]) (use safe_entry [OF s1(1)] in \<open>simp add: entry_wf_def\<close>)
    from safe_initialize [OF this that] show ?thesis
      by (rule sent_ok_safe [OF emit_flight_sent [OF _ assms(2) that]]) (simp add: tcp_inv_def start_flight_def)
  qed
  show ?thesis
  proof (cases k)
    case (Some i)
    show ?thesis
      unfolding passive_open_def Let_def a Some prod.case option.case
      using Some s1(2) by (intro ok_ifI ok_bindI [where R = safe] go) (simp_all add: assms(1) safe_count)
  qed (simp add: passive_open_def Let_def a assms(1) s1(1))
qed

lemma safe_time_wait:
  assumes "safe rt" "i < 256 \<Longrightarrow> tc_flight_flags (tcp rt i) = 0"
  shows "safe (upd_tcp i (tcp_time_wait D now) rt)"
  using assms safe_tcp [OF assms(1), of i] by (intro safe_upd_tcp) (simp_all add: tcp_time_wait_def tcp_inv_def)

lemma acknowledge_safe:
  assumes "safe rt" "i < 256" "\<not> before (tc_snd_nxt (tcp rt i)) ack"
  shows "ok (acknowledge D i ack now rt) safe"
proof (cases "before (tc_snd_una (tcp rt i)) ack")
  case True
  from ack_flight_inv [OF safe_tcp [OF assms(1,2)] True assms(3), of now]
  obtain c where c: "ack_flight ack now (tcp rt i) = Some c" "tc_snd_nxt c = tc_snd_nxt (tcp rt i)"
      "if ack = tc_snd_nxt (tcp rt i) then tcp_inv (c\<lparr>tc_flight_flags := 0\<rparr>) else tcp_inv c"
    by blast
  define c1 where "c1 = c\<lparr>tc_flight_flags := 0, tc_deadline := 0, tc_retries := 0\<rparr>"
  define rt1 where "rt1 = upd_tcp i (\<lambda>_. c1) rt"
  have other: "safe (upd_tcp i (\<lambda>_. c) rt)" if "ack \<noteq> tc_snd_nxt c"
    using c that by (intro safe_upd_tcp assms(1)) simp
  have s1: "safe rt1" "tcp rt1 i = c1" if "ack = tc_snd_nxt c"
    using c that safe_length [OF assms(1)] assms(2)
    by (auto simp: rt1_def c1_def tcp_upd_tcp intro!: safe_upd_tcp assms(1))
  have fw: "safe (upd_tcp i (\<lambda>c. c\<lparr>tc_state := TCP_FIN_WAIT_2, tc_expires := t\<rparr>) rt1)" if "ack = tc_snd_nxt c" for t
    using s1 [OF that] safe_tcp [OF s1(1) [OF that], of i] by (intro safe_upd_tcp) (simp_all add: c1_def)
  have tw: "safe (upd_tcp i (tcp_time_wait D now) rt1)" if "ack = tc_snd_nxt c"
    using s1 [OF that] by (intro safe_time_wait) (simp_all add: c1_def)
  show ?thesis
    using True other unfolding acknowledge_def Let_def c(1) Option.bind.bind_lunit c1_def [symmetric] rt1_def [symmetric]
    by (auto simp: s1(1) fw tw tcp_fail_safe)
qed (simp add: acknowledge_def assms(1) safe_count)

lemma input_unknown_safe:
  assumes "safe rt" "4 < w"
  shows "ok (input_unknown D submit sg now rt) (\<lambda>r. safe (snd r))"
  using passive_open_safe [OF assms]
  by (auto simp: input_unknown_def Let_def split: option.split intro!: ok_bindI [OF reset_reply_safe [OF assms]])

lemma input_syn_sent_safe:
  assumes "safe rt" "4 < w" "i < 256" "tc_state (tcp rt i) = TCP_SYN_SENT"
  shows "ok (input_syn_sent D submit sg i rt) (\<lambda>r. safe (snd r))"
proof -
  have reset: "ok (do {
        rt \<leftarrow> reset_reply D submit (sg_local sg) (sg_remote sg) (sg_seq sg) (sg_ack sg) flags (sg_len sg) rt;
        Some (DROP_TCP_INVALID_STATE, rt) }) (\<lambda>r. safe (snd r))" for flags
    by (rule ok_bindI [OF reset_reply_safe [OF assms(1,2)]]) simp
  define rt1 where "rt1 = tcp_count (\<lambda>s. s\<lparr>ts_established := ts_established s + 1\<rparr>)
    (upd_tcp i (\<lambda>c. c\<lparr>tc_rcv_nxt := sg_seq sg + 1, tc_snd_una := sg_ack sg, tc_flight_flags := 0,
       tc_deadline := 0, tc_mss := sg_mss sg, tc_peer_window := sg_window sg, tc_snd_wl1 := sg_seq sg,
       tc_snd_wl2 := sg_ack sg, tc_state := TCP_ESTABLISHED\<rparr>) rt)"
  have "safe rt1" if "sg_ack sg = tc_snd_nxt (tcp rt i)"
    using safe_tcp [OF assms(1,3)] assms(4) that unfolding rt1_def
    by (intro safe_count safe_upd_tcp assms(1)) (simp add: tcp_inv_def)
  then have go: "ok (do { rt \<leftarrow> tcp_ack D submit i rt1; Some (DROP_NONE, rt) }) (\<lambda>r. safe (snd r))"
    if "sg_ack sg = tc_snd_nxt (tcp rt i)"
    using that by (intro ok_bindI [OF tcp_ack_sent [OF _ assms(2)]]) (auto intro: sent_safe)
  have flag: "has_flag f RTE_TCP_ACK_FLAG" if "f AND (RTE_TCP_SYN_FLAG OR RTE_TCP_ACK_FLAG) = RTE_TCP_SYN_FLAG OR RTE_TCP_ACK_FLAG" for f :: u8
  proof -
    have "bit (f AND 18) 4" using that by (simp add: bit_numeral_rec)
    then have "bit (f AND 16) 4" by (simp add: bit_and_iff bit_numeral_rec)
    then show ?thesis by auto
  qed
  show ?thesis
    unfolding input_syn_sent_def Let_def rt1_def [symmetric]
    using flag go by (intro ok_ifI reset) (auto simp: assms(1) tcp_fail_safe)
qed

text \<open>The payload of a segment lies in its mbuf.\<close>

abbreviation seg_ok :: "segment \<Rightarrow> bool" where
  "seg_ok sg \<equiv> sg_payload sg + unat (sg_len sg) \<le> data_len (sg_mbuf sg)"

lemma input_payload_safe:
  assumes "safe rt" "i < 256" "seg_ok sg"
  shows "ok (input_payload sg i rt) (\<lambda>r. safe (snd r))"
proof -
  note inv = safe_tcp [OF assms(1,2)]
  note I = tcp_invD [OF inv]
  define k where "k = min (unat (sg_len sg)) (8192 - unat (tc_rx_len (tcp rt i)))"
  have k: "unat (tc_rx_len (tcp rt i)) + k \<le> 8192" "k \<le> unat (sg_len sg)" using I(4) by (simp_all add: k_def)
  obtain bytes where b: "rd_bytes (sg_mbuf sg) (sg_payload sg) k = Some bytes" "length bytes = k"
    using assms(3) k(2) by (auto simp: rd_bytes_Some)
  have uk: "unat (of_nat k :: u16) = k" using k(1) by (simp add: unat_of_nat)
  have sum: "unat (tc_rx_len (tcp rt i) + of_nat k) = unat (tc_rx_len (tcp rt i)) + k"
    using k(1) uk by (subst unat_add_lem [THEN iffD1]) simp_all
  have "tcp_inv ((tcp rt i)\<lparr>tc_rx := memcpy_at (tc_rx (tcp rt i)) (unat (tc_rx_len (tcp rt i))) bytes,
      tc_rx_len := tc_rx_len (tcp rt i) + of_nat k, tc_rcv_nxt := q\<rparr>)" for q
    using inv k(1) sum b(2) by (auto simp: tcp_inv_def)
  then have "safe (upd_tcp i (\<lambda>c. c\<lparr>tc_rx := memcpy_at (tc_rx c) (unat (tc_rx_len c)) bytes,
      tc_rx_len := tc_rx_len c + of_nat k, tc_rcv_nxt := tc_rcv_nxt c + of_nat k\<rparr>) rt)"
    by (intro safe_upd_tcp assms(1)) simp
  then show ?thesis
    using assms(1) I(4) by (simp add: input_payload_def Let_def k_def [symmetric] b(1))
qed

lemma input_fin_safe: "safe rt \<Longrightarrow> safe (input_fin D sg i now rt)"
  using safe_tcp [of rt i] tcp_invD(10) [of "tcp rt i"]
  by (auto simp: input_fin_def Let_def intro!: safe_upd_tcp) (auto simp: tcp_time_wait_def tcp_inv_def)

lemma input_accept_safe:
  assumes "safe rt" "4 < w" "i < 256" "seg_ok sg"
  shows "ok (input_accept D submit sg i now rt) (\<lambda>r. safe (snd r))"
proof -
  have kick: "ok (do { rt \<leftarrow> tcp_kick D submit i now rt'; Some (DROP_NONE, rt) }) (\<lambda>r. safe (snd r))" if "safe rt'" for rt'
    by (rule ok_bindI [OF tcp_kick_safe [OF that assms(2,3)]]) simp
  have ack: "ok (tcp_ack D submit i rt') safe" if "safe rt'" for rt'
    by (rule sent_ok_safe [OF tcp_ack_sent [OF that assms(2)]])
  have pay: "ok (input_payload sg i (upd_tcp i (\<lambda>c. if P c then c\<lparr>tc_peer_window := a, tc_snd_wl1 := b, tc_snd_wl2 := d\<rparr> else c) rt))
      (\<lambda>r. safe (snd r))" for P a b d
    by (rule input_payload_safe [OF safe_upd_same [OF assms(1)] assms(3,4)]) simp
  show ?thesis
    unfolding input_accept_def Let_def
    by (rule ok_bindI [OF pay])
      (auto split: prod.split intro!: ok_bindI [OF ack] kick input_fin_safe)
qed

lemma input_in_order_safe:
  assumes "safe rt" "4 < w" "i < 256" "seg_ok sg"
  shows "ok (input_in_order D submit sg i now rt) (\<lambda>r. safe (snd r))"
proof -
  have reset: "ok (do {
        rt \<leftarrow> reset_reply D submit (sg_local sg) (sg_remote sg) (sg_seq sg) (sg_ack sg) flags (sg_len sg) rt;
        Some (DROP_TCP_INVALID_STATE, rt) }) (\<lambda>r. safe (snd r))" for flags
    by (rule ok_bindI [OF reset_reply_safe [OF assms(1,2)]]) simp
  have ack: "ok (map_option (Pair reason) (tcp_ack D submit i rt)) (\<lambda>r. safe (snd r))" for reason
    using sent_ok_safe [OF tcp_ack_sent [OF assms(1,2)]] by simp
  define rt1 where "rt1 = (if tc_state (tcp rt i) = TCP_SYN_RECEIVED
      then tcp_count (\<lambda>s. s\<lparr>ts_established := ts_established s + 1\<rparr>)
        (upd_tcp i (\<lambda>c. c\<lparr>tc_state := TCP_ESTABLISHED, tc_expires := now + 60 * d_timer_hz D\<rparr>) rt) else rt)"
  have s1: "safe rt1" using assms(1) by (simp add: rt1_def safe_count safe_upd_same)
  have "tc_snd_nxt (tcp rt1 i) = tc_snd_nxt (tcp rt i)"
    using safe_length [OF assms(1)] assms(3) tcp_upd_tcp [of i rt] by (simp add: rt1_def)
  then have "ok (acknowledge D i (sg_ack sg) now rt1) safe" if "\<not> before (tc_snd_nxt (tcp rt i)) (sg_ack sg)"
    using that by (intro acknowledge_safe [OF s1 assms(3)]) simp
  then have go: "ok (do { rt \<leftarrow> acknowledge D i (sg_ack sg) now rt1;
           if \<not> se_allocated (sock rt i) \<or> tc_state (tcp rt i) = TCP_CLOSED then Some (DROP_NONE, rt)
           else input_accept D submit sg i now rt }) (\<lambda>r. safe (snd r))"
    if "\<not> before (tc_snd_nxt (tcp rt i)) (sg_ack sg)"
    using that by (intro ok_bindI [where R = safe]) (auto simp: input_accept_safe assms(2,3,4))
  show ?thesis
    unfolding input_in_order_def Let_def rt1_def [symmetric]
    by (intro ok_ifI reset ack go) (simp_all add: assms(1) tcp_fail_safe safe_count)
qed

lemma input_known_safe:
  assumes "safe rt" "4 < w" "i < 256" "seg_ok sg"
  shows "ok (input_known D submit sg i now rt) (\<lambda>r. safe (snd r))"
proof -
  have fl: "ok (map_option (Pair DROP_NONE) (emit_flight D submit i rt)) (\<lambda>r. safe (snd r))"
    using sent_ok_safe [OF emit_flight_sent [OF assms(1-3)]] by simp
  have ack: "ok (if b then tcp_ack D submit i rt else Some rt) safe" for b
    using sent_ok_safe [OF tcp_ack_sent [OF assms(1,2)]] assms(1) by simp
  have tw: "ok (do { rt \<leftarrow> tcp_ack D submit i rt;
      Some (DROP_NONE, if P rt then upd_tcp i (tcp_time_wait D now) rt else rt) }) (\<lambda>r. safe (snd r))"
    if "tc_state (tcp rt i) = TCP_TIME_WAIT" for P
  proof (rule ok_bindI [OF tcp_ack_sent [OF assms(1,2)]])
    fix rt' assume s: "sent C ids rt rt'"
    then have "rt_sockets rt' = rt_sockets rt" by (simp add: sent_def)
    then have "tc_flight_flags (tcp rt' i) = 0" using tcp_invD(10) [OF safe_tcp [OF assms(1,3)]] that by simp
    then show "ok (Some (DROP_NONE, if P rt' then upd_tcp i (tcp_time_wait D now) rt' else rt')) (\<lambda>r. safe (snd r))"
      using safe_time_wait [OF sent_safe [OF s]] sent_safe [OF s] by simp
  qed
  show ?thesis
    unfolding input_known_def Let_def
    by (intro ok_ifI fl tw input_syn_sent_safe input_in_order_safe ok_bindI [OF ack] assms)
      (simp_all add: assms(1) safe_count)
qed

lemma tcp_input_safe:
  assumes "safe rt" "4 < w" "off + 20 \<le> data_len m" "off + header_len + unat len \<le> data_len m"
  shows "ok (tcp_input D submit ctx m off header_len len mss now rt) (\<lambda>r. safe (snd r))"
proof -
  have i: "i < 256" if "connection rt a b = Some i" for a b i
    using first_indexD [OF that [unfolded connection_def]] safe_length [OF assms(1)] by (simp add: live_sockets_def)
  obtain a b c d e f where r: "rd16 m (off + 2) = Some a" "rd16 m off = Some b" "rd32 m (off + 4) = Some c"
      "rd32 m (off + 8) = Some d" "rd16 m (off + 14) = Some e" "rd8 m (off + 13) = Some f"
    using assms(3) by (auto simp: rd16_def rd32_def rd8_def rd_bytes_Some)
  show ?thesis
    unfolding tcp_input_def r Option.bind.bind_lunit Let_def
    by (intro ok_ifI)
      (auto simp: assms(1) split: option.split dest: i intro!: input_unknown_safe input_known_safe assms(1,2,4))
qed

subsection \<open>Timers\<close>

lemma tick_socket_safe:
  assumes "safe rt" "4 < w" "i < 256"
  shows "ok (tick_socket D submit now i rt) safe"
proof -
  have retry: "safe (upd_tcp i (tick_retry D now) rt')"
    if s: "safe rt'" "rt_sockets rt' = rt_sockets rt" "tc_retries (tcp rt i) \<noteq> 5" for rt'
  proof -
    have "tc_retries (tcp rt i) + 1 \<le> 5" using tcp_invD(11) [OF safe_tcp [OF assms(1,3)]] s(3) by (intro inc_le) simp
    then show ?thesis
      using safe_tcp [OF s(1) assms(3)] s(2) by (intro safe_upd_tcp s(1)) (simp add: tick_retry_def Let_def)
  qed
  have probe: "ok (do { (_, rt) \<leftarrow> tcp_emit D submit l r a b f wd [] 0 rt; Some (upd_tcp i (tick_retry D now) rt) }) safe"
    if "tc_retries (tcp rt i) \<noteq> 5" for l r a b f wd
  proof (rule ok_bindI [OF tcp_emit_sent [OF assms(1,2)]])
    fix x assume "sent C ids rt (snd (x :: rc \<times> 'd app_runtime))"
    then show "ok (case x of (_, rt) \<Rightarrow> Some (upd_tcp i (tick_retry D now) rt)) safe"
      using retry [of "snd x"] that by (simp add: case_prod_beta sent_def kept_def)
  qed simp
  have again: "ok (do { rt \<leftarrow> emit_flight D submit i rt; Some (upd_tcp i (tick_retry D now) (tcp_count g rt)) }) safe"
    if "tc_retries (tcp rt i) \<noteq> 5" for g
  proof (rule ok_bindI [OF emit_flight_sent [OF assms]])
    fix rt' assume s: "sent C ids rt rt'"
    then have "rt_sockets (tcp_count g rt') = rt_sockets rt" by (simp add: sent_def)
    then show "ok (Some (upd_tcp i (tick_retry D now) (tcp_count g rt'))) safe"
      using retry [OF safe_count [OF sent_safe [OF s]]] that by simp
  qed
  show ?thesis
    unfolding tick_socket_def Let_def
    by (intro ok_ifI probe again) (simp_all add: assms(1) safe_count tcp_fail_safe safe_upd_same)
qed

lemma tcp_tick_safe:
  assumes "safe rt" "4 < w"
  shows "ok (tcp_tick D submit now rt) safe"
proof -
  have "ss_capacity (rt_sockets rt) \<le> 256"
    using assms(1) sockets_wfD(3) [OF rt_wfD(1), of ids rt] by (simp add: kept_def)
  then show ?thesis
    unfolding tcp_tick_def by (intro for_each_ok [where I = safe] assms(1) tick_socket_safe assms(2)) auto
qed

lemma tcp_timer_progress_safe:
  assumes "safe rt" "4 < w"
  shows "ok (tcp_timer_progress D submit now rt) safe"
proof -
  have "safe (rt\<lparr>rt_tcp_timer_next := t\<rparr>)" for t
    using assms(1) C_cong [of rt "rt\<lparr>rt_tcp_timer_next := t\<rparr>"] rt_wf_cong [of ids rt "rt\<lparr>rt_tcp_timer_next := t\<rparr>"]
    by (simp add: kept_def same_pool_def)
  then show ?thesis using assms by (simp add: tcp_timer_progress_def tcp_tick_safe)
qed

end

end
