(* ===== verification/Nodes.thy ===== *)
theory Nodes
  imports Tcp
begin

text \<open>
  The nodes of the packet graph, \<^verbatim>\<open>src/nodes\<close>: one function per node for a packet, and the loop over
  the frame.  A node reads and writes packet bytes at the offsets of the wire formats; an access
  outside the packet, or a null interface pointer, is \<open>None\<close>.  The addresses of a port compare with
  equality (\<^verbatim>\<open>rte_is_same_ether_addr\<close>).
\<close>

abbreviation pass ::
    "('d, 'x) dpdk_scheme \<Rightarrow> node_id \<Rightarrow> rte_mbuf \<Rightarrow> packet_ctx \<Rightarrow> 'd app_runtime \<Rightarrow> 'd app_runtime option" where
  "pass D node m ctx rt \<equiv> map_option snd (enqueue D node m ctx rt)"

definition dpdk_port :: "'d app_runtime \<Rightarrow> u16 \<Rightarrow> port_state option" where
  "dpdk_port rt port_id = map_option (\<lambda>p. rt_ports rt ! p) (netif_by_dpdk_port rt port_id)"

text \<open>A length the code stores in a \<^verbatim>\<open>uint16_t\<close>.\<close>

definition u16_nat :: "nat \<Rightarrow> nat" where
  "u16_nat n = unat (of_nat n :: u16)"

text \<open>\<open>uint16_t length = pkt_len - l4_offset\<close>\<close>

definition l4_length :: "rte_mbuf \<Rightarrow> packet_ctx \<Rightarrow> nat" where
  "l4_length m ctx = unat (of_nat (mb_pkt_len m) - pc_l4_offset ctx)"

subsection \<open>Ethernet, ARP and IPv4 input (\<^verbatim>\<open>ingress.c\<close>)\<close>

definition valid_source_ip :: "'d app_runtime \<Rightarrow> port_state \<Rightarrow> u32 \<Rightarrow> bool" where
  "valid_source_ip rt port ip_be =
     (let ip = rte_be_to_cpu_32 ip_be in
      if netif_is_local_ip rt ip_be then False
      else if rt_network rt \<noteq> None then ipv4_destination_valid rt ip_be
      else
        let local = rte_be_to_cpu_32 (po_ip_be port);
            mask = prefix_mask (po_prefix_len port)
        in if drop_bit 24 ip = 0 \<or> drop_bit 24 ip = 127 \<or> ip \<ge> 0xe0000000 \<or> ip = local then False
           else if po_prefix_len port \<le> 30 \<and> ip AND mask = local AND mask \<and>
                   (ip AND NOT mask = 0 \<or> ip AND NOT mask = NOT mask) then False
           else True)"

definition eth_input_packet ::
    "('d, 'x) dpdk_scheme \<Rightarrow> rte_mbuf \<times> packet_ctx \<Rightarrow> 'd app_runtime \<Rightarrow> 'd app_runtime option" where
  "eth_input_packet D = (\<lambda>(m, ctx) rt.
     let discard = (\<lambda>reason error. node_drop D NODE_ETH_INPUT m ctx reason error rt) in
     case dpdk_port rt (pc_ingress_port_id ctx) of
       None \<Rightarrow> discard DROP_PORT_BINDING True
     | Some port \<Rightarrow>
         if po_admin_down port then discard DROP_PORT_BINDING True
         else if \<not> contiguous m \<or> \<not> mb_direct m \<or> mb_refcnt m \<noteq> 1 then discard DROP_NONCONTIGUOUS True
         else if data_len m < ETH_HDR then discard DROP_TRUNCATED_ETH True
         else do {
           dst \<leftarrow> rd_bytes m 0 6;
           src \<leftarrow> rd_bytes m 6 6;
           ether_type \<leftarrow> rd16 m 12;
           let arp = (ether_type = rte_cpu_to_be_16 RTE_ETHER_TYPE_ARP);
           if \<not> d_valid_mac D src \<or> src = po_mac port then discard DROP_INVALID_SOURCE True
           else if dst \<noteq> po_mac port \<and> \<not> (arp \<and> d_broadcast_mac D dst) then discard DROP_NOT_LOCAL False
           else
             let ctx = ctx\<lparr>pc_l3_offset := of_nat ETH_HDR\<rparr> in
             if arp then pass D NODE_ARP_INPUT m ctx rt
             else if ether_type = rte_cpu_to_be_16 RTE_ETHER_TYPE_IPV4 then pass D NODE_IPV4_INPUT m ctx rt
             else node_drop D NODE_ETH_INPUT m ctx DROP_UNSUPPORTED_ETHERTYPE False rt
         })"

definition eth_input_node_run ::
    "('d, 'x) dpdk_scheme \<Rightarrow> node_frame \<Rightarrow> 'd app_runtime \<Rightarrow> 'd app_runtime option" where
  "eth_input_node_run D = for_each (eth_input_packet D)"

text \<open>The checks on an ARP packet, and the reply written over a request.\<close>

definition arp_valid ::
    "'d app_runtime \<Rightarrow> port_state \<Rightarrow> rte_mbuf \<Rightarrow> nat \<Rightarrow> bool option" where
  "arp_valid rt port m off = do {
     hardware \<leftarrow> rd16 m off;
     protocol \<leftarrow> rd16 m (off + 2);
     hlen \<leftarrow> rd8 m (off + 4);
     plen \<leftarrow> rd8 m (off + 5);
     opcode \<leftarrow> rd16 m (off + 6);
     sha \<leftarrow> rd_bytes m (off + 8) 6;
     sip \<leftarrow> rd32 m (off + 14);
     eth_src \<leftarrow> rd_bytes m 6 6;
     Some (hardware = rte_cpu_to_be_16 1 \<and> protocol = rte_cpu_to_be_16 RTE_ETHER_TYPE_IPV4 \<and>
       hlen = 6 \<and> plen = 4 \<and> eth_src = sha \<and>
       (opcode = rte_cpu_to_be_16 RTE_ARP_OP_REQUEST \<or> opcode = rte_cpu_to_be_16 RTE_ARP_OP_REPLY) \<and>
       (sip = 0 \<or> valid_source_ip rt port sip))
   }"

definition arp_reply :: "port_state \<Rightarrow> rte_mbuf \<Rightarrow> nat \<Rightarrow> rte_mbuf option" where
  "arp_reply port m off = do {
     requester \<leftarrow> rd_bytes m (off + 8) 6;
     requester_ip \<leftarrow> rd32 m (off + 14);
     local_ip \<leftarrow> rd32 m (off + 24);
     m \<leftarrow> wr_bytes m 0 requester;
     m \<leftarrow> wr_bytes m 6 (po_mac port);
     m \<leftarrow> wr16 m (off + 6) (rte_cpu_to_be_16 RTE_ARP_OP_REPLY);
     m \<leftarrow> wr_bytes m (off + 18) requester;
     m \<leftarrow> wr32 m (off + 24) requester_ip;
     m \<leftarrow> wr_bytes m (off + 8) (po_mac port);
     wr32 m (off + 14) local_ip
   }"

definition arp_input_packet ::
    "('d, 'x) dpdk_scheme \<Rightarrow> 'd submit \<Rightarrow> rte_mbuf \<times> packet_ctx \<Rightarrow> 'd app_runtime \<Rightarrow> 'd app_runtime option" where
  "arp_input_packet D submit = (\<lambda>(m, ctx) rt.
     let discard = (\<lambda>reason error rt. node_drop D NODE_ARP_INPUT m ctx reason error rt);
         off = l3 ctx
     in case dpdk_port rt (pc_ingress_port_id ctx) of
       None \<Rightarrow> discard DROP_PORT_BINDING True rt
     | Some port \<Rightarrow>
         if po_admin_down port then discard DROP_PORT_BINDING True rt
         else let len = unat (pc_l3_offset ctx + of_nat ARP_HDR) in
         if data_len m < len then discard DROP_INVALID_ARP True rt
         else do {
           valid \<leftarrow> arp_valid rt port m off;
           if \<not> valid then discard DROP_INVALID_ARP True rt
           else do {
             opcode \<leftarrow> rd16 m (off + 6);
             sha \<leftarrow> rd_bytes m (off + 8) 6;
             sip \<leftarrow> rd32 m (off + 14);
             tha \<leftarrow> rd_bytes m (off + 18) 6;
             tip \<leftarrow> rd32 m (off + 24);
             let reply = (opcode = rte_cpu_to_be_16 RTE_ARP_OP_REPLY);
             if \<not> net_address_on rt (ucast (po_id port)) tip then discard DROP_NOT_LOCAL False rt
             else if reply \<and> tha \<noteq> po_mac port then discard DROP_INVALID_ARP True rt
             else do {
               rt \<leftarrow> (if sip \<noteq> 0 \<and> \<not> netif_is_local_ip rt sip \<and> net_direct rt (ucast (po_id port)) sip then do {
                       (rc, rt) \<leftarrow> neighbour_update D submit (po_id port) sip sha rt;
                       Some (if rc \<noteq> None
                             then rt\<lparr>rt_neighbour_learn_failures := rt_neighbour_learn_failures rt + 1\<rparr> else rt)
                     } else Some rt);
               if reply then Some (rte_pktmbuf_free D m rt)
               else do {
                 m \<leftarrow> arp_reply port m off;
                 pass D NODE_TX (d_trim D m (u16_nat (mb_pkt_len m - len)))
                   (ctx\<lparr>pc_egress_port_id := po_port_id port\<rparr>) rt
               }
             }
           }
         })"

definition arp_input_node_run ::
    "('d, 'x) dpdk_scheme \<Rightarrow> 'd submit \<Rightarrow> node_frame \<Rightarrow> 'd app_runtime \<Rightarrow> 'd app_runtime option" where
  "arp_input_node_run D submit = for_each (arp_input_packet D submit)"

definition ipv4_input_packet ::
    "('d, 'x) dpdk_scheme \<Rightarrow> rte_mbuf \<times> packet_ctx \<Rightarrow> 'd app_runtime \<Rightarrow> 'd app_runtime option" where
  "ipv4_input_packet D = (\<lambda>(m, ctx) rt.
     let discard = (\<lambda>reason error. node_drop D NODE_IPV4_INPUT m ctx reason error rt);
         off = l3 ctx
     in case dpdk_port rt (pc_ingress_port_id ctx) of
       None \<Rightarrow> discard DROP_PORT_BINDING True
     | Some port \<Rightarrow>
         if po_admin_down port then discard DROP_PORT_BINDING True
         else if data_len m < off + IPV4_HDR then discard DROP_INVALID_IPV4 True
         else do {
           version_ihl \<leftarrow> rd8 m off;
           total_length \<leftarrow> rd16 m (off + 2);
           fragment_offset \<leftarrow> rd16 m (off + 6);
           proto \<leftarrow> rd8 m (off + 9);
           src \<leftarrow> rd32 m (off + 12);
           dst \<leftarrow> rd32 m (off + 16);
           let ihl = ihl_of version_ihl;
           let total = be16 total_length;
           let fragment = rte_be_to_cpu_16 fragment_offset;
           if drop_bit 4 version_ihl \<noteq> 4 \<or> ihl < IPV4_HDR \<or> total < ihl \<or> data_len m < off + total
           then discard DROP_INVALID_IPV4 True
           else do {
             header \<leftarrow> rd_bytes m off ihl;
             if d_ipv4_cksum D header \<noteq> 0 \<or> fragment AND 0x8000 \<noteq> 0 then discard DROP_INVALID_IPV4 True
             else if \<not> valid_source_ip rt port src \<or> netif_is_local_ip rt src then discard DROP_INVALID_SOURCE True
             else if total > unat (po_mtu port) then discard DROP_MTU False
             else if fragment AND (RTE_IPV4_HDR_MF_FLAG OR RTE_IPV4_HDR_OFFSET_MASK) \<noteq> 0
             then discard DROP_IPV4_FRAGMENT False
             else if ihl \<noteq> IPV4_HDR then discard DROP_IPV4_OPTIONS False
             else
               let ctx = ctx\<lparr>pc_l4_offset := pc_l3_offset ctx + of_nat ihl, pc_src_ip_be := src,
                             pc_dst_ip_be := dst, pc_ip_protocol := proto\<rparr>
               in pass D NODE_IPV4_ACL (d_trim D m (u16_nat (mb_pkt_len m - (off + total)))) ctx rt
           }
         })"

definition ipv4_input_node_run ::
    "('d, 'x) dpdk_scheme \<Rightarrow> node_frame \<Rightarrow> 'd app_runtime \<Rightarrow> 'd app_runtime option" where
  "ipv4_input_node_run D = for_each (ipv4_input_packet D)"

subsection \<open>Access control (\<^verbatim>\<open>acl.c\<close>)\<close>

definition acl_key_of :: "'d app_runtime \<Rightarrow> rte_mbuf \<times> packet_ctx \<Rightarrow> acl_key option" where
  "acl_key_of rt = (\<lambda>(m, ctx). do {
     port \<leftarrow> dpdk_port rt (pc_ingress_port_id ctx);
     total_length \<leftarrow> rd16 m (l3 ctx + 2);
     let proto = pc_ip_protocol ctx;
     let len = (of_nat (be16 total_length) - of_nat IPV4_HDR :: u32);
     let key = \<lparr>ak_src = pc_src_ip_be ctx, ak_dst = pc_dst_ip_be ctx, ak_iif = ucast (po_id port),
                ak_sport = 0, ak_dport = 0, ak_proto = proto, ak_ports_valid = False\<rparr>;
     if proto = IPPROTO_UDP \<and> len \<ge> 8 \<or> proto = IPPROTO_TCP \<and> len \<ge> 20 then do {
       ports \<leftarrow> rd_bytes m (l3 ctx + IPV4_HDR) 4;
       Some (key\<lparr>ak_ports_valid := True,
                 ak_sport := push_bit 8 (ucast (ports ! 0)) OR ucast (ports ! 1),
                 ak_dport := push_bit 8 (ucast (ports ! 2)) OR ucast (ports ! 3)\<rparr>)
     }
     else Some key
   })"

definition acl_packet ::
    "('d, 'x) dpdk_scheme \<Rightarrow> (rte_mbuf \<times> packet_ctx) \<times> int \<Rightarrow> 'd app_runtime \<Rightarrow> 'd app_runtime option" where
  "acl_packet D = (\<lambda>((m, ctx), result) rt. do {
     total_length \<leftarrow> rd16 m (l3 ctx + 2);
     let (accepted, rt) = (case rt_network rt of
             None \<Rightarrow> (True, rt)
           | Some c \<Rightarrow> (case net_acl_account c (rt_acl_stats rt) result (of_nat (be16 total_length)) of
               (a, s) \<Rightarrow> (a, rt\<lparr>rt_acl_stats := s\<rparr>)));
     let discard = (\<lambda>reason. node_drop D NODE_IPV4_ACL m ctx reason False rt);
     if \<not> accepted then discard DROP_ACL
     else do {
       src \<leftarrow> rd32 m (l3 ctx + 12);
       dst \<leftarrow> rd32 m (l3 ctx + 16);
       proto \<leftarrow> rd8 m (l3 ctx + 9);
       if \<not> netif_is_local_ip rt dst then
         (if \<not> rt_ipv4_forwarding rt then discard DROP_FORWARDING_DISABLED
          else if \<not> ipv4_destination_valid rt src \<or> drop_bit 16 (rte_be_to_cpu_32 src) = 0xa9fe
          then discard DROP_INVALID_SOURCE
          else if \<not> ipv4_destination_valid rt dst \<or> drop_bit 16 (rte_be_to_cpu_32 dst) = 0xa9fe
          then discard DROP_INVALID_DESTINATION
          else pass D NODE_IPV4_FORWARD m (ctx\<lparr>pc_transit := True\<rparr>) rt)
       else if proto = IPPROTO_ICMP then pass D NODE_ICMP_INPUT m ctx rt
       else if proto = IPPROTO_UDP then pass D NODE_UDP_INPUT m ctx rt
       else if proto = IPPROTO_TCP then pass D NODE_TCP_INPUT m ctx rt
       else discard DROP_UNSUPPORTED_PROTOCOL
     }
   })"

text \<open>Without a network configuration the results are not computed and not read.\<close>

definition ipv4_acl_node_run ::
    "('d, 'x) dpdk_scheme \<Rightarrow> node_frame \<Rightarrow> 'd app_runtime \<Rightarrow> 'd app_runtime option" where
  "ipv4_acl_node_run D frame rt =
     (case rt_network rt of
        None \<Rightarrow> for_each (acl_packet D) (map (\<lambda>p. (p, -1)) frame) rt
      | Some c \<Rightarrow> do {
          keys \<leftarrow> those (map (acl_key_of rt) frame);
          for_each (acl_packet D) (zip frame (net_acl_classify_batch c keys)) rt
        })"

subsection \<open>Forwarding (\<^verbatim>\<open>forward.c\<close>)\<close>

text \<open>The IPv4 header at an offset with its checksum recomputed.\<close>

definition ipv4_rewrite_cksum :: "('d, 'x) dpdk_scheme \<Rightarrow> rte_mbuf \<Rightarrow> nat \<Rightarrow> rte_mbuf option" where
  "ipv4_rewrite_cksum D m off = do {
     m \<leftarrow> wr16 m (off + 10) 0;
     version_ihl \<leftarrow> rd8 m off;
     header \<leftarrow> rd_bytes m off (ihl_of version_ihl);
     wr16 m (off + 10) (d_ipv4_cksum D header)
   }"

definition strip_l2 :: "packet_ctx \<Rightarrow> packet_ctx" where
  "strip_l2 ctx = ctx\<lparr>pc_l4_offset := pc_l4_offset ctx - pc_l3_offset ctx, pc_l3_offset := 0\<rparr>"

definition timed_error ::
    "('d, 'x) dpdk_scheme \<Rightarrow> 'd submit \<Rightarrow> rte_mbuf \<Rightarrow> packet_ctx \<Rightarrow> u8 \<Rightarrow> u8 \<Rightarrow> u16 \<Rightarrow> 'd app_runtime \<Rightarrow> 'd app_runtime option" where
  "timed_error D submit m ctx ty code mtu rt =
     (case rte_get_timer_cycles D rt of (now, rt) \<Rightarrow> icmp_send_error D submit m ctx ty code mtu now rt)"

definition forward_packet ::
    "('d, 'x) dpdk_scheme \<Rightarrow> 'd submit \<Rightarrow> rte_mbuf \<times> packet_ctx \<Rightarrow> 'd app_runtime \<Rightarrow> 'd app_runtime option" where
  "forward_packet D submit = (\<lambda>(m, ctx) rt.
     let discard = (\<lambda>reason rt. node_drop D NODE_IPV4_FORWARD m ctx reason False rt); off = l3 ctx in do {
       ttl \<leftarrow> rd8 m (off + 8);
       if ttl \<le> 1 then do {
         rt \<leftarrow> timed_error D submit m ctx 11 0 0 rt;
         discard DROP_TTL_EXPIRED rt
       }
       else do {
         dst \<leftarrow> rd32 m (off + 16);
         src \<leftarrow> rd32 m (off + 12);
         total_length \<leftarrow> rd16 m (off + 2);
         fragment_offset \<leftarrow> rd16 m (off + 6);
         ingress \<leftarrow> dpdk_port rt (pc_ingress_port_id ctx);
         (reason, route) \<leftarrow> route_query rt dst src (ucast (po_id ingress));
         if reason \<noteq> DROP_NONE then do {
           rt \<leftarrow> (if reason = DROP_NO_ROUTE \<or> reason = DROP_INVALID_EGRESS \<or>
                    reason = DROP_ROUTE_UNREACHABLE \<or> reason = DROP_ROUTE_PROHIBIT
                 then timed_error D submit m ctx 3 (if reason = DROP_ROUTE_PROHIBIT then 13 else 0) 0 rt
                 else Some rt);
           discard reason rt
         }
         else if be16 total_length > unat (rr_mtu route) then do {
           rt \<leftarrow> (if rte_be_to_cpu_16 fragment_offset AND RTE_IPV4_HDR_DF_FLAG \<noteq> 0
                 then timed_error D submit m ctx 3 4 (rr_mtu route) rt else Some rt);
           discard DROP_MTU rt
         }
         else do {
           m \<leftarrow> wr8 m (off + 8) (ttl - 1);
           m \<leftarrow> ipv4_rewrite_cksum D m off;
           egress \<leftarrow> netif_by_id rt (rr_netif_id route);
           pass D NODE_ETH_OUTPUT (d_adj D m off)
             (strip_l2 (ctx\<lparr>pc_egress_port_id := po_port_id egress, pc_next_hop_ip_be := rr_next_hop_be route\<rparr>)) rt
         }
       }
     })"

definition ipv4_forward_node_run ::
    "('d, 'x) dpdk_scheme \<Rightarrow> 'd submit \<Rightarrow> node_frame \<Rightarrow> 'd app_runtime \<Rightarrow> 'd app_runtime option" where
  "ipv4_forward_node_run D submit = for_each (forward_packet D submit)"

subsection \<open>ICMP echo (\<^verbatim>\<open>icmp.c\<close>)\<close>

definition icmp_echo :: "('d, 'x) dpdk_scheme \<Rightarrow> rte_mbuf \<Rightarrow> nat \<Rightarrow> nat \<Rightarrow> nat \<Rightarrow> rte_mbuf option" where
  "icmp_echo D m off l4off len = do {
     requester \<leftarrow> rd32 m (off + 12);
     dst \<leftarrow> rd32 m (off + 16);
     m \<leftarrow> wr32 m (off + 12) dst;
     m \<leftarrow> wr32 m (off + 16) requester;
     m \<leftarrow> wr8 m l4off 0;
     m \<leftarrow> wr16 m (l4off + 2) 0;
     message \<leftarrow> rd_bytes m l4off len;
     m \<leftarrow> wr16 m (l4off + 2) (NOT (d_raw_cksum D message));
     m \<leftarrow> wr8 m (off + 8) 64;
     ipv4_rewrite_cksum D m off
   }"

definition icmp_input_packet ::
    "('d, 'x) dpdk_scheme \<Rightarrow> rte_mbuf \<times> packet_ctx \<Rightarrow> 'd app_runtime \<Rightarrow> 'd app_runtime option" where
  "icmp_input_packet D = (\<lambda>(m, ctx) rt.
     let discard = (\<lambda>reason error. node_drop D NODE_ICMP_INPUT m ctx reason error rt);
         len = l4_length m ctx; off = l3 ctx
     in if len < ICMP_HDR then discard DROP_INVALID_ICMP True
        else do {
          message \<leftarrow> rd_bytes m (l4 ctx) len;
          code \<leftarrow> rd8 m (l4 ctx + 1);
          ty \<leftarrow> rd8 m (l4 ctx);
          if d_raw_cksum D message \<noteq> 0xffff \<or> code \<noteq> 0 then discard DROP_INVALID_ICMP True
          else if ty \<noteq> 8 then discard DROP_UNSUPPORTED_ICMP False
          else do {
            requester \<leftarrow> rd32 m (off + 12);
            dst \<leftarrow> rd32 m (off + 16);
            total_length \<leftarrow> rd16 m (off + 2);
            (reason, route) \<leftarrow> route_query rt requester dst NET_IIF_NONE;
            if reason \<noteq> DROP_NONE then discard reason False
            else if be16 total_length > unat (rr_mtu route) then discard DROP_MTU False
            else do {
              m \<leftarrow> icmp_echo D m off (l4 ctx) len;
              egress \<leftarrow> netif_by_id rt (rr_netif_id route);
              let ctx = ctx\<lparr>pc_egress_port_id := po_port_id egress, pc_next_hop_ip_be := rr_next_hop_be route\<rparr>;
              if pc_egress_port_id ctx = pc_ingress_port_id ctx \<and> pc_next_hop_ip_be ctx = requester then do {
                eth_src \<leftarrow> rd_bytes m 6 6;
                m \<leftarrow> wr_bytes m 0 eth_src;
                m \<leftarrow> wr_bytes m 6 (po_mac egress);
                pass D NODE_TX m ctx rt
              }
              else pass D NODE_ETH_OUTPUT (d_adj D m off) (strip_l2 ctx) rt
            }
          }
        })"

definition icmp_input_node_run ::
    "('d, 'x) dpdk_scheme \<Rightarrow> node_frame \<Rightarrow> 'd app_runtime \<Rightarrow> 'd app_runtime option" where
  "icmp_input_node_run D = for_each (icmp_input_packet D)"

subsection \<open>UDP (\<^verbatim>\<open>udp.c\<close>)\<close>

definition udp_checksum :: "('d, 'x) dpdk_scheme \<Rightarrow> u8 list \<Rightarrow> u8 list \<Rightarrow> u32" where
  "udp_checksum D header dgram =
     (let pseudo = memcpy_at header 2 (le16_bytes (rte_cpu_to_be_16 (of_nat (IPV4_HDR + length dgram))));
          sum = ucast (d_raw_cksum D dgram) + ucast (d_phdr_cksum D pseudo);
          sum = (sum AND 0xffff) + drop_bit 16 sum
      in (sum AND 0xffff) + drop_bit 16 sum)"

definition udp_input_packet ::
    "('d, 'x) dpdk_scheme \<Rightarrow> 'd submit \<Rightarrow> rte_mbuf \<times> packet_ctx \<Rightarrow> 'd app_runtime \<Rightarrow> 'd app_runtime option" where
  "udp_input_packet D submit = (\<lambda>(m, ctx) rt.
     let discard = (\<lambda>reason error rt. node_drop D NODE_UDP_INPUT m ctx reason error rt);
         available = l4_length m ctx; off = l4 ctx
     in if available < UDP_HDR then discard DROP_INVALID_UDP True rt
        else do {
          dgram_len \<leftarrow> rd16 m (off + 4);
          let len = be16 dgram_len;
          if len < UDP_HDR \<or> len > available then discard DROP_UDP_BAD_LENGTH True rt
          else do {
            header \<leftarrow> rd_bytes m (l3 ctx) IPV4_HDR;
            dgram \<leftarrow> rd_bytes m off len;
            dgram_cksum \<leftarrow> rd16 m (off + 6);
            if dgram_cksum \<noteq> 0 \<and> udp_checksum D header dgram \<noteq> 0xffff then discard DROP_UDP_BAD_CHECKSUM True rt
            else do {
              src \<leftarrow> rd32 m (l3 ctx + 12);
              dst \<leftarrow> rd32 m (l3 ctx + 16);
              src_port \<leftarrow> rd16 m off;
              dst_port \<leftarrow> rd16 m (off + 2);
              case udp_deliver rt dst (rte_be_to_cpu_16 dst_port)
                     \<lparr>sa_ip_be = src, sa_port = rte_be_to_cpu_16 src_port\<rparr> (drop UDP_HDR dgram) of
                (Some e, rt) \<Rightarrow> do {
                  rt \<leftarrow> (if e = ENOENT then timed_error D submit m ctx 3 3 0 rt else Some rt);
                  discard (if e = ENOENT then DROP_UDP_UNBOUND_PORT
                           else if e = ENOBUFS then DROP_UDP_RX_QUEUE_FULL else DROP_MTU) False rt
                }
              | (None, rt) \<Rightarrow> Some (rte_pktmbuf_free D m rt)
            }
          }
        })"

definition udp_input_node_run ::
    "('d, 'x) dpdk_scheme \<Rightarrow> 'd submit \<Rightarrow> node_frame \<Rightarrow> 'd app_runtime \<Rightarrow> 'd app_runtime option" where
  "udp_input_node_run D submit = for_each (udp_input_packet D submit)"

definition udp_header :: "u16 \<Rightarrow> u16 \<Rightarrow> u16 \<Rightarrow> u16 \<Rightarrow> u8 list" where
  "udp_header src_port dst_port len cksum =
     le16_bytes (rte_cpu_to_be_16 src_port) @ le16_bytes (rte_cpu_to_be_16 dst_port) @
     le16_bytes (rte_cpu_to_be_16 len) @ le16_bytes cksum"

definition udp_output_packet ::
    "('d, 'x) dpdk_scheme \<Rightarrow> rte_mbuf \<times> packet_ctx \<Rightarrow> 'd app_runtime \<Rightarrow> 'd app_runtime option" where
  "udp_output_packet D = (\<lambda>(m, ctx) rt.
     let len = mb_pkt_len m + UDP_HDR in
     if len > UINT16_MAX - IPV4_HDR then node_drop D NODE_UDP_OUTPUT m ctx DROP_MTU False rt
     else case d_prepend D m UDP_HDR of
       None \<Rightarrow> node_drop D NODE_UDP_OUTPUT m ctx DROP_NO_HEADROOM True rt
     | Some m \<Rightarrow> do {
         m \<leftarrow> wr_bytes m 0 (udp_header (pc_src_port ctx) (pc_dst_port ctx) (of_nat len) 0);
         dgram \<leftarrow> rd_bytes m 0 len;
         let pseudo = ipv4_header (rte_cpu_to_be_16 (of_nat (IPV4_HDR + len))) 0 0 0 IPPROTO_UDP 0
                        (pc_src_ip_be ctx) (pc_dst_ip_be ctx);
         m \<leftarrow> wr16 m 6 (d_udptcp_cksum D pseudo dgram);
         pass D NODE_IPV4_OUTPUT m (ctx\<lparr>pc_ip_protocol := IPPROTO_UDP\<rparr>) rt
       })"

definition udp_output_node_run ::
    "('d, 'x) dpdk_scheme \<Rightarrow> node_frame \<Rightarrow> 'd app_runtime \<Rightarrow> 'd app_runtime option" where
  "udp_output_node_run D = for_each (udp_output_packet D)"

subsection \<open>TCP input (\<^verbatim>\<open>tcp.c\<close>)\<close>

text \<open>
  The options of the header at \<open>off\<close>, from \<open>offset\<close> to \<open>header_len\<close>: \<open>None\<close> for an access outside the
  packet, \<open>Some None\<close> for invalid options, else the segment size.
\<close>

function tcp_options :: "rte_mbuf \<Rightarrow> nat \<Rightarrow> nat \<Rightarrow> u8 \<Rightarrow> nat \<Rightarrow> u16 \<Rightarrow> u16 option option" where
  "tcp_options m off header_len flags offset mss =
     (if offset < header_len then do {
        kind \<leftarrow> rd8 m (off + offset);
        if kind = 0 then Some (Some mss)
        else if kind = 1 then tcp_options m off header_len flags (offset + 1) mss
        else if header_len - offset < 2 then Some None
        else do {
          size \<leftarrow> rd8 m (off + offset + 1);
          if size < 2 \<or> unat size > header_len - offset \<or> kind = 2 \<and> size \<noteq> 4 then Some None
          else do {
            mss_value \<leftarrow> (if kind = 2 \<and> has_flag flags RTE_TCP_SYN_FLAG then do {
                hi \<leftarrow> rd8 m (off + offset + 2);
                lo \<leftarrow> rd8 m (off + offset + 3);
                Some (push_bit 8 (ucast hi) OR ucast lo)
              } else Some 0);
            tcp_options m off header_len flags (offset + unat size) (if mss_value \<noteq> 0 then mss_value else mss)
          }
        }
      }
      else Some (Some mss))"
  by pat_completeness auto
termination
proof (relation "measure (\<lambda>(m, off, header_len, flags, offset, mss). header_len - offset)", goal_cases)
  case (3 m off header_len flags offset mss kind size v)
  then have "\<not> size < 2" by blast
  then have "2 \<le> unat size" by (simp add: word_less_nat_alt)
  with 3 show ?case by simp
qed auto

declare tcp_options.simps [simp del]

definition tcp_input_packet ::
    "('d, 'x) dpdk_scheme \<Rightarrow> 'd submit \<Rightarrow> rte_mbuf \<times> packet_ctx \<Rightarrow> 'd app_runtime \<Rightarrow> 'd app_runtime option" where
  "tcp_input_packet D submit = (\<lambda>(m, ctx) rt.
     let discard = (\<lambda>reason error rt. node_drop D NODE_TCP_INPUT m ctx reason error rt);
         len = l4_length m ctx; off = l4 ctx
     in if len < TCP_HDR then discard DROP_INVALID_TCP True rt
        else do {
          data_off \<leftarrow> rd8 m (off + 12);
          flags \<leftarrow> rd8 m (off + 13);
          let header_len = unat (drop_bit 4 data_off) * 4;
          if header_len < TCP_HDR \<or> header_len > len \<or> has_flag flags RTE_TCP_URG_FLAG \<or>
             has_flag flags RTE_TCP_SYN_FLAG \<and> has_flag flags (RTE_TCP_FIN_FLAG OR RTE_TCP_RST_FLAG)
          then discard DROP_INVALID_TCP True rt
          else do {
            version_ihl \<leftarrow> rd8 m (l3 ctx);
            total_length \<leftarrow> rd16 m (l3 ctx + 2);
            header \<leftarrow> rd_bytes m (l3 ctx) (ihl_of version_ihl);
            segment \<leftarrow> rd_bytes m off (be16 total_length - ihl_of version_ihl);
            if d_udptcp_cksum D header segment \<noteq> 0 then discard DROP_TCP_BAD_CHECKSUM True rt
            else do {
              options \<leftarrow> tcp_options m off header_len flags TCP_HDR 536;
              case options of
                None \<Rightarrow> discard DROP_INVALID_TCP True rt
              | Some mss \<Rightarrow> (case rte_get_timer_cycles D rt of (now, rt) \<Rightarrow> do {
                  (reason, rt) \<leftarrow> tcp_input D submit ctx m off header_len (of_nat (len - header_len)) mss now rt;
                  if reason \<noteq> DROP_NONE then discard reason (reason = DROP_TCP_INVALID_STATE) rt
                  else Some (rte_pktmbuf_free D m rt)
                })
            }
          }
        })"

definition tcp_input_node_run ::
    "('d, 'x) dpdk_scheme \<Rightarrow> 'd submit \<Rightarrow> node_frame \<Rightarrow> 'd app_runtime \<Rightarrow> 'd app_runtime option" where
  "tcp_input_node_run D submit = for_each (tcp_input_packet D submit)"

subsection \<open>Output (\<^verbatim>\<open>output.c\<close>, \<^verbatim>\<open>arp.c\<close>)\<close>

definition ipv4_route_packet ::
    "('d, 'x) dpdk_scheme \<Rightarrow> rte_mbuf \<times> packet_ctx \<Rightarrow> 'd app_runtime \<Rightarrow> 'd app_runtime option" where
  "ipv4_route_packet D = (\<lambda>(m, ctx) rt. do {
     (reason, route) \<leftarrow> route_query rt (pc_dst_ip_be ctx) (pc_src_ip_be ctx) NET_IIF_NONE;
     if reason \<noteq> DROP_NONE then node_drop D NODE_IPV4_ROUTE m ctx reason False rt
     else if pc_ip_protocol ctx \<noteq> IPPROTO_UDP then node_drop D NODE_IPV4_ROUTE m ctx DROP_UNSUPPORTED_PROTOCOL False rt
     else do {
       port \<leftarrow> netif_by_id rt (rr_netif_id route);
       pass D NODE_UDP_OUTPUT m (ctx\<lparr>pc_egress_port_id := po_port_id port,
           pc_src_ip_be := (if pc_src_ip_be ctx = 0 then rr_source_ip_be route else pc_src_ip_be ctx),
           pc_next_hop_ip_be := rr_next_hop_be route\<rparr>) rt
     }
   })"

definition ipv4_route_node_run ::
    "('d, 'x) dpdk_scheme \<Rightarrow> node_frame \<Rightarrow> 'd app_runtime \<Rightarrow> 'd app_runtime option" where
  "ipv4_route_node_run D = for_each (ipv4_route_packet D)"

text \<open>The egress interface of a packet, when it is usable.\<close>

definition egress_port :: "'d app_runtime \<Rightarrow> packet_ctx \<Rightarrow> port_state option" where
  "egress_port rt ctx =
     (case dpdk_port rt (pc_egress_port_id ctx) of
        None \<Rightarrow> None | Some port \<Rightarrow> if port_up port then Some port else None)"

definition ipv4_output_packet ::
    "('d, 'x) dpdk_scheme \<Rightarrow> rte_mbuf \<times> packet_ctx \<Rightarrow> 'd app_runtime \<Rightarrow> 'd app_runtime option" where
  "ipv4_output_packet D = (\<lambda>(m, ctx) rt.
     case egress_port rt ctx of
       None \<Rightarrow> node_drop D NODE_IPV4_OUTPUT m ctx DROP_INVALID_EGRESS True rt
     | Some port \<Rightarrow>
         let total = mb_pkt_len m + IPV4_HDR in
         if total > unat (po_mtu port) \<or> total > UINT16_MAX then node_drop D NODE_IPV4_OUTPUT m ctx DROP_MTU False rt
         else case d_prepend D m IPV4_HDR of
           None \<Rightarrow> node_drop D NODE_IPV4_OUTPUT m ctx DROP_NO_HEADROOM True rt
         | Some m \<Rightarrow> do {
             let ident = rt_next_ip_id rt;
             let rt = rt\<lparr>rt_next_ip_id := ident + 1\<rparr>;
             let header = (\<lambda>cksum. ipv4_header (rte_cpu_to_be_16 (of_nat total)) (rte_cpu_to_be_16 ident)
                             (rte_cpu_to_be_16 RTE_IPV4_HDR_DF_FLAG) 64 (pc_ip_protocol ctx) cksum
                             (pc_src_ip_be ctx) (pc_dst_ip_be ctx));
             m \<leftarrow> wr_bytes m 0 (header (d_ipv4_cksum D (header 0)));
             pass D NODE_ETH_OUTPUT m (ctx\<lparr>pc_l3_offset := 0, pc_l4_offset := of_nat IPV4_HDR\<rparr>) rt
           })"

definition ipv4_output_node_run ::
    "('d, 'x) dpdk_scheme \<Rightarrow> node_frame \<Rightarrow> 'd app_runtime \<Rightarrow> 'd app_runtime option" where
  "ipv4_output_node_run D = for_each (ipv4_output_packet D)"

definition eth_output_packet ::
    "('d, 'x) dpdk_scheme \<Rightarrow> 'd submit \<Rightarrow> rte_mbuf \<times> packet_ctx \<Rightarrow> 'd app_runtime \<Rightarrow> 'd app_runtime option" where
  "eth_output_packet D submit = (\<lambda>(m, ctx) rt.
     let discard = (\<lambda>reason error rt. node_drop D NODE_ETH_OUTPUT m ctx reason error rt) in
     case egress_port rt ctx of
       None \<Rightarrow> discard DROP_INVALID_EGRESS True rt
     | Some port \<Rightarrow>
         if mb_pkt_len m > unat (po_mtu port) then discard DROP_MTU False rt
         else case neighbour_lookup (rt_neighbours rt) (po_id port) (pc_next_hop_ip_be ctx) of
           None \<Rightarrow> (case rte_get_timer_cycles D rt of (now, rt) \<Rightarrow> do {
             (reason, rt) \<leftarrow> neighbour_queue D submit (po_id port) m ctx now rt;
             if reason \<noteq> DROP_NONE then discard reason False rt else Some rt
           })
         | Some destination \<Rightarrow>
             (case d_prepend D m ETH_HDR of
                None \<Rightarrow> discard DROP_NO_HEADROOM True rt
              | Some m \<Rightarrow> do {
                  m \<leftarrow> wr_bytes m 6 (po_mac port);
                  m \<leftarrow> wr_bytes m 0 destination;
                  m \<leftarrow> wr16 m 12 (rte_cpu_to_be_16 RTE_ETHER_TYPE_IPV4);
                  pass D NODE_TX m (ctx\<lparr>pc_l3_offset := pc_l3_offset ctx + of_nat ETH_HDR,
                                        pc_l4_offset := pc_l4_offset ctx + of_nat ETH_HDR\<rparr>) rt
                }))"

definition eth_output_node_run ::
    "('d, 'x) dpdk_scheme \<Rightarrow> 'd submit \<Rightarrow> node_frame \<Rightarrow> 'd app_runtime \<Rightarrow> 'd app_runtime option" where
  "eth_output_node_run D submit = for_each (eth_output_packet D submit)"

definition arp_packet :: "'d app_runtime \<Rightarrow> port_state \<Rightarrow> u32 \<Rightarrow> u8 list" where
  "arp_packet rt port next_hop =
     replicate 6 0xff @ po_mac port @ le16_bytes (rte_cpu_to_be_16 RTE_ETHER_TYPE_ARP) @
     le16_bytes (rte_cpu_to_be_16 1) @ le16_bytes (rte_cpu_to_be_16 RTE_ETHER_TYPE_IPV4) @ [6, 4] @
     le16_bytes (rte_cpu_to_be_16 RTE_ARP_OP_REQUEST) @ po_mac port @
     le32_bytes (net_source rt (ucast (po_id port)) next_hop) @ replicate 6 0 @ le32_bytes next_hop"

definition arp_output_packet ::
    "('d, 'x) dpdk_scheme \<Rightarrow> rte_mbuf \<times> packet_ctx \<Rightarrow> 'd app_runtime \<Rightarrow> 'd app_runtime option" where
  "arp_output_packet D = (\<lambda>(m, ctx) rt.
     case egress_port rt ctx of
       None \<Rightarrow> node_drop D NODE_ARP_OUTPUT m ctx DROP_INVALID_EGRESS True rt
     | Some port \<Rightarrow>
         (case d_append D m (ETH_HDR + ARP_HDR) of
            None \<Rightarrow> node_drop D NODE_ARP_OUTPUT m ctx DROP_NO_TAILROOM True rt
          | Some m' \<Rightarrow> do {
              m' \<leftarrow> wr_bytes m' (data_len m) (arp_packet rt port (pc_next_hop_ip_be ctx));
              pass D NODE_TX m' ctx rt
            }))"

definition arp_output_node_run ::
    "('d, 'x) dpdk_scheme \<Rightarrow> node_frame \<Rightarrow> 'd app_runtime \<Rightarrow> 'd app_runtime option" where
  "arp_output_node_run D = for_each (arp_output_packet D)"

subsection \<open>Transmission (\<^verbatim>\<open>tx.c\<close>) and drops (\<^verbatim>\<open>drop.c\<close>)\<close>

definition upd_port :: "nat \<Rightarrow> (port_state \<Rightarrow> port_state) \<Rightarrow> 'd app_runtime \<Rightarrow> 'd app_runtime" where
  "upd_port p f rt = rt\<lparr>rt_ports := (rt_ports rt)[p := f (rt_ports rt ! p)]\<rparr>"

text \<open>The first loop collects the packets to send, padded to the minimum length of 60 bytes.\<close>

definition tx_collect ::
    "('d, 'x) dpdk_scheme \<Rightarrow> rte_mbuf \<times> packet_ctx \<Rightarrow> node_frame \<times> 'd app_runtime \<Rightarrow> (node_frame \<times> 'd app_runtime) option" where
  "tx_collect D = (\<lambda>(m, ctx) (ready, rt).
     case egress_port rt ctx of
       None \<Rightarrow> map_option (Pair ready) (node_drop D NODE_TX m ctx DROP_INVALID_EGRESS True rt)
     | Some _ \<Rightarrow>
         if mb_pkt_len m < 60 then
           let padding = 60 - mb_pkt_len m in
           (case d_append D m padding of
              None \<Rightarrow> do {
                p \<leftarrow> netif_by_dpdk_port rt (pc_egress_port_id ctx);
                let rt = upd_port p (\<lambda>port. port\<lparr>po_tx_drops := po_tx_drops port + 1\<rparr>) rt;
                map_option (Pair ready) (node_drop D NODE_TX m ctx DROP_NO_TAILROOM True rt)
              }
            | Some m' \<Rightarrow> do {
                m' \<leftarrow> wr_bytes m' (data_len m) (replicate padding 0);
                Some (ready @ [(m', ctx)], rt)
              })
         else Some (ready @ [(m, ctx)], rt))"

definition tx_port ::
    "('d, 'x) dpdk_scheme \<Rightarrow> node_frame \<Rightarrow> nat \<Rightarrow> 'd app_runtime \<Rightarrow> 'd app_runtime option" where
  "tx_port D ready p rt =
     (let port = rt_ports rt ! p;
          batch = filter (\<lambda>(m, ctx). pc_egress_port_id ctx = po_port_id port) ready
      in if \<not> po_configured port \<or> \<not> port_up port \<or> batch = [] then Some rt
         else case d_tx_burst D (po_port_id port) (map fst batch) (rt_dev rt) of (sent, d) \<Rightarrow>
           let rt = rt\<lparr>rt_dev := d,
                 rt_accepted_sends := rt_accepted_sends rt +
                   of_nat (length (filter (\<lambda>(m, ctx). pc_report_acceptance ctx) (take sent batch))),
                 rt_tx_packets := rt_tx_packets rt + of_nat sent\<rparr>;
               rt = upd_port p (\<lambda>port. port\<lparr>
                      po_tx_bytes := po_tx_bytes port + of_nat (sum_list (map (\<lambda>(m, ctx). mb_pkt_len m) (take sent batch))),
                      po_tx_packets := po_tx_packets port + of_nat sent,
                      po_tx_drops := po_tx_drops port + of_nat (length batch - sent)\<rparr>) rt
           in for_each (\<lambda>(m, ctx) rt. node_drop D NODE_TX m ctx DROP_TX_FAILED True rt) (drop sent batch) rt)"

definition tx_node_run ::
    "('d, 'x) dpdk_scheme \<Rightarrow> node_frame \<Rightarrow> 'd app_runtime \<Rightarrow> 'd app_runtime option" where
  "tx_node_run D frame rt = do {
     (ready, rt) \<leftarrow> for_each (tx_collect D) frame ([], rt);
     for_each (tx_port D ready) [0..<length (rt_ports rt)] rt
   }"

definition drop_node_run ::
    "('d, 'x) dpdk_scheme \<Rightarrow> node_frame \<Rightarrow> 'd app_runtime \<Rightarrow> 'd app_runtime option" where
  "drop_node_run D frame rt =
     Some (fold (\<lambda>(m, ctx) rt. rte_pktmbuf_free D m (add_reason (pc_drop_reason ctx) 1 rt)) frame
       (add_drops NODE_DROP (length frame) rt))"

subsection \<open>The node table (\<^verbatim>\<open>register.c\<close>)\<close>

primrec nodes_register :: "('d, 'x) dpdk_scheme \<Rightarrow> 'd submit \<Rightarrow> node_id \<Rightarrow> node_frame \<Rightarrow> 'd app_runtime \<Rightarrow> 'd app_runtime option" where
  "nodes_register D submit NODE_DROP = drop_node_run D"
| "nodes_register D submit NODE_ETH_INPUT = eth_input_node_run D"
| "nodes_register D submit NODE_ARP_OUTPUT = arp_output_node_run D"
| "nodes_register D submit NODE_ARP_INPUT = arp_input_node_run D submit"
| "nodes_register D submit NODE_IPV4_ACL = ipv4_acl_node_run D"
| "nodes_register D submit NODE_IPV4_INPUT = ipv4_input_node_run D"
| "nodes_register D submit NODE_IPV4_FORWARD = ipv4_forward_node_run D submit"
| "nodes_register D submit NODE_ICMP_INPUT = icmp_input_node_run D"
| "nodes_register D submit NODE_UDP_INPUT = udp_input_node_run D submit"
| "nodes_register D submit NODE_TCP_INPUT = tcp_input_node_run D submit"
| "nodes_register D submit NODE_IPV4_OUTPUT = ipv4_output_node_run D"
| "nodes_register D submit NODE_IPV4_ROUTE = ipv4_route_node_run D"
| "nodes_register D submit NODE_UDP_OUTPUT = udp_output_node_run D"
| "nodes_register D submit NODE_ETH_OUTPUT = eth_output_node_run D submit"
| "nodes_register D submit NODE_TX = tx_node_run D"

end
