(* ===== verification/Dataplane.thy ===== *)
theory Dataplane
  imports Nodes
begin

text \<open>
  The dataplane put together: \<open>graph_init\<close> and \<open>graph_submit\<close> of \<^verbatim>\<open>src/graph.c\<close>, sending a datagram
  (\<^verbatim>\<open>src/udp.c\<close>), the socket interface of \<^verbatim>\<open>src/socket.c\<close> and the polling step of \<^verbatim>\<open>src/runtime.c\<close>.

  The nodes run with an active output and never reach a nested \<open>graph_submit\<close> (theory Graph_Safety);
  the node table is instantiated with a \<open>submit\<close> that is undefined.
\<close>

definition no_submit :: "'d submit" where
  "no_submit node frame rt = None"

definition node_run :: "('d, 'x) dpdk_scheme \<Rightarrow> 'd node_run" where
  "node_run D = nodes_register D no_submit"

definition graph_init :: "'d app_runtime \<Rightarrow> 'd app_runtime" where
  "graph_init rt = rt\<lparr>rt_graph := zero_graph\<rparr>"

definition graph_submit ::
    "('d, 'x) dpdk_scheme \<Rightarrow> node_id \<Rightarrow> node_frame \<Rightarrow> 'd app_runtime \<Rightarrow> (bool \<times> 'd app_runtime) option" where
  "graph_submit D node frame rt = graph_submit_with D (node_run D) node frame rt"

text \<open>The callers ignore the result: their frames are never too long.\<close>

definition submit_graph :: "('d, 'x) dpdk_scheme \<Rightarrow> 'd submit" where
  "submit_graph D node frame rt = map_option snd (graph_submit D node frame rt)"

subsection \<open>Sending a datagram\<close>

definition send_failure :: "drop_reason \<Rightarrow> errno \<Rightarrow> 'd app_runtime \<Rightarrow> (errno + nat) \<times> 'd app_runtime" where
  "send_failure reason error rt =
     (Inl error, add_reason reason 1 (add_errors NODE_UDP_OUTPUT 1 (add_drops NODE_UDP_OUTPUT 1 rt)))"

definition udp_send ::
    "('d, 'x) dpdk_scheme \<Rightarrow> nat \<Rightarrow> u8 list \<Rightarrow> ps_sockaddr \<Rightarrow> 'd app_runtime
       \<Rightarrow> ((errno + nat) \<times> 'd app_runtime) option" where
  "udp_send D i payload destination rt =
     (let local = se_local (sock rt i); len = length payload in
      if len > PS_DGRAM_MAX_PAYLOAD then Some (send_failure DROP_MTU EMSGSIZE rt)
      else do {
        (reason, route) \<leftarrow> route_query rt (sa_ip_be destination) (sa_ip_be local) NET_IIF_NONE;
        if reason = DROP_ROUTE_PROHIBIT \<or> reason = DROP_ROUTE_BLACKHOLE \<or> reason = DROP_ROUTE_UNREACHABLE
        then Some (send_failure reason (ipv4_route_errno reason) rt)
        else if reason = DROP_NONE \<and> len + IPV4_HDR + UDP_HDR > unat (rr_mtu route)
        then Some (send_failure DROP_MTU EMSGSIZE rt)
        else case rte_pktmbuf_alloc D rt of
          (None, rt) \<Rightarrow> Some (send_failure DROP_MBUF_ALLOCATION_FAILED ENOMEM rt)
        | (Some m, rt) \<Rightarrow>
            (case d_append D m len of
               None \<Rightarrow> Some (send_failure DROP_NO_TAILROOM ENOBUFS (rte_pktmbuf_free D m rt))
             | Some m' \<Rightarrow> do {
                 m' \<leftarrow> wr_bytes m' (data_len m) payload;
                 let accepted_before = rt_accepted_sends rt;
                 (_, rt) \<leftarrow> graph_submit D NODE_IPV4_ROUTE
                   [(m', zero_ctx\<lparr>pc_src_port := sa_port local, pc_src_ip_be := sa_ip_be local,
                      pc_dst_port := sa_port destination, pc_dst_ip_be := sa_ip_be destination,
                      pc_ip_protocol := IPPROTO_UDP, pc_report_acceptance := True\<rparr>)] rt;
                 Some (if rt_accepted_sends rt \<noteq> accepted_before then Inr len else Inl EIO, rt)
               })
      })"

subsection \<open>The socket interface\<close>

text \<open>
  Pointers to addresses are options; the buffers are lists.  The integer results are \<open>errno + 'a\<close>;
  a bind on demand uses the address zero.
\<close>

definition core_socket :: "'d app_runtime \<Rightarrow> int \<Rightarrow> int \<Rightarrow> int \<Rightarrow> (errno + int) \<times> 'd app_runtime" where
  "core_socket rt domain ty protocol =
     (if ss_capacity (rt_sockets rt) = 0 then (Inl ENETDOWN, rt)
      else if rt_active_output rt \<noteq> None then (Inl EBUSY, rt)
      else if domain \<noteq> PS_AF_INET then (Inl EAFNOSUPPORT, rt)
      else if ty \<noteq> 2 \<and> ty \<noteq> 1 then (Inl EPROTOTYPE, rt)
      else if protocol \<noteq> 0 \<and> protocol \<noteq> (if ty = 2 then 17 else 6) then (Inl EPROTONOSUPPORT, rt)
      else case socket_allocate rt (of_int ty) of
        (None, rt) \<Rightarrow> (Inl EMFILE, rt)
      | (Some i, rt) \<Rightarrow> (Inr (se_fd (sock rt i)), rt))"

definition core_bind :: "'d app_runtime \<Rightarrow> int \<Rightarrow> ps_sockaddr option \<Rightarrow> rc \<times> 'd app_runtime" where
  "core_bind rt fd addr =
     (case get rt fd of None \<Rightarrow> (Some EBADF, rt) | Some i \<Rightarrow> socket_bind rt i addr)"

definition core_close ::
    "('d, 'x) dpdk_scheme \<Rightarrow> int \<Rightarrow> 'd app_runtime \<Rightarrow> (rc \<times> 'd app_runtime) option" where
  "core_close D fd rt =
     (case get rt fd of
        None \<Rightarrow> Some (Some EBADF, rt)
      | Some i \<Rightarrow>
          if se_type (sock rt i) = PS_SOCK_STREAM then
            (case rte_get_timer_cycles D rt of (now, rt) \<Rightarrow>
               map_option (Pair None) (tcp_close D (submit_graph D) i now rt))
          else Some (None, set_sock i zero_socket rt))"

definition bind_on_demand :: "nat \<Rightarrow> 'd app_runtime \<Rightarrow> rc \<times> 'd app_runtime" where
  "bind_on_demand i rt =
     (if sa_port (se_local (sock rt i)) = 0 then socket_bind rt i (Some zero_sockaddr) else (None, rt))"

definition core_sendto ::
    "('d, 'x) dpdk_scheme \<Rightarrow> int \<Rightarrow> u8 list \<Rightarrow> ps_sockaddr option \<Rightarrow> 'd app_runtime
       \<Rightarrow> ((errno + nat) \<times> 'd app_runtime) option" where
  "core_sendto D fd buf dst rt =
     (case get rt fd of
        None \<Rightarrow> Some (Inl EBADF, rt)
      | Some i \<Rightarrow>
          if se_type (sock rt i) \<noteq> PS_SOCK_DGRAM then Some (Inl EOPNOTSUPP, rt)
          else case dst of
            None \<Rightarrow> Some (Inl EINVAL, rt)
          | Some addr \<Rightarrow>
              if sa_port addr = 0 then Some (Inl EINVAL, rt)
              else if rt_active_output rt \<noteq> None then Some (Inl EBUSY, rt)
              else case bind_on_demand i rt of
                (Some e, rt) \<Rightarrow> Some (Inl e, rt)
              | (None, rt) \<Rightarrow> udp_send D i buf addr rt)"

definition core_recvfrom ::
    "'d app_runtime \<Rightarrow> int \<Rightarrow> nat \<Rightarrow> (errno + ps_sockaddr \<times> u8 list) \<times> 'd app_runtime" where
  "core_recvfrom rt fd len =
     (case get rt fd of
        None \<Rightarrow> (Inl EBADF, rt)
      | Some i \<Rightarrow>
          if se_type (sock rt i) \<noteq> PS_SOCK_DGRAM then (Inl EOPNOTSUPP, rt)
          else case udp_recv (se_udp (sock rt i)) len of
            (r, ep) \<Rightarrow> (r, set_sock i ((sock rt i)\<lparr>se_udp := ep\<rparr>) rt))"

definition core_connect ::
    "('d, 'x) dpdk_scheme \<Rightarrow> int \<Rightarrow> ps_sockaddr option \<Rightarrow> 'd app_runtime \<Rightarrow> (rc \<times> 'd app_runtime) option" where
  "core_connect D fd addr rt =
     (case get rt fd of
        None \<Rightarrow> Some (Some EBADF, rt)
      | Some i \<Rightarrow>
          (case addr of
             None \<Rightarrow> Some (Some EINVAL, rt)
           | Some a \<Rightarrow>
               if sa_port a = 0 \<or> \<not> ipv4_destination_valid rt (sa_ip_be a) then Some (Some EINVAL, rt)
               else if se_type (sock rt i) = PS_SOCK_STREAM then tcp_connect D (submit_graph D) i a rt
               else case bind_on_demand i rt of
                 (Some e, rt) \<Rightarrow> Some (Some e, rt)
               | (None, rt) \<Rightarrow> Some (None, set_sock i ((sock rt i)\<lparr>se_remote := a\<rparr>) rt)))"

definition core_listen :: "'d app_runtime \<Rightarrow> int \<Rightarrow> int \<Rightarrow> rc \<times> 'd app_runtime" where
  "core_listen rt fd backlog =
     (case get rt fd of
        None \<Rightarrow> (Some EBADF, rt)
      | Some i \<Rightarrow>
          if se_type (sock rt i) \<noteq> PS_SOCK_STREAM then (Some EOPNOTSUPP, rt)
          else let limit = int (ss_capacity (rt_sockets rt)) - 1 in
            tcp_listen i (if backlog > limit then limit else backlog) rt)"

definition core_accept :: "'d app_runtime \<Rightarrow> int \<Rightarrow> (errno + int \<times> ps_sockaddr) \<times> 'd app_runtime" where
  "core_accept rt fd =
     (case get rt fd of
        None \<Rightarrow> (Inl EBADF, rt)
      | Some i \<Rightarrow>
          if se_type (sock rt i) \<noteq> PS_SOCK_STREAM then (Inl EOPNOTSUPP, rt) else tcp_accept i rt)"

definition core_send ::
    "('d, 'x) dpdk_scheme \<Rightarrow> int \<Rightarrow> u8 list \<Rightarrow> 'd app_runtime \<Rightarrow> ((errno + nat) \<times> 'd app_runtime) option" where
  "core_send D fd buf rt =
     (case get rt fd of
        None \<Rightarrow> Some (Inl EBADF, rt)
      | Some i \<Rightarrow>
          if se_type (sock rt i) = PS_SOCK_STREAM then tcp_send D (submit_graph D) i buf rt
          else if sa_port (se_remote (sock rt i)) = 0 then Some (Inl ENOTCONN, rt)
          else core_sendto D fd buf (Some (se_remote (sock rt i))) rt)"

definition core_recv ::
    "('d, 'x) dpdk_scheme \<Rightarrow> int \<Rightarrow> nat \<Rightarrow> 'd app_runtime \<Rightarrow> ((errno + u8 list) \<times> 'd app_runtime) option" where
  "core_recv D fd len rt =
     (case get rt fd of
        None \<Rightarrow> Some (Inl EBADF, rt)
      | Some i \<Rightarrow>
          if se_type (sock rt i) = PS_SOCK_STREAM then tcp_recv D (submit_graph D) i len rt
          else case core_recvfrom rt fd len of
            (Inl e, rt) \<Rightarrow> Some (Inl e, rt)
          | (Inr (peer, bytes), rt) \<Rightarrow> Some (Inr bytes, rt))"

subsection \<open>The polling step\<close>

definition poll_port ::
    "('d, 'x) dpdk_scheme \<Rightarrow> nat \<Rightarrow> nat \<times> 'd app_runtime \<Rightarrow> (nat \<times> 'd app_runtime) option" where
  "poll_port D p = (\<lambda>(received, rt).
     let port = rt_ports rt ! p in
     if \<not> po_configured port \<or> \<not> port_up port then Some (received, rt)
     else case d_rx_burst D (po_port_id port) GRAPH_FRAME_SIZE (rt_dev rt) of (ms, d) \<Rightarrow>
       let frame = map (\<lambda>m. (m, zero_ctx\<lparr>pc_ingress_port_id := po_port_id port\<rparr>)) ms;
           rt = upd_port p (\<lambda>port. port\<lparr>po_rx_packets := po_rx_packets port + of_nat (length ms),
                  po_rx_bytes := po_rx_bytes port + of_nat (sum_list (map mb_pkt_len ms))\<rparr>) (rt\<lparr>rt_dev := d\<rparr>)
       in do {
         rt \<leftarrow> (if ms \<noteq> [] then submit_graph D NODE_ETH_INPUT frame rt else Some rt);
         Some (received + length ms, rt)
       })"

definition app_step :: "('d, 'x) dpdk_scheme \<Rightarrow> 'd app_runtime \<Rightarrow> (nat \<times> 'd app_runtime) option" where
  "app_step D rt = do {
     (received, rt) \<leftarrow> for_each (poll_port D) [0..<length (rt_ports rt)] (0, rt);
     let (now, rt) = rte_get_timer_cycles D rt;
     rt \<leftarrow> neighbour_tick D (submit_graph D) now rt;
     rt \<leftarrow> tcp_timer_progress D (submit_graph D) now rt;
     Some (received, rt)
   }"

end
