(* ===== verification/Node_Safety.thy ===== *)
theory Node_Safety
  imports Tcp_Safety Dataplane
begin

text \<open>
  Every node of the graph, run on a frame whose packets are well formed for it, is defined: it reads
  and writes only inside its packets, dereferences no null interface, passes packets only to nodes of
  lower rank, and keeps the runtime well formed.
\<close>

subsection \<open>The packets a node expects\<close>

text \<open>
  The Ethernet node takes any packet whose lengths agree when it is contiguous; the nodes behind it
  rely on what it, the IPv4 node and the ACL node checked.  The nodes on the way out take any packet.
\<close>

definition ip4_ok :: "rte_mbuf \<times> packet_ctx \<Rightarrow> bool" where
  "ip4_ok = (\<lambda>(m, ctx). pc_l3_offset ctx = 14 \<and> pc_l4_offset ctx = 34 \<and> mb_pkt_len m = data_len m \<and>
     ip_ihl m 14 = 20 \<and> 20 \<le> ip_total m 14 \<and> 14 + ip_total m 14 \<le> data_len m)"

primrec packet_ok :: "u16 set \<Rightarrow> packet_pre" where
  "packet_ok ids NODE_DROP = (\<lambda>_. True)"
| "packet_ok ids NODE_ETH_INPUT = (\<lambda>(m, ctx). contiguous m \<longrightarrow> mb_pkt_len m = data_len m)"
| "packet_ok ids NODE_ARP_OUTPUT = (\<lambda>_. True)"
| "packet_ok ids NODE_ARP_INPUT = (\<lambda>(m, ctx). pc_l3_offset ctx = 14 \<and> mb_pkt_len m = data_len m)"
| "packet_ok ids NODE_IPV4_ACL = (\<lambda>p. ip4_ok p \<and> pc_ingress_port_id (snd p) \<in> ids)"
| "packet_ok ids NODE_IPV4_INPUT = (\<lambda>(m, ctx). pc_l3_offset ctx = 14 \<and> mb_pkt_len m = data_len m)"
| "packet_ok ids NODE_IPV4_FORWARD = (\<lambda>p. ip4_ok p \<and> pc_ingress_port_id (snd p) \<in> ids)"
| "packet_ok ids NODE_ICMP_INPUT = ip4_ok"
| "packet_ok ids NODE_UDP_INPUT = ip4_ok"
| "packet_ok ids NODE_TCP_INPUT = ip4_ok"
| "packet_ok ids NODE_IPV4_OUTPUT = (\<lambda>_. True)"
| "packet_ok ids NODE_IPV4_ROUTE = (\<lambda>(m, ctx). mb_pkt_len m = data_len m)"
| "packet_ok ids NODE_UDP_OUTPUT = (\<lambda>(m, ctx). mb_pkt_len m = data_len m)"
| "packet_ok ids NODE_ETH_OUTPUT = (\<lambda>_. True)"
| "packet_ok ids NODE_TX = (\<lambda>_. True)"

lemma packet_ok_output: "rank n \<le> 4 \<Longrightarrow> packet_ok ids n p"
  by (cases n) auto

subsection \<open>A node that runs can send\<close>

definition running ::
    "('d, 'x) dpdk_scheme \<Rightarrow> u16 set \<Rightarrow> net_config option \<Rightarrow> nat \<Rightarrow> nat set \<Rightarrow> node_id list \<Rightarrow> 'd app_runtime \<Rightarrow> bool" where
  "running D ids net w held old rt \<longleftrightarrow> device_ok D \<and> in_node (packet_ok ids) w held old rt \<and> rt_network rt = net"

interpretation node: sender D submit ids "running D ids net w held old" w
  for D :: "('d, 'x) dpdk_scheme" and submit ids net w held old
proof unfold_locales
  fix rt rt' :: "'d app_runtime" and n m ctx
  assume r: "running D ids net w held old rt"
  then show "device_ok D" by (simp add: running_def)
  show "running D ids net w held old rt'"
    if "same_pool (rt_graph rt) (rt_graph rt')" "rt_active_output rt' = rt_active_output rt" "rt_network rt' = rt_network rt"
    using r in_node_cong [OF _ that(1,2)] that(3) by (simp add: running_def)
  show "ok (enqueue D n m ctx rt) (\<lambda>(b, rt'). running D ids net w held old rt' \<and> graph_effect rt rt')"
    if "rank n \<le> 4" "rank n < w"
    using r enqueue_ok [where pre = "packet_ok ids" and D = D, OF _ that(2) packet_ok_output [OF that(1)], of held old rt m ctx]
    by (auto simp: running_def graph_effect_def elim!: ok_mono)
  show "ok (submit n frame rt) (sent (running D ids net w held old) ids rt)" if "rt_active_output rt = None" for frame
    using r that by (auto simp: running_def dest: in_node_active)
qed

lemma effect_sent:
  assumes "kept (running D ids net w held old) ids rt" "in_node (packet_ok ids) w held old rt'" "graph_effect rt rt'"
  shows "sent (running D ids net w held old) ids rt rt'"
  using assms rt_wf_effect [of ids rt rt'] by (simp add: sent_def kept_def running_def graph_effect_def)

lemma keptD:
  assumes "kept (running D ids net w held old) ids rt"
  shows "in_node (packet_ok ids) w held old rt" "device_ok D" "rt_wf ids rt"
  using assms by (simp_all add: kept_def running_def)

lemma sent_kept: "sent C ids rt rt' \<Longrightarrow> kept C ids rt'"
  by (simp add: sent_def kept_def)

lemma pass_sent:
  assumes "kept (running D ids net w held old) ids rt" "rank n < w" "packet_ok ids n (m, ctx)"
  shows "ok (pass D n m ctx rt) (sent (running D ids net w held old) ids rt)"
  unfolding ok_map
  by (rule ok_mono [OF enqueue_ok [OF keptD(1) [OF assms(1)] assms(2,3)]]) (auto intro: effect_sent [OF assms(1)])

lemma node_drop_sent:
  assumes "kept (running D ids net w held old) ids rt" "0 < w"
  shows "ok (node_drop D owner m ctx reason error rt) (sent (running D ids net w held old) ids rt)"
  unfolding node_drop_def
  by (rule ok_mono [OF graph_drop_ok [OF keptD(1) [OF assms(1)] assms(2)]]) (auto intro: effect_sent [OF assms(1)])

lemma pass_from:
  assumes "sent (running D ids net w held old) ids rt rt'" "rank n < w" "packet_ok ids n (m, ctx)"
  shows "ok (pass D n m ctx rt') (sent (running D ids net w held old) ids rt)"
  by (rule ok_mono [OF pass_sent [OF sent_kept [OF assms(1)] assms(2,3)]]) (rule node.sent_trans [OF assms(1)])

lemma drop_from:
  assumes "sent (running D ids net w held old) ids rt rt'" "0 < w"
  shows "ok (node_drop D owner m ctx reason error rt') (sent (running D ids net w held old) ids rt)"
  by (rule ok_mono [OF node_drop_sent [OF sent_kept [OF assms(1)] assms(2)]]) (rule node.sent_trans [OF assms(1)])

lemmas enqueue_sent = pass_sent [unfolded ok_map]
lemmas enqueue_from = pass_from [unfolded ok_map]

lemma kept_sent: "kept C ids rt \<Longrightarrow> sent C ids rt rt"
  by (simp add: sent_def kept_def)

subsection \<open>Bytes and buffers\<close>

lemma wr_eqs:
  "off + 1 \<le> data_len m \<Longrightarrow> wr8 m off b = Some (m\<lparr>mb_data := memcpy_at (mb_data m) off [b]\<rparr>)"
  "off + 2 \<le> data_len m \<Longrightarrow> wr16 m off h = Some (m\<lparr>mb_data := memcpy_at (mb_data m) off (le16_bytes h)\<rparr>)"
  "off + 4 \<le> data_len m \<Longrightarrow> wr32 m off x = Some (m\<lparr>mb_data := memcpy_at (mb_data m) off (le32_bytes x)\<rparr>)"
  by (simp_all add: wr8_def wr16_def wr32_def wr_bytes_Some)

lemma nth_memcpy_at_before: "i < off \<Longrightarrow> off + length src \<le> length dst \<Longrightarrow> memcpy_at dst off src ! i = dst ! i"
  by (simp add: memcpy_at_def nth_append)

lemma prepend_data:
  "device_ok D \<Longrightarrow> d_prepend D m n = Some m' \<Longrightarrow> data_len m' = data_len m + n \<and> mb_pkt_len m' = mb_pkt_len m + n"
  unfolding device_ok_def dpdk_ok_def dpdk_prepend_ok_def by fastforce

lemma trim_data:
  "device_ok D \<Longrightarrow> n \<le> data_len m \<Longrightarrow>
     mb_data (d_trim D m n) = take (data_len m - n) (mb_data m) \<and> mb_pkt_len (d_trim D m n) = mb_pkt_len m - n"
  unfolding device_ok_def dpdk_ok_def dpdk_trim_ok_def by blast

lemma u16_nat_le: "u16_nat n \<le> n"
  unfolding u16_nat_def unat_of_nat by (rule mod_less_eq_dividend)

lemma trim_ip4:
  assumes "device_ok D" and "mb_pkt_len m = data_len m" and "tot = ip_total m 14" and "ip_ihl m 14 = 20" "20 \<le> tot" "14 + tot \<le> data_len m"
    and "pc_l3_offset ctx = 14" "pc_l4_offset ctx = 34"
  shows "ip4_ok (d_trim D m (u16_nat (mb_pkt_len m - (14 + tot))), ctx)"
proof -
  define n where "n = u16_nat (mb_pkt_len m - (14 + tot))"
  have n: "n \<le> data_len m - (14 + tot)" using u16_nat_le [of "mb_pkt_len m - (14 + tot)"] assms(2) by (simp add: n_def)
  then have "n \<le> data_len m" by simp
  note t = trim_data [OF assms(1) this]
  have k: "14 + tot \<le> data_len m - n" using n assms(6) by simp
  define l where "l = data_len m - n"
  have l: "34 \<le> l" "l \<le> data_len m" using assms(5) k by (simp_all add: l_def)
  have "take 2 (drop 16 (take l (mb_data m))) = take 2 (drop 16 (mb_data m))" using l by (simp add: drop_take min_def)
  then show ?thesis
    using assms(2-) k l unfolding n_def [symmetric] ip4_ok_def by (simp add: t l_def [symmetric])
qed

lemma dpdk_port_ids:
  assumes "rt_wf ids rt"
  shows "dpdk_port rt pid \<noteq> None \<longleftrightarrow> pid \<in> ids"
proof -
  have "pid \<in> ids \<longleftrightarrow> (\<exists>p\<in>set (rt_ports rt). po_configured p \<and> po_port_id p = pid)"
    using rt_wfD(3) [OF assms] by (auto simp: ports_wf_def)
  then show ?thesis by (auto simp: dpdk_port_def netif_by_dpdk_port_def)
qed

lemma dpdk_port_mac: "rt_wf ids rt \<Longrightarrow> dpdk_port rt pid = Some p \<Longrightarrow> length (po_mac p) = 6"
  using net_wfD(3) [OF rt_wfD(2), of ids rt p]
  by (auto simp: dpdk_port_def netif_by_dpdk_port_def dest: first_indexD(1))

subsection \<open>Input\<close>

lemma eth_input_packet_sent:
  assumes "kept (running D ids net 8 held old) ids rt" "packet_ok ids NODE_ETH_INPUT p"
  shows "ok (eth_input_packet D p rt) (sent (running D ids net 8 held old) ids rt)"
proof -
  obtain m ctx where p: "p = (m, ctx)" by (cases p)
  note d = node_drop_sent [OF assms(1)]
  have pass: "ok (pass D n m (ctx\<lparr>pc_l3_offset := of_nat 14\<rparr>) rt) (sent (running D ids net 8 held old) ids rt)"
    if "contiguous m" "n = NODE_ARP_INPUT \<or> n = NODE_IPV4_INPUT" for n
    using assms(2) that by (intro pass_sent [OF assms(1)]) (auto simp: p)
  show ?thesis
  proof (cases "dpdk_port rt (pc_ingress_port_id ctx)")
    case None
    then show ?thesis by (simp add: eth_input_packet_def p d)
  next
    case (Some port)
    show ?thesis
    proof (cases "14 \<le> data_len m")
      case True
      then have rd: "rd_bytes m 0 6 = Some (take 6 (mb_data m))" "rd_bytes m 6 6 = Some (take 6 (drop 6 (mb_data m)))"
          "rd16 m 12 = Some (le16_of (take 2 (drop 12 (mb_data m))))"
        by (simp_all add: rd_eqs)
      show ?thesis
        unfolding eth_input_packet_def p prod.case Some option.case rd Let_def Option.bind.bind_lunit
        by (intro ok_ifI d pass) (auto simp: contiguous_def)
    next
      case False
      then show ?thesis unfolding eth_input_packet_def p prod.case Some option.case Let_def by (intro ok_ifI d) simp_all
    qed
  qed
qed

lemma arp_valid_ok: "off + 28 \<le> data_len m \<Longrightarrow> 14 \<le> off \<Longrightarrow> \<exists>b. arp_valid rt port m off = Some b"
  by (simp add: arp_valid_def rd_eqs)

lemma arp_reply_ok:
  assumes "off + 28 \<le> data_len m" "14 \<le> off" "length (po_mac port) = 6"
  shows "\<exists>m'. arp_reply port m off = Some m'"
  using assms by (simp add: arp_reply_def rd_eqs wr_eqs wr_bytes_Some)

lemma arp_input_packet_sent:
  assumes "kept (running D ids net 7 held old) ids rt" "packet_ok ids NODE_ARP_INPUT p"
  shows "ok (arp_input_packet D submit p rt) (sent (running D ids net 7 held old) ids rt)"
proof -
  let ?S = "sent (running D ids net 7 held old) ids rt"
  obtain m ctx where p: "p = (m, ctx)" by (cases p)
  have off: "l3 ctx = 14" and pre: "pc_l3_offset ctx = 14" using assms(2) by (simp_all add: p)
  note s = kept_sent [OF assms(1)]
  have wf: "rt_wf ids rt" by (rule keptD(3) [OF assms(1)])
  have learn: "ok (if b then do { (rc, rt) \<leftarrow> neighbour_update D submit dev ip mac rt;
        Some (if rc \<noteq> None then rt\<lparr>rt_neighbour_learn_failures := rt_neighbour_learn_failures rt + 1\<rparr> else rt) } else Some rt) ?S"
    if "length mac = 6" for b dev ip mac
  proof -
    have "?S (rt'\<lparr>rt_neighbour_learn_failures := k\<rparr>)" if "?S rt'" for rt' k
      by (rule node.sent_other [OF that]) simp_all
    moreover have "ok (neighbour_update D submit dev ip mac rt) (\<lambda>r. ?S (snd r))"
      using assms(1) that by (intro node.neighbour_update_sent) (simp_all add: kept_def)
    ultimately show ?thesis using s by (auto simp: ok_bind_iff case_prod_beta elim!: ok_mono)
  qed
  have reply: "ok (do { m \<leftarrow> arp_reply port m 14; pass D NODE_TX (f m) ctx' rt' }) ?S"
    if "?S rt'" "42 \<le> data_len m" "dpdk_port rt pid = Some port" for rt' f ctx' port pid
    using arp_reply_ok [of 14 m port] that dpdk_port_mac [OF wf that(3)] by (auto intro!: enqueue_from)
  show ?thesis
  proof (cases "dpdk_port rt (pc_ingress_port_id ctx)")
    case None
    then show ?thesis by (simp add: arp_input_packet_def p node_drop_sent [OF assms(1)])
  next
    case (Some port)
    show ?thesis
    proof (cases "po_admin_down port \<or> data_len m < 42")
      case True
      then show ?thesis using Some by (auto simp: arp_input_packet_def p pre Let_def node_drop_sent [OF assms(1)])
    next
      case False
      then have d: "42 \<le> data_len m" by simp
      obtain b where b: "arp_valid rt port m 14 = Some b" using arp_valid_ok [of 14 m] d by auto
      obtain opcode sha sip tha tip where rd: "rd16 m (14 + 6) = Some opcode" "rd_bytes m (14 + 8) 6 = Some sha"
          "rd32 m (14 + 14) = Some sip" "rd_bytes m (14 + 18) 6 = Some tha" "rd32 m (14 + 24) = Some tip" and sha: "length sha = 6"
        using d by (simp add: rd_eqs)
      show ?thesis
        unfolding arp_input_packet_def p prod.case Let_def Some option.case off b rd Option.bind.bind_lunit
        by (intro ok_ifI node_drop_sent [OF assms(1)] ok_bindI [OF learn] reply [OF _ d Some]) (simp_all add: sha node.sent_stats)
    qed
  qed
qed

lemma ipv4_input_packet_sent:
  assumes "kept (running D ids net 7 held old) ids rt" "packet_ok ids NODE_IPV4_INPUT p"
  shows "ok (ipv4_input_packet D p rt) (sent (running D ids net 7 held old) ids rt)"
proof -
  let ?S = "sent (running D ids net 7 held old) ids rt"
  obtain m ctx where p: "p = (m, ctx)" by (cases p)
  have off: "l3 ctx = 14" and pre: "pc_l3_offset ctx = 14" "mb_pkt_len m = data_len m" using assms(2) by (simp_all add: p)
  note d = node_drop_sent [OF assms(1)] and dev = keptD(2) [OF assms(1)]
  show ?thesis
  proof (cases "dpdk_port rt (pc_ingress_port_id ctx)")
    case None
    then show ?thesis by (simp add: ipv4_input_packet_def p d)
  next
    case (Some port)
    have ingress: "pc_ingress_port_id ctx \<in> ids" using dpdk_port_ids [OF keptD(3) [OF assms(1)]] Some by blast
    show ?thesis
    proof (cases "34 \<le> data_len m")
      case True
      define ihl where "ihl = ip_ihl m 14"
      define tot where "tot = ip_total m 14"
      have acl: "ok (pass D NODE_IPV4_ACL (d_trim D m (u16_nat (mb_pkt_len m - (14 + tot))))
          (ctx\<lparr>pc_l4_offset := pc_l3_offset ctx + of_nat ihl, pc_src_ip_be := src, pc_dst_ip_be := dst, pc_ip_protocol := proto\<rparr>) rt) ?S"
        if "\<not> (P \<or> ihl < 20 \<or> tot < ihl \<or> data_len m < 14 + tot)" "\<not> ihl \<noteq> 20" for P src dst proto
      proof (rule pass_sent [OF assms(1)])
        show "packet_ok ids NODE_IPV4_ACL (d_trim D m (u16_nat (mb_pkt_len m - (14 + tot))),
            ctx\<lparr>pc_l4_offset := pc_l3_offset ctx + of_nat ihl, pc_src_ip_be := src, pc_dst_ip_be := dst, pc_ip_protocol := proto\<rparr>)"
          using that ingress unfolding packet_ok.simps
          by (intro conjI trim_ip4 [OF dev pre(2) tot_def]) (auto simp: ihl_def pre(1))
      qed simp
      have "rd8 m 14 = Some (mb_data m ! 14)" "rd16 m (14 + 2) = Some (le16_of (take 2 (drop (14 + 2) (mb_data m))))"
        using True by (simp_all add: rd_eqs)
      moreover obtain a b src dst where "rd16 m (14 + 6) = Some a" "rd8 m (14 + 9) = Some b" "rd32 m (14 + 12) = Some src"
          "rd32 m (14 + 16) = Some dst" using True by (simp add: rd_eqs)
      moreover have "rd_bytes m 14 ihl = Some (take ihl (drop 14 (mb_data m)))"
        if "\<not> (P \<or> ihl < 20 \<or> tot < ihl \<or> data_len m < 14 + tot)" for P
        using that by (simp add: rd_eqs)
      ultimately show ?thesis
        unfolding ipv4_input_packet_def p prod.case Some option.case off Let_def
        by (simp only: Option.bind.bind_lunit ihl_def [symmetric] tot_def [symmetric] cong: if_cong)
          (intro ok_ifI d acl; (assumption | simp))
    next
      case False
      then show ?thesis unfolding ipv4_input_packet_def p prod.case Some option.case Let_def off by (intro ok_ifI d) simp_all
    qed
  qed
qed

subsection \<open>Access control\<close>

lemma ip4_okD:
  assumes "ip4_ok (m, ctx)"
  shows "l3 ctx = 14" "l4 ctx = 34" "mb_pkt_len m = data_len m" "ip_ihl m 14 = 20" "20 \<le> ip_total m 14"
    "14 + ip_total m 14 \<le> data_len m" "34 \<le> data_len m"
  using assms by (auto simp: ip4_ok_def)

lemma acl_key_of_ok:
  assumes "rt_wf ids rt" "packet_ok ids NODE_IPV4_ACL p"
  shows "acl_key_of rt p \<noteq> None"
proof -
  obtain m ctx where p: "p = (m, ctx)" by (cases p)
  note h = ip4_okD [of m ctx]
  obtain port where port: "dpdk_port rt (pc_ingress_port_id ctx) = Some port"
    using dpdk_port_ids [OF assms(1), of "pc_ingress_port_id ctx"] assms(2) by (auto simp: p)
  define tot where "tot = ip_total m 14"
  have ip: "ip4_ok (m, ctx)" using assms(2) by (simp add: p)
  have rd: "rd16 m (14 + 2) = Some (le16_of (take 2 (drop (14 + 2) (mb_data m))))" using h(7) [OF ip] by (simp add: rd_eqs)
  have lt: "tot < 2 ^ 16" unfolding tot_def by (rule order.strict_trans2 [OF unsigned_less]) simp
  have "14 + 24 \<le> data_len m" if "8 \<le> (of_nat tot - of_nat 20 :: u32) \<or> 20 \<le> (of_nat tot - of_nat 20 :: u32)"
  proof -
    have "unat (of_nat tot - of_nat 20 :: u32) = tot - 20"
      using h(5) [OF ip, folded tot_def] lt by (subst unat_sub) (simp_all add: word_le_nat_alt unat_of_nat)
    then have "8 \<le> tot - 20" using that by (auto simp: word_le_nat_alt)
    then show ?thesis using h(6) [OF ip, folded tot_def] by simp
  qed
  then show ?thesis
    unfolding acl_key_of_def p prod.case port h(1) [OF ip] rd Option.bind.bind_lunit Let_def tot_def [symmetric]
    by (auto simp: rd_bytes_def)
qed

lemma those_Some: "(\<forall>x\<in>set xs. f x \<noteq> None) \<Longrightarrow> \<exists>ys. those (map f xs) = Some ys"
  by (induction xs) auto

lemma acl_packet_sent:
  assumes "kept (running D ids net 6 held old) ids rt" "packet_ok ids NODE_IPV4_ACL p"
  shows "ok (acl_packet D (p, result) rt) (sent (running D ids net 6 held old) ids rt)"
proof -
  let ?S = "sent (running D ids net 6 held old) ids rt"
  obtain m ctx where p: "p = (m, ctx)" by (cases p)
  have ip: "ip4_ok (m, ctx)" and ingress: "pc_ingress_port_id ctx \<in> ids" using assms(2) by (simp_all add: p)
  have s: "?S (rt\<lparr>rt_acl_stats := st\<rparr>)" for st by (rule node.sent_other [OF kept_sent [OF assms(1)]]) simp_all
  obtain a b c d where rd: "rd16 m (14 + 2) = Some a" "rd32 m (14 + 12) = Some b" "rd32 m (14 + 16) = Some c" "rd8 m (14 + 9) = Some d"
    using ip4_okD(7) [OF ip] by (simp add: rd_eqs)
  obtain accepted rt1 where r: "(case rt_network rt of None \<Rightarrow> (True, rt)
       | Some c \<Rightarrow> (case net_acl_account c (rt_acl_stats rt) result (of_nat (be16 a)) of
               (a, s) \<Rightarrow> (a, rt\<lparr>rt_acl_stats := s\<rparr>))) = (accepted, rt1)" by fastforce
  then have s1: "?S rt1" using s kept_sent [OF assms(1)] by (auto split: option.splits prod.splits)
  have ip': "ip4_ok (m, ctx\<lparr>pc_transit := True\<rparr>)" using ip by (simp add: ip4_ok_def)
  show ?thesis
    unfolding acl_packet_def p prod.case ip4_okD(1) [OF ip] rd Option.bind.bind_lunit Let_def r
    by (intro ok_ifI drop_from [OF s1] pass_from [OF s1]) (simp_all add: ip ip' ingress)
qed

subsection \<open>Forwarding and ICMP echo\<close>

lemma ipv4_rewrite_cksum_ok:
  assumes "off + 20 \<le> data_len m" "ihl_of (mb_data m ! off) = 20"
  shows "ok (ipv4_rewrite_cksum D m off) (\<lambda>m'. data_len m' = data_len m)"
  using assms by (simp add: ipv4_rewrite_cksum_def wr_eqs rd_eqs nth_memcpy_at_before)

lemma timed_error_sent:
  assumes "kept (running D ids net 5 held old) ids rt"
  shows "ok (timed_error D submit m ctx ty code mtu rt) (sent (running D ids net 5 held old) ids rt)"
proof -
  obtain now d where t: "d_timer_cycles D (rt_dev rt) = (now, d)" by fastforce
  have s: "sent (running D ids net 5 held old) ids rt (rt\<lparr>rt_dev := d\<rparr>)" by (rule node.sent_stats [OF kept_sent [OF assms]])
  then have "ok (icmp_send_error D submit m ctx ty code mtu now (rt\<lparr>rt_dev := d\<rparr>)) (sent (running D ids net 5 held old) ids (rt\<lparr>rt_dev := d\<rparr>))"
    by (intro node.icmp_send_error_sent) (simp_all add: sent_def)
  then show ?thesis
    by (simp add: timed_error_def rte_get_timer_cycles_def t) (erule ok_mono, rule node.sent_trans [OF s])
qed

lemma forward_packet_sent:
  assumes "kept (running D ids net 5 held old) ids rt" "packet_ok ids NODE_IPV4_FORWARD p"
  shows "ok (forward_packet D submit p rt) (sent (running D ids net 5 held old) ids rt)"
proof -
  let ?S = "sent (running D ids net 5 held old) ids rt"
  obtain m ctx where p: "p = (m, ctx)" by (cases p)
  have ip: "ip4_ok (m, ctx)" and ingress: "pc_ingress_port_id ctx \<in> ids" using assms(2) by (simp_all add: p)
  note h = ip4_okD [OF ip] and wf = keptD(3) [OF assms(1)]
  obtain ttl dst src tot frag where rd: "rd8 m (14 + 8) = Some ttl" "rd32 m (14 + 16) = Some dst" "rd32 m (14 + 12) = Some src"
      "rd16 m (14 + 2) = Some tot" "rd16 m (14 + 6) = Some frag"
    using h(7) by (simp add: rd_eqs)
  obtain port where port: "dpdk_port rt (pc_ingress_port_id ctx) = Some port" using dpdk_port_ids [OF wf] ingress by blast
  obtain reason route where q: "route_query rt dst src (ucast (po_id port)) = Some (reason, route)" "routed rt (reason, route)"
    using route_query_ok [OF rt_wfD(2) [OF wf]] unfolding ok_iff by fast
  have err: "ok (do { rt \<leftarrow> (if b then timed_error D submit m ctx ty code mtu rt else Some rt);
      node_drop D NODE_IPV4_FORWARD m ctx r False rt }) ?S" for b ty code mtu r
    by (rule ok_bindI [where R = ?S]) (use timed_error_sent [OF assms(1)] kept_sent [OF assms(1)] in \<open>auto intro: drop_from\<close>)
  have out: "ok (do { m \<leftarrow> wr8 m (14 + 8) (ttl - 1); m \<leftarrow> ipv4_rewrite_cksum D m 14; egress \<leftarrow> netif_by_id rt (rr_netif_id route);
      pass D NODE_ETH_OUTPUT (f m) (g egress) rt }) ?S" if none: "reason = DROP_NONE" for f g
  proof -
    let ?m = "m\<lparr>mb_data := memcpy_at (mb_data m) 22 [ttl - 1]\<rparr>"
    have "ok (ipv4_rewrite_cksum D ?m 14) (\<lambda>m'. data_len m' = data_len ?m)"
      using h(4,7) by (intro ipv4_rewrite_cksum_ok) (simp_all add: nth_memcpy_at_before)
    moreover obtain egress where "netif_by_id rt (rr_netif_id route) = Some egress"
      using q(2) none by (auto simp: routed_def)
    ultimately show ?thesis
      using h(7) by (auto simp: wr_eqs ok_bind_iff intro!: enqueue_sent [OF assms(1)] elim!: ok_mono)
  qed
  show ?thesis
    unfolding forward_packet_def p prod.case h(1) rd port q(1) Option.bind.bind_lunit Let_def
    using err [of True] by (intro ok_ifI err out) simp_all
qed

lemma icmp_echo_ok:
  assumes "34 + len \<le> data_len m" "8 \<le> len" "ip_ihl m 14 = 20"
  shows "ok (icmp_echo D m 14 34 len) (\<lambda>m'. data_len m' = data_len m)"
proof -
  let ?w = "\<lambda>off bs m. m\<lparr>mb_data := memcpy_at (mb_data m) off bs\<rparr>"
  have k: "ok (ipv4_rewrite_cksum D (?w 22 e (?w 36 d (?w 36 c (?w 34 b (?w 30 a2 (?w 26 a1 m)))))) 14) (\<lambda>m'. data_len m' = data_len m)"
    if "length a1 = 4" "length a2 = 4" "length b = 1" "length c = 2" "length d = 2" "length e = 1" for a1 a2 b c d e :: "u8 list"
    using assms that by (intro ok_mono [OF ipv4_rewrite_cksum_ok]) (simp_all add: nth_memcpy_at_before)
  show ?thesis
    unfolding icmp_echo_def
    using assms k by (simp add: rd_eqs wr_eqs)
qed

lemma l4_length_le: "mb_pkt_len m = data_len m \<Longrightarrow> pc_l4_offset ctx = 34 \<Longrightarrow> 34 \<le> data_len m \<Longrightarrow> 34 + l4_length m ctx \<le> data_len m"
proof -
  assume a: "mb_pkt_len m = data_len m" "pc_l4_offset ctx = 34" "34 \<le> data_len m"
  have "of_nat (data_len m) - 34 = (of_nat (data_len m - 34) :: u16)" using a(3) by simp
  then have "l4_length m ctx = unat (of_nat (data_len m - 34) :: u16)" unfolding l4_length_def a(1,2) by (simp only:)
  also have "\<dots> \<le> data_len m - 34" unfolding unat_of_nat by (rule mod_less_eq_dividend)
  finally show ?thesis using a(3) by simp
qed

lemma ip4_ok_l4: "ip4_ok (m, ctx) \<Longrightarrow> 34 + l4_length m ctx \<le> data_len m"
  using l4_length_le [of m ctx] ip4_okD(7) [of m ctx] by (simp add: ip4_ok_def)

lemma icmp_input_packet_sent:
  assumes "kept (running D ids net 5 held old) ids rt" "packet_ok ids NODE_ICMP_INPUT p"
  shows "ok (icmp_input_packet D p rt) (sent (running D ids net 5 held old) ids rt)"
proof -
  let ?S = "sent (running D ids net 5 held old) ids rt"
  obtain m ctx where p: "p = (m, ctx)" by (cases p)
  have ip: "ip4_ok (m, ctx)" using assms(2) by (simp add: p)
  note h = ip4_okD [OF ip] and wf = keptD(3) [OF assms(1)] and d = node_drop_sent [OF assms(1)]
  show ?thesis
  proof (cases "l4_length m ctx < 8")
    case True
    then show ?thesis by (simp add: icmp_input_packet_def p Let_def d)
  next
    case False
    define len where "len = l4_length m ctx"
    have len: "8 \<le> len" "34 + len \<le> data_len m" using False ip4_ok_l4 [OF ip] by (simp_all add: len_def)
    obtain msg code ty src dst tot where rd: "rd_bytes m 34 len = Some msg" "rd8 m (34 + 1) = Some code" "rd8 m 34 = Some ty"
        "rd32 m (14 + 12) = Some src" "rd32 m (14 + 16) = Some dst" "rd16 m (14 + 2) = Some tot"
      using len by (simp add: rd_eqs)
    obtain reason route where q: "route_query rt src dst NET_IIF_NONE = Some (reason, route)" "routed rt (reason, route)"
      using route_query_ok [OF rt_wfD(2) [OF wf]] unfolding ok_iff by fast
    obtain m' where m': "icmp_echo D m 14 34 len = Some m'" "data_len m' = data_len m"
      using icmp_echo_ok [OF len(2,1) h(4)] by (auto simp: ok_iff)
    obtain src' where rd': "rd_bytes m' 6 6 = Some src'" "length src' = 6" using m'(2) h(7) by (simp add: rd_eqs)
    have tx: "ok (do { m \<leftarrow> wr_bytes m' 0 src'; m \<leftarrow> wr_bytes m 6 (po_mac egress); pass D NODE_TX m ctx' rt }) ?S"
      if "length (po_mac egress) = 6" for egress ctx'
      using that rd'(2) m'(2) h(7) by (auto simp: wr_bytes_Some intro!: enqueue_sent [OF assms(1)])
    show ?thesis
    proof (cases "reason = DROP_NONE")
      case True
      then obtain egress where e: "netif_by_id rt (rr_netif_id route) = Some egress" using q(2) by (auto simp: routed_def)
      then have "length (po_mac egress) = 6" using net_wfD(3) [OF rt_wfD(2) [OF wf]] netif_by_id_Some(1) [OF e] by blast
      then show ?thesis
        unfolding icmp_input_packet_def p prod.case h(1,2) Let_def len_def [symmetric] rd q(1) m'(1) rd'(1) e Option.bind.bind_lunit
        by (intro ok_ifI d tx pass_sent [OF assms(1)]) simp_all
    next
      case False
      then show ?thesis
        unfolding icmp_input_packet_def p prod.case h(1,2) Let_def len_def [symmetric] rd q(1) Option.bind.bind_lunit
        by (intro ok_ifI d) simp_all
    qed
  qed
qed

subsection \<open>UDP\<close>

lemma udp_enqueue_inv: "udp_inv ep \<Longrightarrow> udp_inv (snd (udp_enqueue ep source payload))"
  using udp_deliver_step [of ep source payload] by (auto split: prod.splits option.splits)

lemma udp_deliver_kept:
  assumes "kept (running D ids net w held old) ids rt" "udp_deliver rt ip port source payload = (r, rt')"
  shows "kept (running D ids net w held old) ids rt'"
proof -
  have e: "entry_wf i ((sock rt i)\<lparr>se_udp := snd (udp_enqueue (se_udp (sock rt i)) source payload)\<rparr>)" if "i < 256" for i
    using node.safe_entry [OF assms(1) that] by (simp add: entry_wf_def udp_enqueue_inv)
  then have "kept (running D ids net w held old) ids
      (set_sock i ((sock rt i)\<lparr>se_udp := snd (udp_enqueue (se_udp (sock rt i)) source payload)\<rparr>) rt)" for i
    by (rule node.safe_set_sock [OF assms(1)])
  then show ?thesis
    using assms by (auto simp: udp_deliver_def Let_def case_prod_beta split: option.splits if_splits)
qed

lemma udp_input_packet_kept:
  assumes "kept (running D ids net 5 held old) ids rt" "packet_ok ids NODE_UDP_INPUT p"
  shows "ok (udp_input_packet D submit p rt) (kept (running D ids net 5 held old) ids)"
proof -
  let ?K = "kept (running D ids net 5 held old) ids"
  obtain m ctx where p: "p = (m, ctx)" by (cases p)
  have ip: "ip4_ok (m, ctx)" using assms(2) by (simp add: p)
  note h = ip4_okD [OF ip]
  have drop: "ok (node_drop D NODE_UDP_INPUT m ctx reason error rt') ?K" if "?K rt'" for reason error rt'
    by (rule ok_mono [OF node_drop_sent [OF that]]) (auto intro: sent_kept)
  note d = drop [OF assms(1)]
  define avail where "avail = l4_length m ctx"
  show ?thesis
  proof (cases "avail < 8")
    case True
    then show ?thesis using d by (simp add: udp_input_packet_def p Let_def avail_def)
  next
    case False
    then have len: "34 + avail \<le> data_len m" "42 \<le> data_len m" using ip4_ok_l4 [OF ip] by (simp_all add: avail_def)
    obtain dlen hd' ck src dst sp dp where rd: "rd16 m (34 + 4) = Some dlen" "rd_bytes m 14 20 = Some hd'" "rd16 m (34 + 6) = Some ck"
        "rd32 m (14 + 12) = Some src" "rd32 m (14 + 16) = Some dst" "rd16 m 34 = Some sp" "rd16 m (34 + 2) = Some dp"
      using len by (simp add: rd_eqs)
    have deliver: "ok (case udp_deliver rt a b c e of
        (Some e, rt) \<Rightarrow> do {
          rt \<leftarrow> (if e = ENOENT then timed_error D submit m ctx 3 3 0 rt else Some rt);
          node_drop D NODE_UDP_INPUT m ctx (if e = ENOENT then DROP_UDP_UNBOUND_PORT
                   else if e = ENOBUFS then DROP_UDP_RX_QUEUE_FULL else DROP_MTU) False rt }
      | (None, rt) \<Rightarrow> Some (rte_pktmbuf_free D m rt)) ?K" for a b c e
    proof -
      obtain r rt' where u: "udp_deliver rt a b c e = (r, rt')" by fastforce
      note k = udp_deliver_kept [OF assms(1) u]
      have "ok (if x = ENOENT then timed_error D submit m ctx 3 3 0 rt' else Some rt') ?K" for x
        using k by (auto intro: sent_kept ok_mono [OF timed_error_sent [OF k]])
      note err = ok_bindI [OF this drop]
      show ?thesis
        using sent_kept [OF node.sent_stats(6) [OF kept_sent [OF k]]]
        unfolding u prod.case by (cases r) (simp_all only: option.case ok_Some err)
    qed
    have dgram: "rd_bytes m 34 (be16 dlen) = Some (take (be16 dlen) (drop 34 (mb_data m)))" if "\<not> (P \<or> avail < be16 dlen)" for P
      using that len by (simp add: rd_eqs)
    show ?thesis
      unfolding udp_input_packet_def p prod.case h(1,2) Let_def avail_def [symmetric] rd Option.bind.bind_lunit
      by (simp only: dgram Option.bind.bind_lunit cong: if_cong) (intro ok_ifI d deliver)
  qed
qed

lemma udp_output_packet_sent:
  assumes "kept (running D ids net 5 held old) ids rt" "packet_ok ids NODE_UDP_OUTPUT p"
  shows "ok (udp_output_packet D p rt) (sent (running D ids net 5 held old) ids rt)"
proof -
  obtain m ctx where p: "p = (m, ctx)" by (cases p)
  note d = node_drop_sent [OF assms(1)]
  show ?thesis
  proof (cases "d_prepend D m 8")
    case None
    then show ?thesis by (simp add: udp_output_packet_def p Let_def d)
  next
    case (Some m')
    then have "data_len m' = mb_pkt_len m + 8"
      using prepend_data [OF keptD(2) [OF assms(1)] Some] assms(2) by (simp add: p)
    then show ?thesis
      unfolding udp_output_packet_def p prod.case Let_def Some option.case
      by (intro ok_ifI d)
        (simp_all add: udp_header_def wr_bytes_Some wr_eqs rd_eqs enqueue_sent [OF assms(1)])
  qed
qed

subsection \<open>TCP input\<close>

lemma tcp_options_ok: "off + header_len \<le> data_len m \<Longrightarrow> tcp_options m off header_len flags offset mss \<noteq> None"
proof (induction m off header_len flags offset mss rule: tcp_options.induct)
  case (1 m off header_len flags offset mss)
  show ?case
  proof (cases "offset < header_len")
    case True
    then obtain kind where kind: "rd8 m (off + offset) = Some kind" using "1.prems" by (simp add: rd_eqs)
    show ?thesis
    proof (cases "kind = 0 \<or> kind = 1 \<or> header_len - offset < 2")
      case True
      then show ?thesis
        using 1 \<open>offset < header_len\<close> kind by (subst tcp_options.simps) auto
    next
      case False
      then have "off + offset + 1 < data_len m" using \<open>offset < header_len\<close> "1.prems" by linarith
      then obtain size' where size': "rd8 m (off + offset + 1) = Some size'" by (simp add: rd8_eq)
      show ?thesis
      proof (cases "size' < 2 \<or> unat size' > header_len - offset \<or> kind = 2 \<and> size' \<noteq> 4")
        case True
        then show ?thesis using \<open>offset < header_len\<close> False kind size' by (subst tcp_options.simps) auto
      next
        case fits: False
        have "off + offset + 4 \<le> data_len m" if "kind = 2"
          using that fits "1.prems" True by auto
        then obtain v where v: "(if kind = 2 \<and> has_flag flags RTE_TCP_SYN_FLAG then do {
                hi \<leftarrow> rd8 m (off + offset + 2);
                lo \<leftarrow> rd8 m (off + offset + 3);
                Some (push_bit 8 (ucast hi) OR ucast lo)
              } else Some 0) = (Some v :: u16 option)"
          by (cases "kind = 2 \<and> has_flag flags RTE_TCP_SYN_FLAG") (auto simp: rd_eqs)
        have "tcp_options m off header_len flags (offset + unat size') (if v \<noteq> 0 then v else mss) \<noteq> None"
          using "1.IH"(2) [OF True kind _ _ _ size' _ v] False fits "1.prems" by blast
        then show ?thesis
          using True False fits by (subst tcp_options.simps) (simp only: kind size' v Option.bind.bind_lunit if_True if_False, simp)
      qed
    qed
  next
    case False
    then show ?thesis by (subst tcp_options.simps) simp
  qed
qed

lemma tcp_input_packet_kept:
  assumes "kept (running D ids net 5 held old) ids rt" "packet_ok ids NODE_TCP_INPUT p"
  shows "ok (tcp_input_packet D submit p rt) (kept (running D ids net 5 held old) ids)"
proof -
  let ?K = "kept (running D ids net 5 held old) ids"
  obtain m ctx where p: "p = (m, ctx)" by (cases p)
  have ip: "ip4_ok (m, ctx)" using assms(2) by (simp add: p)
  note h = ip4_okD [OF ip]
  have drop: "ok (node_drop D NODE_TCP_INPUT m ctx reason error rt') ?K" if "?K rt'" for reason error rt'
    by (rule ok_mono [OF node_drop_sent [OF that]]) (auto intro: sent_kept)
  note d = drop [OF assms(1)]
  define len where "len = l4_length m ctx"
  show ?thesis
  proof (cases "len < 20")
    case True
    then show ?thesis using d by (simp add: tcp_input_packet_def p Let_def len_def)
  next
    case False
    then have len: "34 + len \<le> data_len m" "54 \<le> data_len m" using ip4_ok_l4 [OF ip] by (simp_all add: len_def)
    obtain doff flags header segment where rd: "rd8 m (34 + 12) = Some doff" "rd8 m (34 + 13) = Some flags"
        "rd8 m 14 = Some (mb_data m ! 14)" "rd16 m (14 + 2) = Some (le16_of (take 2 (drop (14 + 2) (mb_data m))))"
        "rd_bytes m 14 20 = Some header" "rd_bytes m 34 (ip_total m 14 - 20) = Some segment"
      using len h(5,6) by (simp add: rd_eqs)
    define hl where "hl = unat (drop_bit 4 doff) * 4"
    have input: "ok (case rte_get_timer_cycles D rt of (now, rt) \<Rightarrow> do {
        (reason, rt) \<leftarrow> tcp_input D submit ctx m 34 hl (of_nat (len - hl)) mss now rt;
        if reason \<noteq> DROP_NONE then node_drop D NODE_TCP_INPUT m ctx reason (reason = DROP_TCP_INVALID_STATE) rt
        else Some (rte_pktmbuf_free D m rt) }) ?K" if "hl \<le> len" for mss
    proof -
      have "unat (of_nat (len - hl) :: u16) \<le> len - hl" unfolding unat_of_nat by (rule mod_less_eq_dividend)
      then have "34 + hl + unat (of_nat (len - hl) :: u16) \<le> data_len m" using that len(1) by simp
      then have "ok (tcp_input D submit ctx m 34 hl (of_nat (len - hl)) mss now rt') (\<lambda>r. ?K (snd r))" if "?K rt'" for now rt'
        using len(2) by (intro node.tcp_input_safe that) simp_all
      from this [OF node.safe_clock [OF assms(1)]] show ?thesis
        unfolding case_prod_beta
        by (rule ok_bindI) (auto intro: drop sent_kept node.sent_stats(6) kept_sent)
    qed
    obtain opts where "tcp_options m 34 hl flags 20 536 = Some opts" if "hl \<le> len"
      using tcp_options_ok [of 34 hl m flags 20 536] len(1) by (cases "hl \<le> len") auto
    then show ?thesis
      unfolding tcp_input_packet_def p prod.case h(1,2,4) Let_def len_def [symmetric] rd hl_def [symmetric] Option.bind.bind_lunit
      using input d by (cases opts) (auto intro!: ok_ifI)
  qed
qed

subsection \<open>Output\<close>

lemma ipv4_route_packet_sent:
  assumes "kept (running D ids net 6 held old) ids rt" "packet_ok ids NODE_IPV4_ROUTE p"
  shows "ok (ipv4_route_packet D p rt) (sent (running D ids net 6 held old) ids rt)"
proof -
  obtain m ctx where p: "p = (m, ctx)" by (cases p)
  obtain reason route where q: "route_query rt (pc_dst_ip_be ctx) (pc_src_ip_be ctx) NET_IIF_NONE = Some (reason, route)"
      "routed rt (reason, route)"
    using route_query_ok [OF rt_wfD(2) [OF keptD(3) [OF assms(1)]]] unfolding ok_iff by fast
  then show ?thesis
    using assms(2) node_drop_sent [OF assms(1)]
    by (auto simp: ipv4_route_packet_def p q(1) routed_def intro!: enqueue_sent [OF assms(1)])
qed

lemma ipv4_output_packet_sent:
  assumes "kept (running D ids net 4 held old) ids rt"
  shows "ok (ipv4_output_packet D p rt) (sent (running D ids net 4 held old) ids rt)"
proof -
  let ?S = "sent (running D ids net 4 held old) ids rt"
  obtain m ctx where p: "p = (m, ctx)" by (cases p)
  note d = node_drop_sent [OF assms]
  have s: "?S (rt\<lparr>rt_next_ip_id := k\<rparr>)" for k by (rule node.sent_other [OF kept_sent [OF assms]]) simp_all
  show ?thesis
  proof (cases "egress_port rt ctx")
    case None
    then show ?thesis by (simp add: ipv4_output_packet_def p d)
  next
    case (Some port)
    show ?thesis
    proof (cases "d_prepend D m 20")
      case None
      then show ?thesis
        unfolding ipv4_output_packet_def p prod.case Some option.case Let_def by (intro ok_ifI) (simp_all add: d)
    next
      case (Some m')
      then have "20 \<le> data_len m'" using prepend_data [OF keptD(2) [OF assms]] by simp
      then show ?thesis
        unfolding ipv4_output_packet_def p prod.case \<open>egress_port rt ctx = Some port\<close> Some option.case Let_def
        by (intro ok_ifI d) (simp_all add: wr_bytes_Some enqueue_from [OF s])
    qed
  qed
qed

lemma egress_port_mac: "rt_wf ids rt \<Longrightarrow> egress_port rt ctx = Some port \<Longrightarrow> length (po_mac port) = 6"
  by (auto simp: egress_port_def intro: dpdk_port_mac split: option.splits if_splits)

lemma eth_output_packet_sent:
  assumes "kept (running D ids net 3 held old) ids rt"
  shows "ok (eth_output_packet D submit p rt) (sent (running D ids net 3 held old) ids rt)"
proof -
  let ?S = "sent (running D ids net 3 held old) ids rt"
  obtain m ctx where p: "p = (m, ctx)" by (cases p)
  note d = node_drop_sent [OF assms] and wf = keptD(3) [OF assms]
  have queue: "ok (case rte_get_timer_cycles D rt of (now, rt) \<Rightarrow> do {
      (reason, rt) \<leftarrow> neighbour_queue D submit nif m ctx now rt;
      if reason \<noteq> DROP_NONE then node_drop D NODE_ETH_OUTPUT m ctx reason False rt else Some rt }) ?S" for nif
  proof -
    obtain now dev where t: "d_timer_cycles D (rt_dev rt) = (now, dev)" by fastforce
    have s: "?S (rt\<lparr>rt_dev := dev\<rparr>)" by (rule node.sent_stats [OF kept_sent [OF assms]])
    have "ok (neighbour_queue D submit nif m ctx now (rt\<lparr>rt_dev := dev\<rparr>)) (\<lambda>r. ?S (snd r))"
      by (rule ok_mono [OF node.neighbour_queue_sent]) (use s in \<open>auto simp: sent_def\<close>)
    then show ?thesis
      by (simp add: rte_get_timer_cycles_def t) (erule ok_bindI, auto simp: case_prod_beta intro: drop_from)
  qed
  show ?thesis
  proof (cases "egress_port rt ctx")
    case None
    then show ?thesis by (simp add: eth_output_packet_def p d)
  next
    case (Some port)
    note mac = egress_port_mac [OF wf Some]
    have out: "ok (case d_prepend D m 14 of None \<Rightarrow> node_drop D NODE_ETH_OUTPUT m ctx DROP_NO_HEADROOM True rt
              | Some m \<Rightarrow> do {
                  m \<leftarrow> wr_bytes m 6 (po_mac port);
                  m \<leftarrow> wr_bytes m 0 destination;
                  m \<leftarrow> wr16 m 12 (rte_cpu_to_be_16 RTE_ETHER_TYPE_IPV4);
                  pass D NODE_TX m ctx' rt }) ?S"
      if l: "neighbour_lookup (rt_neighbours rt) nif ip = Some destination" for nif ip destination ctx'
    proof (cases "d_prepend D m 14")
      case None
      then show ?thesis by (simp add: d)
    next
      case (Some m')
      then have "14 \<le> data_len m'" using prepend_data [OF keptD(2) [OF assms]] by simp
      then show ?thesis
        using Some mac neighbour_lookup_mac [OF rt_wfD(4) [OF wf] l] by (simp add: wr_bytes_Some wr_eqs enqueue_sent [OF assms])
    qed
    show ?thesis
    proof (cases "neighbour_lookup (rt_neighbours rt) (po_id port) (pc_next_hop_ip_be ctx)")
      case None
      then show ?thesis
        unfolding eth_output_packet_def p prod.case Some option.case Let_def by (intro ok_ifI d) (simp_all add: queue)
    next
      case (Some dst)
      from out [OF Some] show ?thesis
        unfolding eth_output_packet_def p prod.case \<open>egress_port rt ctx = Some port\<close> Some option.case Let_def
        by (intro ok_ifI d) simp_all
    qed
  qed
qed

lemma arp_output_packet_sent:
  assumes "kept (running D ids net 2 held old) ids rt"
  shows "ok (arp_output_packet D p rt) (sent (running D ids net 2 held old) ids rt)"
proof -
  obtain m ctx where p: "p = (m, ctx)" by (cases p)
  note d = node_drop_sent [OF assms]
  show ?thesis
  proof (cases "egress_port rt ctx")
    case None
    then show ?thesis by (simp add: arp_output_packet_def p d)
  next
    case (Some port)
    then have len: "length (arp_packet rt port ip) = 42" for ip
      using egress_port_mac [OF keptD(3) [OF assms] Some] by (simp add: arp_packet_def)
    show ?thesis
    proof (cases "d_append D m (14 + 28)")
      case None
      then show ?thesis by (simp add: arp_output_packet_def p Some d)
    next
      case (Some m')
      then have "data_len m' = data_len m + 42" using node.append_data [OF _ Some] assms by (auto simp: kept_def)
      then show ?thesis
        using Some \<open>egress_port rt ctx = Some port\<close> by (simp add: arp_output_packet_def p wr_bytes_Some len enqueue_sent [OF assms])
    qed
  qed
qed

text \<open>The counters of a port are not part of what is well formed.\<close>

lemma rt_wf_upd_port:
  assumes "rt_wf ids rt" and "\<And>q. po_configured (f q) = po_configured q \<and> po_id (f q) = po_id q \<and> po_mac (f q) = po_mac q \<and>
      po_port_id (f q) = po_port_id q"
  shows "rt_wf ids (upd_port p f rt)"
proof (cases "p < length (rt_ports rt)")
  case True
  let ?ps = "rt_ports rt" and ?ps' = "(rt_ports rt)[p := f (rt_ports rt ! p)]"
  have same: "po_configured (?ps' ! i) = po_configured (?ps ! i)" "po_id (?ps' ! i) = po_id (?ps ! i)"
      "po_mac (?ps' ! i) = po_mac (?ps ! i)" "po_port_id (?ps' ! i) = po_port_id (?ps ! i)" if "i < length ?ps" for i
    using that assms(2) by (cases "i = p"; simp)+
  have "net_wf ?ps' (rt_network rt)" using rt_wfD(2) [OF assms(1)] by (simp add: net_wf_def same)
  moreover have "ports_wf ids ?ps'"
  proof -
    have "(\<exists>i<length ?ps. po_configured (?ps' ! i) \<and> po_port_id (?ps' ! i) = k) =
        (\<exists>i<length ?ps. po_configured (?ps ! i) \<and> po_port_id (?ps ! i) = k)" for k
      using same by metis
    then have "po_port_id ` {q \<in> set ?ps'. po_configured q} = po_port_id ` {q \<in> set ?ps. po_configured q}"
      unfolding set_eq_iff image_iff by (simp add: Bex_def conj_assoc in_set_conv_nth) metis
    then show ?thesis using rt_wfD(3) [OF assms(1)] by (simp add: ports_wf_def)
  qed
  ultimately show ?thesis using assms(1) by (simp add: rt_wf_def upd_port_def)
next
  case False
  then have "upd_port p f rt = rt" by (cases rt) (simp add: upd_port_def list_update_beyond)
  then show ?thesis using assms(1) by simp
qed

lemma sent_upd_port:
  assumes "sent (running D ids net w held old) ids rt rt'"
    and "\<And>q. po_configured (f q) = po_configured q \<and> po_id (f q) = po_id q \<and> po_mac (f q) = po_mac q \<and> po_port_id (f q) = po_port_id q"
  shows "sent (running D ids net w held old) ids rt (upd_port p f rt')"
proof -
  have "running D ids net w held old (upd_port p f rt')"
    by (rule node.C_cong [of D ids net w held old rt']) (use assms(1) in \<open>simp_all add: sent_def upd_port_def\<close>)
  moreover have "rt_wf ids (upd_port p f rt')" using assms by (intro rt_wf_upd_port) (simp_all add: sent_def)
  ultimately show ?thesis using assms(1) by (simp add: sent_def upd_port_def)
qed

lemma tx_collect_sent:
  assumes "sent (running D ids net 1 held old) ids rt rt'"
  shows "ok (tx_collect D p (ready, rt')) (\<lambda>r. sent (running D ids net 1 held old) ids rt (snd r))"
proof -
  obtain m ctx where p: "p = (m, ctx)" by (cases p)
  have d: "ok (node_drop D NODE_TX m ctx reason error rt'') (sent (running D ids net 1 held old) ids rt)"
    if "sent (running D ids net 1 held old) ids rt rt''" for reason error rt''
    by (rule drop_from [OF that]) simp
  show ?thesis
  proof (cases "egress_port rt' ctx")
    case None
    then show ?thesis using d [OF assms] by (simp add: tx_collect_def p)
  next
    case (Some port)
    then obtain i where "netif_by_dpdk_port rt' (pc_egress_port_id ctx) = Some i"
      by (auto simp: egress_port_def dpdk_port_def split: option.splits)
    moreover have "data_len m' = data_len m + n" if "d_append D m n = Some m'" for m' n
      using node.append_data [OF _ that] assms unfolding sent_def by blast
    ultimately show ?thesis
      using Some assms by (auto simp: tx_collect_def p Let_def wr_bytes_Some simp del: One_nat_def intro!: d sent_upd_port split: option.split)
  qed
qed

lemma tx_port_sent:
  assumes "sent (running D ids net 1 held old) ids rt rt'"
  shows "ok (tx_port D ready p rt') (sent (running D ids net 1 held old) ids rt)"
proof -
  let ?S = "sent (running D ids net 1 held old) ids rt"
  have drops: "ok (for_each (\<lambda>(m, ctx) rt. node_drop D NODE_TX m ctx DROP_TX_FAILED True rt) ps rt'') ?S" if "?S rt''" for ps rt''
  proof (rule for_each_ok [where I = ?S])
    fix q :: "rte_mbuf \<times> packet_ctx" and rt'' assume "?S rt''"
    then show "ok ((\<lambda>(m, ctx) rt. node_drop D NODE_TX m ctx DROP_TX_FAILED True rt) q rt'') ?S"
      by (cases q) (simp add: drop_from)
  qed (rule that)
  have "?S (rt'\<lparr>rt_dev := d, rt_accepted_sends := a, rt_tx_packets := b\<rparr>)" for d a b
    by (rule node.sent_other [OF assms]) simp_all
  then have up: "?S (upd_port p (\<lambda>q. q\<lparr>po_tx_bytes := x q, po_tx_packets := y q, po_tx_drops := z q\<rparr>)
      (rt'\<lparr>rt_dev := d, rt_accepted_sends := a, rt_tx_packets := b\<rparr>))" for d a b x y z
    by (rule sent_upd_port) simp
  obtain k d where t: "d_tx_burst D (po_port_id (rt_ports rt' ! p))
      (map fst (filter (\<lambda>(m, ctx). pc_egress_port_id ctx = po_port_id (rt_ports rt' ! p)) ready)) (rt_dev rt') = (k, d)" by fastforce
  show ?thesis
    unfolding tx_port_def Let_def t prod.case by (intro ok_ifI drops up) (simp add: assms del: One_nat_def)
qed

subsection \<open>The node table\<close>

lemma for_each_sent:
  assumes "kept C ids rt" and "\<And>p rt. p \<in> set frame \<Longrightarrow> kept C ids rt \<Longrightarrow> ok (f p rt) (sent C ids rt)"
  shows "ok (for_each f frame rt) (sent C ids rt)"
proof (rule for_each_ok [where I = "sent C ids rt"])
  show "sent C ids rt rt" by (rule kept_sent [OF assms(1)])
  show "ok (f p rt') (sent C ids rt)" if "p \<in> set frame" "sent C ids rt rt'" for p rt'
    by (rule ok_mono [OF assms(2) [OF that(1) sent_kept [OF that(2)]]]) (use that(2) in \<open>simp add: sent_def\<close>)
qed

text \<open>The nodes on the way out never touch a socket.\<close>

lemma node_run_sent:
  assumes "kept (running D ids net (rank n) held old) ids rt" and "rank n \<le> 4"
  shows "ok (node_run D n frame rt) (sent (running D ids net (rank n) held old) ids rt)"
proof (cases n)
  case NODE_DROP
  have "sent (running D ids net 0 held old) ids rt
      (fold (\<lambda>(m, ctx) rt. rte_pktmbuf_free D m (add_reason (pc_drop_reason ctx) 1 rt)) frame rt')"
    if "sent (running D ids net 0 held old) ids rt rt'" for rt'
    using that by (induction frame arbitrary: rt') (auto simp: node.sent_stats)
  then show ?thesis
    using assms(1) NODE_DROP by (simp add: node_run_def drop_node_run_def node.sent_stats kept_sent)
next
  case NODE_TX
  have "ok (for_each (tx_collect D) frame ([], rt)) (\<lambda>r. sent (running D ids net 1 held old) ids rt (snd r))"
    using assms(1) NODE_TX by (intro for_each_ok [where I = "\<lambda>r. sent (running D ids net 1 held old) ids rt (snd r)"])
      (auto simp: kept_sent tx_collect_sent simp del: One_nat_def)
  then show ?thesis
    using NODE_TX unfolding node_run_def
    by (auto simp: tx_node_run_def case_prod_beta simp del: One_nat_def
        intro!: ok_bindI for_each_ok [where I = "sent (running D ids net 1 held old) ids rt"] tx_port_sent)
qed (use assms in \<open>auto simp: node_run_def arp_output_node_run_def eth_output_node_run_def ipv4_output_node_run_def
      intro!: for_each_sent arp_output_packet_sent eth_output_packet_sent ipv4_output_packet_sent\<close>)

lemma ipv4_acl_node_run_sent:
  assumes "kept (running D ids net 6 held old) ids rt" "\<forall>p\<in>set frame. packet_ok ids NODE_IPV4_ACL p"
  shows "ok (ipv4_acl_node_run D frame rt) (sent (running D ids net 6 held old) ids rt)"
proof -
  have each: "ok (for_each (acl_packet D) ps rt) (sent (running D ids net 6 held old) ids rt)" if "fst ` set ps \<subseteq> set frame" for ps
  proof (rule for_each_sent [OF assms(1)])
    fix q :: "(rte_mbuf \<times> packet_ctx) \<times> int" and rt'
    assume "q \<in> set ps" "kept (running D ids net 6 held old) ids rt'"
    then show "ok (acl_packet D q rt') (sent (running D ids net 6 held old) ids rt')"
      using acl_packet_sent [of D ids net held old rt' "fst q" "snd q"] assms(2) that by auto
  qed
  obtain keys where "those (map (acl_key_of rt) frame) = Some keys"
    using those_Some [of frame "acl_key_of rt"] acl_key_of_ok [OF keptD(3) [OF assms(1)]] assms(2) by blast
  moreover have "fst ` set (zip frame ys) \<subseteq> set frame" for ys :: "int list" by (auto dest: set_zip_leftD)
  ultimately show ?thesis
    using each by (auto simp: ipv4_acl_node_run_def image_image split: option.split)
qed

lemma node_run_kept:
  assumes "kept (running D ids net (rank n) held old) ids rt" and "\<forall>p\<in>set frame. packet_ok ids n p"
  shows "ok (node_run D n frame rt) (kept (running D ids net (rank n) held old) ids)"
proof (cases "rank n \<le> 4")
  case True
  show ?thesis by (rule ok_mono [OF node_run_sent [OF assms(1) True]]) (rule sent_kept)
next
  case False
  let ?K = "kept (running D ids net (rank n) held old) ids"
  have each: "ok (for_each f frame rt) ?K"
    if "\<And>p rt. packet_ok ids n p \<Longrightarrow> ?K rt \<Longrightarrow> ok (f p rt) ?K" for f
    by (rule for_each_ok [where I = ?K, OF assms(1)]) (use assms(2) that in blast)
  have each': "ok (for_each f frame rt) ?K"
    if "\<And>p rt. packet_ok ids n p \<Longrightarrow> ?K rt \<Longrightarrow> ok (f p rt) (sent (running D ids net (rank n) held old) ids rt)" for f
    by (rule each) (rule ok_mono [OF that], auto intro: sent_kept)
  show ?thesis
  proof (cases n)
    case NODE_IPV4_ACL
    show ?thesis
      using ok_mono [OF ipv4_acl_node_run_sent [of D ids net held old rt frame], of ?K] assms NODE_IPV4_ACL sent_kept
      by (simp add: node_run_def) blast
  qed (use False each each' in \<open>auto simp: node_run_def eth_input_node_run_def arp_input_node_run_def ipv4_input_node_run_def
      ipv4_forward_node_run_def icmp_input_node_run_def udp_input_node_run_def tcp_input_node_run_def
      ipv4_route_node_run_def udp_output_node_run_def eth_input_packet_sent arp_input_packet_sent ipv4_input_packet_sent
      forward_packet_sent icmp_input_packet_sent udp_input_packet_kept tcp_input_packet_kept ipv4_route_packet_sent udp_output_packet_sent\<close>)
qed

end
