(* ===== verification/Ipc.thy ===== *)
theory Ipc
  imports Net_Prefix Runtime
begin

text \<open>
  The wire formats: the IPC header and the datagram batches of \<^verbatim>\<open>src/ipc.c\<close>.

  The signed 32-bit fields of a message are 32-bit words, read with \<open>sint\<close>; the payload array is a
  list of 8192 bytes.  A header is 64 bytes: sixteen big-endian words, except the IPv4 address,
  whose four bytes are copied in network order.
\<close>

type_synonym i32 = "32 word"

abbreviation (input) IPC_MAGIC :: u32 where "IPC_MAGIC \<equiv> 0x50534e53"
abbreviation (input) IPC_VERSION :: u32 where "IPC_VERSION \<equiv> 1"
abbreviation (input) IPC_HEADER_SIZE :: nat where "IPC_HEADER_SIZE \<equiv> 64"
abbreviation (input) IPC_PAYLOAD_MAX :: nat where "IPC_PAYLOAD_MAX \<equiv> 8192"
abbreviation (input) IPC_DGRAM_HEADER :: nat where "IPC_DGRAM_HEADER \<equiv> 12"
abbreviation (input) PS_DGRAM_BATCH_MAX :: nat where "PS_DGRAM_BATCH_MAX \<equiv> 16"
abbreviation (input) IPC_FEATURE_DGRAM_BATCH :: u32 where "IPC_FEATURE_DGRAM_BATCH \<equiv> 1"

abbreviation (input) IPC_HELLO :: u32 where "IPC_HELLO \<equiv> 1"
abbreviation (input) IPC_SOCKET :: u32 where "IPC_SOCKET \<equiv> 2"
abbreviation (input) IPC_BIND :: u32 where "IPC_BIND \<equiv> 3"
abbreviation (input) IPC_CONNECT :: u32 where "IPC_CONNECT \<equiv> 4"
abbreviation (input) IPC_LISTEN :: u32 where "IPC_LISTEN \<equiv> 5"
abbreviation (input) IPC_ACCEPT :: u32 where "IPC_ACCEPT \<equiv> 6"
abbreviation (input) IPC_SEND :: u32 where "IPC_SEND \<equiv> 7"
abbreviation (input) IPC_RECV :: u32 where "IPC_RECV \<equiv> 8"
abbreviation (input) IPC_SENDTO :: u32 where "IPC_SENDTO \<equiv> 9"
abbreviation (input) IPC_RECVFROM :: u32 where "IPC_RECVFROM \<equiv> 10"
abbreviation (input) IPC_CLOSE :: u32 where "IPC_CLOSE \<equiv> 11"
abbreviation (input) IPC_SENDMMSG :: u32 where "IPC_SENDMMSG \<equiv> 12"
abbreviation (input) IPC_RECVMMSG :: u32 where "IPC_RECVMMSG \<equiv> 13"
abbreviation (input) IPC_CLEANUP :: u32 where "IPC_CLEANUP \<equiv> 65535"

record ipc_message =
  im_op :: u32
  im_id :: u32
  im_length :: u32
  im_fd :: i32
  im_a :: i32
  im_b :: i32
  im_c :: i32
  im_result :: i32
  im_addr :: ps_sockaddr
  im_data :: "u8 list"

definition zero_message :: ipc_message where
  "zero_message = \<lparr>im_op = 0, im_id = 0, im_length = 0, im_fd = 0, im_a = 0, im_b = 0, im_c = 0,
     im_result = 0, im_addr = zero_sockaddr, im_data = replicate IPC_PAYLOAD_MAX 0\<rparr>"

subsection \<open>Words in a byte string\<close>

text \<open>A 32-bit load from a byte string, and one in network order.\<close>

definition load32 :: "u8 list \<Rightarrow> nat \<Rightarrow> u32" where
  "load32 bs off = le32_of (take 4 (drop off bs))"

definition be_words :: "u32 list \<Rightarrow> u8 list" where
  "be_words ws = concat (map (\<lambda>w. le32_bytes (htonl w)) ws)"

definition be_word :: "u8 list \<Rightarrow> nat \<Rightarrow> u32" where
  "be_word bs i = ntohl (load32 bs (4 * i))"

lemma length_be_words [simp]: "length (be_words ws) = 4 * length ws"
  by (induction ws) (simp_all add: be_words_def)

lemma drop_be_words: "drop (4 * i) (be_words ws) = be_words (drop i ws)"
proof (induction i arbitrary: ws)
  case (Suc i)
  show ?case
  proof (cases ws)
    case Nil
    then show ?thesis by (simp add: be_words_def)
  next
    case (Cons w ws')
    have "drop (4 * Suc i) (be_words ws) = drop (4 * i) (drop 4 (be_words ws))" by (simp add: add.commute)
    also have "drop 4 (be_words ws) = be_words ws'" using Cons by (simp add: be_words_def)
    finally show ?thesis using Suc Cons by simp
  qed
qed simp

lemma be_word_be_words [simp]: "i < length ws \<Longrightarrow> be_word (be_words ws) i = ws ! i"
proof -
  assume i: "i < length ws"
  have "drop i ws = ws ! i # drop (Suc i) ws" using i by (rule Cons_nth_drop_Suc [symmetric])
  then have "take 4 (be_words (drop i ws)) = le32_bytes (htonl (ws ! i))" by (simp add: be_words_def)
  then show ?thesis by (simp add: be_word_def load32_def drop_be_words)
qed

text \<open>A byte string of whole words is determined by its words.\<close>

lemma be_words_be_word:
  "length bs = 4 * n \<Longrightarrow> be_words (map (be_word bs) [0..<n]) = bs"
proof (induction n arbitrary: bs)
  case 0
  then show ?case by (simp add: be_words_def)
next
  case (Suc n)
  let ?bs = "drop 4 bs"
  have shift: "be_word bs (Suc i) = be_word ?bs i" for i
    by (simp add: be_word_def load32_def add.commute)
  have "map (be_word bs) [0..<Suc n] = be_word bs 0 # map (be_word ?bs) [0..<n]"
    by (simp only: upt_conv_Cons [OF zero_less_Suc] list.map map_Suc_upt [symmetric] map_map o_def shift)
  then have "be_words (map (be_word bs) [0..<Suc n]) =
      le32_bytes (htonl (be_word bs 0)) @ be_words (map (be_word ?bs) [0..<n])"
    by (simp add: be_words_def)
  also have "le32_bytes (htonl (be_word bs 0)) = take 4 bs"
    using Suc.prems by (simp add: be_word_def load32_def le32_bytes_of)
  also have "be_words (map (be_word ?bs) [0..<n]) = ?bs" using Suc.prems by (intro Suc.IH) simp
  finally show ?case by simp
qed

subsection \<open>The header\<close>

definition ipc_words :: "ipc_message \<Rightarrow> u32 list" where
  "ipc_words m = [IPC_MAGIC, IPC_VERSION, im_op m, im_id m, im_length m, im_fd m, im_a m, im_b m, im_c m, 0,
     ucast (sa_port (im_addr m)), im_result m, 0, 0, 0, 0]"

definition ipc_encode :: "ipc_message \<Rightarrow> u8 list" where
  "ipc_encode m = memcpy_at (be_words (ipc_words m)) 36 (le32_bytes (sa_ip_be (im_addr m)))"

definition ipc_decode :: "u8 list \<Rightarrow> errno + ipc_message" where
  "ipc_decode header =
     (let w = be_word header in
      if w 0 \<noteq> IPC_MAGIC \<or> w 1 \<noteq> IPC_VERSION \<or> unat (w 4) > IPC_PAYLOAD_MAX \<or>
         unat (w 10) > UINT16_MAX \<or> w 12 \<noteq> 0 \<or> w 13 \<noteq> 0 \<or> w 14 \<noteq> 0 \<or> w 15 \<noteq> 0 \<or> w 3 = 0
      then Inl EPROTO
      else Inr (zero_message\<lparr>im_op := w 2, im_id := w 3, im_length := w 4, im_fd := w 5, im_a := w 6,
             im_b := w 7, im_c := w 8, im_addr := \<lparr>sa_ip_be = load32 header 36, sa_port = ucast (w 10)\<rparr>,
             im_result := w 11\<rparr>))"

definition ipc_request_valid :: "ipc_message \<Rightarrow> bool" where
  "ipc_request_valid m =
     (if im_op m < IPC_HELLO \<or> im_op m > IPC_RECVMMSG \<or> im_result m \<noteq> 0 \<or> unat (im_length m) > IPC_PAYLOAD_MAX
      then False
      else if im_op m \<noteq> IPC_SEND \<and> im_op m \<noteq> IPC_SENDTO \<and> im_op m \<noteq> IPC_SENDMMSG \<and> im_op m \<noteq> IPC_RECVMMSG \<and>
              im_length m \<noteq> 0 then False
      else if (im_op m = IPC_RECV \<or> im_op m = IPC_RECVFROM) \<and>
              (sint (im_a m) < 0 \<or> sint (im_a m) > int IPC_PAYLOAD_MAX) then False
      else if im_op m = IPC_SENDMMSG \<or> im_op m = IPC_RECVMMSG then
        (if sint (im_a m) < 1 \<or> sint (im_a m) > int PS_DGRAM_BATCH_MAX then False
         else if im_op m = IPC_RECVMMSG \<and> im_length m \<noteq> im_a m * 4 then False
         else if im_op m = IPC_SENDMMSG \<and> im_length m < im_a m * of_nat IPC_DGRAM_HEADER then False
         else True)
      else True)"

lemma length_ipc_words [simp]: "length (ipc_words m) = 16"
  by (simp add: ipc_words_def)

text \<open>
  The address is the tenth word with its bytes in memory order, so a header is the encoding of
  sixteen words.
\<close>

definition ipc_wire_words :: "ipc_message \<Rightarrow> u32 list" where
  "ipc_wire_words m = (ipc_words m)[9 := ntohl (sa_ip_be (im_addr m))]"

lemma be_words_update:
  assumes "i < length ws"
  shows "memcpy_at (be_words ws) (4 * i) (le32_bytes w) = be_words (ws[i := ntohl w])"
proof -
  have ws: "ws = take i ws @ ws ! i # drop (Suc i) ws" using assms by (rule id_take_nth_drop)
  have len: "length (be_words (take i ws)) = 4 * i" using assms by simp
  have "be_words ws = be_words (take i ws) @ le32_bytes (htonl (ws ! i)) @ be_words (drop (Suc i) ws)"
    by (subst ws) (simp add: be_words_def)
  moreover have "be_words (ws[i := ntohl w]) = be_words (take i ws) @ le32_bytes w @ be_words (drop (Suc i) ws)"
    using assms by (simp add: upd_conv_take_nth_drop be_words_def)
  ultimately show ?thesis using len by (simp add: memcpy_at_def)
qed

lemma ipc_encode_words: "ipc_encode m = be_words (ipc_wire_words m)"
  using be_words_update [of 9 "ipc_words m" "sa_ip_be (im_addr m)"]
  by (simp add: ipc_encode_def ipc_wire_words_def)

lemma length_ipc_encode [simp]: "length (ipc_encode m) = IPC_HEADER_SIZE"
  by (simp add: ipc_encode_words ipc_wire_words_def)

lemma ipc_wire_words_nth:
  "be_word (ipc_encode m) i = ipc_wire_words m ! i" if "i < 16" for i
  using that by (simp add: ipc_encode_words ipc_wire_words_def)

lemma load32_be_word: "load32 bs (4 * i) = htonl (be_word bs i)"
  by (simp add: be_word_def)

definition ipc_wf :: "ipc_message \<Rightarrow> bool" where
  "ipc_wf m \<longleftrightarrow> im_id m \<noteq> 0 \<and> unat (im_length m) \<le> IPC_PAYLOAD_MAX"

definition header_of :: "ipc_message \<Rightarrow> ipc_message" where
  "header_of m = m\<lparr>im_data := im_data zero_message\<rparr>"

lemma ucast_u16_u32: "unat (ucast (p :: u16) :: u32) = unat p" "(ucast (ucast p :: u32) :: u16) = p"
proof -
  have "unat p < 2 ^ LENGTH(16)" by (rule unsigned_less)
  then show "unat (ucast p :: u32) = unat p" by (intro unat_ucast_small) simp
  then show "(ucast (ucast p :: u32) :: u16) = p"
    by (simp add: word_unat_eq_iff unat_ucast_small unsigned_less [of p, simplified])
qed

lemma port_word_small: "unat (ucast (p :: u16) :: u32) \<le> UINT16_MAX"
proof -
  have "unat p < 2 ^ LENGTH(16)" by (rule unsigned_less)
  then show ?thesis by (simp add: ucast_u16_u32 UINT16_MAX_def)
qed

lemma ipc_decode_encode:
  assumes "ipc_wf m"
  shows "ipc_decode (ipc_encode m) = Inr (header_of m)"
proof -
  have w: "be_word (ipc_encode m) 0 = IPC_MAGIC" "be_word (ipc_encode m) 1 = IPC_VERSION"
    "be_word (ipc_encode m) 2 = im_op m" "be_word (ipc_encode m) 3 = im_id m" "be_word (ipc_encode m) 4 = im_length m"
    "be_word (ipc_encode m) 5 = im_fd m" "be_word (ipc_encode m) 6 = im_a m" "be_word (ipc_encode m) 7 = im_b m"
    "be_word (ipc_encode m) 8 = im_c m" "be_word (ipc_encode m) 9 = ntohl (sa_ip_be (im_addr m))"
    "be_word (ipc_encode m) 10 = ucast (sa_port (im_addr m))"
    "be_word (ipc_encode m) 11 = im_result m" "be_word (ipc_encode m) 12 = 0" "be_word (ipc_encode m) 13 = 0"
    "be_word (ipc_encode m) 14 = 0" "be_word (ipc_encode m) 15 = 0"
    by (simp_all add: ipc_wire_words_nth ipc_wire_words_def ipc_words_def)
  have ip: "load32 (ipc_encode m) 36 = sa_ip_be (im_addr m)"
    using load32_be_word [of "ipc_encode m" 9] by (simp add: w)
  have "\<not> unat (im_length m) > IPC_PAYLOAD_MAX" "im_id m \<noteq> 0" using assms by (auto simp: ipc_wf_def)
  then show ?thesis
    using port_word_small [of "sa_port (im_addr m)"]
    by (simp add: ipc_decode_def w [simplified] ip ucast_u16_u32 header_of_def zero_message_def)
qed

lemma upt16: "[0..<16] = [0, 1, 2, 3, 4, 5, 6, 7, 8, 9, 10, 11, 12, 13, 14, 15 :: nat]"
  by (simp add: upt_conv_Cons)

lemma ipc_encode_decode:
  assumes len: "length header = IPC_HEADER_SIZE" and m: "ipc_decode header = Inr m"
  shows "ipc_encode m = header" "ipc_wf m" "im_data m = im_data zero_message"
proof -
  let ?w = "be_word header"
  have c: "?w 0 = IPC_MAGIC" "?w 1 = IPC_VERSION" "unat (?w 4) \<le> IPC_PAYLOAD_MAX" "unat (?w 10) \<le> UINT16_MAX"
    "?w 12 = 0" "?w 13 = 0" "?w 14 = 0" "?w 15 = 0" "?w 3 \<noteq> 0"
    and mdef: "m = zero_message\<lparr>im_op := ?w 2, im_id := ?w 3, im_length := ?w 4, im_fd := ?w 5, im_a := ?w 6,
             im_b := ?w 7, im_c := ?w 8, im_addr := \<lparr>sa_ip_be = load32 header 36, sa_port = ucast (?w 10)\<rparr>,
             im_result := ?w 11\<rparr>"
    using m by (simp_all add: ipc_decode_def Let_def split: if_splits)
  have ip: "ntohl (load32 header 36) = ?w 9"
    using load32_be_word [of header 9] by simp
  have "unat (?w 10) < 2 ^ 16" using c(4) by (simp add: UINT16_MAX_def)
  then have "unat (ucast (?w 10) :: u16) = unat (?w 10)" by (intro unat_ucast_small) simp
  then have port: "ucast (ucast (?w 10) :: u16) = ?w 10"
    using ucast_u16_u32(1) [of "ucast (?w 10)"] by (simp add: word_unat_eq_iff)
  have "ipc_wire_words m = map ?w [0..<16]"
    using c by (simp add: ipc_wire_words_def ipc_words_def mdef ip port upt16)
  then show "ipc_encode m = header" using be_words_be_word [of header 16] len by (simp add: ipc_encode_words)
  show "ipc_wf m" "im_data m = im_data zero_message" using c by (simp_all add: ipc_wf_def mdef)
qed

text \<open>
  C29: the IPC header is a lossless and canonical encoding.  A 64-byte header is accepted, as the
  message \<open>m\<close>, exactly when it is the encoding of \<open>m\<close>, \<open>m\<close> has a non-zero identifier, a payload of at
  most 8192 bytes, and the payload array is cleared: decoding undoes encoding for every operation,
  handle, argument, address and result, no two headers decode to the same message, and a header
  with any other magic, version or reserved word is rejected with \<open>EPROTO\<close>.
\<close>

theorem ipc_header_roundtrip:
  "length header = IPC_HEADER_SIZE \<Longrightarrow>
     (ipc_decode header = Inr m \<longleftrightarrow>
        header = ipc_encode m \<and> ipc_wf m \<and> im_data m = im_data zero_message) \<and>
     ((\<forall>m. ipc_decode header \<noteq> Inr m) \<longrightarrow> ipc_decode header = Inl EPROTO)"
proof (intro conjI)
  assume len: "length header = IPC_HEADER_SIZE"
  show "ipc_decode header = Inr m \<longleftrightarrow> header = ipc_encode m \<and> ipc_wf m \<and> im_data m = im_data zero_message"
  proof
    assume "ipc_decode header = Inr m"
    from ipc_encode_decode [OF len this]
    show "header = ipc_encode m \<and> ipc_wf m \<and> im_data m = im_data zero_message" by simp
  next
    assume "header = ipc_encode m \<and> ipc_wf m \<and> im_data m = im_data zero_message"
    then show "ipc_decode header = Inr m" using ipc_decode_encode [of m] by (simp add: header_of_def)
  qed
  show "(\<forall>m. ipc_decode header \<noteq> Inr m) \<longrightarrow> ipc_decode header = Inl EPROTO"
    by (simp add: ipc_decode_def Let_def)
qed

definition sample_message :: ipc_message where
  "sample_message = zero_message\<lparr>im_op := IPC_SENDTO, im_id := 7, im_length := 5, im_fd := 3,
     im_addr := \<lparr>sa_ip_be = le32_of [10, 0, 0, 1], sa_port = 53\<rparr>, im_result := -11\<rparr>"

theorem ipc_header_roundtrip_witness:
  "length (ipc_encode sample_message) = IPC_HEADER_SIZE \<and>
   ipc_decode (ipc_encode sample_message) = Inr sample_message"
  using ipc_header_roundtrip [of "ipc_encode sample_message" sample_message]
  by (simp add: ipc_wf_def sample_message_def del: replicate.simps)

subsection \<open>Datagrams in a batch\<close>

definition ipc_datagram_encode :: "ps_sockaddr \<Rightarrow> u32 \<Rightarrow> u8 list" where
  "ipc_datagram_encode addr len =
     le32_bytes (sa_ip_be addr) @ le32_bytes (htonl (ucast (sa_port addr))) @ le32_bytes (htonl len)"

definition ipc_datagram_decode :: "u8 list \<Rightarrow> nat \<Rightarrow> errno + ps_sockaddr \<times> u32" where
  "ipc_datagram_decode bytes available =
     (if available < IPC_DGRAM_HEADER then Inl EPROTO
      else let port = ntohl (load32 bytes 4); size = ntohl (load32 bytes 8) in
        if unat port > UINT16_MAX \<or> unat size > PS_DGRAM_MAX_PAYLOAD \<or> unat size > available - IPC_DGRAM_HEADER
        then Inl EPROTO
        else Inr (\<lparr>sa_ip_be = load32 bytes 0, sa_port = ucast port\<rparr>, size))"

lemma length_ipc_datagram_encode [simp]: "length (ipc_datagram_encode addr len) = IPC_DGRAM_HEADER"
  by (simp add: ipc_datagram_encode_def)

lemma ipc_datagram_decode_encode:
  assumes "unat len \<le> PS_DGRAM_MAX_PAYLOAD" "IPC_DGRAM_HEADER + unat len \<le> available"
  shows "ipc_datagram_decode (ipc_datagram_encode addr len @ rest) available = Inr (addr, len)"
proof -
  have l: "load32 (ipc_datagram_encode addr len @ rest) 0 = sa_ip_be addr"
    "load32 (ipc_datagram_encode addr len @ rest) 4 = htonl (ucast (sa_port addr))"
    "load32 (ipc_datagram_encode addr len @ rest) 8 = htonl len"
    by (simp_all add: load32_def ipc_datagram_encode_def)
  show ?thesis
    using assms port_word_small [of "sa_port addr"]
    by (simp add: ipc_datagram_decode_def l ucast_u16_u32)
qed

end
