(* ===== verification/Daemon_Queue.thy ===== *)
theory Daemon_Queue
  imports Prelude
begin

text \<open>
  The single-producer single-consumer ring of \<^verbatim>\<open>src/daemon/queue.c\<close>, between the control thread and
  the worker.

  The two counters are 32-bit and wrap; a slot is a counter modulo 64.  \<open>daemon_queue_push\<close> and
  \<open>daemon_queue_pop\<close> are the operations run without interruption.  \<open>spsc_step\<close> is the same code one
  atomic access at a time, with the two threads interleaved arbitrarily: each shared variable has one
  writer, and the release and acquire orders make every store to a slot visible with the counter that
  publishes it, so the interleavings of the accesses are the executions.
\<close>

abbreviation (input) DAEMON_QUEUE_SIZE :: nat where "DAEMON_QUEUE_SIZE \<equiv> 64"

record 'a daemon_queue =
  dq_read :: u32
  dq_write :: u32
  dq_entries :: "'a list"

definition daemon_queue_init :: "'a daemon_queue \<Rightarrow> 'a daemon_queue" where
  "daemon_queue_init q = q\<lparr>dq_read := 0, dq_write := 0\<rparr>"

definition dq_slot :: "u32 \<Rightarrow> nat" where
  "dq_slot n = unat n mod DAEMON_QUEUE_SIZE"

definition daemon_queue_room :: "'a daemon_queue \<Rightarrow> bool" where
  "daemon_queue_room q \<longleftrightarrow> dq_write q - dq_read q < of_nat DAEMON_QUEUE_SIZE"

definition daemon_queue_push :: "'a daemon_queue \<Rightarrow> 'a \<Rightarrow> bool \<times> 'a daemon_queue" where
  "daemon_queue_push q x =
     (let write = dq_write q; read = dq_read q in
      if write - read = of_nat DAEMON_QUEUE_SIZE then (False, q)
      else (True, q\<lparr>dq_entries := (dq_entries q)[dq_slot write := x], dq_write := write + 1\<rparr>))"

definition daemon_queue_pop :: "'a daemon_queue \<Rightarrow> 'a option \<times> 'a daemon_queue" where
  "daemon_queue_pop q =
     (let read = dq_read q; write = dq_write q in
      if read = write then (None, q)
      else (Some (dq_entries q ! dq_slot read), q\<lparr>dq_read := read + 1\<rparr>))"

subsection \<open>The interleaved execution\<close>

datatype 'a producer =
    P_Idle | P_Call 'a | P_Write 'a u32 | P_Read 'a u32 u32 | P_Stored 'a u32

datatype 'a consumer =
    C_Idle | C_Call | C_Read u32 | C_Write u32 u32 | C_Copied 'a u32

text \<open>\<open>sp_pushed\<close> and \<open>sp_popped\<close> record the items published and the items consumed, in order.\<close>

record 'a spsc =
  sp_queue :: "'a daemon_queue"
  sp_producer :: "'a producer"
  sp_consumer :: "'a consumer"
  sp_pushed :: "'a list"
  sp_popped :: "'a list"

inductive spsc_step :: "'a spsc \<Rightarrow> 'a spsc \<Rightarrow> bool" where
  push_call: "sp_producer s = P_Idle \<Longrightarrow> spsc_step s (s\<lparr>sp_producer := P_Call x\<rparr>)"
| push_load_write: "sp_producer s = P_Call x \<Longrightarrow>
    spsc_step s (s\<lparr>sp_producer := P_Write x (dq_write (sp_queue s))\<rparr>)"
| push_load_read: "sp_producer s = P_Write x w \<Longrightarrow>
    spsc_step s (s\<lparr>sp_producer := P_Read x w (dq_read (sp_queue s))\<rparr>)"
| push_full: "sp_producer s = P_Read x w r \<Longrightarrow> w - r = of_nat DAEMON_QUEUE_SIZE \<Longrightarrow>
    spsc_step s (s\<lparr>sp_producer := P_Idle\<rparr>)"
| push_store: "sp_producer s = P_Read x w r \<Longrightarrow> w - r \<noteq> of_nat DAEMON_QUEUE_SIZE \<Longrightarrow>
    spsc_step s (s\<lparr>sp_producer := P_Stored x w,
      sp_queue := (sp_queue s)\<lparr>dq_entries := (dq_entries (sp_queue s))[dq_slot w := x]\<rparr>\<rparr>)"
| push_publish: "sp_producer s = P_Stored x w \<Longrightarrow>
    spsc_step s (s\<lparr>sp_producer := P_Idle, sp_queue := (sp_queue s)\<lparr>dq_write := w + 1\<rparr>,
      sp_pushed := sp_pushed s @ [x]\<rparr>)"
| pop_call: "sp_consumer s = C_Idle \<Longrightarrow> spsc_step s (s\<lparr>sp_consumer := C_Call\<rparr>)"
| pop_load_read: "sp_consumer s = C_Call \<Longrightarrow>
    spsc_step s (s\<lparr>sp_consumer := C_Read (dq_read (sp_queue s))\<rparr>)"
| pop_load_write: "sp_consumer s = C_Read r \<Longrightarrow>
    spsc_step s (s\<lparr>sp_consumer := C_Write r (dq_write (sp_queue s))\<rparr>)"
| pop_empty: "sp_consumer s = C_Write r w \<Longrightarrow> r = w \<Longrightarrow> spsc_step s (s\<lparr>sp_consumer := C_Idle\<rparr>)"
| pop_copy: "sp_consumer s = C_Write r w \<Longrightarrow> r \<noteq> w \<Longrightarrow>
    spsc_step s (s\<lparr>sp_consumer := C_Copied (dq_entries (sp_queue s) ! dq_slot r) r\<rparr>)"
| pop_publish: "sp_consumer s = C_Copied x r \<Longrightarrow>
    spsc_step s (s\<lparr>sp_consumer := C_Idle, sp_queue := (sp_queue s)\<lparr>dq_read := r + 1\<rparr>,
      sp_popped := sp_popped s @ [x]\<rparr>)"

definition spsc_init :: "'a list \<Rightarrow> 'a spsc" where
  "spsc_init entries = \<lparr>sp_queue = daemon_queue_init \<lparr>dq_read = 0, dq_write = 0, dq_entries = entries\<rparr>,
     sp_producer = P_Idle, sp_consumer = C_Idle, sp_pushed = [], sp_popped = []\<rparr>"

text \<open>The access to a slot that a thread makes next: the producer's store and the consumer's copy.\<close>

definition store_slot :: "'a spsc \<Rightarrow> nat option" where
  "store_slot s = (case sp_producer s of
     P_Read x w r \<Rightarrow> if w - r \<noteq> of_nat DAEMON_QUEUE_SIZE then Some (dq_slot w) else None | _ \<Rightarrow> None)"

definition copy_slot :: "'a spsc \<Rightarrow> nat option" where
  "copy_slot s = (case sp_consumer s of
     C_Write r w \<Rightarrow> if r \<noteq> w then Some (dq_slot r) else None | _ \<Rightarrow> None)"

subsection \<open>Counters\<close>

lemma dq_slot_of_nat [simp]: "dq_slot (of_nat n) = n mod 64"
proof -
  have "unat (of_nat n :: u32) = n mod 2 ^ 32" by (simp add: unat_of_nat)
  moreover have "n mod 2 ^ 32 mod 64 = n mod (64 :: nat)" by (intro mod_mod_cancel) simp
  ultimately show ?thesis by (simp add: dq_slot_def)
qed

lemma of_nat_u32_diff:
  assumes "a \<le> b" "b \<le> a + 64"
  shows "unat ((of_nat b :: u32) - of_nat a) = b - a"
proof -
  obtain n where n: "b = a + n" "n \<le> 64" using assms by (metis add_le_cancel_left le_Suc_ex)
  have "unat (of_nat n :: u32) = n" using n(2) by (simp add: unat_of_nat)
  then show ?thesis by (simp add: n(1))
qed

lemma of_nat_u32_full:
  assumes "a \<le> b" "b \<le> a + 64"
  shows "(of_nat b :: u32) - of_nat a = 64 \<longleftrightarrow> b = a + 64"
  using of_nat_u32_diff [OF assms] assms by (auto simp: word_unat_eq_iff)

lemma slot_distinct: "a < b \<Longrightarrow> b < a + 64 \<Longrightarrow> a mod 64 \<noteq> b mod (64 :: nat)"
proof -
  assume ab: "a < b" "b < a + 64"
  then obtain n where n: "b = a + n" "0 < n" "n < 64" by (metis add_less_cancel_left less_imp_add_positive)
  then show ?thesis using ring_index_inj [of a 0 64 n] by auto
qed

subsection \<open>The invariant\<close>

definition producer_inv :: "'a spsc \<Rightarrow> bool" where
  "producer_inv s = (let W = length (sp_pushed s); R = length (sp_popped s) in
     case sp_producer s of
       P_Write x w \<Rightarrow> w = of_nat W
     | P_Read x w r \<Rightarrow> w = of_nat W \<and> (\<exists>\<rho>\<le>R. r = of_nat \<rho> \<and> W \<le> \<rho> + 64)
     | P_Stored x w \<Rightarrow> w = of_nat W \<and> W < R + 64 \<and> dq_entries (sp_queue s) ! (W mod 64) = x
     | _ \<Rightarrow> True)"

definition consumer_inv :: "'a spsc \<Rightarrow> bool" where
  "consumer_inv s = (let W = length (sp_pushed s); R = length (sp_popped s) in
     case sp_consumer s of
       C_Read r \<Rightarrow> r = of_nat R
     | C_Write r w \<Rightarrow> r = of_nat R \<and> (\<exists>\<omega>\<le>W. w = of_nat \<omega> \<and> R \<le> \<omega>)
     | C_Copied x r \<Rightarrow> r = of_nat R \<and> R < W \<and> x = sp_pushed s ! R
     | _ \<Rightarrow> True)"

definition ring_inv :: "'a spsc \<Rightarrow> bool" where
  "ring_inv s \<longleftrightarrow> length (dq_entries (sp_queue s)) = 64 \<and>
     dq_write (sp_queue s) = of_nat (length (sp_pushed s)) \<and> dq_read (sp_queue s) = of_nat (length (sp_popped s)) \<and>
     length (sp_popped s) \<le> length (sp_pushed s) \<and> length (sp_pushed s) \<le> length (sp_popped s) + 64 \<and>
     (\<forall>k. length (sp_popped s) \<le> k \<and> k < length (sp_pushed s) \<longrightarrow>
        dq_entries (sp_queue s) ! (k mod 64) = sp_pushed s ! k) \<and>
     sp_popped s = take (length (sp_popped s)) (sp_pushed s)"

definition spsc_inv :: "'a spsc \<Rightarrow> bool" where
  "spsc_inv s \<longleftrightarrow> ring_inv s \<and> producer_inv s \<and> consumer_inv s"

lemmas spsc_defs = spsc_inv_def ring_inv_def producer_inv_def consumer_inv_def Let_def

lemma producer_inv_frame [simp]: "producer_inv (s\<lparr>sp_consumer := c\<rparr>) = producer_inv s"
  by (cases "sp_producer s") (simp_all add: producer_inv_def)

lemma ring_inv_frame [simp]:
  "ring_inv (s\<lparr>sp_consumer := c\<rparr>) = ring_inv s" "ring_inv (s\<lparr>sp_producer := p\<rparr>) = ring_inv s"
  by (simp_all add: ring_inv_def)

lemma consumer_inv_frame [simp]:
  "consumer_inv (s\<lparr>sp_producer := p\<rparr>) = consumer_inv s"
  "consumer_inv (s\<lparr>sp_producer := p, sp_queue := q\<rparr>) = consumer_inv s"
  by (cases "sp_consumer s"; simp add: consumer_inv_def)+

lemma spsc_init_inv: "length entries = 64 \<Longrightarrow> spsc_inv (spsc_init entries)"
  by (simp add: spsc_defs spsc_init_def daemon_queue_init_def)

lemma consumer_inv_push:
  "consumer_inv s \<Longrightarrow> length (sp_popped s) \<le> length (sp_pushed s) \<Longrightarrow>
     consumer_inv (s\<lparr>sp_producer := p, sp_queue := q, sp_pushed := sp_pushed s @ [x]\<rparr>)"
proof (cases "sp_consumer s")
  case (C_Write r w)
  assume "consumer_inv s"
  then obtain \<omega> where "\<omega> \<le> length (sp_pushed s)" "w = of_nat \<omega>" "length (sp_popped s) \<le> \<omega>" "r = of_nat (length (sp_popped s))"
    using C_Write by (auto simp: consumer_inv_def Let_def)
  then have "\<exists>\<omega>\<le>Suc (length (sp_pushed s)). w = of_nat \<omega> \<and> length (sp_popped s) \<le> \<omega>" using le_SucI by blast
  then show ?thesis using C_Write \<open>r = _\<close> by (simp add: consumer_inv_def)
qed (auto simp: consumer_inv_def Let_def nth_append)

lemma producer_inv_pop:
  "producer_inv s \<Longrightarrow> dq_entries q = dq_entries (sp_queue s) \<Longrightarrow>
     producer_inv (s\<lparr>sp_consumer := c, sp_queue := q, sp_popped := sp_popped s @ [x]\<rparr>)"
  by (auto simp: producer_inv_def Let_def split: producer.splits intro: le_SucI)

lemma step_push_store:
  assumes inv: "spsc_inv s" and p: "sp_producer s = P_Read x w r" and free: "w - r \<noteq> 64"
  shows "spsc_inv (s\<lparr>sp_producer := P_Stored x w,
      sp_queue := (sp_queue s)\<lparr>dq_entries := (dq_entries (sp_queue s))[dq_slot w := x]\<rparr>\<rparr>)"
proof -
  let ?W = "length (sp_pushed s)" and ?R = "length (sp_popped s)"
  obtain \<rho> where \<rho>: "\<rho> \<le> ?R" "r = of_nat \<rho>" "?W \<le> \<rho> + 64" and w: "w = of_nat ?W"
    using inv p by (auto simp: spsc_defs)
  have RW: "?R \<le> ?W" using inv by (simp add: spsc_defs)
  have "?W \<noteq> \<rho> + 64"
    using free of_nat_u32_full [of \<rho> ?W] \<rho> RW w by auto
  then have lt: "?W < ?R + 64" using \<rho> by simp
  have other: "k mod 64 \<noteq> ?W mod 64" if "?R \<le> k" "k < ?W" for k
    using slot_distinct [of k ?W] that lt by simp
  have len: "length (dq_entries (sp_queue s)) = 64" using inv by (simp add: spsc_defs)
  have kept: "(dq_entries (sp_queue s))[?W mod 64 := x] ! (k mod 64) = sp_pushed s ! k" if "?R \<le> k" "k < ?W" for k
    using other [OF that] inv that by (simp add: nth_list_update_neq spsc_inv_def ring_inv_def)
  have "ring_inv (s\<lparr>sp_producer := P_Stored x w,
      sp_queue := (sp_queue s)\<lparr>dq_entries := (dq_entries (sp_queue s))[dq_slot w := x]\<rparr>\<rparr>)"
    using inv kept by (simp add: spsc_inv_def ring_inv_def w)
  moreover have "consumer_inv (s\<lparr>sp_producer := P_Stored x w,
      sp_queue := (sp_queue s)\<lparr>dq_entries := (dq_entries (sp_queue s))[dq_slot w := x]\<rparr>\<rparr>)"
    using inv by (simp add: spsc_inv_def)
  ultimately show ?thesis using lt len by (simp add: spsc_inv_def producer_inv_def w)
qed

lemma step_push_publish:
  assumes inv: "spsc_inv s" and p: "sp_producer s = P_Stored x w"
  shows "spsc_inv (s\<lparr>sp_producer := P_Idle, sp_queue := (sp_queue s)\<lparr>dq_write := w + 1\<rparr>,
      sp_pushed := sp_pushed s @ [x]\<rparr>)"
proof -
  let ?W = "length (sp_pushed s)" and ?R = "length (sp_popped s)"
  let ?s = "s\<lparr>sp_producer := P_Idle, sp_queue := (sp_queue s)\<lparr>dq_write := w + 1\<rparr>, sp_pushed := sp_pushed s @ [x]\<rparr>"
  have w: "w = of_nat ?W" and lt: "?W < ?R + 64" and x: "dq_entries (sp_queue s) ! (?W mod 64) = x"
    using inv p by (auto simp: spsc_defs)
  have r: "ring_inv s" and c: "consumer_inv s" using inv by (auto simp: spsc_inv_def)
  have old: "dq_entries (sp_queue s) ! (k mod 64) = sp_pushed s ! k" if "?R \<le> k" "k < ?W" for k
    using r that by (simp add: ring_inv_def)
  have "dq_entries (sp_queue s) ! (k mod 64) = (sp_pushed s @ [x]) ! k" if "?R \<le> k" "k < Suc ?W" for k
    using that old [of k] x by (cases "k = ?W") (simp_all add: nth_append)
  then have "ring_inv ?s" using r lt by (auto simp: ring_inv_def w)
  moreover have "consumer_inv ?s" using r by (intro consumer_inv_push c) (simp add: ring_inv_def)
  ultimately show ?thesis by (simp add: spsc_inv_def producer_inv_def)
qed

lemma step_pop_copy:
  assumes inv: "spsc_inv s" and c: "sp_consumer s = C_Write r w" and ne: "r \<noteq> w"
  shows "spsc_inv (s\<lparr>sp_consumer := C_Copied (dq_entries (sp_queue s) ! dq_slot r) r\<rparr>)"
proof -
  let ?W = "length (sp_pushed s)" and ?R = "length (sp_popped s)"
  obtain \<omega> where o: "\<omega> \<le> ?W" "w = of_nat \<omega>" "?R \<le> \<omega>" and r: "r = of_nat ?R"
    using inv c by (auto simp: spsc_defs)
  have "\<omega> \<noteq> ?R" using ne o r by auto
  then have lt: "?R < ?W" using o by simp
  moreover have "dq_entries (sp_queue s) ! (?R mod 64) = sp_pushed s ! ?R" using inv lt by (simp add: spsc_defs)
  ultimately show ?thesis using inv r by (simp add: spsc_inv_def consumer_inv_def)
qed

lemma step_pop_publish:
  assumes inv: "spsc_inv s" and c: "sp_consumer s = C_Copied x r"
  shows "spsc_inv (s\<lparr>sp_consumer := C_Idle, sp_queue := (sp_queue s)\<lparr>dq_read := r + 1\<rparr>,
      sp_popped := sp_popped s @ [x]\<rparr>)"
proof -
  let ?W = "length (sp_pushed s)" and ?R = "length (sp_popped s)"
  let ?s = "s\<lparr>sp_consumer := C_Idle, sp_queue := (sp_queue s)\<lparr>dq_read := r + 1\<rparr>, sp_popped := sp_popped s @ [x]\<rparr>"
  have r: "r = of_nat ?R" and lt: "?R < ?W" and x: "x = sp_pushed s ! ?R"
    using inv c by (auto simp: spsc_defs)
  have i: "ring_inv s" and p: "producer_inv s" using inv by (auto simp: spsc_inv_def)
  have "sp_popped s = take ?R (sp_pushed s)" using i by (simp add: ring_inv_def)
  then have "sp_popped s @ [x] = take (Suc ?R) (sp_pushed s)"
    using lt x by (metis take_Suc_conv_app_nth)
  then have "ring_inv ?s" using i lt by (auto simp: ring_inv_def r)
  moreover have "producer_inv ?s" by (rule producer_inv_pop [OF p]) simp
  ultimately show ?thesis by (simp add: spsc_inv_def consumer_inv_def)
qed

lemma spsc_step_inv: "spsc_step s s' \<Longrightarrow> spsc_inv s \<Longrightarrow> spsc_inv s'"
proof (induction rule: spsc_step.induct)
  case (push_call s x)
  then show ?case by (auto simp: spsc_inv_def ring_inv_def producer_inv_def)
next
  case (push_load_write s x)
  then show ?case by (auto simp: spsc_inv_def ring_inv_def producer_inv_def)
next
  case (push_load_read s x w)
  then show ?case by (auto simp: spsc_inv_def ring_inv_def producer_inv_def)
next
  case (push_full s x w r)
  then show ?case by (auto simp: spsc_inv_def ring_inv_def producer_inv_def)
next
  case (push_store s x w r)
  from push_store.hyps(2) have "w - r \<noteq> 64" by simp
  from step_push_store [OF push_store.prems push_store.hyps(1) this] show ?case .
next
  case (push_publish s x w)
  from step_push_publish [OF push_publish.prems push_publish.hyps] show ?case .
next
  case (pop_call s)
  then show ?case by (auto simp: spsc_inv_def ring_inv_def consumer_inv_def)
next
  case (pop_load_read s)
  then show ?case by (auto simp: spsc_inv_def ring_inv_def consumer_inv_def)
next
  case (pop_load_write s r)
  then show ?case by (auto simp: spsc_inv_def ring_inv_def consumer_inv_def)
next
  case (pop_empty s r w)
  then show ?case by (auto simp: spsc_inv_def ring_inv_def consumer_inv_def)
next
  case (pop_copy s r w)
  from step_pop_copy [OF pop_copy.prems pop_copy.hyps] show ?case .
next
  case (pop_publish s x r)
  from step_pop_publish [OF pop_publish.prems pop_publish.hyps] show ?case .
qed

lemma spsc_reachable_inv: "spsc_step\<^sup>*\<^sup>* s s' \<Longrightarrow> spsc_inv s \<Longrightarrow> spsc_inv s'"
  by (induction rule: rtranclp_induct) (auto dest: spsc_step_inv)

lemma spsc_no_race:
  assumes inv: "spsc_inv s" and "store_slot s = Some i" "copy_slot s = Some j"
  shows "i \<noteq> j"
proof -
  let ?W = "length (sp_pushed s)" and ?R = "length (sp_popped s)"
  obtain x w r where p: "sp_producer s = P_Read x w r" "w - r \<noteq> 64" "i = dq_slot w"
    using assms(2) by (auto simp: store_slot_def split: producer.splits if_splits)
  obtain r' w' where c: "sp_consumer s = C_Write r' w'" "r' \<noteq> w'" "j = dq_slot r'"
    using assms(3) by (auto simp: copy_slot_def split: consumer.splits if_splits)
  have "spsc_inv (s\<lparr>sp_producer := P_Stored x w,
      sp_queue := (sp_queue s)\<lparr>dq_entries := (dq_entries (sp_queue s))[dq_slot w := x]\<rparr>\<rparr>)"
    by (rule step_push_store [OF inv p(1,2)])
  then have lt: "?W < ?R + 64" by (simp add: spsc_defs)
  have "spsc_inv (s\<lparr>sp_consumer := C_Copied (dq_entries (sp_queue s) ! dq_slot r') r'\<rparr>)"
    by (rule step_pop_copy [OF inv c(1,2)])
  then have "?R < ?W" by (simp add: spsc_defs)
  moreover have "w = of_nat ?W" "r' = of_nat ?R" using inv p(1) c(1) by (auto simp: spsc_defs)
  ultimately show ?thesis using slot_distinct [of ?R ?W] lt p(3) c(3) by simp
qed

subsection \<open>The operations without interruption\<close>

text \<open>A complete call is a run of steps of its thread.\<close>

lemma push_is_run:
  assumes "sp_producer s = P_Call x"
  shows "\<exists>s'. spsc_step\<^sup>*\<^sup>* s s' \<and> sp_producer s' = P_Idle \<and> sp_consumer s' = sp_consumer s \<and>
     sp_popped s' = sp_popped s \<and> sp_queue s' = snd (daemon_queue_push (sp_queue s) x) \<and>
     sp_pushed s' = sp_pushed s @ (if fst (daemon_queue_push (sp_queue s) x) then [x] else [])"
proof -
  let ?q = "sp_queue s"
  let ?s1 = "s\<lparr>sp_producer := P_Write x (dq_write ?q)\<rparr>"
  let ?s2 = "s\<lparr>sp_producer := P_Read x (dq_write ?q) (dq_read ?q)\<rparr>"
  have r: "spsc_step\<^sup>*\<^sup>* s ?s2"
    using push_load_write [OF assms] push_load_read [of ?s1 x "dq_write ?q"]
    by (auto intro: converse_rtranclp_into_rtranclp)
  show ?thesis
  proof (cases "dq_write ?q - dq_read ?q = 64")
    case True
    have "spsc_step\<^sup>*\<^sup>* s (s\<lparr>sp_producer := P_Idle\<rparr>)"
      using push_full [of ?s2 x "dq_write ?q" "dq_read ?q"] r True by (auto intro: rtranclp.rtrancl_into_rtrancl)
    then show ?thesis using True by (intro exI conjI) (assumption, simp_all add: daemon_queue_push_def Let_def)
  next
    case False
    let ?q3 = "?q\<lparr>dq_entries := (dq_entries ?q)[dq_slot (dq_write ?q) := x]\<rparr>"
    let ?s3 = "s\<lparr>sp_producer := P_Stored x (dq_write ?q), sp_queue := ?q3\<rparr>"
    let ?s4 = "s\<lparr>sp_producer := P_Idle, sp_queue := ?q3\<lparr>dq_write := dq_write ?q + 1\<rparr>, sp_pushed := sp_pushed s @ [x]\<rparr>"
    have "spsc_step ?s2 ?s3" using push_store [of ?s2 x "dq_write ?q" "dq_read ?q"] False by simp
    moreover have "spsc_step ?s3 ?s4" using push_publish [of ?s3 x "dq_write ?q"] by simp
    ultimately have "spsc_step\<^sup>*\<^sup>* s ?s4" using r by (meson rtranclp.rtrancl_into_rtrancl)
    then show ?thesis using False by (intro exI conjI) (assumption, simp_all add: daemon_queue_push_def Let_def)
  qed
qed

lemma pop_is_run:
  assumes "sp_consumer s = C_Call"
  shows "\<exists>s'. spsc_step\<^sup>*\<^sup>* s s' \<and> sp_consumer s' = C_Idle \<and> sp_producer s' = sp_producer s \<and>
     sp_pushed s' = sp_pushed s \<and> sp_queue s' = snd (daemon_queue_pop (sp_queue s)) \<and>
     sp_popped s' = sp_popped s @ (case fst (daemon_queue_pop (sp_queue s)) of None \<Rightarrow> [] | Some x \<Rightarrow> [x])"
proof -
  let ?q = "sp_queue s"
  let ?s1 = "s\<lparr>sp_consumer := C_Read (dq_read ?q)\<rparr>"
  let ?s2 = "s\<lparr>sp_consumer := C_Write (dq_read ?q) (dq_write ?q)\<rparr>"
  have r: "spsc_step\<^sup>*\<^sup>* s ?s2"
    using pop_load_read [OF assms] pop_load_write [of ?s1 "dq_read ?q"]
    by (auto intro: converse_rtranclp_into_rtranclp)
  show ?thesis
  proof (cases "dq_read ?q = dq_write ?q")
    case True
    have "spsc_step\<^sup>*\<^sup>* s (s\<lparr>sp_consumer := C_Idle\<rparr>)"
      using pop_empty [of ?s2 "dq_read ?q" "dq_write ?q"] r True by (auto intro: rtranclp.rtrancl_into_rtrancl)
    then show ?thesis using True by (intro exI conjI) (assumption, simp_all add: daemon_queue_pop_def)
  next
    case False
    let ?x = "dq_entries ?q ! dq_slot (dq_read ?q)"
    let ?s3 = "s\<lparr>sp_consumer := C_Copied ?x (dq_read ?q)\<rparr>"
    let ?s4 = "s\<lparr>sp_consumer := C_Idle, sp_queue := ?q\<lparr>dq_read := dq_read ?q + 1\<rparr>, sp_popped := sp_popped s @ [?x]\<rparr>"
    have "spsc_step ?s2 ?s3" using pop_copy [of ?s2 "dq_read ?q" "dq_write ?q"] False by simp
    moreover have "spsc_step ?s3 ?s4" using pop_publish [of ?s3 ?x "dq_read ?q"] by simp
    ultimately have "spsc_step\<^sup>*\<^sup>* s ?s4" using r by (meson rtranclp.rtrancl_into_rtrancl)
    then show ?thesis using False by (intro exI conjI) (assumption, simp_all add: daemon_queue_pop_def Let_def)
  qed
qed

text \<open>
  C28: under every interleaving of the control thread and the worker, at every point of the execution
  the items taken from a queue are a prefix of the items put into it (nothing is lost, duplicated,
  reordered or torn), at most 64 items are in flight, and the two threads never access the same slot
  at once.  The 32-bit counters may wrap any number of times.
\<close>

theorem daemon_queue_spsc_correct:
  assumes "length entries = DAEMON_QUEUE_SIZE" and "spsc_step\<^sup>*\<^sup>* (spsc_init entries) s"
  shows "sp_popped s = take (length (sp_popped s)) (sp_pushed s) \<and>
    length (sp_popped s) \<le> length (sp_pushed s) \<and>
    length (sp_pushed s) \<le> length (sp_popped s) + DAEMON_QUEUE_SIZE \<and>
    (store_slot s = None \<or> store_slot s \<noteq> copy_slot s)"
proof (intro conjI)
  have inv: "spsc_inv s" using spsc_reachable_inv [OF assms(2)] spsc_init_inv [OF assms(1)] by blast
  then show "sp_popped s = take (length (sp_popped s)) (sp_pushed s)"
    "length (sp_popped s) \<le> length (sp_pushed s)" "length (sp_pushed s) \<le> length (sp_popped s) + 64"
    by (simp_all add: spsc_defs)
  show "store_slot s = None \<or> store_slot s \<noteq> copy_slot s"
    using spsc_no_race [OF inv] by (cases "store_slot s"; cases "copy_slot s") auto
qed

theorem daemon_queue_spsc_correct_witness:
  "\<exists>s. spsc_step\<^sup>*\<^sup>* (spsc_init (replicate DAEMON_QUEUE_SIZE (0 :: nat))) s \<and> sp_pushed s = [7] \<and>
     sp_popped s = take (length (sp_popped s)) [7] \<and> length (sp_popped s) \<le> 1"
proof -
  let ?i = "spsc_init (replicate DAEMON_QUEUE_SIZE (0 :: nat))"
  let ?s = "?i\<lparr>sp_producer := P_Call 7\<rparr>"
  have "spsc_step ?i ?s" by (rule push_call) (simp add: spsc_init_def)
  moreover obtain s' where r: "spsc_step\<^sup>*\<^sup>* ?s s'" and p: "sp_pushed s' = [7]"
    using push_is_run [of ?s 7] by (auto simp: spsc_init_def daemon_queue_init_def daemon_queue_push_def)
  ultimately have "spsc_step\<^sup>*\<^sup>* ?i s'" using r by (meson converse_rtranclp_into_rtranclp)
  with daemon_queue_spsc_correct [of "replicate DAEMON_QUEUE_SIZE (0 :: nat)" s'] p show ?thesis
    by (intro exI [of _ s']) simp
qed

text \<open>Between calls the queue holds the items pushed and not yet popped, oldest first.\<close>

definition dq_inv :: "'a daemon_queue \<Rightarrow> bool" where
  "dq_inv q \<longleftrightarrow> length (dq_entries q) = 64 \<and> unat (dq_write q - dq_read q) \<le> 64"

definition dq_abs :: "'a daemon_queue \<Rightarrow> 'a list" where
  "dq_abs q = ring_list (dq_entries q) (dq_slot (dq_read q)) (unat (dq_write q - dq_read q))"

datatype 'a dq_op = DQ_Push 'a | DQ_Pop

primrec dq_step :: "'a dq_op \<Rightarrow> 'a daemon_queue \<Rightarrow> 'a option option \<times> 'a daemon_queue" where
  "dq_step (DQ_Push x) q = (case daemon_queue_push q x of (done, q) \<Rightarrow> (if done then Some None else None, q))"
| "dq_step DQ_Pop q = (case daemon_queue_pop q of (r, q) \<Rightarrow> (map_option Some r, q))"

primrec dq_spec :: "'a dq_op \<Rightarrow> 'a list \<Rightarrow> 'a option option \<times> 'a list" where
  "dq_spec (DQ_Push x) xs = (if length xs = DAEMON_QUEUE_SIZE then (None, xs) else (Some None, xs @ [x]))"
| "dq_spec DQ_Pop xs = (case xs of [] \<Rightarrow> (None, []) | x # xs \<Rightarrow> (Some (Some x), xs))"

lemma length_dq_abs [simp]: "length (dq_abs q) = unat (dq_write q - dq_read q)"
  by (simp add: dq_abs_def)

lemma dq_slot_add: "dq_slot (r + n) = (dq_slot r + unat n) mod 64"
proof -
  have "unat (r + n) = (unat r + unat n) mod 2 ^ 32" by (simp add: unat_word_ariths)
  moreover have "(unat r + unat n) mod 2 ^ 32 mod 64 = (unat r + unat n) mod (64 :: nat)" by (intro mod_mod_cancel) simp
  ultimately show ?thesis by (simp add: dq_slot_def mod_simps)
qed

lemma dq_room_iff: "dq_inv q \<Longrightarrow> daemon_queue_room q \<longleftrightarrow> length (dq_abs q) < 64"
  by (simp add: daemon_queue_room_def word_less_nat_alt)

lemma dq_push_step:
  assumes inv: "dq_inv q"
  shows "dq_inv (snd (daemon_queue_push q x)) \<and>
    (if length (dq_abs q) = 64 then fst (daemon_queue_push q x) = False \<and> snd (daemon_queue_push q x) = q
     else fst (daemon_queue_push q x) \<and> dq_abs (snd (daemon_queue_push q x)) = dq_abs q @ [x])"
proof (cases "dq_write q - dq_read q = 64")
  case True
  then show ?thesis using inv by (simp add: daemon_queue_push_def)
next
  case False
  let ?n = "unat (dq_write q - dq_read q)"
  have n: "?n < 64" using False inv by (auto simp: dq_inv_def word_unat_eq_iff nat_less_le)
  have d: "dq_write q + 1 - dq_read q = (dq_write q - dq_read q) + 1" by simp
  have n1: "unat (dq_write q + 1 - dq_read q) = Suc ?n"
    unfolding d using n by (subst unat_word_ariths) simp
  have "dq_slot (dq_write q) = (dq_slot (dq_read q) + ?n) mod 64"
    using dq_slot_add [of "dq_read q" "dq_write q - dq_read q"] by simp
  then have "dq_abs (snd (daemon_queue_push q x)) = dq_abs q @ [x]"
    using ring_list_push [of ?n "dq_entries q" "dq_slot (dq_read q)" x] inv n False n1
    by (simp add: daemon_queue_push_def dq_abs_def dq_inv_def Let_def)
  then show ?thesis using False inv n n1 by (simp add: daemon_queue_push_def dq_inv_def Let_def)
qed

lemma dq_pop_step:
  assumes inv: "dq_inv q"
  shows "dq_inv (snd (daemon_queue_pop q)) \<and>
    (case dq_abs q of [] \<Rightarrow> daemon_queue_pop q = (None, q)
     | y # ys \<Rightarrow> fst (daemon_queue_pop q) = Some y \<and> dq_abs (snd (daemon_queue_pop q)) = ys)"
proof (cases "dq_read q = dq_write q")
  case True
  then have "dq_abs q = []" by (simp add: dq_abs_def)
  then show ?thesis using inv True by (simp add: daemon_queue_pop_def)
next
  case False
  let ?n = "unat (dq_write q - dq_read q)"
  have n: "0 < ?n" using False by (simp add: unat_gt_0)
  have d: "dq_write q - (dq_read q + 1) = (dq_write q - dq_read q) - 1" by simp
  have n1: "unat (dq_write q - (dq_read q + 1)) = ?n - 1"
    unfolding d using n by (simp add: unat_minus_one unat_gt_0)
  have "dq_slot (dq_read q) < length (dq_entries q)" using inv by (simp add: dq_slot_def dq_inv_def)
  then have "dq_abs q = dq_entries q ! dq_slot (dq_read q) # dq_abs (snd (daemon_queue_pop q))"
    using ring_list_pop [of ?n "dq_slot (dq_read q)" "dq_entries q"] n inv False n1 dq_slot_add [of "dq_read q" 1]
    by (simp add: daemon_queue_pop_def dq_abs_def dq_inv_def Let_def)
  moreover have "dq_inv (snd (daemon_queue_pop q))"
    using inv False n1 by (simp add: daemon_queue_pop_def dq_inv_def Let_def) linarith
  ultimately show ?thesis using False by (simp add: daemon_queue_pop_def Let_def)
qed

interpretation dq: refinement dq_inv dq_abs dq_step dq_spec
proof
  fix q :: "'a daemon_queue" and x
  assume inv: "dq_inv q"
  have "dq_inv (snd (dq_step x q)) \<and> dq_spec x (dq_abs q) = (fst (dq_step x q), dq_abs (snd (dq_step x q)))"
  proof (cases x)
    case (DQ_Push y)
    then show ?thesis using dq_push_step [OF inv, of y] by (cases "daemon_queue_push q y") (auto split: if_splits)
  next
    case DQ_Pop
    then show ?thesis using dq_pop_step [OF inv] by (cases "daemon_queue_pop q") (auto split: list.splits)
  qed
  then show "dq_inv (snd (dq_step x q))"
    and "dq_spec x (dq_abs q) = (fst (dq_step x q), dq_abs (snd (dq_step x q)))" by blast+
qed

end
