(* ===== verification/Dispatch.thy ===== *)
theory Dispatch
  imports Dataplane Ipc Daemon_Queue
begin

text \<open>
  The worker's side of the IPC: \<^verbatim>\<open>src/daemon/dispatch.c\<close>.  A request names a core socket and its
  owner (the session of the client); a response carries the result as a signed 32-bit word.
\<close>

record daemon_item =
  di_owner :: u64
  di_message :: ipc_message

definition res_rc :: "rc \<Rightarrow> i32" where
  "res_rc rc = of_int (int_of_rc rc)"

definition res_err :: "errno \<Rightarrow> i32" where
  "res_err e = of_int (- errno_code e)"

definition res_len :: "errno + nat \<Rightarrow> i32" where
  "res_len r = (case r of Inl e \<Rightarrow> res_err e | Inr n \<Rightarrow> of_nat n)"

definition res_fd :: "errno + int \<Rightarrow> i32" where
  "res_fd r = (case r of Inl e \<Rightarrow> res_err e | Inr n \<Rightarrow> of_int n)"

subsection \<open>Batches\<close>

text \<open>The datagrams of a batch: destination, offset and length of each, and the bytes used.\<close>

fun decode_batch :: "u8 list \<Rightarrow> nat \<Rightarrow> nat \<Rightarrow> nat \<Rightarrow> ((ps_sockaddr \<times> nat \<times> nat) list \<times> nat) option" where
  "decode_batch bytes len 0 used = Some ([], used)"
| "decode_batch bytes len (Suc n) used =
     (case ipc_datagram_decode (drop used bytes) (len - used) of
        Inl e \<Rightarrow> None
      | Inr (addr, sz) \<Rightarrow>
          (case decode_batch bytes len n (used + IPC_DGRAM_HEADER + unat sz) of
             None \<Rightarrow> None
           | Some (rest, stop) \<Rightarrow> Some ((addr, used + IPC_DGRAM_HEADER, unat sz) # rest, stop)))"

fun send_each ::
    "('d, 'x) dpdk_scheme \<Rightarrow> int \<Rightarrow> u8 list \<Rightarrow> (ps_sockaddr \<times> nat \<times> nat) list \<Rightarrow> nat \<Rightarrow> i32 \<Rightarrow> 'd app_runtime
       \<Rightarrow> (i32 \<times> 'd app_runtime) option" where
  "send_each D fd bytes [] i result rt = Some (result, rt)"
| "send_each D fd bytes ((addr, off, len) # rest) i result rt = do {
     (n, rt) \<leftarrow> core_sendto D fd (take len (drop off bytes)) (Some addr) rt;
     case n of
       Inl e \<Rightarrow> Some (if i \<noteq> 0 then of_nat i else res_err e, rt)
     | Inr _ \<Rightarrow> send_each D fd bytes rest (i + 1) (of_nat (i + 1)) rt
   }"

definition send_batch ::
    "('d, 'x) dpdk_scheme \<Rightarrow> ipc_message \<Rightarrow> ipc_message \<Rightarrow> 'd app_runtime \<Rightarrow> (ipc_message \<times> 'd app_runtime) option" where
  "send_batch D msg reply rt =
     (case decode_batch (im_data msg) (unat (im_length msg)) (nat (sint (im_a msg))) 0 of
        None \<Rightarrow> Some (reply\<lparr>im_result := res_err EINVAL\<rparr>, rt)
      | Some (datagrams, used) \<Rightarrow>
          if used \<noteq> unat (im_length msg) then Some (reply\<lparr>im_result := res_err EINVAL\<rparr>, rt)
          else do {
            (result, rt) \<leftarrow> send_each D (sint (im_fd msg)) (im_data msg) datagrams 0 (im_result reply) rt;
            Some (reply\<lparr>im_result := result\<rparr>, rt)
          })"

definition batch_capacity :: "u8 list \<Rightarrow> nat \<Rightarrow> nat" where
  "batch_capacity bytes i = unat (ntohl (load32 bytes (i * 4)))"

text \<open>The receive loop, for the capacities still to serve.\<close>

fun recv_each ::
    "int \<Rightarrow> nat list \<Rightarrow> nat \<Rightarrow> ipc_message \<Rightarrow> 'd app_runtime \<Rightarrow> ipc_message \<times> 'd app_runtime" where
  "recv_each fd [] i reply rt = (reply, rt)"
| "recv_each fd (capacity # rest) i reply rt =
     (let len = unat (im_length reply) in
      if IPC_PAYLOAD_MAX - len < IPC_DGRAM_HEADER then (reply, rt)
      else let available = IPC_PAYLOAD_MAX - len - IPC_DGRAM_HEADER in
        case core_recvfrom rt fd (if capacity < available then capacity else available) of
          (Inl e, rt) \<Rightarrow> (if i = 0 then reply\<lparr>im_result := res_err e\<rparr> else reply, rt)
        | (Inr (source, bytes), rt) \<Rightarrow>
            recv_each fd rest (i + 1)
              (reply\<lparr>im_data := memcpy_at (memcpy_at (im_data reply) (len + IPC_DGRAM_HEADER) bytes) len
                                (ipc_datagram_encode source (of_nat (length bytes))),
                     im_length := im_length reply + of_nat (IPC_DGRAM_HEADER + length bytes),
                     im_result := of_nat (i + 1)\<rparr>) rt)"

definition receive_batch :: "ipc_message \<Rightarrow> ipc_message \<Rightarrow> 'd app_runtime \<Rightarrow> ipc_message \<times> 'd app_runtime" where
  "receive_batch msg reply rt =
     (let capacities = map (batch_capacity (im_data msg)) [0..<nat (sint (im_a msg))] in
      if \<exists>c\<in>set capacities. c > PS_DGRAM_MAX_PAYLOAD then (reply\<lparr>im_result := res_err EINVAL\<rparr>, rt)
      else recv_each (sint (im_fd msg)) capacities 0 reply rt)"

subsection \<open>Requests\<close>

definition cleanup_socket ::
    "('d, 'x) dpdk_scheme \<Rightarrow> u64 \<Rightarrow> nat \<Rightarrow> 'd app_runtime \<Rightarrow> 'd app_runtime option" where
  "cleanup_socket D owner i rt =
     (let s = sock rt i in
      if se_allocated s \<and> se_open s \<and> se_owner s = owner then map_option snd (core_close D (se_fd s) rt)
      else Some rt)"

definition set_data :: "u8 list \<Rightarrow> ipc_message \<Rightarrow> ipc_message" where
  "set_data bytes reply = reply\<lparr>im_data := memcpy_at (im_data reply) 0 bytes,
     im_result := of_nat (length bytes), im_length := of_nat (length bytes)\<rparr>"

text \<open>The operations on a socket that the owner has open.\<close>

definition dispatch_operation ::
    "('d, 'x) dpdk_scheme \<Rightarrow> ipc_message \<Rightarrow> ipc_message \<Rightarrow> 'd app_runtime \<Rightarrow> (ipc_message \<times> 'd app_runtime) option" where
  "dispatch_operation D msg reply rt =
     (let op = im_op msg; fd = sint (im_fd msg); payload = take (unat (im_length msg)) (im_data msg);
          with_rc = map_option (\<lambda>(rc, rt). (reply\<lparr>im_result := res_rc rc\<rparr>, rt));
          with_len = map_option (\<lambda>(n, rt). (reply\<lparr>im_result := res_len n\<rparr>, rt))
      in if op = IPC_BIND then with_rc (Some (core_bind rt fd (Some (im_addr msg))))
         else if op = IPC_CONNECT then with_rc (core_connect D fd (Some (im_addr msg)) rt)
         else if op = IPC_LISTEN then with_rc (Some (core_listen rt fd (sint (im_a msg))))
         else if op = IPC_ACCEPT then
           Some (case core_accept rt fd of
             (Inl e, rt) \<Rightarrow> (reply\<lparr>im_result := res_err e\<rparr>, rt)
           | (Inr (child, peer), rt) \<Rightarrow> (reply\<lparr>im_result := of_int child, im_addr := peer\<rparr>, rt))
         else if op = IPC_CLOSE then with_rc (core_close D fd rt)
         else if op = IPC_SEND then with_len (core_send D fd payload rt)
         else if op = IPC_SENDTO then with_len (core_sendto D fd payload (Some (im_addr msg)) rt)
         else if op = IPC_RECV then
           map_option (\<lambda>(r, rt). case r of Inl e \<Rightarrow> (reply\<lparr>im_result := res_err e\<rparr>, rt)
               | Inr bytes \<Rightarrow> (set_data bytes reply, rt))
             (core_recv D fd (nat (sint (im_a msg))) rt)
         else if op = IPC_RECVFROM then
           Some (case core_recvfrom rt fd (nat (sint (im_a msg))) of
             (Inl e, rt) \<Rightarrow> (reply\<lparr>im_result := res_err e\<rparr>, rt)
           | (Inr (source, bytes), rt) \<Rightarrow> ((set_data bytes reply)\<lparr>im_addr := source\<rparr>, rt))
         else if op = IPC_SENDMMSG then send_batch D msg reply rt
         else if op = IPC_RECVMMSG then Some (receive_batch msg reply rt)
         else Some (reply, rt))"

definition daemon_dispatch ::
    "('d, 'x) dpdk_scheme \<Rightarrow> daemon_item \<Rightarrow> 'd app_runtime \<Rightarrow> (daemon_item \<times> 'd app_runtime) option" where
  "daemon_dispatch D request rt =
     (let msg = di_message request; owner = di_owner request;
          reply = zero_message\<lparr>im_op := im_op msg, im_id := im_id msg, im_fd := im_fd msg,
                    im_result := res_err EOPNOTSUPP\<rparr>;
          respond = (\<lambda>reply. \<lparr>di_owner = owner, di_message = reply\<rparr>);
          refuse = (\<lambda>e. Some (respond (reply\<lparr>im_result := res_err e\<rparr>), rt))
      in if owner = 0 then refuse EINVAL
         else if im_op msg = IPC_CLEANUP then do {
           rt \<leftarrow> for_each (cleanup_socket D owner) [0..<ss_capacity (rt_sockets rt)] rt;
           Some (respond (reply\<lparr>im_result := 0\<rparr>), rt)
         }
         else if \<not> ipc_request_valid msg then refuse EINVAL
         else if im_op msg = IPC_SOCKET then
           (case core_socket rt (sint (im_a msg)) (sint (im_b msg)) (sint (im_c msg)) of
              (Inl e, rt) \<Rightarrow> Some (respond (reply\<lparr>im_result := res_err e\<rparr>), rt)
            | (Inr fd, rt) \<Rightarrow> do {
                i \<leftarrow> socket_lookup rt fd;
                Some (respond (reply\<lparr>im_result := of_int fd\<rparr>), set_sock i ((sock rt i)\<lparr>se_owner := owner\<rparr>) rt)
              })
         else case socket_lookup rt (sint (im_fd msg)) of
           None \<Rightarrow> refuse EBADF
         | Some i \<Rightarrow>
             if \<not> se_open (sock rt i) \<or> se_owner (sock rt i) \<noteq> owner then refuse EBADF
             else if (im_op msg = IPC_SENDMMSG \<or> im_op msg = IPC_RECVMMSG) \<and> se_type (sock rt i) \<noteq> PS_SOCK_DGRAM
             then refuse EOPNOTSUPP
             else do {
               (reply, rt) \<leftarrow> dispatch_operation D msg reply rt;
               Some (respond reply, rt)
             })"

subsection \<open>The service\<close>

record daemon_handle =
  dh_local :: int
  dh_core :: int

record daemon_client =
  cl_fd :: int
  cl_pidfd :: int
  cl_dead :: bool
  cl_pending :: bool
  cl_cleanup :: bool
  cl_hello :: bool
  cl_next_handle :: int
  cl_owner :: u64
  cl_last_id :: u32
  cl_have :: nat
  cl_target :: nat
  cl_sent :: nat
  cl_output_length :: nat
  cl_input :: ipc_message
  cl_header :: "u8 list"
  cl_output :: "u8 list"
  cl_handles :: "daemon_handle list"

record daemon_identity =
  id_owner :: u64
  id_pid :: int
  id_uid :: int

record daemon_service =
  ds_requests :: "daemon_item daemon_queue"
  ds_responses :: "daemon_item daemon_queue"
  ds_stopping :: bool
  ds_failed :: bool
  ds_max_clients :: nat
  ds_max_sockets :: nat
  ds_next_owner :: u64
  ds_clients :: "daemon_client list"
  ds_identities :: "daemon_identity list"

text \<open>
  \<open>daemon_progress\<close> serves at most 16 requests.  The last argument of the loop is the number of
  iterations left; a push into a full ring would be ignored, as in the code.
\<close>

fun progress_loop ::
    "('d, 'x) dpdk_scheme \<Rightarrow> nat \<Rightarrow> daemon_service \<Rightarrow> 'd app_runtime \<Rightarrow> (nat \<times> daemon_service \<times> 'd app_runtime) option" where
  "progress_loop D 0 service rt = Some (0, service, rt)"
| "progress_loop D (Suc n) service rt =
     (if \<not> daemon_queue_room (ds_responses service) then Some (0, service, rt)
      else case daemon_queue_pop (ds_requests service) of
        (None, _) \<Rightarrow> Some (0, service, rt)
      | (Some request, requests) \<Rightarrow> do {
          (response, rt) \<leftarrow> daemon_dispatch D request rt;
          let service = service\<lparr>ds_requests := requests,
                ds_responses := snd (daemon_queue_push (ds_responses service) response)\<rparr>;
          (count, service, rt) \<leftarrow> progress_loop D n service rt;
          Some (Suc count, service, rt)
        })"

text \<open>\<open>notify_failed\<close>: whether the write to the event descriptor failed with an error other than \<open>EAGAIN\<close>.\<close>

definition daemon_progress ::
    "('d, 'x) dpdk_scheme \<Rightarrow> bool \<Rightarrow> daemon_service \<Rightarrow> 'd app_runtime \<Rightarrow> (nat \<times> daemon_service \<times> 'd app_runtime) option" where
  "daemon_progress D notify_failed service rt = do {
     (count, service, rt) \<leftarrow> progress_loop D 16 service rt;
     Some (count, if count \<noteq> 0 \<and> notify_failed then service\<lparr>ds_failed := True\<rparr> else service, rt)
   }"

end
