(* ===== verification/Loopback.thy ===== *)
theory Loopback
  imports Packet
begin

text \<open>
  A DPDK whose device is empty: buffers are lists of bytes, the clock ticks at each reading, nothing
  is received and every packet is sent.  It satisfies the documented behaviour that the theorems
  assume, and is the instance at which their witnesses evaluate them.
\<close>

definition fresh_mbuf :: rte_mbuf where
  "fresh_mbuf = \<lparr>mb_data = [], mb_pkt_len = 0, mb_headroom = 128, mb_tailroom = 2048, mb_segs = 1,
     mb_direct = True, mb_refcnt = 1\<rparr>"

definition loopback :: "nat dpdk" where
  "loopback = \<lparr>d_timer_hz = 1000, d_timer_cycles = (\<lambda>d. (of_nat d, d + 1)), d_rand = (\<lambda>d. (of_nat d, d)),
     d_mbuf_alloc = (\<lambda>d. (Some fresh_mbuf, d)), d_mbuf_free = (\<lambda>m d. d),
     d_append = (\<lambda>m n. if mb_tailroom m < n then None else
        Some (m\<lparr>mb_pkt_len := mb_pkt_len m + n, mb_data := mb_data m @ replicate n 0, mb_tailroom := mb_tailroom m - n\<rparr>)),
     d_prepend = (\<lambda>m n. if mb_headroom m < n then None else
        Some (m\<lparr>mb_pkt_len := mb_pkt_len m + n, mb_data := replicate n 0 @ mb_data m, mb_headroom := mb_headroom m - n\<rparr>)),
     d_adj = (\<lambda>m n. m\<lparr>mb_pkt_len := mb_pkt_len m - n, mb_data := drop n (mb_data m)\<rparr>),
     d_trim = (\<lambda>m n. m\<lparr>mb_pkt_len := mb_pkt_len m - n, mb_data := take (length (mb_data m) - n) (mb_data m)\<rparr>),
     d_valid_mac = (\<lambda>a. a \<noteq> replicate 6 0 \<and> \<not> odd (unat (a ! 0))), d_multicast_mac = (\<lambda>a. odd (unat (a ! 0))),
     d_broadcast_mac = (\<lambda>a. a = replicate 6 0xff),
     d_raw_cksum = (\<lambda>_. 0xffff), d_ipv4_cksum = (\<lambda>_. 0), d_phdr_cksum = (\<lambda>_. 0), d_udptcp_cksum = (\<lambda>_ _. 0),
     d_tx_burst = (\<lambda>_ ms d. (length ms, d)), d_rx_burst = (\<lambda>_ _ d. ([], d))\<rparr>"

lemma loopback_ok [simp]: "dpdk_ok loopback"
  by (simp add: dpdk_ok_def dpdk_append_ok_def dpdk_prepend_ok_def dpdk_adj_ok_def dpdk_trim_ok_def dpdk_alloc_ok_def
      dpdk_burst_ok_def mbuf_like_def loopback_def fresh_mbuf_def)

end
