(* ===== verification/Graph_Safety.thy ===== *)
theory Graph_Safety
  imports Node_Safety Dispatch Loopback
begin

text \<open>
  The dataplane as a whole: the scheduler and the nodes satisfy each other's contracts, so a submitted
  frame is always processed to the end, no matter what the packets contain; every operation of the
  socket interface, every request of a client and every polling step is defined, ends, and leaves the
  runtime well formed and the graph at rest.
\<close>

subsection \<open>The contracts of the scheduler and of the senders\<close>

interpretation output_nodes: node_table D "node_run D" "packet_ok ids" "\<lambda>rt. device_ok D \<and> rt_wf ids rt \<and> rt_sockets rt = ss \<and> rt_network rt = net" 4
  for D :: "('d, 'x) dpdk_scheme" and ids ss net
proof unfold_locales
  fix rt rt' :: "'d app_runtime" and n held old frame
  assume i: "device_ok D \<and> rt_wf ids rt \<and> rt_sockets rt = ss \<and> rt_network rt = net"
  show "device_ok D \<and> rt_wf ids rt' \<and> rt_sockets rt' = ss \<and> rt_network rt' = net" if "graph_effect rt rt'"
    using i that rt_wf_effect [of ids rt rt'] by (simp add: graph_effect_def)
  show "ok (node_run D n frame rt) (\<lambda>rt'. in_node (packet_ok ids) (rank n) held old rt' \<and> device_ok D \<and> rt_wf ids rt' \<and> rt_sockets rt' = ss \<and> rt_network rt' = net)"
    if "rank n \<le> 4" "in_node (packet_ok ids) (rank n) held old rt"
    by (rule ok_mono [OF node_run_sent [OF _ that(1)]]) (use i that(2) in \<open>auto simp: kept_def running_def sent_def\<close>)
qed

interpretation all_nodes: node_table D "node_run D" "packet_ok ids" "\<lambda>rt. device_ok D \<and> rt_wf ids rt \<and> rt_network rt = net" 8
  for D :: "('d, 'x) dpdk_scheme" and ids net
proof unfold_locales
  fix rt rt' :: "'d app_runtime" and n held old frame
  assume i: "device_ok D \<and> rt_wf ids rt \<and> rt_network rt = net"
  show "device_ok D \<and> rt_wf ids rt' \<and> rt_network rt' = net" if "graph_effect rt rt'"
    using i that rt_wf_effect [of ids rt rt'] by (simp add: graph_effect_def)
  show "ok (node_run D n frame rt) (\<lambda>rt'. in_node (packet_ok ids) (rank n) held old rt' \<and> device_ok D \<and> rt_wf ids rt' \<and> rt_network rt' = net)"
    if "in_node (packet_ok ids) (rank n) held old rt" "\<forall>p\<in>set frame. packet_ok ids n p"
    by (rule ok_mono [OF node_run_kept [OF _ that(2)]]) (use i that(1) in \<open>auto simp: kept_def running_def\<close>)
qed

text \<open>Between operations no node is running and no frame is queued.\<close>

definition idle :: "('d, 'x) dpdk_scheme \<Rightarrow> u16 set \<Rightarrow> net_config option \<Rightarrow> 'd app_runtime \<Rightarrow> bool" where
  "idle D ids net rt \<longleftrightarrow> device_ok D \<and> at_rest (packet_ok ids) rt \<and> qnodes (rt_graph rt) = [] \<and> rt_network rt = net"

interpretation api: sender D "submit_graph D" ids "idle D ids net" 5
  for D :: "('d, 'x) dpdk_scheme" and ids net
proof unfold_locales
  fix rt rt' :: "'d app_runtime" and n frame m ctx
  assume i: "idle D ids net rt"
  then show "device_ok D" by (simp add: idle_def)
  show "idle D ids net rt'" if "same_pool (rt_graph rt) (rt_graph rt')" "rt_active_output rt' = rt_active_output rt" "rt_network rt' = rt_network rt"
    using i that by (simp add: idle_def at_rest_def graph_inv_same [OF that(1)] qnodes_same [OF that(1)])
  show "ok (enqueue D n m ctx rt) (\<lambda>(b, rt'). idle D ids net rt' \<and> graph_effect rt rt')" if "rt_active_output rt \<noteq> None"
    using i that by (simp add: idle_def at_rest_def)
  show "ok (submit_graph D n frame rt) (sent (idle D ids net) ids rt)" if "rt_wf ids rt" "rank n \<le> 4"
    unfolding submit_graph_def graph_submit_def ok_map
    by (rule ok_mono [OF output_nodes.graph_submit_ok [of ids rt D "rt_sockets rt" net n frame]])
      (use i that packet_ok_output in \<open>auto simp: idle_def sent_def\<close>)
qed

abbreviation ready :: "('d, 'x) dpdk_scheme \<Rightarrow> u16 set \<Rightarrow> net_config option \<Rightarrow> 'd app_runtime \<Rightarrow> bool" where
  "ready D ids net \<equiv> kept (idle D ids net) ids"

lemma graph_submit_ready:
  assumes "ready D ids net rt" "\<forall>p\<in>set frame. packet_ok ids n p"
  shows "ok (graph_submit D n frame rt) (\<lambda>r. (fst r \<longleftrightarrow> length frame \<le> GRAPH_FRAME_SIZE) \<and> ready D ids net (snd r))"
proof -
  have "rank n \<le> 8" by (cases n) simp_all
  then show ?thesis
    unfolding graph_submit_def
    by (intro ok_mono [OF all_nodes.graph_submit_ok [of ids rt D net n frame]]) (use assms in \<open>auto simp: kept_def idle_def\<close>)
qed


subsection \<open>The socket interface\<close>

lemma get_less: "get rt fd = Some i \<Longrightarrow> i < 256"
  by (auto simp: get_def socket_lookup_def fd_slot_def Let_def split: option.splits if_splits)

lemma udp_recv_inv: "udp_inv ep \<Longrightarrow> udp_inv (snd (udp_recv ep len))"
  using udp_recv_step [of ep len] by (auto split: prod.splits sum.splits)

lemma core_socket_ready: "ready D ids net rt \<Longrightarrow> ready D ids net (snd (core_socket rt domain ty protocol))"
  using api.safe_allocate(1) [of D ids net rt "of_int ty"]
  by (auto simp: core_socket_def split: prod.split option.split)

lemma socket_bind_ready: "ready D ids net rt \<Longrightarrow> ready D ids net (snd (socket_bind rt i addr))"
  using api.safe_active_bind(1) [of D ids net rt i addr] by (metis prod.collapse)

lemma core_bind_ready: "ready D ids net rt \<Longrightarrow> ready D ids net (snd (core_bind rt fd addr))"
  by (simp add: core_bind_def socket_bind_ready split: option.split)

lemma core_close_ready:
  assumes "ready D ids net rt"
  shows "ok (core_close D fd rt) (\<lambda>r. ready D ids net (snd r))"
proof -
  have "ok (tcp_close D (submit_graph D) i now (snd (rte_get_timer_cycles D rt))) (ready D ids net)" if "get rt fd = Some i" for i now
    by (rule api.tcp_close_safe [OF api.safe_clock [OF assms] _ get_less [OF that]]) simp
  moreover have "ready D ids net (set_sock i zero_socket rt)" for i by (simp add: api.safe_set_sock [OF assms])
  ultimately show ?thesis by (simp add: core_close_def assms case_prod_beta split: option.split)
qed

lemma udp_send_ready:
  assumes "ready D ids net rt"
  shows "ok (udp_send D i payload destination rt) (\<lambda>r. ready D ids net (snd r))"
proof -
  have wf: "rt_wf ids rt" and idle: "idle D ids net rt" using assms by (simp_all add: kept_def)
  note s = kept_sent [OF assms]
  obtain reason route where q: "route_query rt (sa_ip_be destination) (sa_ip_be (se_local (sock rt i))) NET_IIF_NONE = Some (reason, route)"
    using route_query_ok [OF rt_wfD(2) [OF wf]] unfolding ok_iff by fast
  obtain r d where a: "d_mbuf_alloc D (rt_dev rt) = (r, d)" by fastforce
  have sd: "sent (idle D ids net) ids rt (rt\<lparr>rt_dev := d\<rparr>)" by (rule api.sent_stats [OF s])
  have fail: "ready D ids net (snd (send_failure x e rt'))" if "sent (idle D ids net) ids rt rt'" for x e rt'
    using sent_kept [OF api.sent_stats(5) [OF api.sent_stats(4) [OF api.sent_stats(3) [OF that]]]] by (simp add: send_failure_def)
  have go: "ok (do { m' \<leftarrow> wr_bytes m' (data_len m) payload; let a = rt_accepted_sends rt;
      (_, rt) \<leftarrow> graph_submit D NODE_IPV4_ROUTE [(m', ctx)] rt;
      Some (if rt_accepted_sends rt \<noteq> a then Inr (length payload) else Inl EIO, rt) }) (\<lambda>r. ready D ids net (snd r))"
    if "r = Some m" "d_append D m (length payload) = Some m'" "rt = rt0\<lparr>rt_dev := d\<rparr>" "ready D ids net rt" for m m' ctx rt rt0
  proof -
    have m: "mb_data m = []" "mb_pkt_len m = 0"
      using api.device [OF idle] a that(1) unfolding device_ok_def dpdk_ok_def dpdk_alloc_ok_def by blast+
    note ap = api.append_data [OF idle that(2)]
    have len: "length (memcpy_at (mb_data m') (data_len m) payload) = data_len m'" using ap by simp
    have "ok (graph_submit D NODE_IPV4_ROUTE [(m'\<lparr>mb_data := memcpy_at (mb_data m') (data_len m) payload\<rparr>, ctx)] rt)
        (\<lambda>r. ready D ids net (snd r))"
      by (rule ok_mono [OF graph_submit_ready [OF that(4)]]) (use ap m len in simp_all)
    then show ?thesis
      using ap by (simp add: wr_bytes_Some Let_def) (erule ok_bindI, auto)
  qed
  show ?thesis
    unfolding udp_send_def Let_def q rte_pktmbuf_alloc_def a
    using fail [OF s] fail [OF sd] fail [OF api.sent_stats(6) [OF sd]] go [OF _ _ refl sent_kept [OF sd], unfolded Let_def]
    by (auto split: option.split)
qed

lemma bind_on_demand_ready: "ready D ids net rt \<Longrightarrow> ready D ids net (snd (bind_on_demand i rt))"
  by (simp add: bind_on_demand_def socket_bind_ready)

lemma core_sendto_ready:
  assumes "ready D ids net rt"
  shows "ok (core_sendto D fd buf dst rt) (\<lambda>r. ready D ids net (snd r))"
proof -
  have "ok (case bind_on_demand i rt of (Some e, rt) \<Rightarrow> Some (Inl e, rt) | (None, rt) \<Rightarrow> udp_send D i buf addr rt)
      (\<lambda>r. ready D ids net (snd r))" for i addr
    using bind_on_demand_ready [OF assms, of i] udp_send_ready by (cases "bind_on_demand i rt") (auto split: option.split)
  then show ?thesis using assms by (simp add: core_sendto_def split: option.split)
qed

lemma core_recvfrom_ready:
  assumes "ready D ids net rt"
  shows "ready D ids net (snd (core_recvfrom rt fd len))"
proof -
  have "ready D ids net (set_sock i ((sock rt i)\<lparr>se_udp := snd (udp_recv (se_udp (sock rt i)) len)\<rparr>) rt)" for i
    by (rule api.safe_set_sock [OF assms]) (use api.safe_entry [OF assms] in \<open>simp add: entry_wf_def udp_recv_inv\<close>)
  then show ?thesis by (simp add: core_recvfrom_def assms case_prod_beta split: option.split)
qed

lemma core_connect_ready:
  assumes "ready D ids net rt"
  shows "ok (core_connect D fd addr rt) (\<lambda>r. ready D ids net (snd r))"
proof -
  have tcp: "ok (tcp_connect D (submit_graph D) i a rt) (\<lambda>r. ready D ids net (snd r))" if "get rt fd = Some i" for i a
    by (rule api.tcp_connect_safe [OF assms _ get_less [OF that]]) simp
  have "ready D ids net (set_sock i ((sock rt' i)\<lparr>se_remote := a\<rparr>) rt')" if "ready D ids net rt'" for i a rt'
    by (rule api.safe_set_sock [OF that]) (use api.safe_entry [OF that] in \<open>simp add: entry_wf_def\<close>)
  then have "ok (case bind_on_demand i rt of (Some e, rt) \<Rightarrow> Some (Some e, rt)
      | (None, rt) \<Rightarrow> Some (None, set_sock i ((sock rt i)\<lparr>se_remote := a\<rparr>) rt)) (\<lambda>r. ready D ids net (snd r))" for i a
    using bind_on_demand_ready [OF assms, of i] by (cases "bind_on_demand i rt") (auto split: option.split)
  then show ?thesis using assms tcp by (simp add: core_connect_def split: option.split)
qed

lemma core_listen_ready: "ready D ids net rt \<Longrightarrow> ready D ids net (snd (core_listen rt fd backlog))"
  by (simp add: core_listen_def Let_def api.tcp_listen_safe split: option.split)

lemma core_accept_ready: "ready D ids net rt \<Longrightarrow> ready D ids net (snd (core_accept rt fd))"
  by (simp add: core_accept_def api.tcp_accept_safe split: option.split)

lemma core_send_ready:
  assumes "ready D ids net rt"
  shows "ok (core_send D fd buf rt) (\<lambda>r. ready D ids net (snd r))"
proof -
  have "ok (tcp_send D (submit_graph D) i buf rt) (\<lambda>r. ready D ids net (snd r))" if "get rt fd = Some i" for i
    by (rule api.tcp_send_safe [OF assms _ get_less [OF that]]) simp
  then show ?thesis using assms core_sendto_ready [OF assms] by (simp add: core_send_def split: option.split)
qed

lemma core_recv_ready:
  assumes "ready D ids net rt"
  shows "ok (core_recv D fd len rt) (\<lambda>r. ready D ids net (snd r))"
proof -
  have "ok (tcp_recv D (submit_graph D) i len rt) (\<lambda>r. ready D ids net (snd r))" if "get rt fd = Some i" for i
    by (rule api.tcp_recv_safe [OF assms _ get_less [OF that]]) simp
  then show ?thesis
    using assms core_recvfrom_ready [OF assms, of fd len] by (auto simp: core_recv_def split: option.split prod.split sum.split)
qed

subsection \<open>Requests of the clients\<close>

lemma send_each_ready:
  "ready D ids net rt \<Longrightarrow> ok (send_each D fd bytes ds i result rt) (\<lambda>r. ready D ids net (snd r))"
proof (induction ds arbitrary: i result rt)
  case (Cons d ds)
  obtain addr off len where d: "d = (addr, off, len)" by (cases d)
  show ?case
    unfolding d send_each.simps
    by (rule ok_bindI [OF core_sendto_ready [OF Cons.prems]]) (auto split: sum.split intro: Cons.IH)
qed simp

lemma recv_each_ready: "ready D ids net rt \<Longrightarrow> ready D ids net (snd (recv_each fd cs i reply rt))"
proof (induction cs arbitrary: i reply rt)
  case (Cons c cs)
  have "ready D ids net (snd (core_recvfrom rt fd len))" for len by (rule core_recvfrom_ready [OF Cons.prems])
  then show ?case
    using Cons by (auto simp: Let_def split: prod.split sum.split) (metis snd_conv)+
qed simp

lemma dispatch_operation_ready:
  assumes "ready D ids net rt"
  shows "ok (dispatch_operation D msg reply rt) (\<lambda>r. ready D ids net (snd r))"
proof -
  have batch: "ok (send_batch D msg reply rt) (\<lambda>r. ready D ids net (snd r))"
    using send_each_ready [OF assms] assms
    by (auto simp: send_batch_def split: option.split intro!: ok_bindI [OF send_each_ready [OF assms]])
  have recv: "ok (map_option (\<lambda>(r, rt). case r of Inl e \<Rightarrow> (f e, rt) | Inr bytes \<Rightarrow> (g bytes, rt)) (core_recv D fd n rt))
      (\<lambda>r. ready D ids net (snd r))" for f :: "errno \<Rightarrow> ipc_message" and g :: "u8 list \<Rightarrow> ipc_message" and fd n
    unfolding ok_map by (rule ok_mono [OF core_recv_ready [OF assms]]) (auto split: sum.split)
  have many: "ready D ids net (snd (receive_batch msg reply rt))"
    using assms by (simp add: receive_batch_def Let_def recv_each_ready)
  show ?thesis
    unfolding dispatch_operation_def Let_def
    by (intro ok_ifI batch recv)
      (simp_all add: assms core_bind_ready core_listen_ready core_accept_ready core_recvfrom_ready many case_prod_beta
        core_connect_ready core_close_ready core_send_ready core_sendto_ready split: sum.split)
qed

lemma cleanup_socket_ready: "ready D ids net rt \<Longrightarrow> ok (cleanup_socket D owner i rt) (ready D ids net)"
  using core_close_ready [of D ids net rt "se_fd (sock rt i)"] by (simp add: cleanup_socket_def Let_def)

lemma core_socket_lookup:
  assumes "ready D ids net rt" "core_socket rt domain ty protocol = (Inr fd, rt')"
  shows "socket_lookup rt' fd \<noteq> None"
proof -
  obtain i where a: "socket_allocate rt (of_int ty) = (Some i, rt')" "fd = se_fd (sock rt' i)"
    using assms(2) by (auto simp: core_socket_def split: if_splits prod.splits option.splits)
  have "sock_inv rt" using assms(1) by (intro sockets_wf_sock_inv rt_wfD(1) [of ids]) (simp add: kept_def)
  note b = sock_inv_allocate [OF this a(1)]
  show ?thesis using socket_lookup_fd [OF b(1), of i] b(2) [OF refl] b(5) a(2) by simp
qed

lemma daemon_dispatch_ready:
  assumes "ready D ids net rt"
  shows "ok (daemon_dispatch D request rt) (\<lambda>r. di_owner (fst r) = di_owner request \<and> ready D ids net (snd r))"
proof -
  have clean: "ok (for_each (cleanup_socket D owner) is rt) (ready D ids net)" for owner "is"
    by (rule for_each_ok [where I = "ready D ids net"]) (simp_all add: assms cleanup_socket_ready)
  have sock: "ok (case core_socket rt a b c of
        (Inl e, rt) \<Rightarrow> Some (\<lparr>di_owner = ow, di_message = f e\<rparr>, rt)
      | (Inr fd, rt) \<Rightarrow> do { i \<leftarrow> socket_lookup rt fd;
          Some (\<lparr>di_owner = ow, di_message = g fd\<rparr>, set_sock i ((sock rt i)\<lparr>se_owner := ow\<rparr>) rt) })
      (\<lambda>r. di_owner (fst r) = ow \<and> ready D ids net (snd r))" for a b c f g ow
  proof -
    obtain r rt' where r: "core_socket rt a b c = (r, rt')" by fastforce
    have k: "ready D ids net rt'" using core_socket_ready [OF assms, of a b c] by (simp add: r)
    have "ready D ids net (set_sock i ((sock rt' i)\<lparr>se_owner := ow\<rparr>) rt')" for i
      by (rule api.safe_set_sock [OF k]) (use api.safe_entry [OF k] in \<open>simp add: entry_wf_def\<close>)
    moreover have "socket_lookup rt' fd \<noteq> None" if "r = Inr fd" for fd
      using core_socket_lookup [OF assms] r that by blast
    ultimately show ?thesis using k by (auto simp: r split: sum.split)
  qed
  show ?thesis
    unfolding daemon_dispatch_def Let_def
    by (intro ok_ifI ok_bindI [OF clean] sock)
      (auto simp: assms split: option.split intro!: ok_bindI [OF dispatch_operation_ready [OF assms]])
qed

lemma progress_loop_ready:
  "ready D ids net rt \<Longrightarrow> ok (progress_loop D n service rt) (\<lambda>r. fst r \<le> n \<and> ready D ids net (snd (snd r)))"
proof (induction n arbitrary: service rt)
  case (Suc n)
  have step: "ok (do { (response, rt) \<leftarrow> daemon_dispatch D request rt;
      (count, service, rt) \<leftarrow> progress_loop D n (f response) rt; Some (Suc count, service, rt) })
      (\<lambda>r. fst r \<le> Suc n \<and> ready D ids net (snd (snd r)))" for request f
    by (rule ok_bindI [OF daemon_dispatch_ready [OF Suc.prems]])
      (auto intro!: ok_bindI [OF Suc.IH])
  then show ?case using Suc.prems by (simp add: Let_def split: prod.split option.split)
qed simp

subsection \<open>Polling\<close>

text \<open>A contiguous packet a device delivers has its bytes in its one segment; a burst is not longer than asked for.\<close>

definition dpdk_rx_ok :: "('d, 'x) dpdk_scheme \<Rightarrow> bool" where
  "dpdk_rx_ok D \<longleftrightarrow> (\<forall>port n d. length (fst (d_rx_burst D port n d)) \<le> n \<and>
     (\<forall>m\<in>set (fst (d_rx_burst D port n d)). contiguous m \<longrightarrow> mb_pkt_len m = data_len m))"

lemma poll_port_ready:
  assumes "dpdk_rx_ok D" "ready D ids net rt"
  shows "ok (poll_port D p (k, rt)) (\<lambda>r. ready D ids net (snd r))"
proof -
  obtain ms d where b: "d_rx_burst D (po_port_id (rt_ports rt ! p)) 64 (rt_dev rt) = (ms, d)" by fastforce
  have ms: "length ms \<le> 64" "\<forall>m\<in>set ms. contiguous m \<longrightarrow> mb_pkt_len m = data_len m"
    using assms(1) [unfolded dpdk_rx_ok_def, rule_format, of "po_port_id (rt_ports rt ! p)" 64 "rt_dev rt"] b by auto
  have up: "ready D ids net (upd_port p (\<lambda>q. q\<lparr>po_rx_packets := x q, po_rx_bytes := y q\<rparr>) (rt\<lparr>rt_dev := d\<rparr>))" for x y
  proof -
    have r: "ready D ids net (rt\<lparr>rt_dev := d\<rparr>)" by (rule api.safe_dev [OF assms(2)])
    then have "rt_wf ids (upd_port p (\<lambda>q. q\<lparr>po_rx_packets := x q, po_rx_bytes := y q\<rparr>) (rt\<lparr>rt_dev := d\<rparr>))"
      by (intro rt_wf_upd_port) (simp_all add: kept_def)
    moreover have "idle D ids net (upd_port p (\<lambda>q. q\<lparr>po_rx_packets := x q, po_rx_bytes := y q\<rparr>) (rt\<lparr>rt_dev := d\<rparr>))"
      by (rule api.C_cong [of D ids net "rt\<lparr>rt_dev := d\<rparr>"]) (use r in \<open>simp_all add: kept_def upd_port_def\<close>)
    ultimately show ?thesis by (simp add: kept_def)
  qed
  have sub: "ok (if ms \<noteq> [] then submit_graph D NODE_ETH_INPUT (map (\<lambda>m. (m, ctx)) ms) rt' else Some rt') (ready D ids net)"
    if "ready D ids net rt'" for ctx rt'
    using that ms(2) ok_mono [OF graph_submit_ready [OF that, of "map (\<lambda>m. (m, ctx)) ms" NODE_ETH_INPUT]]
    by (auto simp: submit_graph_def)
  show ?thesis
    unfolding poll_port_def prod.case Let_def b by (intro ok_ifI ok_bindI [OF sub [OF up]]) (simp_all add: assms(2))
qed

lemma app_step_ready:
  assumes "dpdk_rx_ok D" "ready D ids net rt"
  shows "ok (app_step D rt) (\<lambda>r. ready D ids net (snd r))"
proof -
  have "ok (for_each (poll_port D) ps (0, rt)) (\<lambda>r. ready D ids net (snd r))" for ps
    by (rule for_each_ok [where I = "\<lambda>r. ready D ids net (snd r)"]) (auto simp: assms(2) poll_port_ready [OF assms(1)])
  moreover have "ok (neighbour_tick D (submit_graph D) now rt') (ready D ids net)" if "ready D ids net rt'" for now rt'
    by (rule ok_mono [OF api.neighbour_tick_sent]) (use that in \<open>auto simp: kept_def sent_def\<close>)
  moreover have "ok (tcp_timer_progress D (submit_graph D) now rt') (ready D ids net)" if "ready D ids net rt'" for now rt'
    using that by (rule api.tcp_timer_progress_safe) simp
  ultimately show ?thesis
    unfolding app_step_def Let_def case_prod_beta
    by (intro ok_bindI [where R = "\<lambda>r. ready D ids net (snd r)"] ok_bindI [where R = "ready D ids net"])
      (auto intro: api.safe_clock)
qed

subsection \<open>A sample runtime\<close>

text \<open>Two ports, the sample configuration and a started socket layer, over the loopback device.\<close>

definition sample_worker :: "nat app_runtime" where
  "sample_worker = snd (socket_subsystem_init (sample_runtime 0 (Some sample_prepared)))"

lemma graph_inv_zero: "graph_inv pre {} no_pending zero_graph" "qnodes zero_graph = []"
  by (rule graph_invI)
    (simp_all add: zero_graph_def no_pending_def qlist_def qnodes_def nth_replicate ran_def del: replicate.simps cong: conj_cong)

lemma loopback_device: "device_ok loopback" "dpdk_rx_ok loopback"
  by (simp_all add: device_ok_def dpdk_rx_ok_def) (simp_all add: loopback_def)

lemma sample_worker_fields:
  "rt_ports sample_worker = [sample_port 0 (le32_of [10, 0, 0, 1]) 24, sample_port 1 (le32_of [10, 1, 0, 1]) 16]"
  "rt_network sample_worker = Some sample_prepared" "rt_graph sample_worker = zero_graph" "rt_active_output sample_worker = None"
  "rt_neighbours sample_worker = replicate 64 zero_neighbour" "rt_pending sample_worker = replicate 16 zero_pending"
  "rt_sockets sample_worker = zero_sockets\<lparr>ss_next_port := 49152, ss_capacity := 256\<rparr>"
  by (simp_all add: sample_worker_def socket_subsystem_init_def sample_runtime_def zero_sockets_def del: replicate.simps)

lemma sample_worker_ready: "ready loopback {0, 1} (Some sample_prepared) sample_worker"
proof -
  note f = sample_worker_fields
  have "sockets_wf (rt_sockets sample_worker)" using sockets_wf_zero unfolding f(7) sockets_wf_def by simp
  moreover have "net_wf (rt_ports sample_worker) (rt_network sample_worker)"
    using net_config_prepare_None [OF sample_prepare]
    by (simp add: f net_wf_def config_wf_def sample_port_def less_Suc_eq numeral_2_eq_2 all_conj_distrib imp_disjL)
  moreover have "ports_wf {0, 1} (rt_ports sample_worker)" 
    unfolding f ports_wf_def set_filter [symmetric] by (simp add: sample_port_def del: set_filter)
  moreover have "nb_wf (rt_neighbours sample_worker)" using nb_inv_empty by (simp add: f nb_wf_def zero_neighbour_def del: replicate.simps)
  moreover have "pending_wf (rt_pending sample_worker)" by (simp add: f pending_wf_def zero_pending_def del: replicate.simps)
  ultimately show ?thesis
    by (simp add: kept_def rt_wf_def idle_def at_rest_def f graph_inv_zero loopback_device)
qed

definition sample_packet :: "rte_mbuf \<times> packet_ctx" where
  "sample_packet = (fresh_mbuf\<lparr>mb_data := replicate 60 0xff, mb_pkt_len := 60\<rparr>, zero_ctx)"


end
