(* ===== verification/Admin_Wire.thy ===== *)
theory Admin_Wire
  imports Ipc
begin

text \<open>
  The administrative protocol of \<^verbatim>\<open>src/admin_wire.c\<close>: headers and requests.

  A request carries sixteen 32-bit fields \<open>v\<close> (four of them IPv4 addresses, copied in network order),
  a NUL-terminated device name in 64 bytes, and the access-control rules of an atomic replacement.
  The array \<open>acls\<close> with its \<open>count\<close> is the list of its live elements.
\<close>

abbreviation (input) ADMIN_MAGIC :: u32 where "ADMIN_MAGIC \<equiv> 0x50534d47"
abbreviation (input) ADMIN_VERSION :: u32 where "ADMIN_VERSION \<equiv> 1"
abbreviation (input) ADMIN_HEADER :: nat where "ADMIN_HEADER \<equiv> 32"
abbreviation (input) ADMIN_REQUEST_BASE :: nat where "ADMIN_REQUEST_BASE \<equiv> 144"
abbreviation (input) ADMIN_ACL_RECORD :: nat where "ADMIN_ACL_RECORD \<equiv> 116"
abbreviation (input) ADMIN_RESPONSE_MAX :: nat where "ADMIN_RESPONSE_MAX \<equiv> 131072"

abbreviation (input) ADM_STATUS :: u32 where "ADM_STATUS \<equiv> 1"
abbreviation (input) ADM_STATS :: u32 where "ADM_STATS \<equiv> 2"
abbreviation (input) ADM_LINK :: u32 where "ADM_LINK \<equiv> 3"
abbreviation (input) ADM_ADDR :: u32 where "ADM_ADDR \<equiv> 4"
abbreviation (input) ADM_ROUTE :: u32 where "ADM_ROUTE \<equiv> 5"
abbreviation (input) ADM_RULE :: u32 where "ADM_RULE \<equiv> 6"
abbreviation (input) ADM_NEIGH_GROUP :: u32 where "ADM_NEIGH_GROUP \<equiv> 7"
abbreviation (input) ADM_ACL :: u32 where "ADM_ACL \<equiv> 8"
abbreviation (input) ADM_APP :: u32 where "ADM_APP \<equiv> 9"
abbreviation (input) ADM_SOCKET :: u32 where "ADM_SOCKET \<equiv> 10"
abbreviation (input) ADM_MONITOR :: u32 where "ADM_MONITOR \<equiv> 11"

abbreviation (input) ADM_SHOW :: u32 where "ADM_SHOW \<equiv> 1"
abbreviation (input) VERB_ADD :: u32 where "VERB_ADD \<equiv> 2"
abbreviation (input) VERB_REPLACE :: u32 where "VERB_REPLACE \<equiv> 3"
abbreviation (input) VERB_DEL :: u32 where "VERB_DEL \<equiv> 4"
abbreviation (input) ADM_FLUSH :: u32 where "ADM_FLUSH \<equiv> 5"
abbreviation (input) ADM_GET :: u32 where "ADM_GET \<equiv> 6"
abbreviation (input) ADM_SET :: u32 where "ADM_SET \<equiv> 7"
abbreviation (input) ADM_APPLY :: u32 where "ADM_APPLY \<equiv> 8"
abbreviation (input) ADM_DEFAULT :: u32 where "ADM_DEFAULT \<equiv> 9"

abbreviation (input) F_PREF :: nat where "F_PREF \<equiv> 0"
abbreviation (input) F_SRC :: nat where "F_SRC \<equiv> 1"
abbreviation (input) F_SRC_PREFIX :: nat where "F_SRC_PREFIX \<equiv> 2"
abbreviation (input) F_DST :: nat where "F_DST \<equiv> 3"
abbreviation (input) F_DST_PREFIX :: nat where "F_DST_PREFIX \<equiv> 4"
abbreviation (input) F_PROTO :: nat where "F_PROTO \<equiv> 5"
abbreviation (input) F_SPORT_MIN :: nat where "F_SPORT_MIN \<equiv> 6"
abbreviation (input) F_SPORT_MAX :: nat where "F_SPORT_MAX \<equiv> 7"
abbreviation (input) F_DPORT_MIN :: nat where "F_DPORT_MIN \<equiv> 8"
abbreviation (input) F_DPORT_MAX :: nat where "F_DPORT_MAX \<equiv> 9"
abbreviation (input) F_PORTS :: nat where "F_PORTS \<equiv> 10"
abbreviation (input) F_ACTION :: nat where "F_ACTION \<equiv> 11"
abbreviation (input) F_TABLE :: nat where "F_TABLE \<equiv> 12"
abbreviation (input) F_GATEWAY :: nat where "F_GATEWAY \<equiv> 13"
abbreviation (input) F_IP :: nat where "F_IP \<equiv> 14"
abbreviation (input) F_PREFIX :: nat where "F_PREFIX \<equiv> 15"

record admin_header =
  ah_id :: u32
  ah_length :: u32
  ah_result :: i32
  ah_generation :: u64

record admin_acl =
  aa_rule :: net_acl
  aa_dev :: "u8 list"

record admin_request =
  ar_group :: u32
  ar_verb :: u32
  ar_flags :: u32
  ar_v :: "u32 list"
  ar_dev :: "u8 list"
  ar_acls :: "admin_acl list"

subsection \<open>Headers\<close>

definition admin_header_encode :: "admin_header \<Rightarrow> u8 list" where
  "admin_header_encode h = be_words [ADMIN_MAGIC, ADMIN_VERSION, ah_id h, ah_length h, ah_result h,
     ucast (drop_bit 32 (ah_generation h)), ucast (ah_generation h), 0]"

definition admin_header_decode :: "u8 list \<Rightarrow> errno + admin_header" where
  "admin_header_decode b =
     (let w = be_word b in
      if w 0 \<noteq> ADMIN_MAGIC \<or> w 1 \<noteq> ADMIN_VERSION \<or> w 7 \<noteq> 0 then Inl EPROTO
      else let h = \<lparr>ah_id = w 2, ah_length = w 3, ah_result = w 4,
                    ah_generation = push_bit 32 (ucast (w 5)) OR ucast (w 6)\<rparr>
        in if ah_id h = 0 \<or> unat (ah_length h) > ADMIN_RESPONSE_MAX then Inl EPROTO else Inr h)"

lemma length_admin_header_encode [simp]: "length (admin_header_encode h) = ADMIN_HEADER"
  by (simp add: admin_header_encode_def)

lemma u64_halves: "push_bit 32 (ucast (ucast (drop_bit 32 g) :: u32)) OR ucast (ucast g :: u32) = (g :: u64)"
  by (rule bit_word_eqI) (auto simp: bit_simps)

lemma u64_of_halves:
  "ucast (drop_bit 32 (push_bit 32 (ucast (hi :: u32)) OR ucast (lo :: u32) :: u64)) = hi"
  "ucast (push_bit 32 (ucast hi) OR ucast lo :: u64) = lo"
proof -
  show "ucast (drop_bit 32 (push_bit 32 (ucast hi) OR ucast lo :: u64)) = hi"
    by (rule bit_word_eqI) (auto simp: bit_simps dest: bit_imp_le_length)
  show "ucast (push_bit 32 (ucast hi) OR ucast lo :: u64) = lo"
    by (rule bit_word_eqI) (auto simp: bit_simps dest: bit_imp_le_length)
qed

lemma admin_header_decode_encode:
  assumes "ah_id h \<noteq> 0" "unat (ah_length h) \<le> ADMIN_RESPONSE_MAX"
  shows "admin_header_decode (admin_header_encode h) = Inr h"
proof -
  have "be_word (admin_header_encode h) i = [ADMIN_MAGIC, ADMIN_VERSION, ah_id h, ah_length h, ah_result h,
      ucast (drop_bit 32 (ah_generation h)), ucast (ah_generation h), 0] ! i" if "i < 8" for i
    unfolding admin_header_encode_def using that by (intro be_word_be_words) simp
  then show ?thesis using assms by (simp add: admin_header_decode_def u64_halves)
qed

lemma upt8: "[0..<8] = [0, 1, 2, 3, 4, 5, 6, 7 :: nat]"
  by (simp add: upt_conv_Cons)

lemma upt4: "[0..<4] = [0, 1, 2, 3 :: nat]"
  by (simp add: upt_conv_Cons)

lemma admin_header_encode_decode:
  assumes "length b = ADMIN_HEADER" "admin_header_decode b = Inr h"
  shows "admin_header_encode h = b" "ah_id h \<noteq> 0" "unat (ah_length h) \<le> ADMIN_RESPONSE_MAX"
proof -
  let ?w = "be_word b"
  have c: "?w 0 = ADMIN_MAGIC" "?w 1 = ADMIN_VERSION" "?w 7 = 0" "ah_id h \<noteq> 0" "unat (ah_length h) \<le> ADMIN_RESPONSE_MAX"
    and h: "h = \<lparr>ah_id = ?w 2, ah_length = ?w 3, ah_result = ?w 4,
                 ah_generation = push_bit 32 (ucast (?w 5)) OR ucast (?w 6)\<rparr>"
    using assms(2) by (auto simp: admin_header_decode_def Let_def split: if_splits)
  have "ucast (drop_bit 32 (ah_generation h)) = ?w 5" "ucast (ah_generation h) = ?w 6"
    using u64_of_halves [of "?w 5" "?w 6"] by (simp_all only: h admin_header.select_convs)
  moreover have "ah_id h = ?w 2" "ah_length h = ?w 3" "ah_result h = ?w 4" by (simp_all only: h admin_header.select_convs)
  ultimately have "admin_header_encode h = be_words (map ?w [0..<8])"
    using c(1-3) by (simp add: admin_header_encode_def upt8)
  then show "admin_header_encode h = b" using be_words_be_word [of b 8] assms(1) by simp
  show "ah_id h \<noteq> 0" "unat (ah_length h) \<le> ADMIN_RESPONSE_MAX" by (rule c)+
qed

subsection \<open>Requests\<close>

definition address_field :: "nat \<Rightarrow> bool" where
  "address_field i \<longleftrightarrow> i = F_SRC \<or> i = F_DST \<or> i = F_GATEWAY \<or> i = F_IP"

text \<open>A list of words of which some are addresses, and the bytes it has on the wire.\<close>

definition wire_word :: "bool \<Rightarrow> u32 \<Rightarrow> u32" where
  "wire_word address w = (if address then ntohl w else w)"

lemma wire_word_involution [simp]: "wire_word a (wire_word a w) = w"
  by (simp add: wire_word_def)

definition fields_encode :: "u32 list \<Rightarrow> u8 list" where
  "fields_encode v = concat (map (\<lambda>i. if address_field i then le32_bytes (v ! i) else le32_bytes (htonl (v ! i))) [0..<16])"

definition acl_words :: "net_acl \<Rightarrow> u32 list" where
  "acl_words a = [ac_pref a, ac_src a, ac_src_prefix a, ac_dst a, ac_dst_prefix a, ac_iif a, ac_proto a,
     ac_sport_min a, ac_sport_max a, ac_dport_min a, ac_dport_max a, ac_ports a, ac_drop a]"

definition acl_encode :: "admin_acl \<Rightarrow> u8 list" where
  "acl_encode a = concat (map (\<lambda>j. if j = 1 \<or> j = 3 then le32_bytes (acl_words (aa_rule a) ! j)
     else le32_bytes (htonl (acl_words (aa_rule a) ! j))) [0..<13]) @ aa_dev a"

text \<open>\<open>None\<close> stands for the result \<open>0\<close>.\<close>

definition admin_request_encode :: "admin_request \<Rightarrow> u8 list option" where
  "admin_request_encode r =
     (if length (ar_acls r) > NET_ACL_MAX then None
      else Some (be_words [ar_group r, ar_verb r, ar_flags r, of_nat (length (ar_acls r))] @
        fields_encode (ar_v r) @ ar_dev r @ concat (map acl_encode (ar_acls r))))"

definition fields_decode :: "u8 list \<Rightarrow> u32 list" where
  "fields_decode b = map (\<lambda>i. if address_field i then load32 b (16 + i * 4) else ntohl (load32 b (16 + i * 4))) [0..<16]"

definition acl_of_words :: "u32 list \<Rightarrow> net_acl" where
  "acl_of_words w = \<lparr>ac_pref = w ! 0, ac_src = w ! 1, ac_src_prefix = w ! 2, ac_dst = w ! 3, ac_dst_prefix = w ! 4,
     ac_iif = w ! 5, ac_proto = w ! 6, ac_sport_min = w ! 7, ac_sport_max = w ! 8, ac_dport_min = w ! 9,
     ac_dport_max = w ! 10, ac_ports = w ! 11, ac_drop = w ! 12\<rparr>"

definition acl_decode :: "u8 list \<Rightarrow> admin_acl" where
  "acl_decode p = \<lparr>aa_rule = acl_of_words (map (\<lambda>j. if j = 1 \<or> j = 3 then load32 p (j * 4) else ntohl (load32 p (j * 4))) [0..<13]),
     aa_dev = take 64 (drop 52 p)\<rparr>"

definition verb_valid :: "u32 \<Rightarrow> u32 \<Rightarrow> bool" where
  "verb_valid grp verb =
     (if grp \<in> {ADM_STATUS, ADM_STATS, ADM_APP, ADM_SOCKET, ADM_MONITOR} then verb = ADM_SHOW
      else if grp = ADM_LINK then verb = ADM_SHOW \<or> verb = ADM_SET
      else if grp = ADM_ADDR \<or> grp = ADM_NEIGH_GROUP then verb \<in> {ADM_SHOW, VERB_ADD, VERB_REPLACE, VERB_DEL, ADM_FLUSH}
      else if grp = ADM_ROUTE then verb \<le> ADM_GET
      else if grp = ADM_RULE then verb \<in> {ADM_SHOW, VERB_ADD, VERB_DEL, ADM_FLUSH}
      else if grp = ADM_ACL then verb \<in> {ADM_SHOW, VERB_ADD, VERB_DEL, ADM_FLUSH, ADM_APPLY, ADM_DEFAULT}
      else False)"

text \<open>
  The bit mask of the fields a request may set, as the list of the fields, and whether it may name a
  device; \<open>None\<close> for \<open>-EINVAL\<close>.
\<close>

definition request_mask :: "admin_request \<Rightarrow> (nat list \<times> bool) option" where
  "request_mask r =
     (let g = ar_group r; verb = ar_verb r; v = ar_v r in
      if g = ADM_LINK then
        (if verb = ADM_SET then
           (if v ! F_PORTS = 1 then Some ([F_PORTS, F_ACTION], True)
            else if v ! F_PORTS = 2 then Some ([F_PORTS, F_IP], True) else None)
         else Some ([], True))
      else if g = ADM_ADDR then
        Some (if verb \<in> {VERB_ADD, VERB_REPLACE, VERB_DEL} then [F_IP, F_PREFIX] else [], True)
      else if g = ADM_ROUTE then
        (if verb = ADM_GET then Some ([F_IP, F_PREFIX, F_SRC, F_SRC_PREFIX], False)
         else Some ([F_TABLE] @ (if verb \<noteq> ADM_SHOW \<and> verb \<noteq> ADM_FLUSH then [F_IP, F_PREFIX] else []) @
                    (if verb \<in> {VERB_ADD, VERB_REPLACE} then [F_GATEWAY, F_ACTION] else []),
                    verb \<in> {VERB_ADD, VERB_REPLACE}))
      else if g = ADM_RULE then
        Some (if verb = VERB_ADD then ([F_PREF, F_SRC, F_SRC_PREFIX, F_DST, F_DST_PREFIX, F_ACTION, F_TABLE], True)
              else if verb = VERB_DEL then ([F_PREF], False) else ([], False))
      else if g = ADM_ACL then
        Some (if verb = VERB_ADD then ([0..<F_ACTION + 1], True)
              else if verb = VERB_DEL then ([F_PREF], False)
              else if verb = ADM_DEFAULT \<or> verb = ADM_APPLY then ([F_ACTION], False) else ([], False))
      else if g = ADM_NEIGH_GROUP then
        Some ((if verb \<noteq> ADM_SHOW \<and> verb \<noteq> ADM_FLUSH then [F_IP] else []) @
              (if verb \<in> {VERB_ADD, VERB_REPLACE} then [F_SPORT_MIN, F_SPORT_MAX] else []), True)
      else if g = ADM_MONITOR then
        (if v ! F_PROTO \<noteq> 0 \<and> (v ! F_PROTO < ADM_LINK \<or> v ! F_PROTO > ADM_ACL) then None else Some ([F_PROTO], False))
      else Some ([], False))"

definition request_head_valid :: "u32 \<Rightarrow> u32 \<Rightarrow> u32 \<Rightarrow> nat \<Rightarrow> nat \<Rightarrow> bool" where
  "request_head_valid grp verb flags count n \<longleftrightarrow>
     \<not> (grp < ADM_STATUS \<or> grp > ADM_MONITOR \<or> verb < ADM_SHOW \<or> verb > ADM_DEFAULT \<or> flags > 15 \<or>
        count > NET_ACL_MAX \<or> n \<noteq> ADMIN_REQUEST_BASE + count * ADMIN_ACL_RECORD \<or>
        (count \<noteq> 0 \<and> (grp \<noteq> ADM_ACL \<or> verb \<noteq> ADM_APPLY)))"

text \<open>The checks after the fields are read.\<close>

definition request_check :: "admin_request \<Rightarrow> rc" where
  "request_check r =
     (if 0 \<notin> set (ar_dev r) then Some EINVAL
      else if \<exists>a\<in>set (ar_acls r). 0 \<notin> set (aa_dev a) then Some EINVAL
      else if \<not> verb_valid (ar_group r) (ar_verb r) then Some EOPNOTSUPP
      else case request_mask r of
        None \<Rightarrow> Some EINVAL
      | Some (allowed, device) \<Rightarrow>
          if \<exists>i\<in>set [0..<16]. i \<notin> set allowed \<and> ar_v r ! i \<noteq> 0 then Some EINVAL
          else if \<not> device \<and> ar_dev r ! 0 \<noteq> 0 then Some EINVAL
          else if \<exists>a\<in>set (ar_acls r). ac_iif (aa_rule a) \<noteq> NET_IIF_NONE then Some EINVAL
          else None)"

definition admin_request_decode :: "u8 list \<Rightarrow> errno + admin_request" where
  "admin_request_decode b =
     (let n = length b in
      if n < ADMIN_REQUEST_BASE then Inl EPROTO
      else let w = be_word b; count = unat (w 3) in
        if \<not> request_head_valid (w 0) (w 1) (w 2) count n then Inl EINVAL
        else
          let r = \<lparr>ar_group = w 0, ar_verb = w 1, ar_flags = w 2, ar_v = fields_decode b, ar_dev = take 64 (drop 80 b),
                   ar_acls = map (\<lambda>i. acl_decode (drop (ADMIN_REQUEST_BASE + i * ADMIN_ACL_RECORD) b)) [0..<count]\<rparr>
          in (case request_check r of Some e \<Rightarrow> Inl e | None \<Rightarrow> Inr r))"

text \<open>A request that the client may send: the shape of its arrays, and what the server accepts.\<close>

definition request_shape :: "admin_request \<Rightarrow> bool" where
  "request_shape r \<longleftrightarrow> length (ar_v r) = 16 \<and> length (ar_dev r) = 64 \<and> (\<forall>a\<in>set (ar_acls r). length (aa_dev a) = 64)"

definition request_accepted :: "admin_request \<Rightarrow> bool" where
  "request_accepted r \<longleftrightarrow> request_head_valid (ar_group r) (ar_verb r) (ar_flags r) (length (ar_acls r))
       (ADMIN_REQUEST_BASE + length (ar_acls r) * ADMIN_ACL_RECORD) \<and> request_check r = None"

text \<open>The fields and the rules as big-endian words.\<close>

lemma fields_encode_words:
  "fields_encode v = be_words (map (\<lambda>i. wire_word (address_field i) (v ! i)) [0..<16])"
  unfolding fields_encode_def be_words_def map_map
  by (rule arg_cong [where f = concat], rule map_cong) (simp_all add: wire_word_def)

lemma acl_encode_words:
  "acl_encode a = be_words (map (\<lambda>j. wire_word (j = 1 \<or> j = 3) (acl_words (aa_rule a) ! j)) [0..<13]) @ aa_dev a"
  unfolding acl_encode_def be_words_def map_map
  by (rule arg_cong [where f = "\<lambda>x. x @ aa_dev a"], rule arg_cong [where f = concat], rule map_cong)
    (simp_all add: wire_word_def)

lemma load32_append: "off + 4 \<le> length xs \<Longrightarrow> load32 (xs @ ys) off = load32 xs off"
  by (simp add: load32_def)

lemma load32_drop: "load32 (drop n xs) off = load32 xs (n + off)"
  by (simp add: load32_def add.commute)

lemma load32_skip: "length xs = n \<Longrightarrow> load32 (xs @ ys) (n + off) = load32 ys off"
  by (simp add: load32_def)

lemma load32_be_words: "i < length ws \<Longrightarrow> load32 (be_words ws) (i * 4) = htonl (ws ! i)"
  using load32_be_word [of "be_words ws" i] by (simp add: mult.commute)

lemma fields_decode_encode:
  assumes "length v = 16" "length pre = 16"
  shows "fields_decode (pre @ fields_encode v @ rest) = v"
proof (rule nth_equalityI)
  fix i assume "i < length (fields_decode (pre @ fields_encode v @ rest))"
  then have i: "i < 16" by (simp add: fields_decode_def)
  have "load32 (pre @ fields_encode v @ rest) (16 + i * 4) = load32 (fields_encode v @ rest) (i * 4)"
    using assms(2) by (rule load32_skip)
  also have "\<dots> = load32 (fields_encode v) (i * 4)" using i by (intro load32_append) (simp add: fields_encode_words)
  also have "\<dots> = htonl (wire_word (address_field i) (v ! i))" using i by (simp add: fields_encode_words load32_be_words)
  finally show "fields_decode (pre @ fields_encode v @ rest) ! i = v ! i"
    using i by (simp add: fields_decode_def wire_word_def)
qed (simp add: fields_decode_def assms(1))

lemma acl_of_words_words [simp]: "acl_of_words (acl_words a) = a"
  by (simp add: acl_of_words_def acl_words_def)

lemma length_acl_words [simp]: "length (acl_words a) = 13"
  by (simp add: acl_words_def)

lemma acl_decode_encode:
  assumes "length (aa_dev a) = 64"
  shows "acl_decode (acl_encode a @ rest) = a"
proof -
  let ?w = "\<lambda>j. wire_word (j = 1 \<or> j = 3) (acl_words (aa_rule a) ! j)"
  let ?b = "be_words (map ?w [0..<13])"
  have load: "load32 (acl_encode a @ rest) (j * 4) = htonl (?w j)" if "j < 13" for j
  proof -
    have "load32 (acl_encode a @ rest) (j * 4) = load32 ?b (j * 4)"
      unfolding acl_encode_words append_assoc using that by (intro load32_append) simp
    also have "\<dots> = htonl (?w j)" using that by (simp add: load32_be_words)
    finally show ?thesis .
  qed
  have words: "map (\<lambda>j. if j = 1 \<or> j = 3 then load32 (acl_encode a @ rest) (j * 4)
      else ntohl (load32 (acl_encode a @ rest) (j * 4))) [0..<13] = acl_words (aa_rule a)"
    by (rule nth_equalityI) (simp_all add: load wire_word_def)
  have "length ?b = 52" by simp
  then have dev: "take 64 (drop 52 (acl_encode a @ rest)) = aa_dev a"
    unfolding acl_encode_words append_assoc using assms by simp
  show ?thesis unfolding acl_decode_def words dev by simp
qed

lemma length_acl_encode: "length (aa_dev a) = 64 \<Longrightarrow> length (acl_encode a) = ADMIN_ACL_RECORD"
  by (simp add: acl_encode_words)

lemma acl_list_decode_encode:
  assumes "\<forall>a\<in>set as. length (aa_dev a) = 64"
  shows "map (\<lambda>i. acl_decode (drop (i * ADMIN_ACL_RECORD) (concat (map acl_encode as)))) [0..<length as] = as"
  using assms
proof (induction as)
  case (Cons a as)
  let ?c = "concat (map acl_encode as)"
  have len: "length (acl_encode a) = ADMIN_ACL_RECORD" using Cons.prems by (simp add: length_acl_encode)
  have "map (\<lambda>i. acl_decode (drop (i * ADMIN_ACL_RECORD) (acl_encode a @ ?c))) [0..<Suc (length as)] =
      acl_decode (acl_encode a @ ?c) # map (\<lambda>i. acl_decode (drop (i * ADMIN_ACL_RECORD) ?c)) [0..<length as]"
    by (simp only: upt_conv_Cons [OF zero_less_Suc] list.map map_Suc_upt [symmetric] map_map o_def)
      (simp add: len)
  then show ?case using Cons acl_decode_encode [of a ?c] by simp
qed simp

text \<open>What the decoder reads in an encoded request, before it checks it.\<close>

definition request_of_bytes :: "u8 list \<Rightarrow> admin_request" where
  "request_of_bytes b = \<lparr>ar_group = be_word b 0, ar_verb = be_word b 1, ar_flags = be_word b 2, ar_v = fields_decode b,
     ar_dev = take 64 (drop 80 b),
     ar_acls = map (\<lambda>i. acl_decode (drop (ADMIN_REQUEST_BASE + i * ADMIN_ACL_RECORD) b)) [0..<unat (be_word b 3)]\<rparr>"

lemma admin_request_encode_reads:
  assumes shape: "request_shape r" and enc: "admin_request_encode r = Some b"
  shows "request_of_bytes b = r" "length b = ADMIN_REQUEST_BASE + length (ar_acls r) * ADMIN_ACL_RECORD"
    "unat (be_word b 3) = length (ar_acls r)" "length (ar_acls r) \<le> NET_ACL_MAX"
proof -
  let ?n = "length (ar_acls r)"
  let ?hd = "be_words [ar_group r, ar_verb r, ar_flags r, of_nat ?n]"
  let ?acls = "concat (map acl_encode (ar_acls r))"
  have le: "?n \<le> NET_ACL_MAX" and b: "b = ?hd @ fields_encode (ar_v r) @ ar_dev r @ ?acls"
    using enc by (auto simp: admin_request_encode_def split: if_splits)
  have cnt: "unat (of_nat ?n :: u32) = ?n" using le by (simp add: unat_of_nat)
  have lf: "length (fields_encode (ar_v r)) = 64" by (simp add: fields_encode_words)
  have la: "length ?acls = ?n * ADMIN_ACL_RECORD"
    using shape length_acl_encode by (simp add: request_shape_def length_concat o_def sum_list_triv cong: map_cong)
  show "length b = ADMIN_REQUEST_BASE + ?n * ADMIN_ACL_RECORD"
    using shape lf la by (simp add: request_shape_def b)
  have w: "be_word b i = [ar_group r, ar_verb r, ar_flags r, of_nat ?n] ! i" if "i < 4" for i
  proof -
    have "be_word b i = be_word ?hd i" unfolding be_word_def b using that by (subst load32_append) simp_all
    also have "\<dots> = [ar_group r, ar_verb r, ar_flags r, of_nat ?n] ! i" using that by (intro be_word_be_words) simp
    finally show ?thesis .
  qed
  show n: "unat (be_word b 3) = ?n" using w [of 3] cnt by simp
  have f: "fields_decode b = ar_v r" unfolding b using shape by (intro fields_decode_encode) (simp_all add: request_shape_def)
  have dev: "take 64 (drop 80 b) = ar_dev r" using shape lf by (simp add: request_shape_def b)
  have acls: "map (\<lambda>i. acl_decode (drop (ADMIN_REQUEST_BASE + i * ADMIN_ACL_RECORD) b)) [0..<?n] = ar_acls r"
  proof -
    have "drop (ADMIN_REQUEST_BASE + k) b = drop k ?acls" for k using shape lf by (simp add: request_shape_def b)
    then show ?thesis using acl_list_decode_encode [of "ar_acls r"] shape by (simp add: request_shape_def)
  qed
  show "request_of_bytes b = r"
    using w [of 0] w [of 1] w [of 2] by (simp add: request_of_bytes_def n f dev acls)
  show "?n \<le> NET_ACL_MAX" by (rule le)
qed

text \<open>So the decoder accepts an encoded request exactly when the request passes its checks, and gives it back.\<close>

lemma admin_request_decode_encoded:
  assumes shape: "request_shape r" and enc: "admin_request_encode r = Some b"
  shows "admin_request_decode b = Inr r' \<longleftrightarrow> request_accepted r \<and> r' = r"
proof -
  note p = admin_request_encode_reads [OF shape enc]
  have g: "ar_group r = be_word b 0" "ar_verb r = be_word b 1" "ar_flags r = be_word b 2"
    by (simp_all add: p(1) [symmetric] request_of_bytes_def)
  have d: "admin_request_decode b =
      (if length b < ADMIN_REQUEST_BASE then Inl EPROTO
       else if \<not> request_head_valid (be_word b 0) (be_word b 1) (be_word b 2) (unat (be_word b 3)) (length b) then Inl EINVAL
       else case request_check (request_of_bytes b) of Some e \<Rightarrow> Inl e | None \<Rightarrow> Inr (request_of_bytes b))"
    unfolding admin_request_decode_def request_of_bytes_def Let_def by (rule refl)
  show ?thesis
    unfolding d p(1,2,3) g [symmetric] by (auto simp: request_accepted_def split: option.splits)
qed

lemma admin_request_decode_encode:
  assumes "request_shape r" "request_accepted r"
  shows "\<exists>b. admin_request_encode r = Some b \<and> admin_request_decode b = Inr r"
proof -
  have "admin_request_encode r \<noteq> None"
    using assms(2) by (auto simp: admin_request_encode_def request_accepted_def request_head_valid_def)
  then show ?thesis using assms admin_request_decode_encoded [OF assms(1)] by auto
qed

text \<open>The other direction: what the server accepts is the encoding of what it read.\<close>

lemma be_word_slice:
  assumes "4 * i + 4 \<le> n"
  shows "be_word (take n (drop (4 * k) b)) i = be_word b (k + i)"
proof -
  have "take 4 (drop (4 * i) (take n (drop (4 * k) b))) = take 4 (drop (4 * (k + i)) b)"
    using assms by (simp add: drop_take min_def add.commute add_mult_distrib2)
  then show ?thesis by (simp add: be_word_def load32_def)
qed

lemma be_words_slice:
  assumes "4 * (k + n) \<le> length b"
  shows "be_words (map (\<lambda>i. be_word b (k + i)) [0..<n]) = take (4 * n) (drop (4 * k) b)"
proof -
  let ?s = "take (4 * n) (drop (4 * k) b)"
  have "be_words (map (\<lambda>i. be_word b (k + i)) [0..<n]) = be_words (map (be_word ?s) [0..<n])"
    by (rule arg_cong [where f = be_words], rule map_cong) (auto simp: be_word_slice)
  also have "\<dots> = ?s" using assms by (intro be_words_be_word) simp
  finally show ?thesis .
qed

lemma wire_load: "off = 4 * i \<Longrightarrow> (if a then load32 b off else ntohl (load32 b off)) = wire_word a (be_word b i)"
  by (simp add: wire_word_def be_word_def)

lemma fields_encode_decode:
  assumes "80 \<le> length b"
  shows "fields_encode (fields_decode b) = take 64 (drop 16 b)"
proof -
  have "fields_decode b ! i = wire_word (address_field i) (be_word b (4 + i))" if "i < 16" for i
    using that wire_load [of "16 + i * 4" "4 + i" "address_field i" b] by (simp add: fields_decode_def cong: if_cong split del: if_split)
  then have "map (\<lambda>i. wire_word (address_field i) (fields_decode b ! i)) [0..<16] = map (\<lambda>i. be_word b (4 + i)) [0..<16]"
    by simp
  then show ?thesis using be_words_slice [of 4 16 b] assms by (simp only: fields_encode_words) simp
qed

lemma acl_words_of_words: "length w = 13 \<Longrightarrow> acl_words (acl_of_words w) = w"
  by (rule nth_equalityI) (auto simp: acl_words_def acl_of_words_def less_Suc_eq numeral_eq_Suc)

lemma acl_encode_decode:
  assumes "ADMIN_ACL_RECORD \<le> length p"
  shows "acl_encode (acl_decode p) = take ADMIN_ACL_RECORD p" "length (aa_dev (acl_decode p)) = 64"
proof -
  let ?w = "map (\<lambda>j. if j = 1 \<or> j = 3 then load32 p (j * 4) else ntohl (load32 p (j * 4))) [0..<13]"
  have "acl_words (aa_rule (acl_decode p)) = ?w" by (simp add: acl_decode_def acl_words_of_words)
  moreover have "?w ! j = wire_word (j = 1 \<or> j = 3) (be_word p j)" if "j < 13" for j
    using that wire_load [of "j * 4" j "j = 1 \<or> j = 3" p] by (simp cong: if_cong split del: if_split)
  ultimately have "map (\<lambda>j. wire_word (j = 1 \<or> j = 3) (acl_words (aa_rule (acl_decode p)) ! j)) [0..<13] =
      map (\<lambda>j. be_word p (0 + j)) [0..<13]"
    by (simp del: upt_Suc)
  then have "acl_encode (acl_decode p) = take 52 p @ take 64 (drop 52 p)"
    using be_words_slice [of 0 13 p] assms by (simp only: acl_encode_words) (simp add: acl_decode_def)
  also have "\<dots> = take ADMIN_ACL_RECORD p" using take_add [of 52 64 p] by simp
  finally show "acl_encode (acl_decode p) = take ADMIN_ACL_RECORD p" .
  show "length (aa_dev (acl_decode p)) = 64" using assms by (simp add: acl_decode_def)
qed

lemma concat_chunks:
  "length b = n * k \<Longrightarrow> concat (map (\<lambda>i. take k (drop (i * k) b)) [0..<n]) = b"
proof (induction n arbitrary: b)
  case (Suc n)
  have "map (\<lambda>i. take k (drop (i * k) b)) [0..<Suc n] = take k b # map (\<lambda>i. take k (drop (i * k) (drop k b))) [0..<n]"
    by (simp only: upt_conv_Cons [OF zero_less_Suc] list.map map_Suc_upt [symmetric] map_map o_def)
      (simp add: add.commute)
  moreover have "concat (map (\<lambda>i. take k (drop (i * k) (drop k b))) [0..<n]) = drop k b"
    using Suc.prems by (intro Suc.IH) simp
  ultimately show ?case by simp
qed simp

lemma admin_request_encode_decode:
  assumes d: "admin_request_decode b = Inr r"
  shows "admin_request_encode r = Some b \<and> request_shape r \<and> request_accepted r"
proof -
  let ?w = "be_word b"
  define n where "n = unat (?w 3)"
  have len: "\<not> length b < ADMIN_REQUEST_BASE" and head: "request_head_valid (?w 0) (?w 1) (?w 2) n (length b)"
    using d by (simp_all add: admin_request_decode_def Let_def n_def split: if_splits)
  have r: "r = \<lparr>ar_group = ?w 0, ar_verb = ?w 1, ar_flags = ?w 2, ar_v = fields_decode b, ar_dev = take 64 (drop 80 b),
      ar_acls = map (\<lambda>i. acl_decode (drop (ADMIN_REQUEST_BASE + i * ADMIN_ACL_RECORD) b)) [0..<n]\<rparr>"
    and check: "request_check r = None"
    using d len head by (simp_all add: admin_request_decode_def Let_def n_def split: if_splits option.splits)
  have lb: "length b = ADMIN_REQUEST_BASE + n * ADMIN_ACL_RECORD" and le: "n \<le> NET_ACL_MAX"
    using head by (auto simp: request_head_valid_def)
  have acl: "acl_encode (ar_acls r ! i) = take ADMIN_ACL_RECORD (drop (i * ADMIN_ACL_RECORD) (drop ADMIN_REQUEST_BASE b))"
    "length (aa_dev (ar_acls r ! i)) = 64" if "i < n" for i
  proof -
    have "(i + 1) * ADMIN_ACL_RECORD \<le> n * ADMIN_ACL_RECORD" using that by (intro mult_le_mono1) simp
    then have "ADMIN_ACL_RECORD \<le> length (drop (ADMIN_REQUEST_BASE + i * ADMIN_ACL_RECORD) b)" using lb by simp
    from acl_encode_decode [OF this] that
    show "acl_encode (ar_acls r ! i) = take ADMIN_ACL_RECORD (drop (i * ADMIN_ACL_RECORD) (drop ADMIN_REQUEST_BASE b))"
      "length (aa_dev (ar_acls r ! i)) = 64" by (simp_all add: r add.commute)
  qed
  have la: "length (ar_acls r) = n" by (simp add: r)
  have "map acl_encode (ar_acls r) = map (\<lambda>i. take ADMIN_ACL_RECORD (drop (i * ADMIN_ACL_RECORD) (drop ADMIN_REQUEST_BASE b))) [0..<n]"
    by (rule nth_equalityI) (simp_all only: length_map la length_upt nth_map nth_upt acl diff_zero add_0)
  then have acls: "concat (map acl_encode (ar_acls r)) = drop ADMIN_REQUEST_BASE b"
    using concat_chunks [of "drop ADMIN_REQUEST_BASE b" n ADMIN_ACL_RECORD] lb by simp
  have "map (\<lambda>i. be_word b (0 + i)) [0..<4] = [?w 0, ?w 1, ?w 2, ?w 3]" by (simp add: upt4)
  then have head_bytes: "be_words [?w 0, ?w 1, ?w 2, ?w 3] = take 16 b"
    using be_words_slice [of 0 4 b] lb by simp
  have "of_nat n = ?w 3" by (simp add: n_def)
  then have "admin_request_encode r = Some (take 16 b @ take 64 (drop 16 b) @ take 64 (drop 80 b) @ drop ADMIN_REQUEST_BASE b)"
    using le lb head_bytes fields_encode_decode [of b] acls la
    by (simp add: admin_request_encode_def) (simp add: r)
  also have "take 64 (drop 80 b) @ drop ADMIN_REQUEST_BASE b = drop 80 b"
    using append_take_drop_id [of 64 "drop 80 b"] by simp
  also have "take 64 (drop 16 b) @ drop 80 b = drop 16 b"
    using append_take_drop_id [of 64 "drop 16 b"] by simp
  finally have "admin_request_encode r = Some b" by simp
  moreover have "request_shape r"
    unfolding request_shape_def
  proof (intro conjI ballI)
    show "length (ar_v r) = 16" "length (ar_dev r) = 64" using lb by (simp_all add: r fields_decode_def)
    fix a assume "a \<in> set (ar_acls r)"
    then obtain i where "i < n" "a = ar_acls r ! i" using la by (metis in_set_conv_nth)
    then show "length (aa_dev a) = 64" using acl(2) by blast
  qed
  moreover have "request_accepted r" using head check lb la unfolding request_accepted_def by (simp add: r)
  ultimately show ?thesis by blast
qed

text \<open>
  C30: the administrative protocol is lossless and canonical.  A byte string is accepted as the request
  \<open>r\<close> exactly when it is what the client produces for \<open>r\<close> and \<open>r\<close> is a request the server allows (a known
  verb of its group, at most 128 rules, only the fields the verb uses, a terminated device name): no
  field, address or rule is changed on the way, and nothing else is accepted.
\<close>

theorem admin_request_roundtrip:
  "admin_request_decode b = Inr r \<longleftrightarrow> admin_request_encode r = Some b \<and> request_shape r \<and> request_accepted r"
  using admin_request_encode_decode [of b r] admin_request_decode_encode [of r] by auto

text \<open>
  C31: the administrative header survives the wire for every identifier but zero, every length up to the
  response limit, every result and every 64-bit generation, and each 32-byte header that is accepted is
  the encoding of the one it was read as.
\<close>

theorem admin_header_roundtrip:
  "length b = ADMIN_HEADER \<Longrightarrow> admin_header_decode b = Inr h \<longleftrightarrow>
     b = admin_header_encode h \<and> ah_id h \<noteq> 0 \<and> unat (ah_length h) \<le> ADMIN_RESPONSE_MAX"
  using admin_header_encode_decode [of b h] admin_header_decode_encode [of h] by auto

definition sample_admin_header :: admin_header where
  "sample_admin_header = \<lparr>ah_id = 9, ah_length = 144, ah_result = -22, ah_generation = 0x100000002\<rparr>"

theorem admin_header_roundtrip_witness:
  "length (admin_header_encode sample_admin_header) = ADMIN_HEADER \<and>
   admin_header_decode (admin_header_encode sample_admin_header) = Inr sample_admin_header"
  using admin_header_roundtrip [of "admin_header_encode sample_admin_header" sample_admin_header]
  by (simp add: sample_admin_header_def)

end
