(* ===== verification/Admin.thy ===== *)
theory Admin
  imports Admin_Wire Dataplane
begin

text \<open>
  Administration: the mutations of a configuration snapshot (\<^verbatim>\<open>src/admin_state.c\<close>) and their
  execution by the worker (\<^verbatim>\<open>src/admin_worker.c\<close>).

  \<open>admin_mutate\<close> works on a copy that is thrown away after an error, so its result is an error or the
  new snapshot.  The Ethernet device functions of DPDK that only administration calls are the record
  \<open>ethdev\<close>; they return \<open>0\<close> or a negative number.
\<close>

record admin_view =
  av_config :: net_config
  av_links :: "port_state list"

definition cstring :: "u8 list \<Rightarrow> string" where
  "cstring bs = map (\<lambda>b. char_of (unat b)) (takeWhile (\<lambda>b. b \<noteq> 0) bs)"

definition admin_device :: "admin_view \<Rightarrow> u8 list \<Rightarrow> errno + nat" where
  "admin_device v name =
     (case first_index (\<lambda>p. po_name p = cstring name) (av_links v) of None \<Rightarrow> Inl ENODEV | Some i \<Rightarrow> Inr i)"

text \<open>An optional device: \<open>None\<close> when the name is empty (\<open>-1\<close> in the code).\<close>

definition request_device :: "admin_view \<Rightarrow> u8 list \<Rightarrow> errno + nat option" where
  "request_device v name =
     (if name ! 0 = 0 then Inr None
      else case admin_device v name of Inl e \<Rightarrow> Inl e | Inr i \<Rightarrow> Inr (Some i))"

definition dev_or_none :: "nat option \<Rightarrow> u32" where
  "dev_or_none dev = (case dev of None \<Rightarrow> NET_IIF_NONE | Some i \<Rightarrow> of_nat i)"

definition acl_compare :: "net_acl \<Rightarrow> net_acl \<Rightarrow> int" where
  "acl_compare a b = cmp_key (ac_pref a) (ac_pref b)"

definition rule_compare :: "net_rule \<Rightarrow> net_rule \<Rightarrow> int" where
  "rule_compare a b = cmp_key (ru_pref a) (ru_pref b)"

interpretation aclc: comparison acl_compare
  by unfold_locales (auto simp: acl_compare_def)

interpretation rulec: comparison rule_compare
  by unfold_locales (auto simp: rule_compare_def)

definition delete_at :: "nat \<Rightarrow> 'a list \<Rightarrow> 'a list" where
  "delete_at i xs = take i xs @ drop (Suc i) xs"

subsection \<open>Mutations\<close>

definition mutate_addr :: "admin_request \<Rightarrow> nat option \<Rightarrow> net_config \<Rightarrow> errno + net_config" where
  "mutate_addr r device c =
     (case device of
        None \<Rightarrow> Inl ENODEV
      | Some d \<Rightarrow>
          let v = ar_v r; dev = of_nat d; as = nc_addresses c; verb = ar_verb r;
              at = first_index (\<lambda>a. na_ip a = v ! F_IP \<and> na_dev a = dev) as;
              new = \<lparr>na_ip = v ! F_IP, na_prefix = v ! F_PREFIX, na_dev = dev\<rparr>;
              result =
                (if verb = ADM_FLUSH then Inr (filter (\<lambda>a. na_dev a \<noteq> dev) as)
                 else if verb = VERB_DEL then
                   (case at of
                      None \<Rightarrow> Inl ENOENT
                    | Some i \<Rightarrow> if na_prefix (as ! i) \<noteq> v ! F_PREFIX then Inl ENOENT else Inr (delete_at i as))
                 else if verb = VERB_ADD \<or> verb = VERB_REPLACE then
                   (case at of
                      Some i \<Rightarrow> if verb = VERB_ADD then Inl EEXIST else Inr (as[i := new])
                    | None \<Rightarrow> if length as = NET_ADDR_MAX then Inl ENOSPC else Inr (as @ [new]))
                 else Inl EOPNOTSUPP)
          in (case result of
                Inl e \<Rightarrow> Inl e
              | Inr as \<Rightarrow>
                  (case net_connected_rebuild (c\<lparr>nc_addresses := as\<rparr>) of
                     (Some e, _) \<Rightarrow> Inl e | (None, c) \<Rightarrow> Inr c)))"

definition mutate_route :: "admin_view \<Rightarrow> admin_request \<Rightarrow> nat option \<Rightarrow> net_config \<Rightarrow> errno + net_config" where
  "mutate_route view r device c =
     (let v = ar_v r; table = v ! F_TABLE; verb = ar_verb r; rs = nc_routes c;
          at = first_index (\<lambda>p. nr_table p = table \<and> nr_ip p = v ! F_IP \<and> nr_prefix p = v ! F_PREFIX) rs;
          usable = (case device of None \<Rightarrow> False | Some d \<Rightarrow> port_up (av_links view ! d));
          new = \<lparr>nr_ip = v ! F_IP, nr_prefix = v ! F_PREFIX, nr_gateway = v ! F_GATEWAY,
                 nr_dev = (case device of None \<Rightarrow> 0 | Some d \<Rightarrow> of_nat d), nr_table = table,
                 nr_type = v ! F_ACTION, nr_connected = 0\<rparr>
      in if table = 0 \<or> table = NET_TABLE_LOCAL then Inl EPERM
         else if verb = ADM_FLUSH then
           Inr (c\<lparr>nc_routes := filter (\<lambda>p. nr_table p \<noteq> table \<or> nr_connected p \<noteq> 0) rs\<rparr>)
         else if verb = VERB_DEL then
           (case at of
              None \<Rightarrow> Inl ENOENT
            | Some i \<Rightarrow> if nr_connected (rs ! i) \<noteq> 0 then Inl EPERM else Inr (c\<lparr>nc_routes := delete_at i rs\<rparr>))
         else if verb = VERB_ADD \<or> verb = VERB_REPLACE then
           (if (case at of None \<Rightarrow> False | Some i \<Rightarrow> verb = VERB_ADD \<or> nr_connected (rs ! i) \<noteq> 0) then Inl EEXIST
            else if v ! F_ACTION = 0 \<and> \<not> usable then Inl ENETDOWN
            else case at of
              Some i \<Rightarrow> Inr (c\<lparr>nc_routes := rs[i := new]\<rparr>)
            | None \<Rightarrow> if length rs = NET_ROUTE_MAX then Inl ENOSPC else Inr (c\<lparr>nc_routes := rs @ [new]\<rparr>))
         else Inl EOPNOTSUPP)"

definition mutate_rule :: "admin_request \<Rightarrow> nat option \<Rightarrow> net_config \<Rightarrow> errno + net_config" where
  "mutate_rule r device c =
     (let v = ar_v r; verb = ar_verb r; rules = nc_rules c;
          at = first_index (\<lambda>p. ru_pref p = v ! F_PREF) rules;
          new = \<lparr>ru_pref = v ! F_PREF, ru_src = v ! F_SRC, ru_src_prefix = v ! F_SRC_PREFIX, ru_dst = v ! F_DST,
                 ru_dst_prefix = v ! F_DST_PREFIX, ru_iif = dev_or_none device, ru_table = v ! F_TABLE,
                 ru_type = v ! F_ACTION\<rparr>
      in if verb = ADM_FLUSH then Inr (c\<lparr>nc_rules := []\<rparr>)
         else if verb = VERB_DEL then
           (case at of None \<Rightarrow> Inl ENOENT | Some i \<Rightarrow> Inr (c\<lparr>nc_rules := delete_at i rules\<rparr>))
         else if verb = VERB_ADD then
           (if at \<noteq> None then Inl EEXIST
            else if length rules = NET_RULE_MAX then Inl ENOSPC
            else Inr (c\<lparr>nc_rules := qsort rule_compare (rules @ [new])\<rparr>))
         else Inl EOPNOTSUPP)"

text \<open>The rules of an atomic replacement with their devices resolved.\<close>

fun resolve_acls :: "admin_view \<Rightarrow> admin_acl list \<Rightarrow> errno + net_acl list" where
  "resolve_acls view [] = Inr []"
| "resolve_acls view (a # as) =
     (case request_device view (aa_dev a) of
        Inl e \<Rightarrow> Inl e
      | Inr d \<Rightarrow>
          (case resolve_acls view as of
             Inl e \<Rightarrow> Inl e | Inr rs \<Rightarrow> Inr ((aa_rule a)\<lparr>ac_iif := dev_or_none d\<rparr> # rs)))"

definition mutate_acl :: "admin_view \<Rightarrow> admin_request \<Rightarrow> nat option \<Rightarrow> net_config \<Rightarrow> errno + net_config" where
  "mutate_acl view r device c =
     (let v = ar_v r; verb = ar_verb r; acls = nc_acls c;
          at = first_index (\<lambda>p. ac_pref p = v ! F_PREF) acls;
          new = \<lparr>ac_pref = v ! F_PREF, ac_src = v ! F_SRC, ac_src_prefix = v ! F_SRC_PREFIX, ac_dst = v ! F_DST,
                 ac_dst_prefix = v ! F_DST_PREFIX, ac_iif = dev_or_none device, ac_proto = v ! F_PROTO,
                 ac_sport_min = v ! F_SPORT_MIN, ac_sport_max = v ! F_SPORT_MAX, ac_dport_min = v ! F_DPORT_MIN,
                 ac_dport_max = v ! F_DPORT_MAX, ac_ports = v ! F_PORTS, ac_drop = v ! F_ACTION\<rparr>
      in if verb = ADM_FLUSH then Inr (c\<lparr>nc_acls := []\<rparr>)
         else if verb = ADM_DEFAULT then Inr (c\<lparr>nc_default_drop := v ! F_ACTION\<rparr>)
         else if verb = ADM_APPLY then
           (if length (ar_acls r) > NET_ACL_MAX then Inl ENOSPC
            else case resolve_acls view (ar_acls r) of
              Inl e \<Rightarrow> Inl e
            | Inr rs \<Rightarrow> Inr (c\<lparr>nc_default_drop := v ! F_ACTION, nc_acls := qsort acl_compare rs\<rparr>))
         else if verb = VERB_DEL then
           (case at of None \<Rightarrow> Inl ENOENT | Some i \<Rightarrow> Inr (c\<lparr>nc_acls := delete_at i acls\<rparr>))
         else if verb = VERB_ADD then
           (if at \<noteq> None then Inl EEXIST
            else if length acls = NET_ACL_MAX then Inl ENOSPC
            else Inr (c\<lparr>nc_acls := qsort acl_compare (acls @ [new])\<rparr>))
         else Inl EOPNOTSUPP)"

definition admin_mutate :: "admin_view \<Rightarrow> admin_request \<Rightarrow> errno + net_config" where
  "admin_mutate view r =
     (case request_device view (ar_dev r) of
        Inl e \<Rightarrow> Inl e
      | Inr device \<Rightarrow>
          let c = av_config view; g = ar_group r;
              result = (if g = ADM_ADDR then mutate_addr r device c
                        else if g = ADM_ROUTE then mutate_route view r device c
                        else if g = ADM_RULE then mutate_rule r device c
                        else if g = ADM_ACL then mutate_acl view r device c
                        else Inl EOPNOTSUPP)
          in (case result of
                Inl e \<Rightarrow> Inl e
              | Inr c \<Rightarrow>
                  if nc_generation c = - 1 then Inl EOVERFLOW
                  else (case net_config_prepare (c\<lparr>nc_generation := nc_generation c + 1\<rparr>) (of_nat (length (av_links view))) of
                          (Some e, _) \<Rightarrow> Inl e | (None, c) \<Rightarrow> Inr c)))"

subsection \<open>The worker\<close>

definition removed_binding :: "'d app_runtime \<Rightarrow> net_config \<Rightarrow> bool" where
  "removed_binding rt next_config \<longleftrightarrow>
     (\<exists>s\<in>set (live_sockets rt). se_allocated s \<and> sa_ip_be (se_local s) \<noteq> 0 \<and>
        (\<forall>a\<in>set (nc_addresses next_config). na_ip a \<noteq> sa_ip_be (se_local s)))"

definition last_named :: "port_state list \<Rightarrow> u8 list \<Rightarrow> nat option" where
  "last_named ports name =
     fold (\<lambda>i found. if po_name (ports ! i) = cstring name then Some i else found) [0..<length ports] None"

text \<open>
  The event of a change, completed with the fields of the request; the events are emitted after the
  new configuration is installed.
\<close>

definition annotate_event :: "admin_request \<Rightarrow> 'd app_runtime \<Rightarrow> 'd app_runtime" where
  "annotate_event r rt =
     (let es = rt_events rt; i = event_slot (es_sequence es); e = es_entries es ! i;
          e = e\<lparr>ev_ip := ar_v r ! F_IP, ev_prefix := ar_v r ! F_PREFIX, ev_table := ar_v r ! F_TABLE\<rparr>;
          e = (case last_named (rt_ports rt) (ar_dev r) of None \<Rightarrow> e | Some d \<Rightarrow> e\<lparr>ev_dev := of_nat d\<rparr>)
      in rt\<lparr>rt_events := es\<lparr>es_entries := (es_entries es)[i := e]\<rparr>\<rparr>)"

text \<open>
  The activation of a snapshot; the result carries the retired one.  \<open>next_config\<close> is \<open>None\<close> for the
  null pointer, and there is always a current configuration (\<open>None\<close> would be undefined).
\<close>

definition admin_activate ::
    "('d, 'x) dpdk_scheme \<Rightarrow> admin_request \<Rightarrow> net_config option \<Rightarrow> 'd app_runtime
       \<Rightarrow> ((errno + net_config) \<times> 'd app_runtime) option" where
  "admin_activate D r next_config rt = do {
     current \<leftarrow> rt_network rt;
     case next_config of
       None \<Rightarrow> Some (Inl ESTALE, rt)
     | Some c \<Rightarrow>
         if nc_generation c \<noteq> nc_generation current + 1 then Some (Inl ESTALE, rt)
         else if removed_binding rt c then Some (Inl EBUSY, rt)
         else do {
           let rt = rt\<lparr>rt_acl_stats := net_acl_counters_migrate current c (rt_acl_stats rt), rt_network := Some c\<rparr>;
           rt \<leftarrow> (if ar_group r = ADM_ADDR \<or> ar_group r = ADM_ROUTE \<or> ar_group r = ADM_RULE
                 then neighbour_fini D (submit_graph D) rt else Some rt);
           let rt = admin_event_emit (ar_group r) (ar_v r ! F_PREF) (ar_verb r) rt;
           let rt = annotate_event r rt;
           Some (Inr current, admin_event_emit ADM_STATUS 0 ADM_APPLY rt)
         }
   }"

subsection \<open>Device operations\<close>

record 'd ethdev =
  e_start :: "u16 \<Rightarrow> 'd \<Rightarrow> int \<times> 'd"
  e_stop :: "u16 \<Rightarrow> 'd \<Rightarrow> int \<times> 'd"
  e_set_mtu :: "u16 \<Rightarrow> u16 \<Rightarrow> 'd \<Rightarrow> int \<times> 'd"
  e_get_mtu :: "u16 \<Rightarrow> 'd \<Rightarrow> int + u16"
  e_mtu_range :: "u16 \<Rightarrow> 'd \<Rightarrow> int + u16 \<times> u16"

definition dev_call :: "('d \<Rightarrow> int \<times> 'd) \<Rightarrow> 'd app_runtime \<Rightarrow> int \<times> 'd app_runtime" where
  "dev_call f rt = (case f (rt_dev rt) of (rc, d) \<Rightarrow> (rc, rt\<lparr>rt_dev := d\<rparr>))"

definition ERR :: "errno \<Rightarrow> int" where
  "ERR e = - errno_code e"

text \<open>The change on a device that must be stopped for it, and put back after a failure.\<close>

definition mtu_restart :: "('d, 'y) ethdev_scheme \<Rightarrow> nat \<Rightarrow> u16 \<Rightarrow> 'd app_runtime \<Rightarrow> int \<times> 'd app_runtime" where
  "mtu_restart E p mtu rt =
     (let port = rt_ports rt ! p; pid = po_port_id port; old = po_mtu port in
      case dev_call (e_stop E pid) rt of (rc, rt) \<Rightarrow>
      if rc \<noteq> 0 then (rc, rt)
      else
        let rt = upd_port p (\<lambda>q. q\<lparr>po_started := False\<rparr>) rt in
        case dev_call (e_set_mtu E pid mtu) rt of (rc, rt) \<Rightarrow>
        (case (if rc = 0 then dev_call (e_start E pid) rt else (rc, rt)) of (rc, rt) \<Rightarrow>
         if rc \<noteq> 0 then
           (case dev_call (e_set_mtu E pid old) rt of (_, rt) \<Rightarrow>
            case dev_call (e_start E pid) rt of (again, rt) \<Rightarrow>
              (rc, if again \<noteq> 0 then upd_port p (\<lambda>q. q\<lparr>po_admin_down := True\<rparr>) rt
                   else upd_port p (\<lambda>q. q\<lparr>po_started := True\<rparr>) rt))
         else (0, upd_port p (\<lambda>q. q\<lparr>po_started := True\<rparr>) rt)))"

definition mtu_set :: "('d, 'y) ethdev_scheme \<Rightarrow> nat \<Rightarrow> u32 \<Rightarrow> 'd app_runtime \<Rightarrow> int \<times> 'd app_runtime" where
  "mtu_set E p mtu rt =
     (let port = rt_ports rt ! p; pid = po_port_id port; old = po_mtu port in
      if mtu < 68 \<or> mtu > 1500 then (ERR EINVAL, rt)
      else case e_mtu_range E pid (rt_dev rt) of
        Inl rc \<Rightarrow> (rc, rt)
      | Inr (lo, hi) \<Rightarrow>
          if lo \<noteq> 0 \<and> mtu < ucast lo \<or> hi \<noteq> 0 \<and> mtu > ucast hi then (ERR EINVAL, rt)
          else case dev_call (e_set_mtu E pid (ucast mtu)) rt of (rc, rt) \<Rightarrow>
            (case (if rc = ERR EBUSY \<and> po_started port then mtu_restart E p (ucast mtu) rt else (rc, rt)) of (rc, rt) \<Rightarrow>
             if rc \<noteq> 0 then (rc, rt)
             else case e_get_mtu E pid (rt_dev rt) of
               Inl rc \<Rightarrow> (rc, snd (dev_call (e_set_mtu E pid old) rt))
             | Inr actual \<Rightarrow>
                 if ucast actual \<noteq> mtu then (ERR EIO, snd (dev_call (e_set_mtu E pid old) rt))
                 else (0, upd_port p (\<lambda>q. q\<lparr>po_mtu := actual\<rparr>) rt)))"

definition link_set :: "('d, 'y) ethdev_scheme \<Rightarrow> nat \<Rightarrow> bool \<Rightarrow> 'd app_runtime \<Rightarrow> bool \<times> int \<times> 'd app_runtime" where
  "link_set E p up rt =
     (let port = rt_ports rt ! p in
      if up then
        (if port_up port then (False, 0, rt)
         else case dev_call (e_start E (po_port_id port)) rt of (rc, rt) \<Rightarrow>
           if rc \<noteq> 0 then (False, rc, rt)
           else (True, 0, upd_port p (\<lambda>q. q\<lparr>po_started := True, po_admin_down := False\<rparr>) rt))
      else
        (if po_admin_down port then (False, 0, rt)
         else case dev_call (e_stop E (po_port_id port)) rt of (rc, rt) \<Rightarrow>
           if rc \<noteq> 0 then (False, rc, rt)
           else (True, 0, upd_port p (\<lambda>q. q\<lparr>po_started := False, po_admin_down := True\<rparr>) rt)))"

text \<open>The loop that deletes every neighbour of an interface; \<open>None\<close> if it does not end.\<close>

partial_function (option) flush_neighbours ::
    "('d, 'x) dpdk_scheme \<Rightarrow> 'd submit \<Rightarrow> nat \<Rightarrow> nat \<Rightarrow> 'd app_runtime \<Rightarrow> (rc \<times> 'd app_runtime) option" where
  "flush_neighbours D submit dev i rt =
     (if i < NEIGHBOUR_CAPACITY then
        let e = rt_neighbours rt ! i in
        if ne_in_use e \<and> unat (ne_netif_id e) = dev then
          Option.bind (neighbour_delete D submit (of_nat dev) (ne_ip_be e) rt)
            (\<lambda>r. if fst r \<noteq> None then Some r else flush_neighbours D submit dev i (snd r))
        else flush_neighbours D submit dev (i + 1) rt
      else Some (None, rt))"

definition request_mac :: "admin_request \<Rightarrow> rte_ether_addr" where
  "request_mac r =
     (let first = ar_v r ! F_SPORT_MIN; rest = ar_v r ! F_SPORT_MAX in
      [ucast (drop_bit 8 first), ucast first] @ map (\<lambda>i. ucast (drop_bit (24 - i * 8) rest)) [0..<4])"

definition admin_worker_operation ::
    "('d, 'x) dpdk_scheme \<Rightarrow> ('d, 'y) ethdev_scheme \<Rightarrow> admin_request \<Rightarrow> 'd app_runtime
       \<Rightarrow> (int \<times> 'd app_runtime) option" where
  "admin_worker_operation D E r rt =
     (let v = ar_v r; verb = ar_verb r; submit = submit_graph D in
      case last_named (rt_ports rt) (ar_dev r) of
        None \<Rightarrow> Some (ERR ENODEV, rt)
      | Some dev \<Rightarrow>
          let link_changed = (\<lambda>rt. do {
                 rt \<leftarrow> neighbour_cancel D submit (of_nat dev) 0 rt;
                 Some (0, admin_event_emit ADM_LINK (of_nat dev) ADM_SET rt)
               });
              rc_int = map_option (\<lambda>(rc, rt). (int_of_rc rc, rt))
          in
          if ar_group r = ADM_LINK \<and> verb = ADM_SET then
            (if v ! F_PORTS = 1 then
               (if v ! F_ACTION > 1 then Some (ERR EINVAL, rt)
                else case link_set E dev (v ! F_ACTION \<noteq> 0) rt of
                  (changed, rc, rt) \<Rightarrow> if changed then link_changed rt else Some (rc, rt))
             else if v ! F_PORTS = 2 then
               (case mtu_set E dev (v ! F_IP) rt of (rc, rt) \<Rightarrow> if rc \<noteq> 0 then Some (rc, rt) else link_changed rt)
             else Some (ERR EINVAL, rt))
          else if ar_group r \<noteq> ADM_NEIGH_GROUP then Some (ERR EOPNOTSUPP, rt)
          else if verb = ADM_FLUSH then do {
            (rc, rt) \<leftarrow> flush_neighbours D submit dev 0 rt;
            if rc \<noteq> None then Some (int_of_rc rc, rt)
            else do {
              rt \<leftarrow> neighbour_cancel D submit (of_nat dev) 0 rt;
              Some (0, rt)
            }
          }
          else if verb = VERB_DEL then rc_int (neighbour_delete D submit (of_nat dev) (v ! F_IP) rt)
          else if verb \<noteq> VERB_ADD \<and> verb \<noteq> VERB_REPLACE then Some (ERR EOPNOTSUPP, rt)
          else if unat (v ! F_SPORT_MIN) > UINT16_MAX then Some (ERR EINVAL, rt)
          else rc_int (neighbour_set D submit (of_nat dev) (v ! F_IP) (request_mac r) (verb = VERB_REPLACE) rt))"

end
