(* ===== verification/Admin_Safety.thy ===== *)
theory Admin_Safety
  imports Admin Loopback
begin

text \<open>
  What administration guarantees: a mutation produces a validated successor of the snapshot it
  started from and touches only its own part of the configuration, and the worker installs a snapshot
  only as the direct successor of the current one and only if every bound socket keeps its address.
\<close>

subsection \<open>Mutations\<close>

abbreviation static_routes :: "net_config \<Rightarrow> net_route list" where
  "static_routes c \<equiv> filter (\<lambda>r. nr_connected r = 0) (nc_routes c)"

abbreviation connected_routes :: "net_config \<Rightarrow> net_route list" where
  "connected_routes c \<equiv> filter (\<lambda>r. nr_connected r \<noteq> 0) (nc_routes c)"

text \<open>The parts of a configuration that a request of a group leaves alone.\<close>

definition keeps :: "u32 \<Rightarrow> net_config \<Rightarrow> net_config \<Rightarrow> bool" where
  "keeps g c c' \<longleftrightarrow>
     (g \<noteq> ADM_ADDR \<longrightarrow> nc_addresses c' = nc_addresses c \<and> connected_routes c' = connected_routes c) \<and>
     (g \<noteq> ADM_ROUTE \<longrightarrow> static_routes c' = static_routes c) \<and>
     (g \<noteq> ADM_RULE \<longrightarrow> nc_rules c' = nc_rules c) \<and>
     (g \<noteq> ADM_ACL \<longrightarrow> nc_acls c' = nc_acls c \<and> nc_default_drop c' = nc_default_drop c)"

lemma rebuild_parts:
  assumes "net_connected_rebuild c = (None, c')"
  shows "static_routes c' = static_routes c" "set (connected_routes c') = connected_route ` set (nc_addresses c)"
    "nc_addresses c' = nc_addresses c" "nc_rules c' = nc_rules c" "nc_acls c' = nc_acls c"
    "nc_default_drop c' = nc_default_drop c" "nc_generation c' = nc_generation c"
proof -
  let ?st = "static_routes c"
  have c': "add_connected (nc_addresses c) ?st = (None, nc_routes c')" "length ?st \<le> NET_ROUTE_MAX"
    and eq: "nc_addresses c' = nc_addresses c" "nc_rules c' = nc_rules c" "nc_acls c' = nc_acls c"
    "nc_default_drop c' = nc_default_drop c" "nc_generation c' = nc_generation c"
    using assms by (auto simp: net_connected_rebuild_def Let_def case_prod_beta prod_eq_iff split: if_splits
        intro: order_trans [OF length_filter_le])
  from add_connected_spec [of ?st "[]" "nc_addresses c"] c' obtain conn where
    conn: "nc_routes c' = ?st @ conn" "set conn = connected_route ` set (nc_addresses c)" by auto
  have "nr_connected r \<noteq> 0" if "r \<in> set conn" for r using that conn(2) by (auto simp: connected_route_def)
  then show "static_routes c' = ?st" "set (connected_routes c') = connected_route ` set (nc_addresses c)"
    using conn by (auto simp: filter_empty_conv)
  show "nc_addresses c' = nc_addresses c" "nc_rules c' = nc_rules c" "nc_acls c' = nc_acls c"
    "nc_default_drop c' = nc_default_drop c" "nc_generation c' = nc_generation c" using eq .
qed

lemma filter_split:
  assumes "i < length xs" "\<not> P (xs ! i)"
  shows "filter P xs = filter P (take i xs) @ filter P (drop (Suc i) xs)"
  using arg_cong [OF id_take_nth_drop [OF assms(1)], of "filter P"] assms(2) by simp

lemma filter_delete_at: "i < length xs \<Longrightarrow> \<not> P (xs ! i) \<Longrightarrow> filter P (delete_at i xs) = filter P xs"
  by (simp add: filter_split delete_at_def)

lemma filter_update_outside: "i < length xs \<Longrightarrow> \<not> P (xs ! i) \<Longrightarrow> \<not> P y \<Longrightarrow> filter P (xs[i := y]) = filter P xs"
  by (simp add: filter_split [of i xs] upd_conv_take_nth_drop)

lemma mutate_addr_keeps:
  assumes "mutate_addr r device c = Inr c'"
  shows "keeps ADM_ADDR c c'" "nc_generation c' = nc_generation c"
    "set (connected_routes c') = connected_route ` set (nc_addresses c')"
proof -
  obtain as' where "net_connected_rebuild (c\<lparr>nc_addresses := as'\<rparr>) = (None, c')"
    using assms by (auto simp: mutate_addr_def Let_def split: option.splits sum.splits prod.splits)
  note p = rebuild_parts [OF this]
  show "keeps ADM_ADDR c c'" "nc_generation c' = nc_generation c"
    "set (connected_routes c') = connected_route ` set (nc_addresses c')" using p by (simp_all add: keeps_def)
qed

lemma mutate_route_keeps:
  assumes "mutate_route view r device c = Inr c'"
  shows "keeps ADM_ROUTE c c' \<and> nc_generation c' = nc_generation c"
proof -
  let ?v = "ar_v r"
  define at where "at = first_index (\<lambda>p. nr_table p = ?v ! F_TABLE \<and> nr_ip p = ?v ! F_IP \<and> nr_prefix p = ?v ! F_PREFIX) (nc_routes c)"
  have i: "i < length (nc_routes c)" if "at = Some i" for i using first_indexD that unfolding at_def by blast
  define new where "new = \<lparr>nr_ip = ?v ! F_IP, nr_prefix = ?v ! F_PREFIX, nr_gateway = ?v ! F_GATEWAY,
    nr_dev = (case device of None \<Rightarrow> 0 | Some d \<Rightarrow> of_nat d), nr_table = ?v ! F_TABLE, nr_type = ?v ! F_ACTION, nr_connected = 0\<rparr>"
  have new: "nr_connected new = 0" by (simp add: new_def)
  have flush: "filter (\<lambda>r. nr_connected r \<noteq> 0) (filter (\<lambda>p. nr_table p \<noteq> t \<or> nr_connected p \<noteq> 0) rs) =
      filter (\<lambda>r. nr_connected r \<noteq> 0) rs" for t rs by (induction rs) auto
  have "\<exists>rs. c' = c\<lparr>nc_routes := rs\<rparr> \<and> filter (\<lambda>r. nr_connected r \<noteq> 0) rs = connected_routes c"
    using assms unfolding mutate_route_def Let_def at_def [symmetric] new_def [symmetric]
    by (cases at; simp only: if_distrib option.case split: if_splits; insert i flush new)
      (auto simp: filter_delete_at filter_update_outside simp del: filter_filter split: if_splits)
  then show ?thesis by (auto simp: keeps_def)
qed

lemma mutate_rule_keeps: "mutate_rule r device c = Inr c' \<Longrightarrow> keeps ADM_RULE c c' \<and> nc_generation c' = nc_generation c"
  by (auto simp: mutate_rule_def Let_def keeps_def split: option.splits if_splits)

lemma mutate_acl_keeps: "mutate_acl view r device c = Inr c' \<Longrightarrow> keeps ADM_ACL c c' \<and> nc_generation c' = nc_generation c"
  by (auto simp: mutate_acl_def Let_def keeps_def split: option.splits if_splits sum.splits)

text \<open>
  C36: a mutation of the configuration.  When \<open>admin_mutate\<close> succeeds, the snapshot it returns is
  validated for the ports of the view, is the direct successor of the view's generation (which did
  not wrap around), differs from the view only in the part its group names, has a route index that
  matches its routes, and after a change of addresses its connected routes are exactly those of its
  addresses.
\<close>

theorem admin_mutate_sound:
  assumes "admin_mutate view r = Inr c"
  shows "net_config_validate c (of_nat (length (av_links view))) = None \<and>
    nc_generation c = nc_generation (av_config view) + 1 \<and> nc_generation (av_config view) < nc_generation c \<and>
    keeps (ar_group r) (av_config view) c \<and>
    (nc_routes_indexed c \<longrightarrow> nc_route_index c = index_of (nc_routes c)) \<and>
    (ar_group r = ADM_ADDR \<longrightarrow> set (connected_routes c) = connected_route ` set (nc_addresses c))"
proof -
  let ?old = "av_config view" and ?ports = "of_nat (length (av_links view)) :: u32"
  obtain device c1 where
    c1: "(if ar_group r = ADM_ADDR then mutate_addr r device ?old
          else if ar_group r = ADM_ROUTE then mutate_route view r device ?old
          else if ar_group r = ADM_RULE then mutate_rule r device ?old
          else if ar_group r = ADM_ACL then mutate_acl view r device ?old else Inl EOPNOTSUPP) = Inr c1"
    and gen: "nc_generation c1 \<noteq> - 1"
    and c: "net_config_prepare (c1\<lparr>nc_generation := nc_generation c1 + 1\<rparr>) ?ports = (None, c)"
    using assms unfolding admin_mutate_def Let_def by (auto split: sum.splits if_splits prod.splits option.splits)
  have m: "keeps (ar_group r) ?old c1" "nc_generation c1 = nc_generation ?old"
    "ar_group r = ADM_ADDR \<longrightarrow> set (connected_routes c1) = connected_route ` set (nc_addresses c1)"
    using c1 mutate_addr_keeps mutate_route_keeps mutate_rule_keeps mutate_acl_keeps by (auto split: if_splits)
  note p = net_config_prepare_None [OF c]
  have c': "nc_default_drop c = nc_default_drop c1" "nc_generation c = nc_generation c1 + 1"
    using c by (auto simp: net_config_prepare_def Let_def split: option.splits if_splits)
  have "nc_generation c1 + 1 \<noteq> 0" using gen unfolding eq_neg_iff_add_eq_0 .
  then have "nc_generation c1 < nc_generation c1 + 1"
    using unatSuc [of "nc_generation c1"] by (simp add: word_less_nat_alt add.commute)
  then show ?thesis using m p c' by (simp add: keeps_def)
qed

subsection \<open>Activation\<close>

text \<open>Discarding pending packets without an answer changes only the graph, the pending table and the device.\<close>

definition discards :: "'d app_runtime \<Rightarrow> 'd app_runtime \<Rightarrow> bool" where
  "discards rt rt' \<longleftrightarrow> (\<exists>g p d. rt' = rt\<lparr>rt_graph := g, rt_pending := p, rt_dev := d\<rparr>)"

lemma discardsI: "discards rt (rt\<lparr>rt_graph := g\<rparr>)" "discards rt (rt\<lparr>rt_pending := p\<rparr>)" "discards rt (rt\<lparr>rt_dev := d\<rparr>)"
  unfolding discards_def
  by (rule exI [of _ g], rule exI [of _ "rt_pending rt"], rule exI [of _ "rt_dev rt"], simp,
      rule exI [of _ "rt_graph rt"], rule exI [of _ p], rule exI [of _ "rt_dev rt"], simp,
      rule exI [of _ "rt_graph rt"], rule exI [of _ "rt_pending rt"], rule exI [of _ d], simp)

lemma discards_refl: "discards rt rt"
  using discardsI(1) [of rt "rt_graph rt"] by simp

lemma discards_trans: "discards a b \<Longrightarrow> discards b c \<Longrightarrow> discards a c"
  unfolding discards_def by (elim exE) (simp, blast)

lemma discards_stats [simp]: "discards rt (add_stats n f rt)"
  using discardsI(1) by (simp add: add_stats_def)

lemma discards_simps:
  assumes "discards rt rt'"
  shows "rt_network rt' = rt_network rt" "rt_sockets rt' = rt_sockets rt" "rt_ports rt' = rt_ports rt"
    "rt_events rt' = rt_events rt" "rt_acl_stats rt' = rt_acl_stats rt" "rt_neighbours rt' = rt_neighbours rt"
  using assms by (auto simp: discards_def)

lemma discard_pending_frame:
  assumes "reason \<noteq> DROP_NEIGHBOUR_RESOLUTION_TIMEOUT"
  shows "ok (discard_pending D submit i reason now rt)
    (\<lambda>rt'. discards rt rt' \<and> rt_pending rt' = (rt_pending rt)[i := zero_pending])"
proof -
  define rt1 where "rt1 = add_reason reason (length (pn_packets (rt_pending rt ! i)))
    (add_drops NODE_ETH_OUTPUT (length (pn_packets (rt_pending rt ! i)))
      (add_drops NODE_DROP (length (pn_packets (rt_pending rt ! i)))
        (add_packets NODE_DROP (length (pn_packets (rt_pending rt ! i))) (set_pending i zero_pending rt))))"
  have "discards rt (set_pending i zero_pending rt)" by (simp add: set_pending_def discardsI(2))
  then have "discards rt rt1"
    unfolding rt1_def add_reason_def add_drops_def add_packets_def
    by (rule discards_trans [OF discards_trans [OF discards_trans [OF discards_trans]]])
      (rule discards_stats discardsI(1))+
  then have start: "discards rt rt1 \<and> rt_pending rt1 = (rt_pending rt)[i := zero_pending]"
    by (simp add: rt1_def add_reason_def add_drops_def add_packets_def add_stats_def set_pending_def)
  have "ok (for_each (discard_packet D submit reason now) (pn_packets (rt_pending rt ! i)) rt1)
      (\<lambda>rt'. discards rt rt' \<and> rt_pending rt' = (rt_pending rt)[i := zero_pending])"
  proof (rule for_each_ok)
    show "discards rt rt1 \<and> rt_pending rt1 = (rt_pending rt)[i := zero_pending]" by (rule start)
    fix x :: "rte_mbuf \<times> packet_ctx" and rt' assume I: "discards rt rt' \<and> rt_pending rt' = (rt_pending rt)[i := zero_pending]"
    have "discards rt' (rte_pktmbuf_free D (fst x) (add_bytes NODE_DROP (mb_pkt_len (fst x)) rt'))"
      unfolding rte_pktmbuf_free_def add_bytes_def by (rule discards_trans [OF discards_stats discardsI(3)])
    then show "ok (discard_packet D submit reason now x rt')
        (\<lambda>rt'. discards rt rt' \<and> rt_pending rt' = (rt_pending rt)[i := zero_pending])"
      using I assms by (cases x)
        (auto simp: discard_packet_def rte_pktmbuf_free_def add_bytes_def add_stats_def intro: discards_trans)
  qed
  then show ?thesis by (simp add: discard_pending_def Let_def rt1_def)
qed

lemma neighbour_fini_clears:
  assumes "length (rt_pending rt) = NEIGHBOUR_PENDING_MAX"
  shows "ok (neighbour_fini D submit rt)
    (\<lambda>rt'. discards rt rt' \<and> rt_pending rt' = replicate NEIGHBOUR_PENDING_MAX zero_pending)"
proof -
  define I where "I = (\<lambda>k rt'. discards rt rt' \<and>
    rt_pending rt' = replicate k zero_pending @ drop k (rt_pending rt))"
  have "ok (neighbour_fini D submit rt) (I NEIGHBOUR_PENDING_MAX)"
    unfolding neighbour_fini_def
  proof (rule for_each_upt_ok)
    show "I 0 rt" by (simp add: I_def discards_refl)
    fix k rt' assume k: "k < NEIGHBOUR_PENDING_MAX" and I: "I k rt'"
    have "drop k (rt_pending rt) = rt_pending rt ! k # drop (Suc k) (rt_pending rt)"
      using k assms by (simp add: Cons_nth_drop_Suc)
    then have upd: "(replicate k zero_pending @ drop k (rt_pending rt))[k := zero_pending] =
        replicate (Suc k) zero_pending @ drop (Suc k) (rt_pending rt)"
      by (simp add: list_update_append replicate_append_same [symmetric])
    show "ok (discard_pending D submit k DROP_NEIGHBOUR_CANCELLED 0 rt') (I (Suc k))"
      by (rule ok_mono [OF discard_pending_frame]) (use I upd in \<open>auto simp: I_def intro: discards_trans\<close>)
  qed
  then show ?thesis by (rule ok_mono) (simp add: I_def assms)
qed

text \<open>
  C37: the activation of a snapshot is all or nothing.  It always returns.  Refused snapshots (none, or
  one that does not directly succeed the current generation, or one that removes the address of a
  bound socket) change nothing at all.  An accepted snapshot becomes the current configuration and
  the previous one is handed back; its generation is the next one, every bound socket still has its
  address configured, the sockets, the ports and the neighbours are untouched, and after a change of
  addresses, routes or rules no packet waits for a neighbour any more.
\<close>

theorem admin_activate_safe:
  assumes "rt_network rt = Some current" and "length (rt_pending rt) = NEIGHBOUR_PENDING_MAX"
  shows "\<exists>res rt'. admin_activate D r next_config rt = Some (res, rt') \<and>
    (case res of
       Inl e \<Rightarrow> rt' = rt \<and> (e = ESTALE \<or> e = EBUSY)
     | Inr retired \<Rightarrow> retired = current \<and> rt_network rt' = next_config \<and>
         (\<exists>c. next_config = Some c \<and> nc_generation c = nc_generation current + 1 \<and>
            (\<forall>s\<in>set (live_sockets rt'). se_allocated s \<and> sa_ip_be (se_local s) \<noteq> 0 \<longrightarrow>
               (\<exists>a\<in>set (nc_addresses c). na_ip a = sa_ip_be (se_local s)))) \<and>
         rt_sockets rt' = rt_sockets rt \<and> rt_ports rt' = rt_ports rt \<and> rt_neighbours rt' = rt_neighbours rt \<and>
         (ar_group r \<in> {ADM_ADDR, ADM_ROUTE, ADM_RULE} \<longrightarrow> rt_pending rt' = replicate NEIGHBOUR_PENDING_MAX zero_pending))"
proof (cases next_config)
  case None
  then show ?thesis using assms(1) by (simp add: admin_activate_def)
next
  case (Some c)
  show ?thesis
  proof (cases "nc_generation c = nc_generation current + 1 \<and> \<not> removed_binding rt c")
    case False
    then show ?thesis using assms(1) Some by (auto simp: admin_activate_def)
  next
    case True
    define rt1 where "rt1 = rt\<lparr>rt_acl_stats := net_acl_counters_migrate current c (rt_acl_stats rt), rt_network := Some c\<rparr>"
    define clears where "clears \<longleftrightarrow> ar_group r = ADM_ADDR \<or> ar_group r = ADM_ROUTE \<or> ar_group r = ADM_RULE"
    have "ok (if clears then neighbour_fini D (submit_graph D) rt1 else Some rt1)
        (\<lambda>rt2. discards rt1 rt2 \<and> (clears \<longrightarrow> rt_pending rt2 = replicate NEIGHBOUR_PENDING_MAX zero_pending))"
      using ok_mono [OF neighbour_fini_clears [of rt1 D "submit_graph D"]] assms(2) by (auto simp: rt1_def discards_refl)
    then obtain rt2 where rt2: "(if clears then neighbour_fini D (submit_graph D) rt1 else Some rt1) = Some rt2"
        "discards rt1 rt2" "clears \<longrightarrow> rt_pending rt2 = replicate NEIGHBOUR_PENDING_MAX zero_pending"
      by (auto simp: ok_iff)
    define rt' where "rt' = admin_event_emit ADM_STATUS 0 ADM_APPLY (annotate_event r
      (admin_event_emit (ar_group r) (ar_v r ! F_PREF) (ar_verb r) rt2))"
    have run: "admin_activate D r next_config rt = Some (Inr current, rt')"
      unfolding admin_activate_def using assms(1) Some True rt2(1)
      by (simp add: Let_def rt1_def [symmetric] clears_def [symmetric] rt'_def)
    have same: "rt_network rt' = Some c" "rt_sockets rt' = rt_sockets rt" "rt_ports rt' = rt_ports rt"
        "rt_neighbours rt' = rt_neighbours rt" "rt_pending rt' = rt_pending rt2"
      using discards_simps [OF rt2(2)]
      by (simp_all add: rt'_def admin_event_emit_def annotate_event_def Let_def rt1_def split: option.splits)
    have "live_sockets rt' = live_sockets rt" using same(2) by (simp add: live_sockets_def)
    then have bound: "\<forall>s\<in>set (live_sockets rt'). se_allocated s \<and> sa_ip_be (se_local s) \<noteq> 0 \<longrightarrow>
        (\<exists>a\<in>set (nc_addresses c). na_ip a = sa_ip_be (se_local s))"
      using True by (auto simp: removed_binding_def)
    show ?thesis
      unfolding run using True same bound Some rt2(3) by (intro exI [of _ "Inr current"] exI [of _ rt']) (simp add: clears_def)
  qed
qed

subsection \<open>Flushing the neighbours of an interface\<close>

lemma neighbour_cancel_frame: "ok (neighbour_cancel D submit dev ip rt) (discards rt)"
  unfolding neighbour_cancel_def
proof (rule for_each_ok)
  show "discards rt rt" by (rule discards_refl)
  fix i rt' assume "discards rt rt'"
  then show "ok (let p = rt_pending rt' ! i in
      if pn_packets p \<noteq> [] \<and> pn_netif_id p = dev \<and> (ip = 0 \<or> pn_ip_be p = ip)
      then discard_pending D submit i DROP_NEIGHBOUR_CANCELLED 0 rt' else Some rt') (discards rt)"
    using ok_mono [OF discard_pending_frame [of DROP_NEIGHBOUR_CANCELLED D submit i 0 rt'], of "discards rt"]
    by (auto simp: Let_def intro: discards_trans)
qed

lemma neighbour_event_frame: "rt_neighbours (admin_neighbour_event dev ip action rt) = rt_neighbours rt"
  by (simp add: admin_neighbour_event_def admin_event_emit_def Let_def split: option.splits)

lemma neighbour_delete_present:
  assumes inv: "nb_inv (rt_neighbours rt)" and key: "key_at (rt_neighbours rt) dev ip p"
  obtains rt' where "neighbour_delete D submit dev ip rt = Some (None, rt')"
    "rt_neighbours rt' = neighbour_remove (rt_neighbours rt) p"
    "nb_inv (rt_neighbours rt')" "nb_abs (rt_neighbours rt') = (nb_abs (rt_neighbours rt))((dev, ip) := None)"
proof -
  let ?t = "rt_neighbours rt"
  have slot: "find_slot ?t dev ip = Some p" by (rule find_slot_present [OF inv key])
  have unset: "neighbour_unset ?t dev ip = (None, neighbour_remove ?t p)"
    using slot key by (simp add: neighbour_unset_def key_at_def)
  define rt1 where "rt1 = admin_neighbour_event dev ip ADM_DEL (rt\<lparr>rt_neighbours := neighbour_remove ?t p\<rparr>)"
  obtain rt' where rt': "neighbour_cancel D submit dev ip rt1 = Some rt'" "discards rt1 rt'"
    using neighbour_cancel_frame [of D submit dev ip rt1] by (auto simp: ok_iff)
  have n: "rt_neighbours rt' = neighbour_remove ?t p"
    using discards_simps(6) [OF rt'(2)] by (simp add: rt1_def neighbour_event_frame)
  have run: "neighbour_delete D submit dev ip rt = Some (None, rt')"
    using unset rt'(1) by (simp add: neighbour_delete_def rt1_def)
  have "nb_inv (neighbour_remove ?t p)"
    using neighbour_remove_spec(1) [OF inv] key by (simp add: key_at_def)
  moreover have "nb_abs (neighbour_remove ?t p) = (nb_abs ?t)((dev, ip) := None)"
    by (rule ext) (auto simp: nb_abs_def nb_entries_remove [OF inv key] split: prod.splits)
  ultimately show ?thesis using that [OF run n] n by simp
qed

text \<open>
  Closing a gap never brings an entry to a slot before the deleted one from a slot after it, so the
  slots that a scan has passed stay free of the entries it is looking for.
\<close>

lemma close_gap_passed:
  assumes "p < 64" "a < k" "k + n \<le> 64" "length t = 64" "\<forall>j < p. \<not> bad (t ! j)"
  shows "(\<forall>j < p. \<not> bad (fst (close_gap t (pos p a) (pos p (k mod 64)) n) ! j)) \<and>
    length (fst (close_gap t (pos p a) (pos p (k mod 64)) n)) = 64"
  using assms(2-)
proof (induction n arbitrary: t a k)
  case (Suc n)
  have k: "k mod 64 = k" "Suc (pos p k) mod 64 = pos p (Suc k mod 64)"
    using Suc.prems(2) pos_Suc [of p k] assms(1) by simp_all
  have wrap: "\<forall>j < p. \<not> bad (t[pos p a := t ! pos p k] ! j)"
  proof (intro allI impI)
    fix j assume j: "j < p"
    show "\<not> bad (t[pos p a := t ! pos p k] ! j)"
    proof (cases "j = pos p a")
      case True
      have "pos p k < p" using True j Suc.prems(1,2) assms(1) by (auto simp: pos_if split: if_splits)
      then show ?thesis using True j Suc.prems(3,4) assms(1) by simp
    next
      case False
      then show ?thesis using j Suc.prems(4) by simp
    qed
  qed
  note moved = Suc.IH [of k "Suc k" "t[pos p a := t ! pos p k]"]
  note kept = Suc.IH [of a "Suc k" t]
  show ?case using moved kept wrap Suc.prems by (simp add: k Let_def)
qed simp

lemma neighbour_remove_passed:
  assumes "p < 64" "length t = 64" "\<forall>j < p. \<not> bad (t ! j)" "\<not> bad zero_neighbour"
  shows "\<forall>j < p. \<not> bad (neighbour_remove t p ! j)"
proof -
  have "pos p 0 = p" "pos p (1 mod 64) = (p + 1) mod 64" using assms(1) by (simp_all add: pos_def)
  then have *: "\<forall>j < p. \<not> bad (fst (close_gap t p ((p + 1) mod 64) 63) ! j)" "length (fst (close_gap t p ((p + 1) mod 64) 63)) = 64"
    using close_gap_passed [of p 0 1 63 t bad] assms by simp_all
  obtain t' hole where cg: "close_gap t p ((p + 1) mod 64) 63 = (t', hole)" by fastforce
  show ?thesis
    using * assms(4) cg by (auto simp: neighbour_remove_def nth_list_update split: if_splits)
      (metis nth_list_update_eq nth_list_update_neq list_update_beyond linorder_not_less)
qed

lemma finite_nb_abs: "nb_inv t \<Longrightarrow> finite (dom (nb_abs t))"
proof -
  assume "nb_inv t"
  then have "dom (nb_abs t) \<subseteq> (\<lambda>e. (ne_netif_id e, ne_ip_be e)) ` live_entries t 64"
    by (auto simp: nb_abs_def nb_entries_live same_key_def)
  moreover have "finite (live_entries t 64)" by (simp add: live_entries_image)
  ultimately show ?thesis by (meson finite_imageI finite_subset)
qed

definition dev_map :: "nat \<Rightarrow> nb_map \<Rightarrow> nb_map" where
  "dev_map dev m = (\<lambda>(d, ip). if unat d = dev then None else m (d, ip))"

lemma flush_neighbours_scan:
  assumes "nb_inv (rt_neighbours rt)" and "i \<le> 64" and "dev < 2 ^ 16"
    and "\<forall>j < i. \<not> (ne_in_use (rt_neighbours rt ! j) \<and> unat (ne_netif_id (rt_neighbours rt ! j)) = dev)"
    and "Q rt" and keeps: "\<And>dev ip rt r. Q rt \<Longrightarrow> neighbour_delete D submit dev ip rt = Some r \<Longrightarrow> Q (snd r)"
  shows "ok (flush_neighbours D submit dev i rt) (\<lambda>(rc, rt'). rc = None \<and> nb_inv (rt_neighbours rt') \<and>
    nb_abs (rt_neighbours rt') = dev_map dev (nb_abs (rt_neighbours rt)) \<and> Q rt')"
  using assms(1,2,4,5)
proof (induction "65 * card (dom (nb_abs (rt_neighbours rt))) + (64 - i)" arbitrary: rt i rule: less_induct)
  case less
  let ?t = "rt_neighbours rt"
  note inv = less.prems(1)
  have len: "length ?t = 64" using inv by (simp add: nb_inv_def)
  show ?case
  proof (cases "i < 64")
    case False
    then have none: "\<not> (ne_in_use e \<and> unat (ne_netif_id e) = dev)" if "e \<in> set ?t" for e
      using that less.prems(2,3) len by (auto simp: in_set_conv_nth)
    have "nb_abs ?t = dev_map dev (nb_abs ?t)"
    proof (rule ext)
      fix x :: "u16 \<times> u32"
      show "nb_abs ?t x = dev_map dev (nb_abs ?t) x"
        using none by (cases x) (auto simp: dev_map_def nb_abs_def nb_entries_def find_None_iff same_key_def)
    qed
    then show ?thesis using False inv less.prems(4) by (subst flush_neighbours.simps) simp
  next
    case i: True
    show ?thesis
    proof (cases "ne_in_use (?t ! i) \<and> unat (ne_netif_id (?t ! i)) = dev")
      case False
      then have "\<forall>j < i + 1. \<not> (ne_in_use (?t ! j) \<and> unat (ne_netif_id (?t ! j)) = dev)"
        using less.prems(3) by (auto simp: less_Suc_eq)
      moreover have "flush_neighbours D submit dev i rt = flush_neighbours D submit dev (i + 1) rt"
        by (subst flush_neighbours.simps) (simp only: Let_def i False if_True if_False)
      ultimately show ?thesis using less.hyps [of rt "i + 1"] i inv less.prems(4) by simp
    next
      case True
      define ip where "ip = ne_ip_be (?t ! i)"
      have dev: "(of_nat dev :: u16) = ne_netif_id (?t ! i)" using True by auto
      have key: "key_at ?t (of_nat dev) ip i" using True i by (simp add: key_at_def same_key_def ip_def dev)
      obtain rt' where rt': "neighbour_delete D submit (of_nat dev) ip rt = Some (None, rt')"
          "rt_neighbours rt' = neighbour_remove ?t i" "nb_inv (rt_neighbours rt')"
          "nb_abs (rt_neighbours rt') = (nb_abs ?t)((of_nat dev, ip) := None)"
        using inv key by (rule neighbour_delete_present)
      have dom: "(of_nat dev, ip) \<in> dom (nb_abs ?t)"
        using nb_entries_None [OF len, of "of_nat dev" ip] key by (auto simp: nb_abs_def)
      have "card (dom (nb_abs (rt_neighbours rt'))) < card (dom (nb_abs ?t))"
        unfolding rt'(4) dom_fun_upd using card_Diff1_less [OF finite_nb_abs [OF inv] dom] by simp
      then have less': "65 * card (dom (nb_abs (rt_neighbours rt'))) + (64 - i) < 65 * card (dom (nb_abs ?t)) + (64 - i)" by simp
      have passed: "\<forall>j < i. \<not> (ne_in_use (rt_neighbours rt' ! j) \<and> unat (ne_netif_id (rt_neighbours rt' ! j)) = dev)"
        unfolding rt'(2) using less.prems(3) i len
        by (intro neighbour_remove_passed [of i _ "\<lambda>e. ne_in_use e \<and> unat (ne_netif_id e) = dev"]) (simp_all add: zero_neighbour_def)
      have same: "dev_map dev (nb_abs (rt_neighbours rt')) = dev_map dev (nb_abs ?t)"
        unfolding rt'(4) by (rule ext) (auto simp: dev_map_def dev True)
      have step: "flush_neighbours D submit dev i rt = flush_neighbours D submit dev i rt'"
        using True i rt'(1) by (subst flush_neighbours.simps) (simp add: Let_def ip_def)
      have "Q rt'" using keeps [OF less.prems(4) rt'(1)] by simp
      then show ?thesis unfolding step using less.hyps [OF less' rt'(3) less.prems(2) passed] same by simp
    qed
  qed
qed

text \<open>
  C38: flushing the neighbours of an interface ends and is complete.  The loop rereads a slot after
  each deletion because closing the gap may have moved another entry into it; it nevertheless ends,
  never fails, removes every entry of the interface (also those that wrap around the end of the
  table) and keeps every entry of the others.
\<close>

theorem flush_neighbours_complete:
  assumes "nb_inv (rt_neighbours rt)" and "dev < 2 ^ 16"
  shows "\<exists>rt'. flush_neighbours D submit dev 0 rt = Some (None, rt') \<and> nb_inv (rt_neighbours rt') \<and>
    nb_abs (rt_neighbours rt') = dev_map dev (nb_abs (rt_neighbours rt))"
  using flush_neighbours_scan [of rt 0 dev "\<lambda>_. True" D submit] assms by (auto simp: ok_iff)

subsection \<open>Witnesses\<close>

definition sample_view :: admin_view where
  "sample_view = \<lparr>av_config = sample_config, av_links = [sample_port 0 (ip4 10 0 0 1) 24, sample_port 1 (ip4 10 1 0 1) 16]\<rparr>"

definition flush_acl :: admin_request where
  "flush_acl = \<lparr>ar_group = ADM_ACL, ar_verb = ADM_FLUSH, ar_flags = 0, ar_v = replicate 16 0,
     ar_dev = replicate 64 0, ar_acls = []\<rparr>"

lemma flush_acl_succeeds: "\<not> isl (admin_mutate sample_view flush_acl)"
  by code_simp

theorem admin_mutate_sound_witness:
  "\<exists>c. admin_mutate sample_view flush_acl = Inr c \<and> net_config_validate c 2 = None \<and> nc_generation c = 2 \<and>
     keeps ADM_ACL sample_config c"
proof -
  obtain c where c: "admin_mutate sample_view flush_acl = Inr c"
    using flush_acl_succeeds by (cases "admin_mutate sample_view flush_acl") auto
  show ?thesis
    using admin_mutate_sound [OF c] c by (simp add: sample_view_def flush_acl_def sample_config_def)
qed

theorem admin_activate_safe_witness:
  "\<exists>res rt'. admin_activate loopback flush_acl (Some (sample_config\<lparr>nc_generation := 2\<rparr>)) (sample_runtime 0 (Some sample_config))
     = Some (res, rt') \<and>
   (case res of Inl e \<Rightarrow> e = ESTALE \<or> e = EBUSY
    | Inr retired \<Rightarrow> retired = sample_config \<and> rt_network rt' = Some (sample_config\<lparr>nc_generation := 2\<rparr>))"
proof -
  have "rt_network (sample_runtime 0 (Some sample_config)) = Some sample_config"
    "length (rt_pending (sample_runtime (0 :: nat) (Some sample_config))) = NEIGHBOUR_PENDING_MAX"
    by (simp_all add: sample_runtime_def del: replicate.simps)
  from admin_activate_safe [OF this, of loopback flush_acl "Some (sample_config\<lparr>nc_generation := 2\<rparr>)"]
  show ?thesis by (fastforce split: sum.splits)
qed

definition sample_neighbours :: neighbour_table where
  "sample_neighbours = snd (nb_step (\<lambda>_. True) (NB_Learn 1 (ip4 10 1 0 9) [2, 0, 0, 0, 0, 9])
     (replicate NEIGHBOUR_CAPACITY zero_neighbour))"

theorem flush_neighbours_complete_witness:
  "\<exists>rt'. flush_neighbours loopback (submit_graph loopback) 1 0 ((sample_runtime 0 None)\<lparr>rt_neighbours := sample_neighbours\<rparr>)
     = Some (None, rt') \<and> nb_abs (rt_neighbours rt') = dev_map 1 (nb_abs sample_neighbours)"
proof -
  have "nb_inv sample_neighbours" unfolding sample_neighbours_def by (rule nb.step_inv [OF nb_inv_empty])
  then have "nb_inv (rt_neighbours ((sample_runtime (0 :: nat) None)\<lparr>rt_neighbours := sample_neighbours\<rparr>))" by simp
  from flush_neighbours_complete [OF this, of 1 loopback "submit_graph loopback"] show ?thesis by auto
qed

end
