(* ===== verification/Worker_Safety.thy ===== *)
theory Worker_Safety
  imports Graph_Safety Admin_Safety
begin

text \<open>
  The worker thread (the loop of \<^verbatim>\<open>src/main.c\<close>): it serves the requests of the clients, executes the jobs
  of the administration and polls the ports, in any order and any number of times.  Nothing a client
  sends, an administrator asks or a network delivers makes one of these operations undefined, keeps it
  from ending, or breaks an invariant of the runtime.
\<close>

subsection \<open>Jobs of the administration\<close>

abbreviation served :: "('d, 'x) dpdk_scheme \<Rightarrow> u16 set \<Rightarrow> 'd app_runtime \<Rightarrow> bool" where
  "served D ids rt \<equiv> ready D ids (rt_network rt) rt \<and> rt_network rt \<noteq> None"

lemma ready_network: "ready D ids net rt \<Longrightarrow> rt_network rt = net"
  by (simp add: kept_def idle_def)

lemma ready_served: "ready D ids (Some c) rt \<Longrightarrow> served D ids rt"
  using ready_network [of D ids "Some c" rt] by simp

lemma prepared_config_wf: "net_config_prepare c0 (of_nat n) = (None, c) \<Longrightarrow> config_wf n c"
  using net_config_prepare_None [of c0 "of_nat n" c] by (simp add: config_wf_def)

lemma ready_install:
  assumes "ready D ids net rt" "config_wf (length (rt_ports rt)) c"
  shows "ready D ids (Some c) (rt\<lparr>rt_acl_stats := st, rt_network := Some c\<rparr>)"
  using assms by (simp add: kept_def idle_def at_rest_def rt_wf_def net_wf_def)

lemma ready_events: "ready D ids net rt \<Longrightarrow> ready D ids net (rt\<lparr>rt_events := es\<rparr>)"
  using sent_kept [OF api.sent_stats(10) [OF kept_sent]] .

lemma ready_emit: "ready D ids net rt \<Longrightarrow> ready D ids net (admin_event_emit g obj verb rt)"
  by (simp add: admin_event_emit_def Let_def ready_events split: option.split)

lemma neighbour_fini_ready:
  assumes "ready D ids net rt"
  shows "ok (neighbour_fini D (submit_graph D) rt) (ready D ids net)"
  unfolding neighbour_fini_def
proof (rule for_each_ok [where I = "ready D ids net"])
  show "ok (discard_pending D (submit_graph D) i DROP_NEIGHBOUR_CANCELLED 0 rt') (ready D ids net)" if "ready D ids net rt'" for i rt'
    by (rule ok_mono [OF api.discard_pending_sent]) (use that in \<open>auto simp: kept_def sent_def\<close>)
qed (rule assms)

lemma admin_activate_ready:
  assumes "served D ids rt" "config_wf (length (rt_ports rt)) c"
  shows "ok (admin_activate D r (Some c) rt) (\<lambda>x. served D ids (snd x))"
proof -
  obtain cur where cur: "rt_network rt = Some cur" using assms(1) by blast
  let ?rt = "rt\<lparr>rt_acl_stats := net_acl_counters_migrate cur c (rt_acl_stats rt), rt_network := Some c\<rparr>"
  have r: "ready D ids (Some c) ?rt" using assms by (intro ready_install [of D ids "rt_network rt"]) simp_all
  have "ok (if b then neighbour_fini D (submit_graph D) ?rt else Some ?rt) (ready D ids (Some c))" for b
    using r neighbour_fini_ready [OF r] by simp
  then have go: "ok (do { rt \<leftarrow> (if b then neighbour_fini D (submit_graph D) ?rt else Some ?rt);
      Some (Inr cur, admin_event_emit ADM_STATUS 0 ADM_APPLY (annotate_event r (admin_event_emit g x y rt))) })
      (\<lambda>x. served D ids (snd x))" for b g x y
  proof (rule ok_bindI)
    fix rt' assume "ready D ids (Some c) rt'"
    then have "ready D ids (Some c) (admin_event_emit ADM_STATUS 0 ADM_APPLY (annotate_event r (admin_event_emit g x y rt')))"
      unfolding annotate_event_def Let_def by (intro ready_emit ready_events)
    from ready_served [OF this] show "ok (Some (Inr cur, admin_event_emit ADM_STATUS 0 ADM_APPLY (annotate_event r (admin_event_emit g x y rt'))))
        (\<lambda>x. served D ids (snd x))" by simp
  qed
  show ?thesis
    unfolding admin_activate_def cur Option.bind.bind_lunit option.case Let_def
    by (intro ok_ifI go) (use assms(1) in \<open>simp_all add: cur\<close>)
qed

text \<open>Starting, stopping and reconfiguring a device changes only the state of its port.\<close>

lemma upd_port_ready:
  assumes "ready D ids net rt"
    and "\<And>q. po_configured (f q) = po_configured q \<and> po_id (f q) = po_id q \<and> po_mac (f q) = po_mac q \<and> po_port_id (f q) = po_port_id q"
  shows "ready D ids net (upd_port p f rt)"
proof -
  have "rt_wf ids (upd_port p f rt)" by (rule rt_wf_upd_port) (use assms in \<open>simp_all add: kept_def\<close>)
  moreover have "idle D ids net (upd_port p f rt)"
    by (rule api.C_cong [of D ids net rt]) (use assms(1) in \<open>simp_all add: kept_def upd_port_def\<close>)
  ultimately show ?thesis by (simp add: kept_def)
qed

lemma dev_call_ready: "ready D ids net rt \<Longrightarrow> ready D ids net (snd (dev_call f rt))"
  by (simp add: dev_call_def case_prod_beta api.safe_dev)

lemma mtu_restart_ready: "ready D ids net rt \<Longrightarrow> ready D ids net (snd (mtu_restart E p mtu rt))"
  unfolding mtu_restart_def Let_def
  by (auto simp: case_prod_beta intro!: dev_call_ready upd_port_ready)

lemma mtu_set_ready:
  assumes "ready D ids net rt"
  shows "ready D ids net (snd (mtu_set E p mtu rt))"
  unfolding mtu_set_def Let_def
  using assms by (auto simp: case_prod_beta split: sum.split intro!: dev_call_ready upd_port_ready mtu_restart_ready)

lemma link_set_ready: "ready D ids net rt \<Longrightarrow> ready D ids net (snd (snd (link_set E p up rt)))"
  unfolding link_set_def Let_def
  by (auto simp: case_prod_beta intro!: dev_call_ready upd_port_ready)

lemma neighbour_cancel_ready:
  "ready D ids net rt \<Longrightarrow> ok (neighbour_cancel D (submit_graph D) dev ip rt) (ready D ids net)"
  by (rule ok_mono [OF api.neighbour_cancel_sent]) (auto simp: kept_def sent_def)

lemma neighbour_delete_ready:
  "ready D ids net rt \<Longrightarrow> ok (neighbour_delete D (submit_graph D) dev ip rt) (\<lambda>r. ready D ids net (snd r))"
  by (rule ok_mono [OF api.neighbour_delete_sent]) (auto simp: kept_def sent_def)

lemma neighbour_set_ready:
  "ready D ids net rt \<Longrightarrow> length mac = 6 \<Longrightarrow> ok (neighbour_set D (submit_graph D) dev ip mac replace rt) (\<lambda>r. ready D ids net (snd r))"
  by (rule ok_mono [OF api.neighbour_set_sent]) (auto simp: kept_def sent_def)

lemma flush_neighbours_ready:
  assumes "ready D ids net rt" "dev < 2 ^ 16"
  shows "ok (flush_neighbours D (submit_graph D) dev 0 rt) (\<lambda>r. fst r = None \<and> ready D ids net (snd r))"
proof -
  have "nb_inv (rt_neighbours rt)" using assms(1) by (simp add: kept_def rt_wf_def nb_wf_def)
  moreover have "ready D ids net (snd r)" if "ready D ids net rt'" "neighbour_delete D (submit_graph D) d ip rt' = Some r" for d ip rt' r
    using neighbour_delete_ready [OF that(1), of d ip] that(2) by simp
  ultimately show ?thesis
    by (intro ok_mono [OF flush_neighbours_scan [of rt 0 dev "ready D ids net"]]) (use assms in auto)
qed

lemma last_named_less: "last_named ports name = Some i \<Longrightarrow> i < length ports"
proof -
  have "fold (\<lambda>i found. if P i then Some i else found) xs acc = Some i \<Longrightarrow> acc = Some i \<or> i \<in> set xs" for P xs acc
    by (induction xs arbitrary: acc) (auto split: if_splits)
  then show "last_named ports name = Some i \<Longrightarrow> i < length ports" unfolding last_named_def by fastforce
qed

lemma length_request_mac: "length (request_mac r) = 6"
  by (simp add: request_mac_def Let_def)

lemma admin_worker_operation_ready:
  assumes "ready D ids net rt"
  shows "ok (admin_worker_operation D E r rt) (\<lambda>x. ready D ids net (snd x))"
proof (cases "last_named (rt_ports rt) (ar_dev r)")
  case None
  then show ?thesis using assms by (simp add: admin_worker_operation_def)
next
  case (Some dev)
  have "length (rt_ports rt) \<le> 8" using assms by (intro net_wfD(1) [OF rt_wfD(2) [of ids]]) (simp add: kept_def)
  then have dev: "dev < 2 ^ 16" using last_named_less [OF Some] by simp
  have changed: "ok (do { rt \<leftarrow> neighbour_cancel D (submit_graph D) (of_nat dev) 0 rt';
      Some (0 :: int, admin_event_emit ADM_LINK (of_nat dev) ADM_SET rt) }) (\<lambda>x. ready D ids net (snd x))" if "ready D ids net rt'" for rt'
    by (rule ok_bindI [OF neighbour_cancel_ready [OF that]]) (simp add: ready_emit)
  have link: "ok (case link_set E dev up rt of (changed, rc, rt) \<Rightarrow> if changed then do {
        rt \<leftarrow> neighbour_cancel D (submit_graph D) (of_nat dev) 0 rt;
        Some (0, admin_event_emit ADM_LINK (of_nat dev) ADM_SET rt) } else Some (rc, rt)) (\<lambda>x. ready D ids net (snd x))" for up
    using link_set_ready [OF assms, of E dev up] changed by (auto split: prod.split)
  have mtu: "ok (case mtu_set E dev k rt of (rc, rt) \<Rightarrow> if rc \<noteq> 0 then Some (rc, rt) else do {
        rt \<leftarrow> neighbour_cancel D (submit_graph D) (of_nat dev) 0 rt;
        Some (0, admin_event_emit ADM_LINK (of_nat dev) ADM_SET rt) }) (\<lambda>x. ready D ids net (snd x))" for k
    using mtu_set_ready [OF assms, of E dev k] changed by (auto split: prod.split)
  have flush: "ok (do { (rc, rt) \<leftarrow> flush_neighbours D (submit_graph D) dev 0 rt;
      if rc \<noteq> None then Some (int_of_rc rc, rt)
      else do { rt \<leftarrow> neighbour_cancel D (submit_graph D) (of_nat dev) 0 rt; Some (0, rt) } }) (\<lambda>x. ready D ids net (snd x))"
    by (rule ok_bindI [OF flush_neighbours_ready [OF assms dev]]) (auto intro!: ok_bindI [OF neighbour_cancel_ready])
  show ?thesis
    unfolding admin_worker_operation_def Some option.case Let_def
    by (intro ok_ifI link mtu flush)
      (simp_all add: assms case_prod_beta neighbour_delete_ready neighbour_set_ready length_request_mac)
qed

subsection \<open>The worker\<close>

text \<open>
  One operation of the worker.  A configuration is activated only after \<open>net_config_prepare\<close> accepted
  it (\<open>admin_mutate\<close>), for the number of ports of the runtime.
\<close>

inductive worker_step :: "('d, 'x) dpdk_scheme \<Rightarrow> ('d, 'y) ethdev_scheme \<Rightarrow> 'd app_runtime \<Rightarrow> 'd app_runtime \<Rightarrow> bool"
  for D :: "('d, 'x) dpdk_scheme" and E :: "('d, 'y) ethdev_scheme" where
  serve: "daemon_dispatch D request rt = Some (response, rt') \<Longrightarrow> worker_step D E rt rt'"
| activate: "net_config_prepare c0 (of_nat (length (rt_ports rt))) = (None, c) \<Longrightarrow>
    admin_activate D r (Some c) rt = Some (result, rt') \<Longrightarrow> worker_step D E rt rt'"
| hardware: "admin_worker_operation D E r rt = Some (rc, rt') \<Longrightarrow> worker_step D E rt rt'"
| poll: "app_step D rt = Some (received, rt') \<Longrightarrow> worker_step D E rt rt'"

lemma worker_operations_ready:
  assumes "dpdk_rx_ok D" "served D ids rt"
  shows "ok (daemon_dispatch D request rt) (\<lambda>x. served D ids (snd x))"
    and "net_config_prepare c0 (of_nat (length (rt_ports rt))) = (None, c) \<Longrightarrow>
      ok (admin_activate D r (Some c) rt) (\<lambda>x. served D ids (snd x))"
    and "ok (admin_worker_operation D E r rt) (\<lambda>x. served D ids (snd x))"
    and "ok (app_step D rt) (\<lambda>x. served D ids (snd x))"
proof -
  obtain net where net: "rt_network rt = Some net" using assms(2) by blast
  have r: "ready D ids (Some net) rt" using assms(2) net by simp
  note s = ready_served [of D ids net]
  show "ok (daemon_dispatch D request rt) (\<lambda>x. served D ids (snd x))"
    by (rule ok_mono [OF daemon_dispatch_ready [OF r]]) (use s in blast)
  show "net_config_prepare c0 (of_nat (length (rt_ports rt))) = (None, c) \<Longrightarrow>
      ok (admin_activate D r (Some c) rt) (\<lambda>x. served D ids (snd x))"
    by (rule admin_activate_ready [OF assms(2) prepared_config_wf])
  show "ok (admin_worker_operation D E r rt) (\<lambda>x. served D ids (snd x))"
    by (rule ok_mono [OF admin_worker_operation_ready [OF r]]) (use s in blast)
  show "ok (app_step D rt) (\<lambda>x. served D ids (snd x))"
    by (rule ok_mono [OF app_step_ready [OF assms(1) r]]) (use s in blast)
qed

lemma worker_step_served:
  assumes "dpdk_rx_ok D" "worker_step D E rt rt'" "served D ids rt"
  shows "served D ids rt'"
  using assms(2)
proof cases
  case (serve request response)
  then show ?thesis using worker_operations_ready(1) [OF assms(1,3), of request] by simp
next
  case (activate c0 c r result)
  then show ?thesis using worker_operations_ready(2) [OF assms(1,3) activate(1), of r] by simp
next
  case (hardware r rc)
  then show ?thesis using worker_operations_ready(3) [OF assms(1,3), of E r] by simp
next
  case (poll received)
  then show ?thesis using worker_operations_ready(4) [OF assms(1,3)] by simp
qed

lemma worker_reaches_served:
  assumes "dpdk_rx_ok D" "(worker_step D E)\<^sup>*\<^sup>* rt rt'" "served D ids rt"
  shows "served D ids rt'"
  using assms(2,3) by (induction rule: rtranclp_induct) (auto dest: worker_step_served [OF assms(1)])

text \<open>
  C1: the worker never gets stuck.  In every state reached from a well-formed runtime by serving
  requests, activating configurations, changing devices and polling, in any order, the next operation
  is again defined and ends, whatever the next request, job or packets are.
\<close>

theorem worker_never_stuck:
  assumes "dpdk_rx_ok D" and "served D ids rt0" and "(worker_step D E)\<^sup>*\<^sup>* rt0 rt"
  shows "daemon_dispatch D request rt \<noteq> None \<and> app_step D rt \<noteq> None \<and> admin_worker_operation D E job rt \<noteq> None \<and>
    (\<forall>c0 c. net_config_prepare c0 (of_nat (length (rt_ports rt))) = (None, c) \<longrightarrow> admin_activate D job (Some c) rt \<noteq> None)"
proof -
  have s: "served D ids rt" by (rule worker_reaches_served [OF assms(1,3,2)])
  note ops = worker_operations_ready [OF assms(1) s]
  have act: "admin_activate D job (Some c) rt \<noteq> None" if "net_config_prepare c0 (of_nat (length (rt_ports rt))) = (None, c)" for c0 c
    using ops(2) [OF that, of job] by (auto simp: ok_iff)
  show ?thesis
    using ops(1) [of request] ops(3) [of E job] ops(4) by (intro conjI allI impI act) (auto simp: ok_iff)
qed

text \<open>
  C2: the type invariant of the TCP connections.  In every reachable state, for every socket: the two
  buffers have their full size and their lengths are within it, the bytes in flight are among the
  bytes to send, \<open>snd_nxt\<close> is \<open>snd_una\<close> plus what the flight occupies, and a flight has been sent again
  at most five times.
\<close>

theorem worker_connections_typed:
  assumes "dpdk_rx_ok D" and "served D ids rt0" and "(worker_step D E)\<^sup>*\<^sup>* rt0 rt" and "i < PS_SOCKET_MAX"
  shows "let c = tcp rt i in length (tc_tx c) = TCP_BUFFER_SIZE \<and> length (tc_rx c) = TCP_BUFFER_SIZE \<and>
    unat (tc_tx_len c) \<le> TCP_BUFFER_SIZE \<and> unat (tc_rx_len c) \<le> TCP_BUFFER_SIZE \<and> tc_flight_len c \<le> tc_tx_len c \<and>
    tc_snd_nxt c = tc_snd_una c + ucast (tc_flight_len c) +
      of_bool (has_flag (tc_flight_flags c) (RTE_TCP_SYN_FLAG OR RTE_TCP_FIN_FLAG)) \<and>
    tc_retries c \<le> TCP_MAX_RETRIES"
proof -
  have "ready D ids (rt_network rt) rt" using worker_reaches_served [OF assms(1,3,2)] by blast
  from api.safe_tcp [OF this, of i] show ?thesis using assms(4) by (simp add: tcp_inv_def Let_def)
qed

text \<open>
  C3: the frame pool does not leak.  In every reachable state no node is running, no frame is queued
  and all sixteen frames are free, so that the next burst finds the whole pool.
\<close>

theorem worker_returns_frames:
  assumes "dpdk_rx_ok D" and "served D ids rt0" and "(worker_step D E)\<^sup>*\<^sup>* rt0 rt"
  shows "rt_active_output rt = None \<and> g_q_count (rt_graph rt) = 0 \<and> length (g_slots (rt_graph rt)) = GRAPH_FRAME_POOL_SIZE \<and>
    (\<forall>s<GRAPH_FRAME_POOL_SIZE. \<not> gs_used (g_slots (rt_graph rt) ! s))"
proof -
  have "idle D ids (rt_network rt) rt" using worker_reaches_served [OF assms(1,3,2)] by (simp add: kept_def)
  then have rest: "rt_active_output rt = None" "graph_inv (packet_ok ids) {} no_pending (rt_graph rt)" "qnodes (rt_graph rt) = []"
    by (simp_all add: idle_def at_rest_def)
  then have q: "qlist (rt_graph rt) = []" by (simp add: qnodes_def)
  then have "g_q_count (rt_graph rt) = 0" by (simp add: qlist_def ring_list_def)
  moreover have "{s. s < 16 \<and> gs_used (g_slots (rt_graph rt) ! s)} = {}"
    using rest(2) q by (auto simp: graph_inv_def no_pending_def ran_def)
  ultimately show ?thesis using rest(1) graph_invD(1) [OF rest(2)] by auto
qed

subsection \<open>Witnesses\<close>

definition loopback_eth :: "nat ethdev" where
  "loopback_eth = \<lparr>e_start = (\<lambda>_ d. (0, d)), e_stop = (\<lambda>_ d. (0, d)), e_set_mtu = (\<lambda>_ _ d. (0, d)),
     e_get_mtu = (\<lambda>_ _. Inr 1500), e_mtu_range = (\<lambda>_ _. Inr (68, 1500))\<rparr>"

lemma sample_served: "served loopback {0, 1} sample_worker"
  using ready_served [OF sample_worker_ready] .

theorem worker_never_stuck_witness:
  "app_step loopback sample_worker \<noteq> None \<and>
   daemon_dispatch loopback \<lparr>di_owner = 1, di_message = zero_message\<rparr> sample_worker \<noteq> None"
  using worker_never_stuck [OF loopback_device(2) sample_served rtranclp.rtrancl_refl [of "worker_step loopback loopback_eth"],
    of "\<lparr>di_owner = 1, di_message = zero_message\<rparr>" flush_acl] by blast

theorem worker_connections_typed_witness:
  "unat (tc_tx_len (tcp sample_worker 3)) \<le> TCP_BUFFER_SIZE \<and> tc_flight_len (tcp sample_worker 3) \<le> tc_tx_len (tcp sample_worker 3)"
  using worker_connections_typed [OF loopback_device(2) sample_served rtranclp.rtrancl_refl [of "worker_step loopback loopback_eth"], of 3]
  by (simp add: Let_def)

theorem worker_returns_frames_witness:
  "\<exists>n rt. app_step loopback sample_worker = Some (n, rt) \<and> rt_active_output rt = None \<and> g_q_count (rt_graph rt) = 0"
proof -
  obtain n rt where "app_step loopback sample_worker = Some (n, rt)"
    using worker_operations_ready(4) [OF loopback_device(2) sample_served] by (auto simp: ok_iff)
  moreover from this have "(worker_step loopback loopback_eth)\<^sup>*\<^sup>* sample_worker rt" by (blast intro: poll)
  ultimately show ?thesis using worker_returns_frames [OF loopback_device(2) sample_served] by blast
qed

end
