(* ===== verification/Tcp_Stream.thy ===== *)
theory Tcp_Stream
  imports Graph_Safety
begin

text \<open>
  The byte streams of a TCP connection (\<^verbatim>\<open>src/tcp.c\<close>): what the peer acknowledges leaves the send
  buffer, what arrives in order is appended to the receive buffer, and what the application reads is
  taken from its front; no byte is lost, repeated or reordered in between.
\<close>

subsection \<open>Sending\<close>

text \<open>The bytes the application has sent and the peer has not acknowledged.\<close>

definition unacknowledged :: "tcp_connection \<Rightarrow> u8 list" where
  "unacknowledged c = take (unat (tc_tx_len c)) (tc_tx c)"

text \<open>
  C5: an acknowledgement inside the flight never reads or writes outside the send buffer, in spite of
  the 16-bit arithmetic of the lengths: exactly the acknowledged bytes leave the front of the send
  stream (none when the flight is a SYN or a FIN), \<open>snd_una\<close> becomes the acknowledgement, and the flight
  is what is left up to \<open>snd_nxt\<close>.
\<close>

theorem acknowledged_bytes_leave:
  assumes "tcp_inv c" and "before (tc_snd_una c) ack" and "\<not> before (tc_snd_nxt c) ack"
  shows "\<exists>c'. ack_flight ack now c = Some c' \<and>
    unacknowledged c' = drop (if tc_flight_len c = 0 then 0 else unat (ack - tc_snd_una c)) (unacknowledged c) \<and>
    tc_snd_una c' = ack \<and> tc_snd_nxt c' = tc_snd_nxt c \<and> (ack \<noteq> tc_snd_nxt c \<longrightarrow> tcp_inv c')"
proof -
  from ack_flight_inv [OF assms, of now] obtain c' where "ack_flight ack now c = Some c'"
      "take (unat (tc_tx_len c')) (tc_tx c') =
        (if tc_flight_len c = 0 then id else drop (unat (ack - tc_snd_una c))) (take (unat (tc_tx_len c)) (tc_tx c))"
      "tc_snd_una c' = ack" "tc_snd_nxt c' = tc_snd_nxt c"
      "if ack = tc_snd_nxt c then tcp_inv (c'\<lparr>tc_flight_flags := 0\<rparr>) else tcp_inv c'"
    by blast
  then show ?thesis by (intro exI [of _ c']) (auto simp: unacknowledged_def)
qed

subsection \<open>Receiving\<close>

text \<open>The bytes that have arrived in order and that the application has not read.\<close>

definition received :: "'d app_runtime \<Rightarrow> nat \<Rightarrow> u8 list" where
  "received rt i = take (unat (tc_rx_len (tcp rt i))) (tc_rx (tcp rt i))"

definition payload_of :: "segment \<Rightarrow> u8 list" where
  "payload_of sg = take (unat (sg_len sg)) (drop (sg_payload sg) (mb_data (sg_mbuf sg)))"

lemma take_memcpy_tail:
  assumes "n + length bs \<le> length xs"
  shows "take (n + length bs) (memcpy_at xs n bs) = take n xs @ bs"
  using assms by simp

text \<open>
  C6: the payload of an acceptable segment is appended to the receive stream as far as the buffer has
  room, \<open>rcv_nxt\<close> advances by exactly the bytes stored, and the rest is left for a retransmission; the
  buffer never holds more than its 8192 bytes.
\<close>

theorem payload_appended:
  assumes "sockets_wf (rt_sockets rt)" and "i < PS_SOCKET_MAX" and "\<not> tc_peer_fin (tcp rt i)"
    and "sg_payload sg + unat (sg_len sg) \<le> data_len (sg_mbuf sg)"
  shows "\<exists>rt'. input_payload sg i rt = Some (length (payload_of sg) \<le> TCP_BUFFER_SIZE - length (received rt i), rt') \<and>
    received rt' i = received rt i @ take (TCP_BUFFER_SIZE - length (received rt i)) (payload_of sg) \<and>
    tc_rcv_nxt (tcp rt' i) = tc_rcv_nxt (tcp rt i) + of_nat (length (received rt' i) - length (received rt i)) \<and>
    length (received rt' i) \<le> TCP_BUFFER_SIZE"
proof -
  let ?c = "tcp rt i"
  have i: "i < 256" using assms(2) by simp
  note I = tcp_invD [OF sockets_wf_tcp [OF assms(1) i]]
  have len: "length (ss_entries (rt_sockets rt)) = 256" by (rule sockets_wfD(1) [OF assms(1)])
  have r: "length (received rt i) = unat (tc_rx_len ?c)" using I(2,4) by (simp add: received_def)
  have pl: "length (payload_of sg) = unat (sg_len sg)" using assms(4) by (simp add: payload_of_def)
  show ?thesis
  proof (cases "sg_len sg = 0")
    case True
    then have "payload_of sg = []" by (simp add: payload_of_def)
    then show ?thesis using True I(4) r by (simp add: input_payload_def)
  next
    case False
    define k where "k = min (unat (sg_len sg)) (8192 - unat (tc_rx_len ?c))"
    define bytes where "bytes = take k (drop (sg_payload sg) (mb_data (sg_mbuf sg)))"
    have k: "unat (tc_rx_len ?c) + k \<le> 8192" "k \<le> unat (sg_len sg)" using I(4) by (simp_all add: k_def)
    have b: "rd_bytes (sg_mbuf sg) (sg_payload sg) k = Some bytes" "length bytes = k"
      using assms(4) k(2) by (simp_all add: rd_bytes_Some bytes_def)
    have take: "take (8192 - length (received rt i)) (payload_of sg) = bytes"
      by (simp add: payload_of_def bytes_def k_def r min.commute)
    define rt' where "rt' = upd_tcp i (\<lambda>c. c\<lparr>tc_rx := memcpy_at (tc_rx c) (unat (tc_rx_len c)) bytes,
        tc_rx_len := tc_rx_len c + of_nat k, tc_rcv_nxt := tc_rcv_nxt c + of_nat k\<rparr>) rt"
    have e: "input_payload sg i rt = Some (k = unat (sg_len sg), rt')"
      using assms(3) False I(4) by (simp add: input_payload_def Let_def k_def [symmetric] b(1) rt'_def)
    have uk: "unat (of_nat k :: u16) = k" using k(1) by (simp add: unat_of_nat)
    have sum: "unat (tc_rx_len ?c + of_nat k) = unat (tc_rx_len ?c) + k"
      using k(1) uk by (subst unat_add_lem [THEN iffD1]) simp_all
    have c': "tcp rt' i = ?c\<lparr>tc_rx := memcpy_at (tc_rx ?c) (unat (tc_rx_len ?c)) bytes,
        tc_rx_len := tc_rx_len ?c + of_nat k, tc_rcv_nxt := tc_rcv_nxt ?c + of_nat k\<rparr>"
      using len i by (simp add: rt'_def tcp_upd_tcp)
    have "received rt' i = received rt i @ bytes"
      using take_memcpy_tail [of "unat (tc_rx_len ?c)" bytes "tc_rx ?c"] k(1) I(2)
      unfolding received_def c' by (simp add: sum b(2))
    moreover have "k = unat (sg_len sg) \<longleftrightarrow> unat (sg_len sg) \<le> 8192 - unat (tc_rx_len ?c)" by (auto simp: k_def)
    ultimately show ?thesis using e take c' b(2) k(1) by (simp add: r pl)
  qed
qed


subsection \<open>Witnesses\<close>

text \<open>A connection with three bytes in flight, and one with three bytes to read.\<close>

definition sample_connection :: tcp_connection where
  "sample_connection = zero_tcp\<lparr>tc_state := TCP_ESTABLISHED, tc_tx := memcpy_at (replicate 8192 0) 0 [1, 2, 3], tc_tx_len := 3,
     tc_rx := memcpy_at (replicate 8192 0) 0 [7, 8, 9], tc_rx_len := 3, tc_flight_flags := 0x18, tc_flight_len := 3, tc_snd_nxt := 3\<rparr>"

lemma length_sample [simp]: "length (memcpy_at (replicate 8192 0) 0 [a, b, c]) = 8192"
  by (subst length_memcpy_at) (simp_all del: replicate.simps)

lemma sample_connection_inv: "tcp_inv sample_connection"
  unfolding tcp_inv_def sample_connection_def by (simp add: zero_tcp_def del: replicate.simps)

lemma take_sample: "take 3 (memcpy_at (replicate 8192 0) 0 [a, b, c]) = [a, b, c]"
  using take_memcpy_start [of "[a, b, c]" "replicate 8192 0"] by (simp add: numeral_3_eq_3 del: replicate.simps)

theorem acknowledged_bytes_leave_witness:
  "\<exists>c'. ack_flight 2 0 sample_connection = Some c' \<and> unacknowledged c' = [3] \<and> tc_snd_una c' = 2"
proof -
  have "unacknowledged sample_connection = [1, 2, 3]"
    by (simp add: unacknowledged_def sample_connection_def take_sample del: replicate.simps)
  moreover have "before (tc_snd_una sample_connection) 2" "\<not> before (tc_snd_nxt sample_connection) 2"
    by (simp_all add: before_def sample_connection_def zero_tcp_def del: replicate.simps)
  ultimately show ?thesis
    using acknowledged_bytes_leave [OF sample_connection_inv, of 2 0]
    by (auto simp: sample_connection_def zero_tcp_def simp del: replicate.simps)
qed

definition sample_segment :: segment where
  "sample_segment = \<lparr>sg_local = zero_sockaddr, sg_remote = zero_sockaddr, sg_seq = 0, sg_ack = 0, sg_window = 0,
     sg_flags = 0x10, sg_len = 3, sg_mss = 536, sg_mbuf = fresh_mbuf\<lparr>mb_data := replicate 54 0 @ [4, 5, 6]\<rparr>, sg_payload = 54\<rparr>"

definition sample_stream :: "nat app_runtime" where
  "sample_stream = upd_tcp 0 (\<lambda>_. sample_connection) sample_worker"

lemma sample_stream_ready: "ready loopback {0, 1} (Some sample_prepared) sample_stream"
  unfolding sample_stream_def by (rule api.safe_upd_tcp [OF sample_worker_ready]) (rule sample_connection_inv)

lemma sample_stream_tcp: "tcp sample_stream 0 = sample_connection"
  unfolding sample_stream_def using api.safe_length [OF sample_worker_ready] by (simp add: tcp_upd_tcp)

lemma sample_received: "received sample_stream 0 = [7, 8, 9]"
  by (simp add: received_def sample_stream_tcp sample_connection_def take_sample del: replicate.simps)

theorem payload_appended_witness:
  "\<exists>rt'. input_payload sample_segment 0 sample_stream = Some (True, rt') \<and> received rt' 0 = [7, 8, 9, 4, 5, 6]"
proof -
  have "sockets_wf (rt_sockets sample_stream)" using sample_stream_ready by (simp add: kept_def rt_wf_def)
  moreover have "\<not> tc_peer_fin (tcp sample_stream 0)"
    by (simp add: sample_stream_tcp sample_connection_def zero_tcp_def del: replicate.simps)
  moreover have "payload_of sample_segment = [4, 5, 6]" by (simp add: payload_of_def sample_segment_def del: replicate.simps)
  moreover have "sg_payload sample_segment + unat (sg_len sample_segment) \<le> data_len (sg_mbuf sample_segment)"
    by (simp add: sample_segment_def del: replicate.simps)
  ultimately show ?thesis
    using payload_appended [of sample_stream 0 sample_segment] by (auto simp: sample_received)
qed


end
