(* ===== verification/Daemon.thy ===== *)
theory Daemon
  imports Dispatch
begin

text \<open>
  The control thread of the daemon, \<^verbatim>\<open>src/daemon/control.c\<close>: client sessions, the translation of
  their handles to core sockets, and the framing of requests and replies.  What the kernel returns
  (accepted descriptors, received bytes) is an argument; closing a descriptor has no result in the
  model.
\<close>

abbreviation (input) DAEMON_CLIENT_MAX :: nat where "DAEMON_CLIENT_MAX \<equiv> 64"
abbreviation (input) DAEMON_SOCKET_MAX :: nat where "DAEMON_SOCKET_MAX \<equiv> 256"
abbreviation (input) IPC_FRAME_MAX :: nat where "IPC_FRAME_MAX \<equiv> 8256"

definition zero_client :: daemon_client where
  "zero_client = \<lparr>cl_fd = 0, cl_pidfd = 0, cl_dead = False, cl_pending = False, cl_cleanup = False,
     cl_hello = False, cl_next_handle = 0, cl_owner = 0, cl_last_id = 0, cl_have = 0, cl_target = 0,
     cl_sent = 0, cl_output_length = 0, cl_input = zero_message, cl_header = replicate IPC_HEADER_SIZE 0,
     cl_output = replicate IPC_FRAME_MAX 0, cl_handles = replicate DAEMON_SOCKET_MAX \<lparr>dh_local = 0, dh_core = 0\<rparr>\<rparr>"

definition no_client :: daemon_client where
  "no_client = zero_client\<lparr>cl_fd := -1, cl_pidfd := -1\<rparr>"

definition disconnect_client :: "daemon_client \<Rightarrow> daemon_client" where
  "disconnect_client c = c\<lparr>cl_fd := -1, cl_pidfd := -1, cl_dead := True, cl_output_length := 0\<rparr>"

subsection \<open>Handles\<close>

definition handle :: "daemon_client \<Rightarrow> int \<Rightarrow> nat option" where
  "handle c fd = first_index (\<lambda>h. dh_local h = fd \<and> fd > 0) (cl_handles c)"

definition succ_handle :: "int \<Rightarrow> int" where
  "succ_handle fd = (if fd = int INT_MAX then 1 else fd + 1)"

text \<open>The search for a handle that is not in use; \<open>None\<close> if it does not end.\<close>

partial_function (option) fresh_handle :: "daemon_client \<Rightarrow> (int \<times> daemon_client) option" where
  "fresh_handle c =
     (let fd = cl_next_handle c; c = c\<lparr>cl_next_handle := succ_handle fd\<rparr> in
      if handle c fd \<noteq> None then fresh_handle c else Some (fd, c))"

definition add_handle :: "daemon_client \<Rightarrow> int \<Rightarrow> ((errno + int) \<times> daemon_client) option" where
  "add_handle c core =
     (case first_index (\<lambda>h. dh_local h = 0) (cl_handles c) of
        None \<Rightarrow> Some (Inl EMFILE, c)
      | Some i \<Rightarrow> do {
          (fd, c) \<leftarrow> fresh_handle c;
          Some (Inr fd, c\<lparr>cl_handles := (cl_handles c)[i := \<lparr>dh_local = fd, dh_core = core\<rparr>]\<rparr>)
        })"

subsection \<open>Replies and responses\<close>

definition reply :: "daemon_client \<Rightarrow> ipc_message \<Rightarrow> daemon_client" where
  "reply c m =
     c\<lparr>cl_output := memcpy_at (memcpy_at (cl_output c) 0 (ipc_encode m)) IPC_HEADER_SIZE
                      (take (unat (im_length m)) (im_data m)),
       cl_output_length := IPC_HEADER_SIZE + unat (im_length m), cl_sent := 0, cl_have := 0,
       cl_target := IPC_HEADER_SIZE\<rparr>"

definition set_client :: "nat \<Rightarrow> daemon_client \<Rightarrow> daemon_service \<Rightarrow> daemon_service" where
  "set_client i c service = service\<lparr>ds_clients := (ds_clients service)[i := c]\<rparr>"

text \<open>The response \<open>m\<close> for the live client \<open>c\<close>.\<close>

definition deliver_response :: "daemon_client \<Rightarrow> ipc_message \<Rightarrow> daemon_client option" where
  "deliver_response c m =
     (if im_id m \<noteq> im_id (cl_input c) \<or> im_op m \<noteq> im_op (cl_input c) then Some (disconnect_client c)
      else do {
        (result, c) \<leftarrow> (if sint (im_result m) \<ge> 0 \<and> (im_op m = IPC_SOCKET \<or> im_op m = IPC_ACCEPT)
                       then map_option (\<lambda>(r, c). (res_fd r, c)) (add_handle c (sint (im_result m)))
                       else Some (im_result m, c));
        if sint (im_result m) \<ge> 0 \<and> (im_op m = IPC_SOCKET \<or> im_op m = IPC_ACCEPT) \<and> sint result < 0
        then Some (disconnect_client c)
        else
          let c = (if result = 0 \<and> im_op m = IPC_CLOSE then
                     (case handle c (sint (im_fd (cl_input c))) of
                        None \<Rightarrow> c
                      | Some h \<Rightarrow> c\<lparr>cl_handles := (cl_handles c)[h := \<lparr>dh_local = 0, dh_core = 0\<rparr>]\<rparr>)
                   else c)
          in Some (reply c (m\<lparr>im_result := result, im_fd := im_fd (cl_input c)\<rparr>))
      })"

definition collect_response :: "daemon_item \<Rightarrow> daemon_service \<Rightarrow> daemon_service option" where
  "collect_response item service =
     (case first_index (\<lambda>c. cl_owner c = di_owner item) (take (ds_max_clients service) (ds_clients service)) of
        None \<Rightarrow> Some service
      | Some i \<Rightarrow>
          let c = (ds_clients service ! i)\<lparr>cl_pending := False\<rparr> in
          if im_op (di_message item) = IPC_CLEANUP \<and> cl_cleanup c then Some (set_client i no_client service)
          else if cl_dead c then Some (set_client i c service)
          else map_option (\<lambda>c. set_client i c service) (deliver_response c (di_message item)))"

text \<open>The loop over the response ring; it ends when the ring is empty.\<close>

partial_function (option) collect_responses :: "daemon_service \<Rightarrow> daemon_service option" where
  "collect_responses service =
     (case daemon_queue_pop (ds_responses service) of
        (None, _) \<Rightarrow> Some service
      | (Some item, q) \<Rightarrow>
          Option.bind (collect_response item (service\<lparr>ds_responses := q\<rparr>)) collect_responses)"

subsection \<open>Requests\<close>

definition push_request :: "daemon_item \<Rightarrow> daemon_service \<Rightarrow> bool \<times> daemon_service" where
  "push_request item service =
     (case daemon_queue_push (ds_requests service) item of (pushed, q) \<Rightarrow> (pushed, service\<lparr>ds_requests := q\<rparr>))"

definition submit_client :: "nat \<Rightarrow> daemon_service \<Rightarrow> daemon_service" where
  "submit_client i service =
     (let c = ds_clients service ! i; m = cl_input c;
          answer = (\<lambda>c r. set_client i (reply c r) service)
      in if cl_owner c = 0 \<or> cl_pending c then service
         else if cl_dead c then
           (case push_request \<lparr>di_owner = cl_owner c, di_message = zero_message\<lparr>im_op := IPC_CLEANUP\<rparr>\<rparr> service of
              (True, service) \<Rightarrow> set_client i (c\<lparr>cl_pending := True, cl_cleanup := True\<rparr>) service
            | (False, service) \<Rightarrow> service)
         else if cl_output_length c \<noteq> 0 \<or> cl_have c \<noteq> cl_target c then service
         else if \<not> cl_hello c then
           (if im_op m \<noteq> IPC_HELLO then set_client i (disconnect_client c) service
            else answer (c\<lparr>cl_hello := True\<rparr>) (zero_message\<lparr>im_op := im_op m, im_id := im_id m,
                   im_a := of_nat (ds_max_sockets service), im_b := IPC_FEATURE_DGRAM_BATCH\<rparr>))
         else if im_op m = IPC_HELLO then
           answer c (zero_message\<lparr>im_op := im_op m, im_id := im_id m, im_result := res_err EALREADY\<rparr>)
         else
           let forward = (\<lambda>m. case push_request \<lparr>di_owner = cl_owner c, di_message = m\<rparr> service of
                  (True, service) \<Rightarrow> set_client i (c\<lparr>cl_pending := True\<rparr>) service
                | (False, service) \<Rightarrow> service)
           in if im_op m = IPC_SOCKET then forward m
              else (case handle c (sint (im_fd m)) of
                None \<Rightarrow> answer c (zero_message\<lparr>im_op := im_op m, im_id := im_id m, im_fd := im_fd m,
                          im_result := res_err EBADF\<rparr>)
              | Some h \<Rightarrow> forward (m\<lparr>im_fd := of_int (dh_core (cl_handles c ! h))\<rparr>)))"

subsection \<open>Sockets of the clients\<close>

text \<open>What \<^verbatim>\<open>recv\<close> and \<^verbatim>\<open>send\<close> return: at least one byte, nothing for now, or the end.\<close>

datatype io = IO_Bytes "u8 list" | IO_Again | IO_End

definition read_client :: "io \<Rightarrow> daemon_client \<Rightarrow> daemon_client" where
  "read_client received c =
     (case received of
        IO_Again \<Rightarrow> c
      | IO_End \<Rightarrow> disconnect_client c
      | IO_Bytes bs \<Rightarrow>
          let bs = take (cl_target c - cl_have c) bs;
              c = (if cl_have c < IPC_HEADER_SIZE then c\<lparr>cl_header := memcpy_at (cl_header c) (cl_have c) bs\<rparr>
                   else c\<lparr>cl_input := (cl_input c)\<lparr>im_data := memcpy_at (im_data (cl_input c))
                            (cl_have c - IPC_HEADER_SIZE) bs\<rparr>\<rparr>);
              c = c\<lparr>cl_have := cl_have c + length bs\<rparr>
          in if cl_have c = IPC_HEADER_SIZE \<and> cl_target c = IPC_HEADER_SIZE then
               (case ipc_decode (cl_header c) of
                  Inl e \<Rightarrow> disconnect_client c
                | Inr m \<Rightarrow>
                    let c = c\<lparr>cl_input := m\<rparr> in
                    if \<not> ipc_request_valid m \<or> im_id m = cl_last_id c then disconnect_client c
                    else c\<lparr>cl_last_id := im_id m, cl_target := cl_target c + unat (im_length m)\<rparr>)
             else c)"

text \<open>\<open>sent\<close> is the number of bytes \<^verbatim>\<open>send\<close> took, when it took any.\<close>

definition write_client :: "nat \<Rightarrow> daemon_client \<Rightarrow> daemon_client" where
  "write_client n c =
     (let sent = cl_sent c + n in
      if sent = cl_output_length c then c\<lparr>cl_output_length := 0, cl_sent := 0\<rparr> else c\<lparr>cl_sent := sent\<rparr>)"

text \<open>A connection with the descriptors and the credentials (when they could be read) of its peer.\<close>

definition accept_client :: "int \<Rightarrow> int \<Rightarrow> (int \<times> int) option \<Rightarrow> daemon_service \<Rightarrow> daemon_service" where
  "accept_client fd pidfd identity service =
     (case first_index (\<lambda>c. cl_owner c = 0) (take (ds_max_clients service) (ds_clients service)) of
        None \<Rightarrow> service
      | Some i \<Rightarrow>
          if ds_next_owner service = - 1 then service
          else
            let owner = ds_next_owner service + 1;
                service = set_client i (zero_client\<lparr>cl_fd := fd, cl_pidfd := pidfd, cl_owner := owner,
                            cl_next_handle := 1, cl_target := IPC_HEADER_SIZE\<rparr>) (service\<lparr>ds_next_owner := owner\<rparr>)
            in case identity of
                 None \<Rightarrow> service
               | Some (pid, uid) \<Rightarrow> service\<lparr>ds_identities := (ds_identities service)[i :=
                   \<lparr>id_owner = owner, id_pid = pid, id_uid = uid\<rparr>]\<rparr>)"

text \<open>The scan of the clients in an iteration of \<open>control_run\<close>.\<close>

definition scan_client :: "nat \<Rightarrow> daemon_service \<Rightarrow> daemon_service" where
  "scan_client i service =
     (let c = ds_clients service ! i in
      if cl_owner c = 0 then service
      else
        let c = (if ds_stopping service \<and> \<not> cl_dead c then disconnect_client c else c);
            service = set_client i c service;
            service = (if cl_dead c then service\<lparr>ds_identities := (ds_identities service)[i :=
                         (ds_identities service ! i)\<lparr>id_owner := 0\<rparr>]\<rparr> else service)
        in submit_client i service)"

definition control_scan :: "daemon_service \<Rightarrow> daemon_service option" where
  "control_scan service = do {
     service \<leftarrow> collect_responses service;
     Some (fold scan_client [0..<ds_max_clients service] service)
   }"

text \<open>The first part of \<open>daemon_prepare\<close>: the empty service and the limits it accepts.\<close>

definition daemon_init :: "daemon_item \<Rightarrow> nat \<Rightarrow> nat \<Rightarrow> errno + daemon_service" where
  "daemon_init item max_clients max_sockets =
     (if max_clients = 0 \<or> max_clients > DAEMON_CLIENT_MAX \<or> max_sockets = 0 \<or> max_sockets > DAEMON_SOCKET_MAX
      then Inl EINVAL
      else let q = daemon_queue_init \<lparr>dq_read = 0, dq_write = 0, dq_entries = replicate DAEMON_QUEUE_SIZE item\<rparr> in
        Inr \<lparr>ds_requests = q, ds_responses = q, ds_stopping = False, ds_failed = False,
             ds_max_clients = max_clients, ds_max_sockets = max_sockets, ds_next_owner = 0,
             ds_clients = replicate DAEMON_CLIENT_MAX no_client,
             ds_identities = replicate DAEMON_CLIENT_MAX \<lparr>id_owner = 0, id_pid = 0, id_uid = 0\<rparr>\<rparr>)"

end
