(* ===== verification/Sessions.thy ===== *)
theory Sessions
  imports Daemon
begin

text \<open>
  Client sessions of the daemon: the handles a client holds are positive, distinct and bounded, the
  search for a fresh one ends, and the control thread empties the response ring.
\<close>

subsection \<open>Handles\<close>

definition handles_wf :: "daemon_client \<Rightarrow> bool" where
  "handles_wf c \<longleftrightarrow> length (cl_handles c) = DAEMON_SOCKET_MAX \<and>
     1 \<le> cl_next_handle c \<and> cl_next_handle c \<le> int INT_MAX \<and>
     (\<forall>i < DAEMON_SOCKET_MAX. \<forall>j < DAEMON_SOCKET_MAX.
        0 < dh_local (cl_handles c ! i) \<and> dh_local (cl_handles c ! i) = dh_local (cl_handles c ! j) \<longrightarrow> i = j)"

lemma succ_handle_range: "1 \<le> fd \<Longrightarrow> fd \<le> int INT_MAX \<Longrightarrow> 1 \<le> succ_handle fd \<and> succ_handle fd \<le> int INT_MAX"
  by (auto simp: succ_handle_def INT_MAX_def)

lemma succ_handle_funpow:
  assumes "1 \<le> fd" and "fd \<le> int INT_MAX"
  shows "(succ_handle ^^ n) fd = (fd - 1 + int n) mod int INT_MAX + 1"
proof (induction n)
  case 0
  then show ?case using assms by simp
next
  case (Suc n)
  define x where "x = fd - 1 + int n"
  have "0 \<le> x mod int INT_MAX" "x mod int INT_MAX < int INT_MAX" by (simp_all add: INT_MAX_def)
  then have step: "(x + 1) mod int INT_MAX = (if x mod int INT_MAX + 1 = int INT_MAX then 0 else x mod int INT_MAX + 1)"
    by (simp add: mod_add_left_eq [of x _ 1, symmetric] INT_MAX_def mod_pos_pos_trivial)
  have x1: "fd - 1 + int (Suc n) = x + 1" by (simp add: x_def)
  have "(succ_handle ^^ Suc n) fd = succ_handle (x mod int INT_MAX + 1)" using Suc by (simp add: x_def)
  also have "\<dots> = (x + 1) mod int INT_MAX + 1" unfolding step by (simp add: succ_handle_def)
  finally show ?case unfolding x1 .
qed

lemma succ_handle_distinct:
  assumes "1 \<le> fd" and "fd \<le> int INT_MAX" and "m < n" and "n \<le> 256"
  shows "(succ_handle ^^ m) fd \<noteq> (succ_handle ^^ n) fd"
proof
  assume "(succ_handle ^^ m) fd = (succ_handle ^^ n) fd"
  then have "(fd - 1 + int n) mod int INT_MAX = (fd - 1 + int m) mod int INT_MAX"
    by (simp add: succ_handle_funpow [OF assms(1,2)])
  then have "int INT_MAX dvd int n - int m" by (simp add: mod_eq_dvd_iff)
  then show False using assms(3,4) zdvd_not_zless [of "int n - int m" "int INT_MAX"] by (simp add: INT_MAX_def)
qed

lemma fresh_handle_search:
  assumes "handle c ((succ_handle ^^ n) (cl_next_handle c)) = None"
    and "\<And>m. m < n \<Longrightarrow> handle c ((succ_handle ^^ m) (cl_next_handle c)) \<noteq> None"
  shows "fresh_handle c = Some ((succ_handle ^^ n) (cl_next_handle c),
           c\<lparr>cl_next_handle := (succ_handle ^^ Suc n) (cl_next_handle c)\<rparr>)"
  using assms
proof (induction n arbitrary: c)
  case 0
  have "handle (c\<lparr>cl_next_handle := succ_handle (cl_next_handle c)\<rparr>) (cl_next_handle c) = None"
    using 0 by (simp add: handle_def)
  then show ?case by (subst fresh_handle.simps) (simp add: Let_def)
next
  case (Suc n)
  let ?c = "c\<lparr>cl_next_handle := succ_handle (cl_next_handle c)\<rparr>"
  have h: "handle ?c fd = handle c fd" for fd by (simp add: handle_def)
  have "fresh_handle ?c = Some ((succ_handle ^^ n) (cl_next_handle ?c),
           ?c\<lparr>cl_next_handle := (succ_handle ^^ Suc n) (cl_next_handle ?c)\<rparr>)"
    by (rule Suc.IH) (use Suc.prems(1) Suc.prems(2) [of "Suc _"] in \<open>simp_all add: h funpow_swap1\<close>)
  moreover have "handle ?c (cl_next_handle c) \<noteq> None" using Suc.prems(2) [of 0] by (simp add: h)
  ultimately show ?case
    by (subst fresh_handle.simps) (simp add: Let_def funpow_swap1 del: first_index_None)
qed

lemma handle_Some:
  assumes "handle c fd = Some i"
  shows "i < length (cl_handles c)" "dh_local (cl_handles c ! i) = fd" "0 < fd"
  using first_indexD [OF assms [unfolded handle_def]] by auto

lemma handle_SomeI:
  assumes "handles_wf c" "i < DAEMON_SOCKET_MAX" "dh_local (cl_handles c ! i) = fd" "0 < fd"
  shows "handle c fd = Some i"
proof (cases "handle c fd")
  case None
  then show ?thesis using assms by (fastforce simp: handle_def handles_wf_def in_set_conv_nth)
next
  case (Some j)
  from handle_Some [OF this] have "i = j" using assms unfolding handles_wf_def by metis
  then show ?thesis using Some by simp
qed

lemma fresh_handle_ends:
  assumes wf: "handles_wf c"
  obtains fd next_handle where "fresh_handle c = Some (fd, c\<lparr>cl_next_handle := next_handle\<rparr>)"
    "1 \<le> fd" "fd \<le> int INT_MAX" "handle c fd = None" "1 \<le> next_handle" "next_handle \<le> int INT_MAX"
proof -
  let ?f = "\<lambda>n. (succ_handle ^^ n) (cl_next_handle c)"
  have start: "1 \<le> cl_next_handle c" "cl_next_handle c \<le> int INT_MAX" using wf by (auto simp: handles_wf_def)
  have range: "1 \<le> ?f n \<and> ?f n \<le> int INT_MAX" for n
    using start by (induction n) (simp_all add: succ_handle_range)
  have "\<exists>n. n \<le> 256 \<and> handle c (?f n) = None"
  proof (rule ccontr)
    assume none: "\<nexists>n. n \<le> 256 \<and> handle c (?f n) = None"
    have used: "handle c (?f n) \<noteq> None" if "n \<le> 256" for n
      by (rule notI) (rule notE [OF none], rule exI [of _ n], rule conjI [OF that])
    have "?f n \<in> dh_local ` set (cl_handles c)" if le: "n \<le> 256" for n
    proof -
      obtain i where "handle c (?f n) = Some i" using used [OF le] by blast
      from handle_Some [OF this] show ?thesis by (metis image_eqI nth_mem)
    qed
    then have "?f ` {..256} \<subseteq> dh_local ` set (cl_handles c)" by blast
    moreover have "inj_on ?f {..256}"
      using succ_handle_distinct [OF start] by (intro inj_onI) (metis atMost_iff nat_neq_iff)
    ultimately have "card {..256 :: nat} \<le> card (dh_local ` set (cl_handles c))"
      by (metis card_image card_mono finite_imageI List.finite_set)
    also have "\<dots> \<le> length (cl_handles c)" by (meson card_image_le card_length le_trans List.finite_set)
    finally show False using wf by (simp add: handles_wf_def)
  qed
  then have free: "handle c (?f (LEAST n. handle c (?f n) = None)) = None" by (metis (mono_tags, lifting) LeastI)
  have "fresh_handle c = Some (?f (LEAST n. handle c (?f n) = None),
      c\<lparr>cl_next_handle := ?f (Suc (LEAST n. handle c (?f n) = None))\<rparr>)"
    by (rule fresh_handle_search [OF free]) (rule not_less_Least)
  then show ?thesis using that free range by blast
qed

lemma add_handle_result:
  assumes wf: "handles_wf c"
  shows "\<exists>r c'. add_handle c core = Some (r, c') \<and> handles_wf c' \<and>
    (case r of
       Inl e \<Rightarrow> e = EMFILE \<and> c' = c \<and> (\<forall>h\<in>set (cl_handles c). dh_local h \<noteq> 0)
     | Inr fd \<Rightarrow> 1 \<le> fd \<and> fd \<le> int INT_MAX \<and> handle c fd = None \<and>
         map_option (\<lambda>i. dh_core (cl_handles c' ! i)) (handle c' fd) = Some core \<and>
         (\<forall>fd'. fd' \<noteq> fd \<longrightarrow> map_option (\<lambda>i. cl_handles c' ! i) (handle c' fd') =
                             map_option (\<lambda>i. cl_handles c ! i) (handle c fd')))"
proof (cases "first_index (\<lambda>h. dh_local h = 0) (cl_handles c)")
  case None
  then have "\<forall>h\<in>set (cl_handles c). dh_local h \<noteq> 0" by simp
  moreover have "add_handle c core = Some (Inl EMFILE, c)" unfolding add_handle_def None by simp
  ultimately show ?thesis using wf by simp
next
  case (Some i)
  from first_indexD [OF Some] have i: "i < DAEMON_SOCKET_MAX" "dh_local (cl_handles c ! i) = 0"
    using wf by (auto simp: handles_wf_def)
  obtain fd nh where fresh: "fresh_handle c = Some (fd, c\<lparr>cl_next_handle := nh\<rparr>)" and fd: "1 \<le> fd" "fd \<le> int INT_MAX"
      "handle c fd = None" and nh: "1 \<le> nh" "nh \<le> int INT_MAX"
    using wf by (rule fresh_handle_ends)
  define c' where "c' = c\<lparr>cl_next_handle := nh, cl_handles := (cl_handles c)[i := \<lparr>dh_local = fd, dh_core = core\<rparr>]\<rparr>"
  have add: "add_handle c core = Some (Inr fd, c')" using Some fresh by (simp add: add_handle_def c'_def)
  have len: "length (cl_handles c) = DAEMON_SOCKET_MAX" using wf by (simp add: handles_wf_def)
  have len': "length (cl_handles c') = DAEMON_SOCKET_MAX" using len by (simp add: c'_def)
  have nth: "cl_handles c' ! j = (if j = i then \<lparr>dh_local = fd, dh_core = core\<rparr> else cl_handles c ! j)"
    if "j < DAEMON_SOCKET_MAX" for j using that len by (simp add: c'_def)
  have unused: "dh_local (cl_handles c ! j) \<noteq> fd" if "j < DAEMON_SOCKET_MAX" for j
    using handle_SomeI [OF wf that refl] fd(1,3) by auto
  have wf': "handles_wf c'"
    unfolding handles_wf_def
  proof (intro conjI allI impI)
    fix j k
    assume "j < DAEMON_SOCKET_MAX" "k < DAEMON_SOCKET_MAX"
      and "0 < dh_local (cl_handles c' ! j) \<and> dh_local (cl_handles c' ! j) = dh_local (cl_handles c' ! k)"
    then show "j = k"
      using wf unused [of j] unused [of k] unfolding handles_wf_def by (auto simp: nth split: if_splits)
  qed (use nh len in \<open>simp_all add: c'_def\<close>)
  have new: "handle c' fd = Some i" using wf' i(1) nth fd(1) by (intro handle_SomeI) simp_all
  have others: "map_option (\<lambda>i. cl_handles c' ! i) (handle c' fd') = map_option (\<lambda>i. cl_handles c ! i) (handle c fd')"
    if "fd' \<noteq> fd" for fd'
  proof (cases "handle c fd'")
    case None
    have "handle c' fd' = None"
    proof (rule ccontr)
      assume "handle c' fd' \<noteq> None"
      then obtain j where j: "handle c' fd' = Some j" by auto
      from handle_Some [OF j] have "handle c fd' = Some j"
        using that len' nth wf by (intro handle_SomeI) (auto split: if_splits)
      with None show False by simp
    qed
    then show ?thesis using None by simp
  next
    case (Some j)
    from handle_Some [OF Some] have "j < DAEMON_SOCKET_MAX" "j \<noteq> i" "dh_local (cl_handles c ! j) = fd'" "0 < fd'"
      using len i by auto
    then have "handle c' fd' = Some j" using wf' nth by (intro handle_SomeI) simp_all
    then show ?thesis using Some nth \<open>j < DAEMON_SOCKET_MAX\<close> \<open>j \<noteq> i\<close> by simp
  qed
  have core: "map_option (\<lambda>i. dh_core (cl_handles c' ! i)) (handle c' fd) = Some core" using new nth [OF i(1)] by simp
  show ?thesis
    unfolding add by (intro exI [of _ "Inr fd"] exI [of _ c']) (simp add: wf' fd core others)
qed

text \<open>
  C35: a handle for a new socket of a client.  The search for a number that the client does not use
  ends (after at most 257 candidates, although the counter wraps around), so \<open>add_handle\<close> always
  returns: the error \<open>EMFILE\<close> with nothing changed exactly when all 256 entries are taken, and
  otherwise a positive number that was not in use and now denotes the new core socket, while every
  other handle denotes what it did before.
\<close>

theorem add_handle_fresh:
  assumes wf: "handles_wf c"
  shows "\<exists>r c'. add_handle c core = Some (r, c') \<and> handles_wf c' \<and>
    (case r of
       Inl e \<Rightarrow> e = EMFILE \<and> c' = c \<and> (\<forall>h\<in>set (cl_handles c). dh_local h \<noteq> 0)
     | Inr fd \<Rightarrow> 1 \<le> fd \<and> fd \<le> int INT_MAX \<and> handle c fd = None \<and>
         map_option (\<lambda>i. dh_core (cl_handles c' ! i)) (handle c' fd) = Some core \<and>
         (\<forall>fd'. fd' \<noteq> fd \<longrightarrow> map_option (\<lambda>i. cl_handles c' ! i) (handle c' fd') =
                             map_option (\<lambda>i. cl_handles c ! i) (handle c fd')))"
  by (rule add_handle_result [OF wf])

definition sample_client :: daemon_client where
  "sample_client = zero_client\<lparr>cl_owner := 1, cl_next_handle := int INT_MAX, cl_target := IPC_HEADER_SIZE\<rparr>"

lemma sample_client_wf: "handles_wf sample_client"
  by (simp add: handles_wf_def sample_client_def zero_client_def INT_MAX_def del: replicate.simps)

theorem add_handle_fresh_witness:
  "\<exists>r c'. add_handle sample_client 7 = Some (r, c') \<and> handles_wf c' \<and>
    (case r of
       Inl e \<Rightarrow> e = EMFILE \<and> c' = sample_client
     | Inr fd \<Rightarrow> 1 \<le> fd \<and> fd \<le> int INT_MAX \<and> handle sample_client fd = None \<and>
         map_option (\<lambda>i. dh_core (cl_handles c' ! i)) (handle c' fd) = Some 7)"
proof -
  obtain r c' where "add_handle sample_client 7 = Some (r, c')" "handles_wf c'"
      "case r of
       Inl e \<Rightarrow> e = EMFILE \<and> c' = sample_client \<and> (\<forall>h\<in>set (cl_handles sample_client). dh_local h \<noteq> 0)
     | Inr fd \<Rightarrow> 1 \<le> fd \<and> fd \<le> int INT_MAX \<and> handle sample_client fd = None \<and>
         map_option (\<lambda>i. dh_core (cl_handles c' ! i)) (handle c' fd) = Some 7 \<and>
         (\<forall>fd'. fd' \<noteq> fd \<longrightarrow> map_option (\<lambda>i. cl_handles c' ! i) (handle c' fd') =
                             map_option (\<lambda>i. cl_handles sample_client ! i) (handle sample_client fd'))"
    using add_handle_fresh [OF sample_client_wf, of 7] by blast
  then show ?thesis by (intro exI [of _ r] exI [of _ c']) (auto split: sum.splits)
qed

subsection \<open>Responses\<close>

text \<open>A response belongs to its request, and its payload fits the buffers of the control thread.\<close>

definition msg_wf :: "ipc_message \<Rightarrow> bool" where
  "msg_wf m \<longleftrightarrow> unat (im_length m) \<le> IPC_PAYLOAD_MAX \<and> length (im_data m) = IPC_PAYLOAD_MAX"

definition answers :: "ipc_message \<Rightarrow> ipc_message \<Rightarrow> bool" where
  "answers m r \<longleftrightarrow> im_op r = im_op m \<and> im_id r = im_id m \<and> msg_wf r"

lemma udp_recv_length: "udp_recv ep len = (Inr (source, bytes), ep') \<Longrightarrow> length bytes \<le> len"
  by (auto simp: udp_recv_def Let_def split: if_splits)

lemma core_recvfrom_length: "core_recvfrom rt fd len = (Inr (source, bytes), rt') \<Longrightarrow> length bytes \<le> len"
  by (auto simp: core_recvfrom_def dest!: udp_recv_length split: option.splits if_splits prod.splits)

lemma tcp_recv_length: "tcp_recv D submit i len rt = Some (Inr bytes, rt') \<Longrightarrow> length bytes \<le> len"
  by (auto simp: tcp_recv_def Let_def bind_eq_Some_conv split: option.splits if_splits prod.splits)

lemma core_recv_length: "core_recv D fd len rt = Some (Inr bytes, rt') \<Longrightarrow> length bytes \<le> len"
  by (auto simp: core_recv_def dest: tcp_recv_length core_recvfrom_length split: option.splits if_splits prod.splits sum.splits)

lemma answers_result [simp]: "answers m (r\<lparr>im_result := x\<rparr>) = answers m r"
  by (simp add: answers_def msg_wf_def)

lemma answers_addr [simp]: "answers m (r\<lparr>im_addr := x\<rparr>) = answers m r"
  by (simp add: answers_def msg_wf_def)

lemma answers_set_data:
  assumes "answers m r" and "length bytes \<le> IPC_PAYLOAD_MAX"
  shows "answers m (set_data bytes r)"
proof -
  have "unat (of_nat (length bytes) :: u32) = length bytes"
    using assms(2) by (simp add: unat_of_nat)
  then show ?thesis using assms by (simp add: answers_def msg_wf_def set_data_def)
qed

lemma answers_append:
  assumes r: "answers m r" and room: "\<not> IPC_PAYLOAD_MAX - unat (im_length r) < IPC_DGRAM_HEADER"
    and len: "length bytes \<le> IPC_PAYLOAD_MAX - unat (im_length r) - IPC_DGRAM_HEADER"
  shows "answers m (r\<lparr>im_data := memcpy_at (memcpy_at (im_data r) (unat (im_length r) + IPC_DGRAM_HEADER) bytes)
      (unat (im_length r)) (ipc_datagram_encode source (of_nat (length bytes))),
      im_length := im_length r + of_nat (IPC_DGRAM_HEADER + length bytes), im_result := x\<rparr>)"
proof -
  have "unat (of_nat (IPC_DGRAM_HEADER + length bytes) :: u32) = IPC_DGRAM_HEADER + length bytes"
    unfolding unat_of_nat using len by simp
  then have "unat (im_length r + of_nat (IPC_DGRAM_HEADER + length bytes)) = unat (im_length r) + (IPC_DGRAM_HEADER + length bytes)"
    using room len by (subst unat_add_lem [THEN iffD1]) simp_all
  then show ?thesis using assms by (simp add: answers_def msg_wf_def)
qed

lemma recv_each_answers: "answers m r \<Longrightarrow> answers m (fst (recv_each fd cs i r rt))"
proof (induction cs arbitrary: i r rt)
  case (Cons capacity rest i reply rt)
  show ?case
  proof (cases "IPC_PAYLOAD_MAX - unat (im_length reply) < IPC_DGRAM_HEADER")
    case False
    define av where "av = IPC_PAYLOAD_MAX - unat (im_length reply) - IPC_DGRAM_HEADER"
    obtain res rt' where res: "core_recvfrom rt fd (if capacity < av then capacity else av) = (res, rt')"
      by (cases "core_recvfrom rt fd (if capacity < av then capacity else av)")
    show ?thesis
    proof (cases res)
      case (Inl e)
      then show ?thesis
        unfolding recv_each.simps Let_def if_not_P [OF False] av_def [symmetric] res using Cons.prems by simp
    next
      case (Inr sb)
      obtain source bytes where sb: "sb = (source, bytes)" by (cases sb)
      have "length bytes \<le> (if capacity < av then capacity else av)"
        by (rule core_recvfrom_length [OF res [unfolded Inr sb]])
      then have "length bytes \<le> av" by (simp split: if_splits)
      then have "answers m (reply\<lparr>im_data := memcpy_at (memcpy_at (im_data reply) (unat (im_length reply) + IPC_DGRAM_HEADER) bytes)
          (unat (im_length reply)) (ipc_datagram_encode source (of_nat (length bytes))),
          im_length := im_length reply + of_nat (IPC_DGRAM_HEADER + length bytes), im_result := of_nat (i + 1)\<rparr>)"
        using answers_append [OF Cons.prems False] by (simp add: av_def)
      from Cons.IH [OF this] show ?thesis
        unfolding recv_each.simps Let_def if_not_P [OF False] av_def [symmetric] res Inr sb by simp
    qed
  qed (use Cons.prems in simp)
qed simp

lemma receive_batch_answers: "answers m r \<Longrightarrow> answers m (fst (receive_batch msg r rt))"
  by (simp add: receive_batch_def Let_def recv_each_answers)

lemma send_batch_answers: "answers m r \<Longrightarrow> send_batch D msg r rt = Some (r', rt') \<Longrightarrow> answers m r'"
  by (auto simp: send_batch_def bind_eq_Some_conv split: option.splits if_splits prod.splits)

lemma request_valid_capacity:
  assumes "ipc_request_valid m" and "im_op m = IPC_RECV \<or> im_op m = IPC_RECVFROM"
  shows "nat (sint (im_a m)) \<le> IPC_PAYLOAD_MAX"
  using assms by (auto simp: ipc_request_valid_def split: if_splits)

lemma dispatch_operation_answers:
  assumes valid: "ipc_request_valid m" and r: "answers m r"
    and run: "dispatch_operation D m r rt = Some (r', rt')"
  shows "answers m r'"
proof (cases "im_op m = IPC_RECV \<or> im_op m = IPC_RECVFROM")
  case True
  note cap = request_valid_capacity [OF valid True]
  show ?thesis
  proof (cases "im_op m = IPC_RECV")
    case True
    then obtain res rt1 where res: "core_recv D (sint (im_fd m)) (nat (sint (im_a m))) rt = Some (res, rt1)"
      and r': "r' = (case res of Inl e \<Rightarrow> r\<lparr>im_result := res_err e\<rparr> | Inr bytes \<Rightarrow> set_data bytes r)"
      using run by (cases "core_recv D (sint (im_fd m)) (nat (sint (im_a m))) rt")
        (auto simp: dispatch_operation_def split: sum.split_asm)
    then show ?thesis using r cap by (cases res) (auto intro!: answers_set_data dest!: core_recv_length)
  next
    case False
    obtain res rt1 where res: "core_recvfrom rt (sint (im_fd m)) (nat (sint (im_a m))) = (res, rt1)"
      by (cases "core_recvfrom rt (sint (im_fd m)) (nat (sint (im_a m)))")
    with run True False have r': "r' = (case res of Inl e \<Rightarrow> r\<lparr>im_result := res_err e\<rparr>
        | Inr (source, bytes) \<Rightarrow> (set_data bytes r)\<lparr>im_addr := source\<rparr>)"
      by (auto simp: dispatch_operation_def split: sum.splits)
    then show ?thesis using r cap res by (cases res) (auto intro!: answers_set_data dest!: core_recvfrom_length)
  qed
next
  case False
  then show ?thesis using run r receive_batch_answers [OF r, of m rt] send_batch_answers [OF r, of D m rt r' rt']
    by (auto simp: dispatch_operation_def Let_def split: if_splits prod.splits sum.splits)
qed

lemma daemon_dispatch_answers:
  assumes "daemon_dispatch D request rt = Some (response, rt')"
  shows "di_owner response = di_owner request" "answers (di_message request) (di_message response)"
proof -
  have r [simp]: "answers m (zero_message\<lparr>im_op := op, im_id := ident, im_fd := fd\<rparr>) \<longleftrightarrow> op = im_op m \<and> ident = im_id m"
    for m op ident fd by (simp add: answers_def msg_wf_def zero_message_def)
  define r0 where "r0 = zero_message\<lparr>im_op := im_op (di_message request), im_id := im_id (di_message request),
    im_fd := im_fd (di_message request), im_result := res_err EOPNOTSUPP\<rparr>"
  have r0: "answers (di_message request) r0" by (simp add: r0_def)
  have "di_owner response = di_owner request \<and> answers (di_message request) (di_message response)"
    using assms dispatch_operation_answers [OF _ r0] r0 unfolding daemon_dispatch_def Let_def r0_def [symmetric]
    by (auto simp: bind_eq_Some_conv split: if_splits option.splits prod.splits sum.splits)
  then show "di_owner response = di_owner request" "answers (di_message request) (di_message response)" by blast+
qed

subsection \<open>The sessions as a state machine\<close>

definition client_wf :: "daemon_client \<Rightarrow> bool" where
  "client_wf c \<longleftrightarrow> handles_wf c \<and> length (cl_output c) = IPC_FRAME_MAX \<and> length (cl_header c) = IPC_HEADER_SIZE \<and>
     length (im_data (cl_input c)) = IPC_PAYLOAD_MAX \<and> cl_output_length c \<le> IPC_FRAME_MAX \<and>
     (cl_dead c \<or> cl_sent c \<le> cl_output_length c \<and> cl_have c \<le> cl_target c \<and>
        (if cl_have c < IPC_HEADER_SIZE then cl_target c = IPC_HEADER_SIZE
         else cl_target c = IPC_HEADER_SIZE + unat (im_length (cl_input c)) \<and> ipc_request_valid (cl_input c)))"

text \<open>The request or response \<open>it\<close> is the one that the client \<open>c\<close> waits for.\<close>

definition outstanding :: "daemon_client \<Rightarrow> daemon_item \<Rightarrow> bool" where
  "outstanding c it \<longleftrightarrow> cl_pending c \<and> di_owner it = cl_owner c \<and>
     (if cl_cleanup c then im_op (di_message it) = IPC_CLEANUP
      else im_op (di_message it) \<noteq> IPC_CLEANUP \<and>
        (cl_dead c \<or> im_id (di_message it) = im_id (cl_input c) \<and> im_op (di_message it) = im_op (cl_input c)))"

definition sessions_ok :: "nat \<Rightarrow> u64 \<Rightarrow> daemon_client list \<Rightarrow> daemon_item list \<Rightarrow> bool" where
  "sessions_ok n hi cs its \<longleftrightarrow> n \<le> length cs \<and> distinct (map di_owner its) \<and>
     (\<forall>i < n. cl_owner (cs ! i) \<noteq> 0 \<longrightarrow> client_wf (cs ! i) \<and> cl_owner (cs ! i) \<le> hi \<and>
        (cl_cleanup (cs ! i) \<longrightarrow> cl_dead (cs ! i) \<and> cl_pending (cs ! i)) \<and>
        (cl_pending (cs ! i) \<longrightarrow> (\<exists>it\<in>set its. di_owner it = cl_owner (cs ! i))) \<and>
        (\<forall>j < n. cl_owner (cs ! j) = cl_owner (cs ! i) \<longrightarrow> j = i)) \<and>
     (\<forall>it\<in>set its. msg_wf (di_message it) \<and> (\<exists>i < n. cl_owner (cs ! i) \<noteq> 0 \<and> outstanding (cs ! i) it))"

lemma sessions_okD:
  assumes "sessions_ok n hi cs its" "i < n" "cl_owner (cs ! i) \<noteq> 0"
  shows "client_wf (cs ! i)" "cl_owner (cs ! i) \<le> hi" "cl_cleanup (cs ! i) \<Longrightarrow> cl_dead (cs ! i) \<and> cl_pending (cs ! i)"
    "cl_pending (cs ! i) \<Longrightarrow> \<exists>it\<in>set its. di_owner it = cl_owner (cs ! i)"
    "j < n \<Longrightarrow> cl_owner (cs ! j) = cl_owner (cs ! i) \<Longrightarrow> j = i"
  using assms unfolding sessions_ok_def by blast+

lemma sessions_ok_item:
  assumes "sessions_ok n hi cs its" "it \<in> set its"
  obtains i where "i < n" "cl_owner (cs ! i) \<noteq> 0" "outstanding (cs ! i) it" "msg_wf (di_message it)"
  using assms unfolding sessions_ok_def by blast

lemma sessions_ok_length: "sessions_ok n hi cs its \<Longrightarrow> n \<le> length cs"
  by (simp add: sessions_ok_def)

lemma sessions_ok_distinct: "sessions_ok n hi cs its \<Longrightarrow> distinct (map di_owner its)"
  by (simp add: sessions_ok_def)

text \<open>The item of a client is its only one, and a client that waits for nothing has none.\<close>

lemma sessions_ok_owner:
  assumes ok: "sessions_ok n hi cs its" and it: "it \<in> set its" and i: "i < n" "cl_owner (cs ! i) = di_owner it"
  shows "cl_owner (cs ! i) \<noteq> 0" "outstanding (cs ! i) it"
proof -
  obtain j where j: "j < n" "cl_owner (cs ! j) \<noteq> 0" "outstanding (cs ! j) it"
    using ok it by (rule sessions_ok_item)
  then have "cl_owner (cs ! j) = di_owner it" by (simp add: outstanding_def)
  then have "i = j" using sessions_okD(5) [OF ok j(1,2) i(1)] i(2) by simp
  then show "cl_owner (cs ! i) \<noteq> 0" "outstanding (cs ! i) it" using j by simp_all
qed

lemma sessions_ok_bound:
  assumes ok: "sessions_ok n hi cs its"
  shows "length its \<le> card {i. i < n \<and> cl_pending (cs ! i) \<and> cl_owner (cs ! i) \<noteq> 0}"
proof -
  let ?P = "{i. i < n \<and> cl_pending (cs ! i) \<and> cl_owner (cs ! i) \<noteq> 0}"
  have "di_owner ` set its \<subseteq> (\<lambda>i. cl_owner (cs ! i)) ` ?P"
  proof
    fix x assume "x \<in> di_owner ` set its"
    then obtain it where it: "it \<in> set its" "x = di_owner it" by blast
    obtain i where "i < n" "cl_owner (cs ! i) \<noteq> 0" "outstanding (cs ! i) it" using ok it(1) by (rule sessions_ok_item)
    then show "x \<in> (\<lambda>i. cl_owner (cs ! i)) ` ?P" using it(2) by (auto simp: outstanding_def)
  qed
  then have "card (di_owner ` set its) \<le> card ((\<lambda>i. cl_owner (cs ! i)) ` ?P)" by (intro card_mono) simp_all
  also have "\<dots> \<le> card ?P" by (intro card_image_le) simp
  finally have "card (di_owner ` set its) \<le> card ?P" .
  moreover have "card (di_owner ` set its) = length its"
    using sessions_ok_distinct [OF ok] by (simp add: distinct_card distinct_map card_image flip: set_map)
  ultimately show ?thesis by simp
qed

lemma sessions_ok_room:
  assumes ok: "sessions_ok n hi cs its" and n: "n \<le> 64" and i: "i < n" "\<not> cl_pending (cs ! i)"
  shows "length its < 64"
proof -
  have "{i. i < n \<and> cl_pending (cs ! i) \<and> cl_owner (cs ! i) \<noteq> 0} \<subset> {..<n}" using i by auto
  from psubset_card_mono [OF finite_lessThan this]
  have "card {i. i < n \<and> cl_pending (cs ! i) \<and> cl_owner (cs ! i) \<noteq> 0} < n" by simp
  then show ?thesis using sessions_ok_bound [OF ok] n by linarith
qed

lemma sessions_ok_le:
  assumes ok: "sessions_ok n hi cs its"
  shows "length its \<le> n"
proof -
  have "card {i. i < n \<and> cl_pending (cs ! i) \<and> cl_owner (cs ! i) \<noteq> 0} \<le> card {..<n}"
    by (intro card_mono) auto
  then show ?thesis using sessions_ok_bound [OF ok] by simp
qed

text \<open>How the invariant follows the state: a client changes, and an item comes, goes or is answered.\<close>

lemma sessions_ok_update:
  assumes ok: "sessions_ok n hi cs its" and i: "i < n" "cl_owner (cs ! i) \<noteq> 0"
    and c': "client_wf c'" "cl_owner c' = cl_owner (cs ! i)" "cl_pending c' = cl_pending (cs ! i)"
      "cl_cleanup c' \<Longrightarrow> cl_dead c' \<and> cl_pending c'"
    and same: "\<And>it. outstanding (cs ! i) it \<Longrightarrow> outstanding c' it"
  shows "sessions_ok n hi (cs[i := c']) its"
proof -
  have len: "i < length cs" using sessions_ok_length [OF ok] i(1) by simp
  have own: "cl_owner (cs[i := c'] ! j) = cl_owner (cs ! j)" for j using c'(2) len by (simp add: nth_list_update)
  show ?thesis
    unfolding sessions_ok_def own
  proof (intro conjI allI impI ballI)
    fix j assume j: "j < n" "cl_owner (cs ! j) \<noteq> 0"
    note D = sessions_okD [OF ok j]
    show "client_wf (cs[i := c'] ! j)" using D(1) c'(1) len by (simp add: nth_list_update)
    show "cl_owner (cs ! j) \<le> hi" by (rule D(2))
    show "\<exists>it\<in>set its. di_owner it = cl_owner (cs ! j)" if "cl_pending (cs[i := c'] ! j)"
      using that D(4) c'(3) len by (cases "j = i") simp_all
    show "cl_dead (cs[i := c'] ! j)" "cl_pending (cs[i := c'] ! j)" if "cl_cleanup (cs[i := c'] ! j)"
      using that D(3) c'(4) len by (cases "j = i"; simp)+
    show "k = j" if "k < n" "cl_owner (cs ! k) = cl_owner (cs ! j)" for k using D(5) that .
  next
    fix it assume it: "it \<in> set its"
    obtain j where j: "j < n" "cl_owner (cs ! j) \<noteq> 0" "outstanding (cs ! j) it" "msg_wf (di_message it)"
      using ok it by (rule sessions_ok_item)
    show "msg_wf (di_message it)" by (rule j(4))
    have "outstanding (cs[i := c'] ! j) it" using j(3) same len by (cases "j = i") simp_all
    then show "\<exists>j<n. cl_owner (cs ! j) \<noteq> 0 \<and> outstanding (cs[i := c'] ! j) it" using j by blast
  qed (use ok in \<open>simp_all add: sessions_ok_def\<close>)
qed

lemma sessions_ok_add:
  assumes ok: "sessions_ok n hi cs its" and i: "i < n" "cl_owner (cs ! i) \<noteq> 0" "\<not> cl_pending (cs ! i)"
    and c': "client_wf c'" "cl_owner c' = cl_owner (cs ! i)" "cl_cleanup c' \<Longrightarrow> cl_dead c'"
    and it: "outstanding c' it" "msg_wf (di_message it)" and its': "set its' = insert it (set its)" "distinct (map di_owner its')"
  shows "sessions_ok n hi (cs[i := c']) its'"
proof -
  have len: "i < length cs" using sessions_ok_length [OF ok] i(1) by simp
  have own: "cl_owner (cs[i := c'] ! j) = cl_owner (cs ! j)" for j using c'(2) len by (simp add: nth_list_update)
  have it': "cl_pending c'" "di_owner it = cl_owner (cs ! i)" using it(1) c'(2) by (simp_all add: outstanding_def)
  show ?thesis
    unfolding sessions_ok_def own its'
  proof (intro conjI allI impI ballI)
    fix j assume j: "j < n" "cl_owner (cs ! j) \<noteq> 0"
    note D = sessions_okD [OF ok j]
    show "client_wf (cs[i := c'] ! j)" using D(1) c'(1) len by (simp add: nth_list_update)
    show "cl_owner (cs ! j) \<le> hi" by (rule D(2))
    show "\<exists>it\<in>insert it (set its). di_owner it = cl_owner (cs ! j)" if "cl_pending (cs[i := c'] ! j)"
      using that D(4) it' len by (cases "j = i") simp_all
    show "cl_dead (cs[i := c'] ! j)" "cl_pending (cs[i := c'] ! j)" if "cl_cleanup (cs[i := c'] ! j)"
      using that D(3) c'(3) it'(1) len by (cases "j = i"; simp)+
    show "k = j" if "k < n" "cl_owner (cs ! k) = cl_owner (cs ! j)" for k using D(5) that .
  next
    fix x assume x: "x \<in> insert it (set its)"
    show "msg_wf (di_message x)" using x it(2) ok by (auto simp: sessions_ok_def)
    show "\<exists>j<n. cl_owner (cs ! j) \<noteq> 0 \<and> outstanding (cs[i := c'] ! j) x"
    proof (cases "x = it")
      case True
      then show ?thesis using i it(1) len by (intro exI [of _ i]) simp
    next
      case False
      then obtain j where j: "j < n" "cl_owner (cs ! j) \<noteq> 0" "outstanding (cs ! j) x"
        using ok x by (blast elim: sessions_ok_item)
      then have "j \<noteq> i" using i(3) by (auto simp: outstanding_def)
      then show ?thesis using j by (intro exI [of _ j]) simp
    qed
  qed (use ok its' in \<open>simp_all add: sessions_ok_def\<close>)
qed

lemma sessions_ok_remove:
  assumes ok: "sessions_ok n hi cs its" and i: "i < n" "cl_owner (cs ! i) = di_owner it" and it: "it \<in> set its"
    and c': "cl_owner c' = 0 \<or> client_wf c' \<and> cl_owner c' = cl_owner (cs ! i) \<and> \<not> cl_pending c' \<and> \<not> cl_cleanup c'"
    and its': "set its' = set its - {it}" "distinct (map di_owner its')"
  shows "sessions_ok n hi (cs[i := c']) its'"
proof -
  have len: "i < length cs" using sessions_ok_length [OF ok] i(1) by simp
  note iD = sessions_okD [OF ok i(1) sessions_ok_owner(1) [OF ok it i]]
  have other: "di_owner x \<noteq> di_owner it" if "x \<in> set its" "x \<noteq> it" for x
    using sessions_ok_distinct [OF ok] it that by (auto simp: distinct_map dest: inj_onD)
  have old: "cl_owner (cs[i := c'] ! j) = cl_owner (cs ! j) \<or> j = i \<and> cl_owner (cs[i := c'] ! j) = 0" for j
    using c' len by (auto simp: nth_list_update)
  show ?thesis
    unfolding sessions_ok_def its'(1)
  proof (intro conjI allI impI ballI)
    fix j assume j: "j < n" "cl_owner (cs[i := c'] ! j) \<noteq> 0"
    have oj: "cl_owner (cs[i := c'] ! j) = cl_owner (cs ! j)" using old [of j] j(2) by simp
    note D = sessions_okD [OF ok j(1) j(2) [unfolded oj]]
    show "client_wf (cs[i := c'] ! j)" using D(1) c' len j(2) by (cases "j = i") simp_all
    show "cl_owner (cs[i := c'] ! j) \<le> hi" unfolding oj by (rule D(2))
    show "\<exists>x\<in>set its - {it}. di_owner x = cl_owner (cs[i := c'] ! j)" if p: "cl_pending (cs[i := c'] ! j)"
    proof -
      have ji: "j \<noteq> i" using p c' len j(2) by auto
      then obtain x where x: "x \<in> set its" "di_owner x = cl_owner (cs ! j)" using D(4) p by auto
      have "x \<noteq> it" using x(2) i ji D(5) [of i] by auto
      then show ?thesis using x oj by auto
    qed
    show "cl_dead (cs[i := c'] ! j)" "cl_pending (cs[i := c'] ! j)" if "cl_cleanup (cs[i := c'] ! j)"
      using that D(3) c' len j(2) by (cases "j = i"; simp)+
    show "k = j" if k: "k < n" "cl_owner (cs[i := c'] ! k) = cl_owner (cs[i := c'] ! j)" for k
    proof -
      have "cl_owner (cs[i := c'] ! k) \<noteq> 0" unfolding k(2) by (rule j(2))
      then have "cl_owner (cs[i := c'] ! k) = cl_owner (cs ! k)" using old [of k] by blast
      then show ?thesis using D(5) [OF k(1)] k(2) oj by argo
    qed
  next
    fix x assume x: "x \<in> set its - {it}"
    obtain j where j: "j < n" "cl_owner (cs ! j) \<noteq> 0" "outstanding (cs ! j) x" "msg_wf (di_message x)"
      using ok x by (blast elim: sessions_ok_item)
    show "msg_wf (di_message x)" by (rule j(4))
    have "j \<noteq> i" using j(3) i(2) other [of x] x by (auto simp: outstanding_def)
    then show "\<exists>j<n. cl_owner (cs[i := c'] ! j) \<noteq> 0 \<and> outstanding (cs[i := c'] ! j) x"
      using j by (intro exI [of _ j]) simp
  qed (use ok its' in \<open>simp_all add: sessions_ok_def\<close>)
qed

lemma sessions_ok_new:
  assumes ok: "sessions_ok n hi cs its" and i: "i < n" "cl_owner (cs ! i) = 0" and hi: "hi \<noteq> - 1"
    and c': "client_wf c'" "cl_owner c' = hi + 1" "\<not> cl_pending c'" "\<not> cl_cleanup c'"
  shows "sessions_ok n (hi + 1) (cs[i := c']) its"
proof -
  have len: "i < length cs" using sessions_ok_length [OF ok] i(1) by simp
  have "hi + 1 \<noteq> 0" using hi unfolding eq_neg_iff_add_eq_0 .
  then have less: "hi < hi + 1" using unatSuc [of hi] by (simp add: word_less_nat_alt add.commute)
  then have nz: "hi + 1 \<noteq> 0" by auto
  have old: "cl_owner (cs ! j) \<noteq> hi + 1" if "j < n" for j
    using sessions_okD(2) [OF ok that] less nz by (cases "cl_owner (cs ! j) = 0") auto
  show ?thesis
    unfolding sessions_ok_def
  proof (intro conjI allI impI ballI)
    fix j assume j: "j < n" "cl_owner (cs[i := c'] ! j) \<noteq> 0"
    note D = sessions_okD [OF ok j(1)]
    show "client_wf (cs[i := c'] ! j)" using D(1) c' len j(2) by (cases "j = i") simp_all
    show "cl_owner (cs[i := c'] ! j) \<le> hi + 1"
      using D(2) c' len j(2) less by (cases "j = i") (simp_all add: order_trans [OF _ less_imp_le])
    show "\<exists>x\<in>set its. di_owner x = cl_owner (cs[i := c'] ! j)" if "cl_pending (cs[i := c'] ! j)"
      using that D(4) c' len j(2) by (cases "j = i") simp_all
    show "cl_dead (cs[i := c'] ! j)" "cl_pending (cs[i := c'] ! j)" if "cl_cleanup (cs[i := c'] ! j)"
      using that D(3) c' len j(2) by (cases "j = i"; simp)+
    show "k = j" if "k < n" "cl_owner (cs[i := c'] ! k) = cl_owner (cs[i := c'] ! j)" for k
      using that D(5) [of k] old [OF j(1)] old [of k] c'(2) len j(2) by (cases "j = i"; cases "k = i") auto
  next
    fix x assume x: "x \<in> set its"
    obtain j where j: "j < n" "cl_owner (cs ! j) \<noteq> 0" "outstanding (cs ! j) x" "msg_wf (di_message x)"
      using ok x by (rule sessions_ok_item)
    show "msg_wf (di_message x)" by (rule j(4))
    have "j \<noteq> i" using j(2) i(2) by auto
    then show "\<exists>j<n. cl_owner (cs[i := c'] ! j) \<noteq> 0 \<and> outstanding (cs[i := c'] ! j) x"
      using j by (intro exI [of _ j]) simp
  qed (use ok in \<open>simp_all add: sessions_ok_def\<close>)
qed

lemma sessions_ok_answer:
  assumes ok: "sessions_ok n hi cs its" and it: "it \<in> set its" and its': "set its' = insert it' (set its - {it})"
      "distinct (map di_owner its')"
    and it': "di_owner it' = di_owner it" "answers (di_message it) (di_message it')"
  shows "sessions_ok n hi cs its'"
proof -
  have out: "outstanding c it' \<longleftrightarrow> outstanding c it" for c using it' by (simp add: outstanding_def answers_def)
  have owners: "di_owner ` set its' = di_owner ` set its" using it it'(1) unfolding its'(1) by auto
  show ?thesis
    unfolding sessions_ok_def
  proof (intro conjI allI impI ballI)
    fix j assume j: "j < n" "cl_owner (cs ! j) \<noteq> 0"
    note D = sessions_okD [OF ok j]
    show "\<exists>x\<in>set its'. di_owner x = cl_owner (cs ! j)" if "cl_pending (cs ! j)"
      using D(4) [OF that] owners by (metis (no_types, lifting) image_iff)
    show "client_wf (cs ! j)" "cl_owner (cs ! j) \<le> hi" using D(1,2) .
    show "cl_dead (cs ! j)" "cl_pending (cs ! j)" if "cl_cleanup (cs ! j)" using D(3) that by simp_all
    show "k = j" if "k < n" "cl_owner (cs ! k) = cl_owner (cs ! j)" for k using D(5) that .
  next
    fix x assume "x \<in> set its'"
    then consider "x = it'" | "x \<in> set its" unfolding its'(1) by blast
    then have "msg_wf (di_message x) \<and> (\<exists>i<n. cl_owner (cs ! i) \<noteq> 0 \<and> outstanding (cs ! i) x)"
    proof cases
      case 1
      then show ?thesis using sessions_ok_item [OF ok it] it'(2) out by (metis answers_def)
    next
      case 2
      then show ?thesis using sessions_ok_item [OF ok 2] by metis
    qed
    then show "msg_wf (di_message x)" "\<exists>i<n. cl_owner (cs ! i) \<noteq> 0 \<and> outstanding (cs ! i) x" by blast+
  qed (use ok its' in \<open>simp_all add: sessions_ok_def\<close>)
qed

subsection \<open>Operations of the control thread\<close>

lemma length_reply_output:
  assumes "length (cl_output c) = IPC_FRAME_MAX" "msg_wf m"
  shows "length (cl_output (reply c m)) = IPC_FRAME_MAX"
  using assms by (simp add: reply_def msg_wf_def)

lemma handles_wf_cong:
  "cl_handles c' = cl_handles c \<Longrightarrow> cl_next_handle c' = cl_next_handle c \<Longrightarrow> handles_wf c' = handles_wf c"
  by (simp add: handles_wf_def)

lemma client_wf_reply: "client_wf c \<Longrightarrow> msg_wf m \<Longrightarrow> client_wf (reply c m)"
  using length_reply_output [of c m] handles_wf_cong [of "reply c m" c]
  by (simp add: client_wf_def msg_wf_def) (simp add: reply_def)

lemma client_wf_disconnect: "client_wf c \<Longrightarrow> client_wf (disconnect_client c)"
  using handles_wf_cong [of "disconnect_client c" c] by (simp add: client_wf_def disconnect_client_def)

lemma client_wf_pending: "client_wf (c\<lparr>cl_pending := p\<rparr>) = client_wf c" "client_wf (c\<lparr>cl_pending := p, cl_cleanup := q\<rparr>) = client_wf c"
  "client_wf (c\<lparr>cl_hello := h\<rparr>) = client_wf c"
  by (simp_all add: client_wf_def handles_wf_def)

lemma client_wf_handles:
  "client_wf c \<Longrightarrow> handles_wf (c\<lparr>cl_next_handle := nh, cl_handles := hs\<rparr>) \<Longrightarrow> client_wf (c\<lparr>cl_next_handle := nh, cl_handles := hs\<rparr>)"
  by (auto simp: client_wf_def split: if_splits)

lemma handles_wf_close:
  assumes "handles_wf c"
  shows "handles_wf (c\<lparr>cl_handles := (cl_handles c)[h := \<lparr>dh_local = 0, dh_core = 0\<rparr>]\<rparr>)"
proof (cases "h < length (cl_handles c)")
  case True
  then show ?thesis using assms unfolding handles_wf_def by (auto simp: nth_list_update split: if_splits)
next
  case False
  then show ?thesis using assms by (simp add: list_update_beyond)
qed

lemma add_handle_client:
  assumes wf: "client_wf c"
  obtains r hs nh where "add_handle c core = Some (r, c\<lparr>cl_next_handle := nh, cl_handles := hs\<rparr>)"
    "client_wf (c\<lparr>cl_next_handle := nh, cl_handles := hs\<rparr>)" "\<And>fd. r = Inr fd \<Longrightarrow> 1 \<le> fd \<and> fd \<le> int INT_MAX"
proof -
  have h: "handles_wf c" using wf by (simp add: client_wf_def)
  from add_handle_result [OF h, of core] obtain r c' where r: "add_handle c core = Some (r, c')" "handles_wf c'"
    and "case r of Inl e \<Rightarrow> True | Inr fd \<Rightarrow> 1 \<le> fd \<and> fd \<le> int INT_MAX" by (fastforce split: sum.split_asm)
  then have r3: "\<And>fd. r = Inr fd \<Longrightarrow> 1 \<le> fd \<and> fd \<le> int INT_MAX" by simp
  have "\<exists>hs nh. c' = c\<lparr>cl_next_handle := nh, cl_handles := hs\<rparr>"
  proof (cases "first_index (\<lambda>h. dh_local h = 0) (cl_handles c)")
    case None
    then have "c' = c" using r(1) unfolding add_handle_def None by simp
    then show ?thesis by (intro exI [of _ "cl_handles c"] exI [of _ "cl_next_handle c"]) simp
  next
    case (Some i)
    obtain fd nh where f: "fresh_handle c = Some (fd, c\<lparr>cl_next_handle := nh\<rparr>)" using h by (rule fresh_handle_ends)
    have "c' = c\<lparr>cl_next_handle := nh, cl_handles := (cl_handles c)[i := \<lparr>dh_local = fd, dh_core = core\<rparr>]\<rparr>"
      using r(1) unfolding add_handle_def Some f by simp
    then show ?thesis by blast
  qed
  then obtain hs nh where c': "c' = c\<lparr>cl_next_handle := nh, cl_handles := hs\<rparr>" by blast
  show ?thesis using r r3 client_wf_handles [OF wf] unfolding c' by (intro that) simp_all
qed

lemma deliver_response_client:
  assumes wf: "client_wf c" and m: "msg_wf m" and live: "\<not> cl_dead c"
  obtains c' where "deliver_response c m = Some c'" "client_wf c'" "cl_owner c' = cl_owner c"
    "cl_pending c' = cl_pending c" "cl_cleanup c' = cl_cleanup c" "0 \<le> cl_fd c' \<longrightarrow> \<not> cl_dead c'"
proof (cases "im_id m \<noteq> im_id (cl_input c) \<or> im_op m \<noteq> im_op (cl_input c)")
  case True
  then show ?thesis using client_wf_disconnect [OF wf]
    by (intro that [of "disconnect_client c"]) (simp_all add: deliver_response_def disconnect_client_def)
next
  case False
  define new where "new \<longleftrightarrow> sint (im_result m) \<ge> 0 \<and> (im_op m = IPC_SOCKET \<or> im_op m = IPC_ACCEPT)"
  obtain r hs nh where add: "add_handle c (sint (im_result m)) = Some (r, c\<lparr>cl_next_handle := nh, cl_handles := hs\<rparr>)"
    and wf1: "client_wf (c\<lparr>cl_next_handle := nh, cl_handles := hs\<rparr>)"
    using add_handle_client [OF wf] by metis
  define c1 where "c1 = (if new then c\<lparr>cl_next_handle := nh, cl_handles := hs\<rparr> else c)"
  define result where "result = (if new then res_fd r else im_result m)"
  have wfc1: "client_wf c1" using wf wf1 by (simp add: c1_def)
  have same: "cl_owner c1 = cl_owner c" "cl_pending c1 = cl_pending c" "cl_cleanup c1 = cl_cleanup c" "cl_input c1 = cl_input c"
    "cl_dead c1 = cl_dead c" by (simp_all add: c1_def)
  define c2 where "c2 = (if result = 0 \<and> im_op m = IPC_CLOSE then
      (case handle c1 (sint (im_fd (cl_input c1))) of None \<Rightarrow> c1
       | Some h \<Rightarrow> c1\<lparr>cl_handles := (cl_handles c1)[h := \<lparr>dh_local = 0, dh_core = 0\<rparr>]\<rparr>) else c1)"
  have wfc2: "client_wf c2"
    using wfc1 handles_wf_close [of c1] client_wf_handles [of c1 _ "cl_next_handle c1"]
    by (auto simp: c2_def client_wf_def split: option.splits)
  have same2: "cl_owner c2 = cl_owner c" "cl_pending c2 = cl_pending c" "cl_cleanup c2 = cl_cleanup c" "cl_dead c2 = cl_dead c"
    using same by (simp_all add: c2_def split: option.splits)
  have first: "(if sint (im_result m) \<ge> 0 \<and> (im_op m = IPC_SOCKET \<or> im_op m = IPC_ACCEPT)
      then map_option (\<lambda>(r, c). (res_fd r, c)) (add_handle c (sint (im_result m))) else Some (im_result m, c)) = Some (result, c1)"
    unfolding new_def [symmetric] using add by (simp add: c1_def result_def)
  have cond: "(sint (im_result m) \<ge> 0 \<and> (im_op m = IPC_SOCKET \<or> im_op m = IPC_ACCEPT) \<and> sint result < 0)
      \<longleftrightarrow> new \<and> sint result < 0" by (auto simp: new_def)
  have step: "deliver_response c m = (if new \<and> sint result < 0 then Some (disconnect_client c1)
      else Some (reply c2 (m\<lparr>im_result := result, im_fd := im_fd (cl_input c2)\<rparr>)))"
    unfolding deliver_response_def if_not_P [OF False] first by (simp only: bind.bind_lunit prod.case cond Let_def c2_def [symmetric])
  show ?thesis
  proof (cases "new \<and> sint result < 0")
    case True
    show ?thesis
      by (rule that [of "disconnect_client c1"]) (use True step client_wf_disconnect [OF wfc1] same in \<open>simp_all add: disconnect_client_def\<close>)
  next
    case False
    have "msg_wf (m\<lparr>im_result := result, im_fd := im_fd (cl_input c2)\<rparr>)" using m by (simp add: msg_wf_def)
    note wf3 = client_wf_reply [OF wfc2 this]
    show ?thesis
      by (rule that [OF step [unfolded if_not_P [OF False]] wf3]) (use same2 live in \<open>simp_all add: reply_def\<close>)
  qed
qed

lemma ipc_decode_wf: "ipc_decode header = Inr m \<Longrightarrow> msg_wf m"
  by (auto simp: ipc_decode_def Let_def msg_wf_def zero_message_def split: if_splits)

lemma ipc_request_valid_op: "ipc_request_valid m \<Longrightarrow> im_op m \<noteq> IPC_CLEANUP"
  by (auto simp: ipc_request_valid_def split: if_splits)

lemma ipc_request_valid_length: "ipc_request_valid m \<Longrightarrow> unat (im_length m) \<le> IPC_PAYLOAD_MAX"
  by (simp add: ipc_request_valid_def split: if_splits)

lemma ipc_request_valid_data [simp]: "ipc_request_valid (m\<lparr>im_data := d\<rparr>) = ipc_request_valid m"
  by (simp add: ipc_request_valid_def)

text \<open>The frame of an operation on a client: what it keeps.\<close>

definition client_step :: "daemon_client \<Rightarrow> daemon_client \<Rightarrow> bool" where
  "client_step c c' \<longleftrightarrow> client_wf c' \<and> cl_owner c' = cl_owner c \<and> cl_pending c' = cl_pending c \<and>
     cl_cleanup c' = cl_cleanup c \<and> (cl_dead c \<longrightarrow> cl_dead c') \<and> (0 \<le> cl_fd c' \<longrightarrow> 0 \<le> cl_fd c \<and> \<not> cl_dead c') \<and>
     (cl_pending c \<longrightarrow> cl_dead c' \<or> cl_input c' = cl_input c)"

lemma client_step_disconnect: "client_wf c \<Longrightarrow> client_step c (disconnect_client c)"
  by (simp add: client_step_def client_wf_disconnect) (simp add: disconnect_client_def)

lemma client_step_reply: "client_wf c \<Longrightarrow> msg_wf m \<Longrightarrow> \<not> cl_dead c \<Longrightarrow> client_step c (reply c m)"
  by (simp add: client_step_def client_wf_reply) (simp add: reply_def)

lemma client_step_hello_reply: "client_wf c \<Longrightarrow> msg_wf m \<Longrightarrow> \<not> cl_dead c \<Longrightarrow> client_step c (reply (c\<lparr>cl_hello := h\<rparr>) m)"
  using client_wf_reply [of "c\<lparr>cl_hello := h\<rparr>" m]
  by (simp add: client_step_def client_wf_pending) (simp add: reply_def)

lemma client_wf_disconnectI:
  "handles_wf c \<Longrightarrow> length (cl_output c) = IPC_FRAME_MAX \<Longrightarrow> length (cl_header c) = IPC_HEADER_SIZE \<Longrightarrow>
     length (im_data (cl_input c)) = IPC_PAYLOAD_MAX \<Longrightarrow> client_wf (disconnect_client c)"
  by (simp add: client_wf_def disconnect_client_def handles_wf_def)

lemma client_step_read:
  assumes wf: "client_wf c" and live: "\<not> cl_dead c" and idle: "\<not> cl_pending c" and more: "cl_have c < cl_target c"
    and fd: "0 \<le> cl_fd c" and some: "received \<noteq> IO_Bytes []"
  shows "client_step c (read_client received c)"
proof (cases received)
  case (IO_Bytes bytes)
  define bs where "bs = take (cl_target c - cl_have c) bytes"
  have bs: "bs \<noteq> []" "cl_have c + length bs \<le> cl_target c" using IO_Bytes some more by (auto simp: bs_def)
  show ?thesis
  proof (cases "cl_have c < IPC_HEADER_SIZE")
    case True
    define c1 where "c1 = c\<lparr>cl_header := memcpy_at (cl_header c) (cl_have c) bs, cl_have := cl_have c + length bs\<rparr>"
    have t: "cl_target c = IPC_HEADER_SIZE" using wf live True by (simp add: client_wf_def)
    have h: "length (cl_header c1) = IPC_HEADER_SIZE" using wf bs t by (simp add: c1_def client_wf_def)
    have rd: "read_client received c = (if cl_have c1 = IPC_HEADER_SIZE then
        (case ipc_decode (cl_header c1) of Inl e \<Rightarrow> disconnect_client c1
         | Inr m \<Rightarrow> if \<not> ipc_request_valid m \<or> im_id m = cl_last_id c1 then disconnect_client (c1\<lparr>cl_input := m\<rparr>)
             else c1\<lparr>cl_input := m, cl_last_id := im_id m, cl_target := IPC_HEADER_SIZE + unat (im_length m)\<rparr>) else c1)"
      unfolding read_client_def IO_Bytes io.case Let_def bs_def [symmetric] if_P [OF True]
      by (cases "ipc_decode (cl_header c1)") (simp_all add: c1_def t)
    have h1: "handles_wf c1" "length (cl_output c1) = IPC_FRAME_MAX" "length (im_data (cl_input c1)) = IPC_PAYLOAD_MAX"
      "cl_output_length c1 \<le> IPC_FRAME_MAX" "cl_sent c1 \<le> cl_output_length c1"
      using wf live by (simp_all add: c1_def client_wf_def handles_wf_def)
    have c1: "client_wf c1" if "cl_have c1 \<noteq> IPC_HEADER_SIZE"
      using that h h1 bs t by (simp add: client_wf_def) (simp add: c1_def)
    have dead: "client_step c (disconnect_client (c1\<lparr>cl_input := m\<rparr>))" if "length (im_data m) = IPC_PAYLOAD_MAX" for m
      using client_wf_disconnectI [of "c1\<lparr>cl_input := m\<rparr>"] h h1 that
      by (simp add: client_step_def handles_wf_def) (simp add: c1_def disconnect_client_def)
    have new: "client_wf (c1\<lparr>cl_input := m, cl_last_id := im_id m, cl_target := IPC_HEADER_SIZE + unat (im_length m)\<rparr>)"
      if "msg_wf m" "ipc_request_valid m" "cl_have c1 = IPC_HEADER_SIZE" for m
      using that h h1 by (simp add: client_wf_def msg_wf_def handles_wf_def)
    show ?thesis
    proof (cases "cl_have c1 = IPC_HEADER_SIZE")
      case full: True
      show ?thesis
      proof (cases "ipc_decode (cl_header c1)")
        case (Inl e)
        then show ?thesis using rd full dead [of "cl_input c1"] h1 by simp
      next
        case (Inr m)
        note m = ipc_decode_wf [OF Inr]
        show ?thesis
        proof (cases "\<not> ipc_request_valid m \<or> im_id m = cl_last_id c1")
          case True
          then show ?thesis using rd full Inr dead [of m] m by (simp add: msg_wf_def)
        next
          case False
          then show ?thesis using rd full Inr new [OF m _ full] live idle fd by (simp add: client_step_def) (simp add: c1_def)
        qed
      qed
    next
      case False
      then show ?thesis using rd c1 live idle fd by (simp add: client_step_def) (simp add: c1_def)
    qed
  next
    case False
    have t: "cl_target c = IPC_HEADER_SIZE + unat (im_length (cl_input c))" "ipc_request_valid (cl_input c)"
      using wf live False by (simp_all add: client_wf_def)
    note len = ipc_request_valid_length [OF t(2)]
    define c1 where "c1 = c\<lparr>cl_input := (cl_input c)\<lparr>im_data := memcpy_at (im_data (cl_input c)) (cl_have c - IPC_HEADER_SIZE) bs\<rparr>,
      cl_have := cl_have c + length bs\<rparr>"
    have past: "cl_have c + length bs \<noteq> IPC_HEADER_SIZE" using False bs(1) by (cases bs) auto
    have rd: "read_client received c = c1"
      unfolding read_client_def IO_Bytes io.case Let_def bs_def [symmetric] if_not_P [OF False]
      using past by (simp add: c1_def)
    have "length (im_data (cl_input c1)) = IPC_PAYLOAD_MAX"
      using wf bs t len False by (simp add: c1_def client_wf_def)
    then have "client_wf c1"
      using wf live False bs t by (simp add: client_wf_def c1_def handles_wf_def)
    then show ?thesis using rd live idle fd by (simp add: client_step_def) (simp add: c1_def)
  qed
qed (use assms client_step_disconnect [OF wf] in \<open>simp_all add: read_client_def client_step_def\<close>)

lemma client_step_write:
  assumes wf: "client_wf c" and live: "\<not> cl_dead c" and fd: "0 \<le> cl_fd c" and n: "n \<le> cl_output_length c - cl_sent c"
  shows "client_step c (write_client n c)"
  using assms by (auto simp: client_step_def client_wf_def handles_wf_def write_client_def Let_def)

end
