(* ===== verification/Daemon_Safety.thy ===== *)
theory Daemon_Safety
  imports Sessions Loopback
begin

text \<open>
  The daemon as a whole: its control thread and its worker as a step relation on the service, the
  invariant of the reachable states, and what follows from it for the rings, the loops and the
  buffers.
\<close>

subsection \<open>The service\<close>

definition items :: "daemon_service \<Rightarrow> daemon_item list" where
  "items s = dq_abs (ds_requests s) @ dq_abs (ds_responses s)"

definition session_inv :: "daemon_service \<Rightarrow> bool" where
  "session_inv s \<longleftrightarrow> dq_inv (ds_requests s) \<and> dq_inv (ds_responses s) \<and> ds_max_clients s \<le> DAEMON_CLIENT_MAX \<and>
     length (ds_clients s) = DAEMON_CLIENT_MAX \<and>
     (\<forall>i < ds_max_clients s. 0 \<le> cl_fd (ds_clients s ! i) \<longrightarrow> cl_owner (ds_clients s ! i) \<noteq> 0 \<and> \<not> cl_dead (ds_clients s ! i)) \<and>
     sessions_ok (ds_max_clients s) (ds_next_owner s) (ds_clients s) (items s)"

lemma session_invD:
  assumes "session_inv s"
  shows "dq_inv (ds_requests s)" "dq_inv (ds_responses s)" "ds_max_clients s \<le> 64" "length (ds_clients s) = 64"
    "sessions_ok (ds_max_clients s) (ds_next_owner s) (ds_clients s) (items s)"
    "i < ds_max_clients s \<Longrightarrow> 0 \<le> cl_fd (ds_clients s ! i) \<Longrightarrow> cl_owner (ds_clients s ! i) \<noteq> 0 \<and> \<not> cl_dead (ds_clients s ! i)"
  using assms by (simp_all add: session_inv_def)

lemma set_client_simps [simp]:
  "ds_requests (set_client i c s) = ds_requests s" "ds_responses (set_client i c s) = ds_responses s"
  "ds_max_clients (set_client i c s) = ds_max_clients s" "ds_clients (set_client i c s) = (ds_clients s)[i := c]"
  "ds_next_owner (set_client i c s) = ds_next_owner s" "items (set_client i c s) = items s"
  by (simp_all add: set_client_def items_def)

lemma session_inv_client:
  assumes inv: "session_inv s" and i: "i < ds_max_clients s" "cl_owner (ds_clients s ! i) \<noteq> 0"
    and c': "client_step (ds_clients s ! i) c'"
  shows "session_inv (set_client i c' s)"
proof -
  note D = session_invD [OF inv]
  have keep: "outstanding c' it" if "outstanding (ds_clients s ! i) it" for it
    using that c' by (auto simp: outstanding_def client_step_def)
  have "cl_cleanup c' \<Longrightarrow> cl_dead c' \<and> cl_pending c'"
    using sessions_okD(3) [OF D(5) i] c' by (auto simp: client_step_def)
  then have "sessions_ok (ds_max_clients s) (ds_next_owner s) ((ds_clients s)[i := c']) (items s)"
    using c' keep by (intro sessions_ok_update [OF D(5) i]) (simp_all add: client_step_def)
  moreover have "0 \<le> cl_fd c' \<longrightarrow> cl_owner c' \<noteq> 0 \<and> \<not> cl_dead c'" using c' D(6) [OF i(1)] i by (simp add: client_step_def)
  ultimately show ?thesis using D i by (auto simp: session_inv_def nth_list_update)
qed

lemma session_inv_push:
  assumes inv: "session_inv s" and i: "i < ds_max_clients s" "cl_owner (ds_clients s ! i) \<noteq> 0" "\<not> cl_pending (ds_clients s ! i)"
    and c': "client_wf c'" "cl_owner c' = cl_owner (ds_clients s ! i)" "cl_cleanup c' \<Longrightarrow> cl_dead c'"
      "0 \<le> cl_fd c' \<Longrightarrow> 0 \<le> cl_fd (ds_clients s ! i)" "cl_dead c' = cl_dead (ds_clients s ! i)"
    and it: "outstanding c' it" "msg_wf (di_message it)"
  obtains q where "push_request it s = (True, s\<lparr>ds_requests := q\<rparr>)" "session_inv (set_client i c' (s\<lparr>ds_requests := q\<rparr>))"
proof -
  note D = session_invD [OF inv]
  have "length (items s) < 64" using D(3) i by (intro sessions_ok_room [OF D(5)]) simp_all
  then have room: "length (dq_abs (ds_requests s)) < 64" by (simp add: items_def)
  define q where "q = snd (daemon_queue_push (ds_requests s) it)"
  have q: "daemon_queue_push (ds_requests s) it = (True, q)" "dq_inv q" "dq_abs q = dq_abs (ds_requests s) @ [it]"
    using dq_push_step [OF D(1), of it] room by (auto simp: q_def prod_eq_iff)
  define its' where "its' = dq_abs q @ dq_abs (ds_responses s)"
  have set: "set its' = insert it (set (items s))" by (auto simp: its'_def q(3) items_def)
  have "di_owner it \<notin> di_owner ` set (items s)"
  proof
    assume "di_owner it \<in> di_owner ` set (items s)"
    then obtain x where x: "x \<in> set (items s)" "di_owner x = di_owner it" by auto
    then have "outstanding (ds_clients s ! i) x"
      using it(1) c'(2) by (intro sessions_ok_owner [OF D(5)]) (simp_all add: i outstanding_def)
    then show False using i(3) by (simp add: outstanding_def)
  qed
  then have dist: "distinct (map di_owner its')"
    using sessions_ok_distinct [OF D(5)] by (auto simp: its'_def q(3) items_def)
  have "sessions_ok (ds_max_clients s) (ds_next_owner s) ((ds_clients s)[i := c']) its'"
    using c' it by (intro sessions_ok_add [OF D(5) i _ _ _ _ _ set dist]) simp_all
  moreover have "0 \<le> cl_fd c' \<Longrightarrow> cl_owner c' \<noteq> 0 \<and> \<not> cl_dead c'" using c'(2,4,5) D(6) [OF i(1)] by simp
  ultimately have "session_inv (set_client i c' (s\<lparr>ds_requests := q\<rparr>))"
    using D q(2) i by (auto simp: session_inv_def nth_list_update its'_def items_def)
  moreover have "push_request it s = (True, s\<lparr>ds_requests := q\<rparr>)" by (simp add: push_request_def q(1))
  ultimately show ?thesis by (rule that [rotated])
qed

lemma msg_wf_zero [simp]: "msg_wf (zero_message\<lparr>im_op := op\<rparr>)" "msg_wf (zero_message\<lparr>im_op := op, im_id := ident, im_fd := fd, im_result := r\<rparr>)"
  "msg_wf (zero_message\<lparr>im_op := op, im_id := ident, im_a := a, im_b := b\<rparr>)" "msg_wf (zero_message\<lparr>im_op := op, im_id := ident, im_result := r\<rparr>)"
  by (simp_all add: msg_wf_def zero_message_def)

lemma session_inv_submit:
  assumes inv: "session_inv s" and i: "i < ds_max_clients s"
  shows "session_inv (submit_client i s)"
proof -
  define c where "c = ds_clients s ! i"
  note D = session_invD [OF inv]
  consider (idle) "cl_owner c = 0 \<or> cl_pending c \<or> \<not> cl_dead c \<and> (cl_output_length c \<noteq> 0 \<or> cl_have c \<noteq> cl_target c)"
    | (dead) "cl_owner c \<noteq> 0" "\<not> cl_pending c" "cl_dead c"
    | (ready) "cl_owner c \<noteq> 0" "\<not> cl_pending c" "\<not> cl_dead c" "cl_output_length c = 0" "cl_have c = cl_target c" by blast
  then show ?thesis
  proof cases
    case idle
    then have "submit_client i s = s" by (auto simp: submit_client_def c_def Let_def)
    then show ?thesis using inv by simp
  next
    case dead
    define it where "it = \<lparr>di_owner = cl_owner c, di_message = zero_message\<lparr>im_op := IPC_CLEANUP\<rparr>\<rparr>"
    define c' where "c' = c\<lparr>cl_pending := True, cl_cleanup := True\<rparr>"
    obtain q where q: "push_request it s = (True, s\<lparr>ds_requests := q\<rparr>)" "session_inv (set_client i c' (s\<lparr>ds_requests := q\<rparr>))"
      by (rule session_inv_push [OF inv i, of c' it])
        (use dead sessions_okD(1) [OF D(5) i] in \<open>simp_all add: c_def c'_def it_def outstanding_def client_wf_pending\<close>)
    have "submit_client i s = set_client i c' (s\<lparr>ds_requests := q\<rparr>)"
      unfolding submit_client_def c_def [symmetric] Let_def using dead q(1) by (simp add: it_def c'_def)
    then show ?thesis using q(2) by simp
  next
    case ready
    have own: "cl_owner (ds_clients s ! i) \<noteq> 0" using ready by (simp add: c_def)
    have wf: "client_wf c" using sessions_okD(1) [OF D(5) i own] by (simp add: c_def)
    have full: "\<not> cl_have c < IPC_HEADER_SIZE" using wf ready by (simp add: client_wf_def split: if_splits)
    then have valid: "ipc_request_valid (cl_input c)" using wf ready by (simp add: client_wf_def)
    have m: "msg_wf (cl_input c)" using wf ipc_request_valid_length [OF valid] by (simp add: client_wf_def msg_wf_def)
    have answer: "session_inv (set_client i (reply c r) s)" if "msg_wf r" for r
      by (rule session_inv_client [OF inv i own]) (use client_step_reply [OF wf that ready(3)] in \<open>simp add: c_def\<close>)
    have forward: "session_inv (case push_request \<lparr>di_owner = cl_owner c, di_message = (cl_input c)\<lparr>im_fd := fd\<rparr>\<rparr> s of
        (True, service) \<Rightarrow> set_client i (c\<lparr>cl_pending := True\<rparr>) service | (False, service) \<Rightarrow> service)" for fd
    proof -
      let ?it = "\<lparr>di_owner = cl_owner c, di_message = (cl_input c)\<lparr>im_fd := fd\<rparr>\<rparr>"
      have clean: "\<not> cl_cleanup c" using sessions_okD(3) [OF D(5) i own] ready(2) by (auto simp: c_def)
      obtain q where "push_request ?it s = (True, s\<lparr>ds_requests := q\<rparr>)"
          "session_inv (set_client i (c\<lparr>cl_pending := True\<rparr>) (s\<lparr>ds_requests := q\<rparr>))"
        by (rule session_inv_push [OF inv i, of "c\<lparr>cl_pending := True\<rparr>" ?it])
          (use ready wf m clean ipc_request_valid_op [OF valid] in \<open>simp_all add: c_def outstanding_def client_wf_pending msg_wf_def\<close>)
      then show ?thesis by simp
    qed
    have same: "(cl_input c)\<lparr>im_fd := im_fd (cl_input c)\<rparr> = cl_input c" by simp
    have hello: "session_inv (set_client i (reply (c\<lparr>cl_hello := True\<rparr>) r) s)" if "msg_wf r" for r
      by (rule session_inv_client [OF inv i own]) (use client_step_hello_reply [OF wf that ready(3)] in \<open>simp add: c_def\<close>)
    have gone: "session_inv (set_client i (disconnect_client c) s)"
      by (rule session_inv_client [OF inv i own]) (use client_step_disconnect [OF wf] in \<open>simp add: c_def\<close>)
    show ?thesis
      unfolding submit_client_def c_def [symmetric] Let_def
      using ready answer hello gone forward forward [of "im_fd (cl_input c)", unfolded same] by (simp split: option.split)
  qed
qed

lemma session_inv_scan:
  assumes inv: "session_inv s" and i: "i < ds_max_clients s"
  shows "session_inv (scan_client i s)"
proof (cases "cl_owner (ds_clients s ! i) = 0")
  case True
  then show ?thesis using inv by (simp add: scan_client_def)
next
  case False
  define c where "c = (if ds_stopping s \<and> \<not> cl_dead (ds_clients s ! i) then disconnect_client (ds_clients s ! i) else ds_clients s ! i)"
  have wf: "client_wf (ds_clients s ! i)" using sessions_okD(1) [OF session_invD(5) [OF inv] i False] .
  have "session_inv (set_client i c s)"
  proof (cases "ds_stopping s \<and> \<not> cl_dead (ds_clients s ! i)")
    case True
    then show ?thesis using session_inv_client [OF inv i False client_step_disconnect [OF wf]] by (simp add: c_def)
  next
    case no: False
    then have "c = ds_clients s ! i" by (simp only: c_def if_False)
    then have "set_client i c s = s" by (simp add: set_client_def)
    then show ?thesis using inv by simp
  qed
  then have "session_inv (if cl_dead c then (set_client i c s)\<lparr>ds_identities := x\<rparr> else set_client i c s)" for x
    by (simp add: session_inv_def items_def)
  from session_inv_submit [OF this] show ?thesis
    using False i by (simp add: scan_client_def Let_def c_def [symmetric])
qed

lemma session_inv_accept:
  assumes inv: "session_inv s"
  shows "session_inv (accept_client fd pidfd identity s)"
proof (cases "first_index (\<lambda>c. cl_owner c = 0) (take (ds_max_clients s) (ds_clients s))")
  case None
  then show ?thesis unfolding accept_client_def None using inv by simp
next
  case (Some i)
  note D = session_invD [OF inv]
  from first_indexD [OF Some] have i: "i < ds_max_clients s" "cl_owner (ds_clients s ! i) = 0" using D by auto
  show ?thesis
  proof (cases "ds_next_owner s = - 1")
    case True
    then show ?thesis unfolding accept_client_def Some using inv by simp
  next
    case False
    define c' where "c' = zero_client\<lparr>cl_fd := fd, cl_pidfd := pidfd, cl_owner := ds_next_owner s + 1,
      cl_next_handle := 1, cl_target := IPC_HEADER_SIZE\<rparr>"
    have wf: "client_wf c'"
      by (simp add: client_wf_def handles_wf_def c'_def zero_client_def zero_message_def INT_MAX_def del: replicate.simps)
    have "ds_next_owner s + 1 \<noteq> 0" using False unfolding eq_neg_iff_add_eq_0 .
    then have c': "cl_owner c' = ds_next_owner s + 1" "cl_owner c' \<noteq> 0" "\<not> cl_dead c'" "\<not> cl_pending c'" "\<not> cl_cleanup c'"
      by (simp_all add: c'_def zero_client_def)
    have "sessions_ok (ds_max_clients s) (ds_next_owner s + 1) ((ds_clients s)[i := c']) (items s)"
      using c' by (intro sessions_ok_new [OF D(5) i False wf])
    then have "session_inv ((set_client i c' (s\<lparr>ds_next_owner := ds_next_owner s + 1\<rparr>))\<lparr>ds_identities := x\<rparr>)" for x
      using D i c' by (auto simp: session_inv_def nth_list_update items_def)
    then have inv': "session_inv (set_client i c' (s\<lparr>ds_next_owner := ds_next_owner s + 1\<rparr>))"
      and ids: "\<And>x. session_inv ((set_client i c' (s\<lparr>ds_next_owner := ds_next_owner s + 1\<rparr>))\<lparr>ds_identities := x\<rparr>)"
      by (simp_all add: session_inv_def items_def)
    show ?thesis unfolding accept_client_def Some
      using False inv' ids by (simp add: Let_def c'_def [symmetric] split: option.split)
  qed
qed

lemma session_inv_collect:
  assumes inv: "session_inv s" and pop: "daemon_queue_pop (ds_responses s) = (Some item, q)"
  obtains s' where "collect_response item (s\<lparr>ds_responses := q\<rparr>) = Some s'" "session_inv s'" "ds_responses s' = q"
proof -
  note D = session_invD [OF inv]
  from dq_pop_step [OF D(2)] pop have q: "dq_inv q" "dq_abs (ds_responses s) = item # dq_abs q"
    by (auto split: list.splits)
  have it: "item \<in> set (items s)" by (simp add: items_def q)
  obtain j where j: "j < ds_max_clients s" "cl_owner (ds_clients s ! j) \<noteq> 0" "outstanding (ds_clients s ! j) item"
      "msg_wf (di_message item)" using D(5) it by (rule sessions_ok_item)
  have own: "cl_owner (ds_clients s ! j) = di_owner item" using j(3) by (simp add: outstanding_def)
  have at: "first_index (\<lambda>c. cl_owner c = di_owner item) (take (ds_max_clients s) (ds_clients s)) = Some j"
  proof (cases "first_index (\<lambda>c. cl_owner c = di_owner item) (take (ds_max_clients s) (ds_clients s))")
    case None
    then have "\<forall>c\<in>set (take (ds_max_clients s) (ds_clients s)). cl_owner c \<noteq> di_owner item" by simp
    moreover have "ds_clients s ! j \<in> set (take (ds_max_clients s) (ds_clients s))"
      using j(1) D(3,4) by (auto simp: in_set_conv_nth)
    ultimately show ?thesis using own by blast
  next
    case (Some k)
    from first_indexD [OF Some] have "k < ds_max_clients s" "cl_owner (ds_clients s ! k) = di_owner item" using D(3,4) by auto
    then have "k = j" using sessions_okD(5) [OF D(5) j(1,2)] own by simp
    then show ?thesis using Some by simp
  qed
  define its' where "its' = dq_abs (ds_requests s) @ dq_abs q"
  have dist: "distinct (map di_owner its')" and set: "set its' = set (items s) - {item}"
    using sessions_ok_distinct [OF D(5)] by (auto simp: its'_def items_def q)
  have next_inv: "session_inv (set_client j c' (s\<lparr>ds_responses := q\<rparr>))"
    if "cl_owner c' = 0 \<or> client_wf c' \<and> cl_owner c' = cl_owner (ds_clients s ! j) \<and> \<not> cl_pending c' \<and> \<not> cl_cleanup c'"
      and "0 \<le> cl_fd c' \<Longrightarrow> cl_owner c' \<noteq> 0 \<and> \<not> cl_dead c'" for c'
  proof -
    have "sessions_ok (ds_max_clients s) (ds_next_owner s) ((ds_clients s)[j := c']) its'"
      using that(1) by (intro sessions_ok_remove [OF D(5) j(1) own it _ set dist])
    then show ?thesis using D q(1) j(1) that(2) by (auto simp: session_inv_def nth_list_update items_def its'_def)
  qed
  define c where "c = (ds_clients s ! j)\<lparr>cl_pending := False\<rparr>"
  have wf: "client_wf c" using sessions_okD(1) [OF D(5) j(1,2)] by (simp add: c_def client_wf_pending)
  have step: "collect_response item (s\<lparr>ds_responses := q\<rparr>) =
      (if im_op (di_message item) = IPC_CLEANUP \<and> cl_cleanup c then Some (set_client j no_client (s\<lparr>ds_responses := q\<rparr>))
       else if cl_dead c then Some (set_client j c (s\<lparr>ds_responses := q\<rparr>))
       else map_option (\<lambda>c. set_client j c (s\<lparr>ds_responses := q\<rparr>)) (deliver_response c (di_message item)))"
    using at by (simp add: collect_response_def c_def Let_def)
  have clean: "cl_cleanup c \<Longrightarrow> im_op (di_message item) = IPC_CLEANUP" using j(3) by (simp add: outstanding_def c_def)
  show ?thesis
  proof (cases "cl_cleanup c")
    case True
    have "cl_owner no_client = 0" "cl_fd no_client = - 1" by (simp_all add: no_client_def zero_client_def)
    then show ?thesis
      by (intro that [of "set_client j no_client (s\<lparr>ds_responses := q\<rparr>)"])
        (use True clean step next_inv [of no_client] in simp_all)
  next
    case no: False
    show ?thesis
    proof (cases "cl_dead c")
      case True
      then have "\<not> 0 \<le> cl_fd c" using D(6) [OF j(1)] by (auto simp: c_def)
      then have "session_inv (set_client j c (s\<lparr>ds_responses := q\<rparr>))"
        using no wf by (intro next_inv) (simp_all add: c_def)
      then show ?thesis using True no step by (intro that [of "set_client j c (s\<lparr>ds_responses := q\<rparr>)"]) simp_all
    next
      case False
      obtain c' where c': "deliver_response c (di_message item) = Some c'" "client_wf c'" "cl_owner c' = cl_owner c"
          "cl_pending c' = cl_pending c" "cl_cleanup c' = cl_cleanup c" "0 \<le> cl_fd c' \<longrightarrow> \<not> cl_dead c'"
        using wf j(4) False by (rule deliver_response_client)
      have eqs: "cl_owner c = cl_owner (ds_clients s ! j)" "\<not> cl_pending c" by (simp_all add: c_def)
      have "session_inv (set_client j c' (s\<lparr>ds_responses := q\<rparr>))"
        using c' no eqs j(2) by (intro next_inv) simp_all
      then show ?thesis using step no False c'(1) by (intro that [of "set_client j c' (s\<lparr>ds_responses := q\<rparr>)"]) simp_all
    qed
  qed
qed

lemma collect_responses_drains:
  assumes "session_inv s"
  shows "\<exists>s'. collect_responses s = Some s' \<and> session_inv s' \<and> dq_abs (ds_responses s') = []"
  using assms
proof (induction "length (dq_abs (ds_responses s))" arbitrary: s)
  case 0
  then have "dq_abs (ds_responses s) = []" by (simp del: length_dq_abs)
  moreover have "daemon_queue_pop (ds_responses s) = (None, ds_responses s)"
    using dq_pop_step [OF session_invD(2) [OF "0.prems"]] calculation by simp
  ultimately show ?case using "0.prems" by (subst collect_responses.simps) simp
next
  case (Suc n)
  then obtain item rest where "dq_abs (ds_responses s) = item # rest" by (metis Suc_length_conv)
  then have pop: "daemon_queue_pop (ds_responses s) = (Some item, snd (daemon_queue_pop (ds_responses s)))"
    and rest: "dq_abs (snd (daemon_queue_pop (ds_responses s))) = rest"
    using dq_pop_step [OF session_invD(2) [OF Suc.prems]] by (auto simp: prod_eq_iff)
  obtain s1 where s1: "collect_response item (s\<lparr>ds_responses := snd (daemon_queue_pop (ds_responses s))\<rparr>) = Some s1"
      "session_inv s1" "ds_responses s1 = snd (daemon_queue_pop (ds_responses s))"
    using Suc.prems pop by (rule session_inv_collect)
  have "n = length (dq_abs (ds_responses s1))" using Suc.hyps(2) s1(3) rest \<open>dq_abs (ds_responses s) = item # rest\<close> by (simp del: length_dq_abs)
  from Suc.hyps(1) [OF this s1(2)] obtain s' where
    "collect_responses s1 = Some s'" "session_inv s'" "dq_abs (ds_responses s') = []" by blast
  then show ?case by (subst collect_responses.simps) (subst pop, simp add: s1(1))
qed

lemma session_inv_dispatch:
  assumes inv: "session_inv s" and pop: "daemon_queue_pop (ds_requests s) = (Some request, requests)"
    and answer: "di_owner response = di_owner request" "answers (di_message request) (di_message response)"
  shows "session_inv (s\<lparr>ds_requests := requests, ds_responses := snd (daemon_queue_push (ds_responses s) response)\<rparr>)"
proof -
  note D = session_invD [OF inv]
  from dq_pop_step [OF D(1)] pop have q: "dq_inv requests" "dq_abs (ds_requests s) = request # dq_abs requests"
    by (auto split: list.splits)
  have "length (items s) \<le> 64" using sessions_ok_le [OF D(5)] D(3) by simp
  then have "length (dq_abs (ds_responses s)) < 64" by (simp add: items_def q(2) del: length_dq_abs)
  then have r: "dq_inv (snd (daemon_queue_push (ds_responses s) response))"
      "dq_abs (snd (daemon_queue_push (ds_responses s) response)) = dq_abs (ds_responses s) @ [response]"
    using dq_push_step [OF D(2), of response] by auto
  define its' where "its' = dq_abs requests @ dq_abs (ds_responses s) @ [response]"
  have "distinct (map di_owner its')" "set its' = insert response (set (items s) - {request})"
    using sessions_ok_distinct [OF D(5)] answer(1) by (auto simp: its'_def items_def q(2))
  then have "sessions_ok (ds_max_clients s) (ds_next_owner s) (ds_clients s) its'"
    using answer by (intro sessions_ok_answer [OF D(5), of request]) (simp_all add: items_def q(2))
  then show ?thesis using D q(1) r by (auto simp: session_inv_def items_def its'_def)
qed

lemma session_inv_progress_loop:
  assumes "session_inv s" "progress_loop D n s rt = Some (count, s', rt')"
  shows "session_inv s'"
  using assms
proof (induction n arbitrary: s rt count s' rt')
  case (Suc n)
  show ?case
  proof (cases "daemon_queue_room (ds_responses s) \<and> fst (daemon_queue_pop (ds_requests s)) \<noteq> None")
    case False
    then have "s' = s" using Suc.prems(2) by (auto split: prod.splits option.splits if_splits)
    then show ?thesis using Suc.prems(1) by simp
  next
    case True
    then obtain request requests where pop: "daemon_queue_pop (ds_requests s) = (Some request, requests)"
      by (cases "daemon_queue_pop (ds_requests s)") auto
    with Suc.prems(2) True obtain response rt1 count1 where d: "daemon_dispatch D request rt = Some (response, rt1)"
      and l: "progress_loop D n (s\<lparr>ds_requests := requests, ds_responses := snd (daemon_queue_push (ds_responses s) response)\<rparr>) rt1
        = Some (count1, s', rt')" by (auto simp: bind_eq_Some_conv Let_def)
    show ?thesis using Suc.IH [OF session_inv_dispatch [OF Suc.prems(1) pop daemon_dispatch_answers [OF d]] l] .
  qed
qed simp

lemma session_inv_progress:
  assumes "session_inv s" "daemon_progress D failed s rt = Some (count, s', rt')"
  shows "session_inv s'"
proof -
  obtain s1 where l: "progress_loop D 16 s rt = Some (count, s1, rt')"
    and s': "s' = (if count \<noteq> 0 \<and> failed then s1\<lparr>ds_failed := True\<rparr> else s1)"
    using assms(2) by (auto simp: daemon_progress_def bind_eq_Some_conv simp del: progress_loop.simps)
  have "session_inv s1" using assms(1) l by (rule session_inv_progress_loop)
  then show ?thesis by (simp add: s' session_inv_def items_def)
qed

subsection \<open>Reachable sessions\<close>

text \<open>
  The steps of the two threads: the control thread collects responses, scans a client, accepts one,
  reads from or writes to one that polling reported ready, drops one whose process or connection is
  gone, and sees the request to stop; the worker serves requests.
\<close>

inductive session_step ::
    "('d, 'x) dpdk_scheme \<Rightarrow> daemon_service \<times> 'd app_runtime \<Rightarrow> daemon_service \<times> 'd app_runtime \<Rightarrow> bool" for D where
  Collect: "collect_responses s = Some s' \<Longrightarrow> session_step D (s, rt) (s', rt)"
| Scan: "i < ds_max_clients s \<Longrightarrow> session_step D (s, rt) (scan_client i s, rt)"
| Accept: "session_step D (s, rt) (accept_client fd pidfd identity s, rt)"
| Read: "i < ds_max_clients s \<Longrightarrow> c = ds_clients s ! i \<Longrightarrow> 0 \<le> cl_fd c \<Longrightarrow> cl_output_length c = 0 \<Longrightarrow> \<not> cl_pending c \<Longrightarrow>
    cl_have c < cl_target c \<Longrightarrow> received \<noteq> IO_Bytes [] \<Longrightarrow>
    session_step D (s, rt) (set_client i (read_client received c) s, rt)"
| Write: "i < ds_max_clients s \<Longrightarrow> c = ds_clients s ! i \<Longrightarrow> 0 \<le> cl_fd c \<Longrightarrow> cl_output_length c \<noteq> 0 \<Longrightarrow> 0 < n \<Longrightarrow>
    n \<le> cl_output_length c - cl_sent c \<Longrightarrow> session_step D (s, rt) (set_client i (write_client n c) s, rt)"
| Hangup: "i < ds_max_clients s \<Longrightarrow> c = ds_clients s ! i \<Longrightarrow> cl_owner c \<noteq> 0 \<Longrightarrow>
    session_step D (s, rt) (set_client i (disconnect_client c) s, rt)"
| Stop: "session_step D (s, rt) (s\<lparr>ds_stopping := True\<rparr>, rt)"
| Work: "daemon_progress D failed s rt = Some (count, s', rt') \<Longrightarrow> session_step D (s, rt) (s', rt')"

lemma session_step_inv: "session_step D x y \<Longrightarrow> session_inv (fst x) \<Longrightarrow> session_inv (fst y)"
proof (induction rule: session_step.induct)
  case (Collect s s' rt)
  then show ?case using collect_responses_drains [of s] by auto
next
  case (Read i s c received rt)
  then have "cl_owner c \<noteq> 0" "\<not> cl_dead c" "client_wf c"
    using session_invD(6) [of s i] sessions_okD(1) [OF session_invD(5), of s i] by simp_all
  then show ?case using Read by (simp add: session_inv_client client_step_read)
next
  case (Write i s c n rt)
  then have "cl_owner c \<noteq> 0" "\<not> cl_dead c" "client_wf c"
    using session_invD(6) [of s i] sessions_okD(1) [OF session_invD(5), of s i] by simp_all
  then show ?case using Write by (simp add: session_inv_client client_step_write)
next
  case (Hangup i s c rt)
  then show ?case
    using sessions_okD(1) [OF session_invD(5), of s i] by (simp add: session_inv_client client_step_disconnect)
next
  case (Stop s rt)
  then show ?case by (simp add: session_inv_def items_def)
next
  case (Work failed s rt count s' rt')
  then show ?case using session_inv_progress by simp
qed (simp_all add: session_inv_scan session_inv_accept)

lemma session_inv_init:
  assumes "daemon_init item n sockets = Inr s"
  shows "session_inv s"
proof -
  define q where "q = daemon_queue_init \<lparr>dq_read = 0, dq_write = 0, dq_entries = replicate DAEMON_QUEUE_SIZE item\<rparr>"
  have q: "dq_inv q" "dq_abs q = []"
    by (simp_all add: dq_inv_def dq_abs_def daemon_queue_init_def q_def del: replicate.simps)
  have s: "n \<le> DAEMON_CLIENT_MAX" "ds_requests s = q" "ds_responses s = q" "ds_max_clients s = n"
      "ds_clients s = replicate DAEMON_CLIENT_MAX no_client"
    using assms by (auto simp: daemon_init_def q_def Let_def split: if_splits simp del: replicate.simps)
  have nth: "ds_clients s ! i = no_client" if "i < n" for i
    unfolding s(5) using that s(1) by (intro nth_replicate) simp
  show ?thesis
    using s q nth by (simp add: session_inv_def items_def sessions_ok_def no_client_def zero_client_def del: replicate.simps)
qed

lemma session_inv_reachable:
  assumes "daemon_init item n sockets = Inr s0" and "(session_step D)\<^sup>*\<^sup>* (s0, rt0) (s, rt)"
  shows "session_inv s"
proof -
  have "session_inv (fst (s, rt))"
    using assms(2) by (induction rule: rtranclp_induct) (use session_inv_init [OF assms(1)] session_step_inv in auto)
  then show ?thesis by simp
qed

lemma count_distinct: "distinct xs \<Longrightarrow> count_list xs x = of_bool (x \<in> set xs)"
  by (induction xs) (auto simp: count_list_0_iff)


text \<open>
  C34: the control thread always gets to the end of the responses.  In every reachable state of the
  daemon \<open>collect_responses\<close> returns, with the response ring empty; the searches for fresh handles it
  makes on the way end as well.
\<close>

theorem collect_responses_terminates:
  assumes "daemon_init item n sockets = Inr s0" and "(session_step D)\<^sup>*\<^sup>* (s0, rt0) (s, rt)"
  shows "\<exists>s'. collect_responses s = Some s' \<and> dq_abs (ds_responses s') = []"
  using collect_responses_drains [OF session_inv_reachable [OF assms]] by blast

text \<open>
  C33: the buffers of a client are never overrun.  In every reachable state, the bytes still expected
  from a connected client fit its header or payload buffer, the bytes still to be sent lie inside its
  output buffer, and a descriptor that polling may report belongs to a live session.
\<close>

theorem daemon_buffers_in_bounds:
  assumes "daemon_init item n sockets = Inr s0" and "(session_step D)\<^sup>*\<^sup>* (s0, rt0) (s, rt)"
    and "i < ds_max_clients s" and "c = ds_clients s ! i" and "0 \<le> cl_fd c"
  shows "cl_owner c \<noteq> 0 \<and> \<not> cl_dead c \<and> cl_sent c \<le> cl_output_length c \<and> cl_output_length c \<le> length (cl_output c) \<and>
    cl_have c \<le> cl_target c \<and>
    (if cl_have c < IPC_HEADER_SIZE then cl_target c \<le> length (cl_header c)
     else cl_target c - IPC_HEADER_SIZE \<le> length (im_data (cl_input c)))"
proof -
  have inv: "session_inv s" using assms(1,2) by (rule session_inv_reachable)
  note D = session_invD [OF inv]
  have c: "cl_owner c \<noteq> 0" "\<not> cl_dead c" using D(6) [OF assms(3)] assms(4,5) by simp_all
  have "client_wf c" using sessions_okD(1) [OF D(5) assms(3)] c(1) assms(4) by simp
  then show ?thesis
    using c ipc_request_valid_length [of "cl_input c"] by (auto simp: client_wf_def)
qed

text \<open>A daemon with two client slots that has accepted one connection.\<close>

definition sample_item :: daemon_item where
  "sample_item = \<lparr>di_owner = 0, di_message = zero_message\<rparr>"

definition sample_service :: daemon_service where
  "sample_service = (case daemon_init sample_item 2 16 of Inr s \<Rightarrow> s | Inl _ \<Rightarrow> undefined)"

lemma sample_service_init: "daemon_init sample_item 2 16 = Inr sample_service"
  by (simp add: sample_service_def daemon_init_def Let_def del: replicate.simps)

definition sample_session :: daemon_service where
  "sample_session = accept_client 5 6 None sample_service"

lemma sample_session_reached: "(session_step loopback)\<^sup>*\<^sup>* (sample_service, rt) (sample_session, rt)"
  unfolding sample_session_def by (intro r_into_rtranclp session_step.Accept)

lemma sample_session_client:
  "ds_max_clients sample_session = 2" "cl_owner (ds_clients sample_session ! 0) = 1" "cl_fd (ds_clients sample_session ! 0) = 5"
  "\<not> cl_pending (ds_clients sample_session ! 0)"
proof -
  have s: "ds_clients sample_service = replicate DAEMON_CLIENT_MAX no_client" "ds_max_clients sample_service = 2"
      "ds_next_owner sample_service = 0"
    by (simp_all add: sample_service_def daemon_init_def Let_def del: replicate.simps)
  have "take 2 (replicate DAEMON_CLIENT_MAX no_client) = [no_client, no_client]" by (simp add: take_replicate numeral_2_eq_2 del: One_nat_def)
  then have "first_index (\<lambda>c. cl_owner c = 0) (take 2 (replicate DAEMON_CLIENT_MAX no_client)) = Some 0"
    by (simp add: no_client_def zero_client_def)
  then show "ds_max_clients sample_session = 2" "cl_owner (ds_clients sample_session ! 0) = 1"
    "cl_fd (ds_clients sample_session ! 0) = 5" "\<not> cl_pending (ds_clients sample_session ! 0)"
    using s by (simp_all add: sample_session_def accept_client_def Let_def zero_client_def del: replicate.simps)
qed


theorem collect_responses_terminates_witness:
  "\<exists>s'. collect_responses sample_session = Some s' \<and> dq_abs (ds_responses s') = []"
  by (rule collect_responses_terminates [OF sample_service_init sample_session_reached [of "sample_runtime 0 None"]])

theorem daemon_buffers_in_bounds_witness:
  "cl_output_length (ds_clients sample_session ! 0) \<le> length (cl_output (ds_clients sample_session ! 0))"
  using daemon_buffers_in_bounds [OF sample_service_init sample_session_reached [of "sample_runtime 0 None"] _ refl, of 0] sample_session_client
  by simp

end
