(* ===== verification/Icmp_Rate.thy ===== *)
theory Icmp_Rate
  imports Control_Messages Loopback
begin

text \<open>
  The rate limit of ICMP errors: the token bucket of \<^verbatim>\<open>src/icmp_error.c\<close>.
\<close>

definition refill_interval :: "('d, 'x) dpdk_scheme \<Rightarrow> nat" where
  "refill_interval D = unat (d_timer_hz D div ICMP_ERROR_RATE)"

definition bucket_inv :: "icmp_error_state \<Rightarrow> u64 \<Rightarrow> bool" where
  "bucket_inv st now \<longleftrightarrow> ie_initialized st \<longrightarrow> ie_tokens st \<le> ICMP_ERROR_BURST \<and> ie_last_refill st \<le> now"

text \<open>One attempt: how many intervals \<open>k\<close> were credited and what the bucket holds afterwards.\<close>

definition bucket_step :: "('d, 'x) dpdk_scheme \<Rightarrow> icmp_error_state \<Rightarrow> u64 \<Rightarrow> bool \<Rightarrow> icmp_error_state \<Rightarrow> bool" where
  "bucket_step D st now granted st' \<longleftrightarrow>
     ie_initialized st' \<and> ie_tokens st' \<le> ICMP_ERROR_BURST \<and> ie_last_refill st' \<le> now \<and>
     unat now < unat (ie_last_refill st') + refill_interval D \<and>
     of_bool granted + unat (ie_tokens st') \<le> 10 \<and>
     (if ie_initialized st
      then \<exists>k. unat (ie_last_refill st') = unat (ie_last_refill st) + k * refill_interval D \<and>
             of_bool granted + unat (ie_tokens st') = min 10 (unat (ie_tokens st) + k) \<and>
             (granted \<longleftrightarrow> 0 < unat (ie_tokens st) + k)
      else granted)"

lemma take_token_ready:
  assumes init: "ie_initialized st" and tok: "ie_tokens st \<le> ICMP_ERROR_BURST" and lr: "ie_last_refill st \<le> now"
    and hz: "refill_interval D \<noteq> 0"
  obtains granted st' where "take_token D st now = Some (granted, st')" "bucket_step D st now granted st'"
proof -
  define I where "I = d_timer_hz D div ICMP_ERROR_RATE"
  have I0: "I \<noteq> 0" and I: "refill_interval D = unat I"
    using hz by (auto simp: refill_interval_def I_def)
  define e where "e = now - ie_last_refill st"
  have ue: "unat e = unat now - unat (ie_last_refill st)"
    unfolding e_def by (rule unat_sub [OF lr])
  have lr': "unat (ie_last_refill st) \<le> unat now" using lr by (simp add: word_le_nat_alt)
  have t: "unat (ie_tokens st) \<le> 10" using tok by (simp add: word_le_nat_alt)
  have em: "e mod I \<le> now"
  proof -
    have "unat (e mod I) \<le> unat e" by (simp add: unat_mod)
    then show ?thesis using ue by (simp add: word_le_nat_alt)
  qed
  define st1 where "st1 = (if e div I \<noteq> 0
      then st\<lparr>ie_tokens := (if e div I \<ge> ucast (ICMP_ERROR_BURST - ie_tokens st) then ICMP_ERROR_BURST
               else ie_tokens st + ucast (e div I)), ie_last_refill := now - e mod I\<rparr> else st)"
  have tt: "take_token D st now = (if ie_tokens st1 = 0 then Some (False, st1)
                 else Some (True, st1\<lparr>ie_tokens := ie_tokens st1 - 1\<rparr>))"
    using init I0 by (simp add: take_token_def Let_def I_def [symmetric] e_def [symmetric] st1_def [symmetric])
  define k where "k = unat e div unat I"
  have uk: "unat (e div I) = k" by (simp add: k_def unat_div)
  have e: "unat e = k * unat I + unat e mod unat I" by (simp add: k_def)
  have Ipos: "0 < unat I" using I0 by (simp add: unat_gt_0)
  have lr1: "unat (ie_last_refill st1) = unat (ie_last_refill st) + k * unat I"
  proof (cases "e div I = 0")
    case True
    then have "k = 0" using uk by simp
    then show ?thesis using True by (simp add: st1_def)
  next
    case False
    have "unat (now - e mod I) = unat now - unat e mod unat I" by (simp add: unat_sub [OF em] unat_mod)
    then show ?thesis using False ue lr' e by (simp add: st1_def)
  qed
  have near: "unat now < unat (ie_last_refill st1) + unat I"
  proof -
    have "unat e mod unat I < unat I" using Ipos by simp
    then show ?thesis using ue lr' e lr1 by linarith
  qed
  have past: "unat (ie_last_refill st1) \<le> unat now"
    using ue lr' e lr1 by linarith
  have room: "unat (ucast (ICMP_ERROR_BURST - ie_tokens st) :: u64) = 10 - unat (ie_tokens st)"
  proof -
    have "unat (ICMP_ERROR_BURST - ie_tokens st) = 10 - unat (ie_tokens st)" using unat_sub [OF tok] by simp
    then show ?thesis by (subst unat_ucast_small) simp_all
  qed
  have tok1: "unat (ie_tokens st1) = min 10 (unat (ie_tokens st) + k)"
  proof (cases "e div I = 0")
    case True
    then show ?thesis using t uk by (simp add: st1_def)
  next
    case nz: False
    show ?thesis
    proof (cases "10 - unat (ie_tokens st) \<le> k")
      case True
      then have "ie_tokens st1 = ICMP_ERROR_BURST"
        using nz room uk by (simp add: st1_def word_le_nat_alt)
      then show ?thesis using True by simp
    next
      case False
      then have s1: "ie_tokens st1 = ie_tokens st + ucast (e div I)"
        using nz room uk by (simp add: st1_def word_le_nat_alt)
      have "unat (ucast (e div I) :: u32) = k"
        using uk False by (subst unat_ucast_small) simp_all
      then have "unat (ie_tokens st1) = unat (ie_tokens st) + k"
        unfolding s1 using False by (subst unat_add_lem [THEN iffD1]) simp_all
      then show ?thesis using False by simp
    qed
  qed
  have init1: "ie_initialized st1" using init by (simp add: st1_def)
  show ?thesis
  proof (cases "ie_tokens st1 = 0")
    case True
    then have "unat (ie_tokens st) + k = 0" using tok1 by (simp add: min_def split: if_splits)
    then have "bucket_step D st now False st1"
      unfolding bucket_step_def using True near past lr1 init init1 I by (simp add: word_le_nat_alt)
    with tt True show ?thesis by (intro that [of False st1]) simp_all
  next
    case False
    have dec: "unat (ie_tokens st1 - 1) + 1 = min 10 (unat (ie_tokens st) + k)"
    proof -
      have "1 \<le> unat (ie_tokens st1)" using False by (simp add: Suc_leI unat_gt_0)
      moreover have "unat (ie_tokens st1 - 1) = unat (ie_tokens st1) - 1" using False by (rule unat_minus_one)
      ultimately show ?thesis using tok1 by simp
    qed
    then have pos: "0 < unat (ie_tokens st) + k" and le: "unat (ie_tokens st1 - 1) + 1 \<le> 10" by linarith+
    have "bucket_step D st now True (st1\<lparr>ie_tokens := ie_tokens st1 - 1\<rparr>)"
      unfolding bucket_step_def using dec pos le near past lr1 init init1 I
      by (auto simp: word_le_nat_alt intro!: exI [of _ k])
    with tt False show ?thesis by (intro that [of True "st1\<lparr>ie_tokens := ie_tokens st1 - 1\<rparr>"]) simp_all
  qed
qed

lemma take_token_bucket:
  assumes "bucket_inv st now" and "refill_interval D \<noteq> 0"
  obtains granted st' where "take_token D st now = Some (granted, st')" "bucket_step D st now granted st'"
proof (cases "ie_initialized st")
  case True
  then show ?thesis using assms that by (auto simp: bucket_inv_def elim: take_token_ready)
next
  case False
  define st0 where "st0 = st\<lparr>ie_initialized := True, ie_last_refill := now, ie_tokens := ICMP_ERROR_BURST\<rparr>"
  have same: "take_token D st now = take_token D st0 now"
    using False by (simp add: take_token_def st0_def)
  obtain granted st' where t: "take_token D st0 now = Some (granted, st')" and b: "bucket_step D st0 now granted st'"
    using assms(2) by (rule take_token_ready [of st0 now D, rotated 3]) (simp_all add: st0_def)
  from b have "bucket_step D st now granted st'"
    using False by (auto simp: bucket_step_def st0_def)
  with t same show ?thesis by (intro that) simp_all
qed

text \<open>The attempts of a run at the given times, counting the granted ones.\<close>

fun grants :: "('d, 'x) dpdk_scheme \<Rightarrow> u64 list \<Rightarrow> icmp_error_state \<Rightarrow> (nat \<times> icmp_error_state) option" where
  "grants D [] st = Some (0, st)"
| "grants D (now # ts) st = do {
     (granted, st) \<leftarrow> take_token D st now;
     (n, st) \<leftarrow> grants D ts st;
     Some (of_bool granted + n, st)
   }"

lemma grants_ready:
  assumes "refill_interval D \<noteq> 0" and "sorted ts" and "ie_initialized st"
    and "ie_tokens st \<le> ICMP_ERROR_BURST" and "\<forall>t\<in>set ts. ie_last_refill st \<le> t"
  shows "\<exists>n st' k. grants D ts st = Some (n, st') \<and> ie_initialized st' \<and> ie_tokens st' \<le> ICMP_ERROR_BURST \<and>
    unat (ie_last_refill st') = unat (ie_last_refill st) + k * refill_interval D \<and>
    (ts \<noteq> [] \<longrightarrow> ie_last_refill st' \<le> last ts) \<and> (ts = [] \<longrightarrow> k = 0) \<and>
    n + unat (ie_tokens st') \<le> unat (ie_tokens st) + k"
  using assms(2-)
proof (induction ts arbitrary: st)
  case Nil
  then show ?case by simp
next
  case (Cons now ts)
  have "bucket_inv st now" using Cons.prems by (simp add: bucket_inv_def)
  then obtain g st1 where t: "take_token D st now = Some (g, st1)" and b: "bucket_step D st now g st1"
    using assms(1) by (rule take_token_bucket)
  from b have st1: "ie_initialized st1" "ie_tokens st1 \<le> ICMP_ERROR_BURST" "ie_last_refill st1 \<le> now"
    by (simp_all add: bucket_step_def)
  from b Cons.prems(2) obtain k where k: "unat (ie_last_refill st1) = unat (ie_last_refill st) + k * refill_interval D"
      "of_bool g + unat (ie_tokens st1) = min 10 (unat (ie_tokens st) + k)"
    unfolding bucket_step_def by (simp only: if_True) blast
  have "\<forall>u\<in>set ts. ie_last_refill st1 \<le> u" using Cons.prems(1) st1(3) by (auto intro: order_trans)
  then obtain n st2 k2 where IH: "grants D ts st1 = Some (n, st2)" "ie_initialized st2" "ie_tokens st2 \<le> ICMP_ERROR_BURST"
      "unat (ie_last_refill st2) = unat (ie_last_refill st1) + k2 * refill_interval D"
      "ts \<noteq> [] \<longrightarrow> ie_last_refill st2 \<le> last ts" "ts = [] \<longrightarrow> k2 = 0"
      "n + unat (ie_tokens st2) \<le> unat (ie_tokens st1) + k2"
    using Cons.IH [of st1] Cons.prems(1) st1 by auto
  have "ie_last_refill st2 \<le> last (now # ts)"
    using IH(4-6) st1(3) by (cases ts) (simp_all add: word_le_nat_alt)
  moreover have "unat (ie_last_refill st2) = unat (ie_last_refill st) + (k + k2) * refill_interval D"
    using IH(4) k(1) by (simp add: algebra_simps)
  moreover have "of_bool g + n + unat (ie_tokens st2) \<le> unat (ie_tokens st) + (k + k2)"
    using IH(7) k(2) min.cobounded2 [of 10 "unat (ie_tokens st) + k"] by linarith
  ultimately show ?case using t IH(1-3) by (intro exI [of _ "of_bool g + n"] exI [of _ st2] exI [of _ "k + k2"]) simp
qed

text \<open>
  C39: ICMP errors are rate limited.  Whatever the packets, the attempts to send an error in a span of
  time are granted at most eleven ts plus once for every full tenth of a second of the span: the
  burst of ten tokens, one token for the refill interval already begun, and one token for each further
  interval.  Every attempt is defined, and the bucket never holds more than ten tokens.
\<close>

theorem icmp_error_rate_limited:
  assumes "refill_interval D \<noteq> 0" and "sorted (now # ts)" and "bucket_inv st now"
  shows "\<exists>n st'. grants D (now # ts) st = Some (n, st') \<and>
    n \<le> 11 + (unat (last (now # ts)) - unat now) div refill_interval D \<and> bucket_inv st' (last (now # ts))"
proof -
  define I where "I = refill_interval D"
  obtain g st1 where t: "take_token D st now = Some (g, st1)" and b: "bucket_step D st now g st1"
    using assms(3,1) by (rule take_token_bucket)
  then have st1: "ie_initialized st1" "ie_tokens st1 \<le> ICMP_ERROR_BURST" "ie_last_refill st1 \<le> now"
      "unat now < unat (ie_last_refill st1) + I" "of_bool g + unat (ie_tokens st1) \<le> 10"
    by (simp_all add: bucket_step_def I_def)
  have "\<forall>u\<in>set ts. ie_last_refill st1 \<le> u" using assms(2) st1(3) by (auto intro: order_trans)
  then obtain n st2 k where g: "grants D ts st1 = Some (n, st2)" "ie_tokens st2 \<le> ICMP_ERROR_BURST"
      "unat (ie_last_refill st2) = unat (ie_last_refill st1) + k * I"
      "ts \<noteq> [] \<longrightarrow> ie_last_refill st2 \<le> last ts" "ts = [] \<longrightarrow> k = 0"
      "n + unat (ie_tokens st2) \<le> unat (ie_tokens st1) + k"
    using grants_ready [of D ts st1] assms st1 unfolding I_def by auto
  define z where "z = last (now # ts)"
  have lz: "ie_last_refill st2 \<le> z" using g(3-5) st1(3) by (cases ts) (simp_all add: word_le_nat_alt z_def)
  have nz: "now \<le> z"
  proof (cases ts)
    case (Cons a list)
    then have "z \<in> set ts" by (simp add: z_def)
    then show ?thesis using assms(2) by simp
  qed (simp add: z_def)
  have "k * I \<le> (unat z - unat now) + (I - 1)"
    using g(3) lz nz st1(4) by (simp add: word_le_nat_alt)
  then have "k \<le> (unat z - unat now + (I - 1)) div I"
    using assms(1) by (simp add: I_def less_eq_div_iff_mult_less_eq)
  also have "\<dots> \<le> (unat z - unat now + I) div I" by (intro div_le_mono) simp
  also have "\<dots> = (unat z - unat now) div I + 1" using assms(1) by (subst div_add_self2) (simp_all add: I_def)
  finally have "of_bool g + n \<le> 11 + (unat z - unat now) div I" using g(6) st1(5) by linarith
  then show ?thesis
    using t g(1,2) lz by (auto simp: bucket_inv_def I_def z_def)
qed

definition sample_bucket :: icmp_error_state where
  "sample_bucket = \<lparr>ie_generated = 0, ie_suppressed = 0, ie_rate_limited = 0, ie_failed = 0, ie_last_refill = 40,
     ie_tokens = 1, ie_initialized = True\<rparr>"

lemma sample_bucket_ready: "refill_interval loopback = 100" "bucket_inv sample_bucket 45" "bucket_inv sample_bucket 140"
  by (simp_all add: refill_interval_def bucket_inv_def sample_bucket_def loopback_def)

theorem icmp_error_rate_limited_witness:
  "\<exists>n st'. grants loopback [45, 46, 300] sample_bucket = Some (n, st') \<and>
    n \<le> 11 + (unat (300 :: u64) - unat (45 :: u64)) div refill_interval loopback \<and> bucket_inv st' 300"
  using icmp_error_rate_limited [of loopback 45 "[46, 300]" sample_bucket] sample_bucket_ready by simp

text \<open>
  C40: the limit never starves a sender.  An attempt a full refill interval after the last refill, or
  the first one ever, is granted.
\<close>

theorem icmp_error_token_returns:
  assumes "refill_interval D \<noteq> 0" and "bucket_inv st now"
    and "ie_initialized st \<Longrightarrow> unat (ie_last_refill st) + refill_interval D \<le> unat now"
  shows "\<exists>st'. take_token D st now = Some (True, st')"
proof -
  obtain g st1 where t: "take_token D st now = Some (g, st1)" and b: "bucket_step D st now g st1"
    using assms(2,1) by (rule take_token_bucket)
  have "g"
  proof (cases "ie_initialized st")
    case True
    then obtain k where k: "unat (ie_last_refill st1) = unat (ie_last_refill st) + k * refill_interval D"
        "g \<longleftrightarrow> 0 < unat (ie_tokens st) + k" "unat now < unat (ie_last_refill st1) + refill_interval D"
      using b unfolding bucket_step_def if_P [OF True] by blast
    have "k \<noteq> 0" using k(1,3) assms(3) [OF True] by (cases k) simp_all
    then show ?thesis using k(2) by simp
  qed (use b in \<open>simp add: bucket_step_def\<close>)
  then show ?thesis using t by simp
qed

theorem icmp_error_token_returns_witness: "\<exists>st'. take_token loopback sample_bucket 140 = Some (True, st')"
  by (rule icmp_error_token_returns) (use sample_bucket_ready in \<open>simp_all add: sample_bucket_def\<close>)

end
