(* ===== verification/Client.thy ===== *)
theory Client
  imports Dispatch
begin

text \<open>
  The client library: \<^verbatim>\<open>src/client.c\<close>, the calls an application links against
  (\<^verbatim>\<open>include/ps_socket.h\<close>).  A call encodes one request, sends it over a Unix stream socket to the
  daemon and waits for the response, at most five seconds.

  The static session of the process is the record \<open>ps_client\<close>.  The system calls are the record
  \<open>system\<close>, a parameter over a state \<^typ>\<open>'w\<close> of the world; an error of a call is its positive errno.
  An argument that may be a null pointer is an option, and a buffer is the list of the bytes it
  holds.  \<^const>\<open>None\<close> is an access outside a buffer or a call that never returns; that neither
  happens is proved under \<open>system_ok\<close>, which says what the manual pages promise of the calls: a
  transfer moves at most the bytes it was given, errno is positive, and only finitely many calls fit
  before a deadline of the monotonic clock.
\<close>

abbreviation (input) IPC_TIMEOUT_MS :: int where "IPC_TIMEOUT_MS \<equiv> 5000"
abbreviation (input) PS_DEFAULT_SOCKET :: string where "PS_DEFAULT_SOCKET \<equiv> ''/tmp/pulsaros.sock''"
abbreviation (input) SUN_PATH_MAX :: nat where "SUN_PATH_MAX \<equiv> 108"
abbreviation (input) EINTR_CODE :: int where "EINTR_CODE \<equiv> 4"
abbreviation (input) ENAMETOOLONG_CODE :: int where "ENAMETOOLONG_CODE \<equiv> 36"

record ps_client =
  pc_fd :: int
  pc_error :: int
  pc_next_id :: u32
  pc_features :: u32
  pc_pid :: int

definition client_start :: ps_client where
  "client_start = \<lparr>pc_fd = -1, pc_error = 0, pc_next_id = 0, pc_features = 0, pc_pid = 0\<rparr>"

record 'w system =
  os_getpid :: "'w \<Rightarrow> int"
  os_clock :: "'w \<Rightarrow> (int \<times> int) \<times> 'w"
  os_poll :: "int \<Rightarrow> bool \<Rightarrow> int \<Rightarrow> 'w \<Rightarrow> (int + (bool \<times> bool) option) \<times> 'w"
  os_send :: "int \<Rightarrow> u8 list \<Rightarrow> 'w \<Rightarrow> (int + nat) \<times> 'w"
  os_recv :: "int \<Rightarrow> nat \<Rightarrow> 'w \<Rightarrow> (int + u8 list) \<times> 'w"
  os_close :: "int \<Rightarrow> 'w \<Rightarrow> 'w"
  os_socket :: "'w \<Rightarrow> (int + int) \<times> 'w"
  os_connect :: "int \<Rightarrow> string \<Rightarrow> 'w \<Rightarrow> int option \<times> 'w"
  os_so_error :: "int \<Rightarrow> 'w \<Rightarrow> (int + int) \<times> 'w"

record ps_mmsg =
  mm_data :: "u8 list option"
  mm_len :: nat
  mm_addr :: ps_sockaddr

subsection \<open>The transport\<close>

definition milliseconds :: "('w, 'x) system_scheme \<Rightarrow> 'w \<Rightarrow> int \<times> 'w" where
  "milliseconds os w = (case os_clock os w of ((sec, nsec), w) \<Rightarrow> (sec * 1000 + nsec div 1000000, w))"

text \<open>A poll reports an error, a timeout, or whether the wanted event and whether a failure is pending.\<close>

partial_function (option) wait_socket ::
    "('w, 'x) system_scheme \<Rightarrow> int \<Rightarrow> bool \<Rightarrow> int \<Rightarrow> 'w \<Rightarrow> (int \<times> 'w) option" where
  "wait_socket os fd writing deadline w =
     (let (now, w) = milliseconds os w; remaining = deadline - now in
      if remaining \<le> 0 then Some (- errno_code ETIMEDOUT, w)
      else case os_poll os fd writing (sint (word_of_int remaining :: i32)) w of
        (Inl e, w) \<Rightarrow> if e = EINTR_CODE then wait_socket os fd writing deadline w else Some (- e, w)
      | (Inr None, w) \<Rightarrow> Some (- errno_code ETIMEDOUT, w)
      | (Inr (Some (wanted, failed)), w) \<Rightarrow>
          if wanted then Some (0, w)
          else if failed then Some (- errno_code ECONNRESET, w)
          else wait_socket os fd writing deadline w)"

text \<open>
  One system call of a transfer on the bytes from the pointer on: an error, or the number of bytes
  moved, and the buffer.
\<close>

definition transfer_once ::
    "('w, 'x) system_scheme \<Rightarrow> int \<Rightarrow> u8 list \<Rightarrow> nat \<Rightarrow> nat \<Rightarrow> bool \<Rightarrow> 'w \<Rightarrow> (int + nat) \<times> u8 list \<times> 'w" where
  "transfer_once os fd buf p sz writing w =
     (if writing then case os_send os fd (take sz (drop p buf)) w of (n, w) \<Rightarrow> (n, buf, w)
      else case os_recv os fd sz w of
          (Inl e, w) \<Rightarrow> (Inl e, buf, w)
        | (Inr bytes, w) \<Rightarrow> (Inr (length bytes), memcpy_at buf p bytes, w))"

text \<open>The loop: the buffer, the position of the pointer in it, and the bytes left.\<close>

partial_function (option) transfer ::
    "('w, 'x) system_scheme \<Rightarrow> int \<Rightarrow> u8 list \<Rightarrow> nat \<Rightarrow> nat \<Rightarrow> bool \<Rightarrow> int \<Rightarrow> 'w \<Rightarrow> (int \<times> u8 list \<times> 'w) option" where
  "transfer os fd buf p sz writing deadline w =
     (if sz = 0 then Some (0, buf, w)
      else if length buf < p + sz then None
      else do {
        (rc, w) \<leftarrow> wait_socket os fd writing deadline w;
        if rc \<noteq> 0 then Some (rc, buf, w)
        else case transfer_once os fd buf p sz writing w of
            (Inl e, buf, w) \<Rightarrow>
              if e = EINTR_CODE \<or> e = errno_code EAGAIN then transfer os fd buf p sz writing deadline w
              else Some (- e, buf, w)
          | (Inr n, buf, w) \<Rightarrow>
              if n = 0 then Some (- errno_code ECONNRESET, buf, w)
              else if sz < n then None
              else transfer os fd buf (p + n) (sz - n) writing deadline w
      })"

definition close_fd :: "('w, 'x) system_scheme \<Rightarrow> ps_client \<Rightarrow> 'w \<Rightarrow> 'w" where
  "close_fd os cl w = (if pc_fd cl \<ge> 0 then os_close os (pc_fd cl) w else w)"

definition broken :: "('w, 'x) system_scheme \<Rightarrow> int \<Rightarrow> ps_client \<Rightarrow> 'w \<Rightarrow> int \<times> ps_client \<times> 'w" where
  "broken os e cl w = (e, cl\<lparr>pc_fd := -1, pc_error := - errno_code ECONNRESET\<rparr>, close_fd os cl w)"

definition next_id :: "ps_client \<Rightarrow> u32" where
  "next_id cl = (let i = pc_next_id cl + 1 in if i = 0 then i + 1 else i)"

text \<open>The child of a fork finds the session of its parent and drops it before anything else.\<close>

definition request_enter :: "('w, 'x) system_scheme \<Rightarrow> ps_client \<Rightarrow> 'w \<Rightarrow> ps_client \<times> 'w" where
  "request_enter os cl w =
     (if pc_pid cl \<noteq> os_getpid os w
      then (cl\<lparr>pc_fd := -1, pc_error := 0, pc_pid := os_getpid os (close_fd os cl w)\<rparr>, close_fd os cl w)
      else (cl, w))"

text \<open>One round trip under a deadline: the request out, the response in.\<close>

definition read_response ::
    "('w, 'x) system_scheme \<Rightarrow> int \<Rightarrow> u8 list \<Rightarrow> ipc_message \<Rightarrow> int \<Rightarrow> 'w \<Rightarrow> (int \<times> ipc_message \<times> 'w) option" where
  "read_response os fd header m deadline w = do {
     (rc, header, w) \<leftarrow> transfer os fd header 0 IPC_HEADER_SIZE False deadline w;
     if rc \<noteq> 0 then Some (rc, m, w) else
     case ipc_decode header of
       Inl e \<Rightarrow> Some (- errno_code e, m, w)
     | Inr r \<Rightarrow>
         if im_id r \<noteq> im_id m \<or> im_op r \<noteq> im_op m \<or> sint (im_result r) < 0 \<and> im_length r \<noteq> 0
         then Some (- errno_code EPROTO, r, w)
         else if im_length r \<noteq> 0 then do {
           (rc, bytes, w) \<leftarrow> transfer os fd (im_data r) 0 (unat (im_length r)) False deadline w;
           Some (rc, r\<lparr>im_data := bytes\<rparr>, w)
         } else Some (0, r, w)
   }"

definition write_payload ::
    "('w, 'x) system_scheme \<Rightarrow> int \<Rightarrow> ipc_message \<Rightarrow> int \<Rightarrow> 'w \<Rightarrow> (int \<times> u8 list \<times> 'w) option" where
  "write_payload os fd m deadline w =
     (if im_length m \<noteq> 0 then transfer os fd (im_data m) 0 (unat (im_length m)) True deadline w
      else Some (0, im_data m, w))"

definition round_trip ::
    "('w, 'x) system_scheme \<Rightarrow> int \<Rightarrow> ipc_message \<Rightarrow> int \<Rightarrow> 'w \<Rightarrow> (int \<times> ipc_message \<times> 'w) option" where
  "round_trip os fd m deadline w = do {
     (rc, header, w) \<leftarrow> transfer os fd (ipc_encode m) 0 IPC_HEADER_SIZE True deadline w;
     if rc \<noteq> 0 then Some (rc, m, w) else do {
       (rc, _, w) \<leftarrow> write_payload os fd m deadline w;
       if rc \<noteq> 0 then Some (rc, m, w) else read_response os fd header m deadline w
     }
   }"

definition request ::
    "('w, 'x) system_scheme \<Rightarrow> ipc_message \<Rightarrow> ps_client \<Rightarrow> 'w \<Rightarrow> (int \<times> ipc_message \<times> ps_client \<times> 'w) option" where
  "request os m cl w =
     (let (cl, w) = request_enter os cl w in
      if pc_fd cl < 0 then Some (if pc_error cl \<noteq> 0 then pc_error cl else - errno_code ENOTCONN, m, cl, w)
      else
        let m = m\<lparr>im_id := next_id cl\<rparr>;
            cl = cl\<lparr>pc_next_id := next_id cl\<rparr>;
            (now, w) = milliseconds os w
        in do {
          (rc, m, w) \<leftarrow> round_trip os (pc_fd cl) m (now + IPC_TIMEOUT_MS) w;
          if rc \<noteq> 0 then (let (rc, cl, w) = broken os rc cl w in Some (rc, m, cl, w))
          else Some (sint (im_result m), m, cl, w)
        })"

subsection \<open>The session\<close>

definition ps_fini :: "('w, 'x) system_scheme \<Rightarrow> ps_client \<Rightarrow> 'w \<Rightarrow> ps_client \<times> 'w" where
  "ps_fini os cl w =
     (let w = close_fd os cl w in
      (cl\<lparr>pc_fd := -1, pc_error := 0, pc_next_id := 0, pc_features := 0, pc_pid := os_getpid os w\<rparr>, w))"

definition client_hello ::
    "('w, 'x) system_scheme \<Rightarrow> ps_client \<Rightarrow> 'w \<Rightarrow> (int \<times> ps_client \<times> 'w) option" where
  "client_hello os cl w = do {
     (rc, m, cl, w) \<leftarrow> request os (zero_message\<lparr>im_op := IPC_HELLO\<rparr>) cl w;
     if rc \<noteq> 0 then Some (broken os rc cl w)
     else Some (0, cl\<lparr>pc_features := im_b m\<rparr>, w)
   }"

text \<open>A connect that is in progress is waited for and its outcome read from the socket.\<close>

definition client_connecting ::
    "('w, 'x) system_scheme \<Rightarrow> ps_client \<Rightarrow> 'w \<Rightarrow> (int \<times> ps_client \<times> 'w) option" where
  "client_connecting os cl w =
     (let (now, w) = milliseconds os w in do {
        (rc, w) \<leftarrow> wait_socket os (pc_fd cl) True (now + IPC_TIMEOUT_MS) w;
        if rc \<noteq> 0 then Some (broken os rc cl w)
        else case os_so_error os (pc_fd cl) w of
          (Inl e, w) \<Rightarrow> Some (broken os (- e) cl w)
        | (Inr e, w) \<Rightarrow> if e \<noteq> 0 then Some (broken os (- e) cl w) else client_hello os cl w
      })"

definition client_connect ::
    "('w, 'x) system_scheme \<Rightarrow> string \<Rightarrow> ps_client \<Rightarrow> 'w \<Rightarrow> (int \<times> ps_client \<times> 'w) option" where
  "client_connect os path cl w =
     (case os_socket os w of
        (Inl e, w) \<Rightarrow> Some (- e, cl\<lparr>pc_fd := -1\<rparr>, w)
      | (Inr fd, w) \<Rightarrow>
          let cl = cl\<lparr>pc_fd := fd\<rparr> in
          (case os_connect os fd path w of
             (None, w) \<Rightarrow> client_hello os cl w
           | (Some e, w) \<Rightarrow>
               if e \<noteq> errno_code EINPROGRESS then Some (broken os (- e) cl w)
               else client_connecting os cl w))"

definition ps_init :: "('w, 'x) system_scheme \<Rightarrow> string option \<Rightarrow> ps_client \<Rightarrow> 'w \<Rightarrow> (int \<times> ps_client \<times> 'w) option" where
  "ps_init os path cl w =
     (if pc_pid cl = os_getpid os w \<and> pc_fd cl \<ge> 0 then Some (- errno_code EALREADY, cl, w)
      else
        let (cl, w) = ps_fini os cl w;
            cl = cl\<lparr>pc_pid := os_getpid os w\<rparr>;
            path = (case path of None \<Rightarrow> PS_DEFAULT_SOCKET | Some p \<Rightarrow> p)
        in if path = [] \<or> length path \<ge> SUN_PATH_MAX then Some (- ENAMETOOLONG_CODE, cl, w)
        else client_connect os path cl w)"

subsection \<open>Socket calls\<close>

definition simple_request ::
    "('w, 'x) system_scheme \<Rightarrow> ipc_message \<Rightarrow> ps_client \<Rightarrow> 'w \<Rightarrow> (int \<times> ps_client \<times> 'w) option" where
  "simple_request os m cl w = do { (rc, _, cl, w) \<leftarrow> request os m cl w; Some (rc, cl, w) }"

definition ps_socket ::
    "('w, 'x) system_scheme \<Rightarrow> i32 \<Rightarrow> i32 \<Rightarrow> i32 \<Rightarrow> ps_client \<Rightarrow> 'w \<Rightarrow> (int \<times> ps_client \<times> 'w) option" where
  "ps_socket os domain ty protocol cl w =
     simple_request os (zero_message\<lparr>im_op := IPC_SOCKET, im_a := domain, im_b := ty, im_c := protocol\<rparr>) cl w"

definition address_request ::
    "('w, 'x) system_scheme \<Rightarrow> u32 \<Rightarrow> i32 \<Rightarrow> ps_sockaddr option \<Rightarrow> ps_client \<Rightarrow> 'w \<Rightarrow> (int \<times> ps_client \<times> 'w) option" where
  "address_request os op fd addr cl w =
     (case addr of None \<Rightarrow> Some (- errno_code EINVAL, cl, w)
      | Some a \<Rightarrow> simple_request os (zero_message\<lparr>im_op := op, im_fd := fd, im_addr := a\<rparr>) cl w)"

definition ps_bind ::
    "('w, 'x) system_scheme \<Rightarrow> i32 \<Rightarrow> ps_sockaddr option \<Rightarrow> ps_client \<Rightarrow> 'w \<Rightarrow> (int \<times> ps_client \<times> 'w) option" where
  "ps_bind os fd addr = address_request os IPC_BIND fd addr"

definition ps_connect ::
    "('w, 'x) system_scheme \<Rightarrow> i32 \<Rightarrow> ps_sockaddr option \<Rightarrow> ps_client \<Rightarrow> 'w \<Rightarrow> (int \<times> ps_client \<times> 'w) option" where
  "ps_connect os fd addr = address_request os IPC_CONNECT fd addr"

definition ps_close ::
    "('w, 'x) system_scheme \<Rightarrow> i32 \<Rightarrow> ps_client \<Rightarrow> 'w \<Rightarrow> (int \<times> ps_client \<times> 'w) option" where
  "ps_close os fd = simple_request os (zero_message\<lparr>im_op := IPC_CLOSE, im_fd := fd\<rparr>)"

definition ps_listen ::
    "('w, 'x) system_scheme \<Rightarrow> i32 \<Rightarrow> i32 \<Rightarrow> ps_client \<Rightarrow> 'w \<Rightarrow> (int \<times> ps_client \<times> 'w) option" where
  "ps_listen os fd backlog = simple_request os (zero_message\<lparr>im_op := IPC_LISTEN, im_fd := fd, im_a := backlog\<rparr>)"

text \<open>An output argument is returned as the value stored through it, if any.\<close>

definition ps_accept ::
    "('w, 'x) system_scheme \<Rightarrow> i32 \<Rightarrow> bool \<Rightarrow> ps_client \<Rightarrow> 'w \<Rightarrow> (int \<times> ps_sockaddr option \<times> ps_client \<times> 'w) option" where
  "ps_accept os fd peer cl w = do {
     (rc, m, cl, w) \<leftarrow> request os (zero_message\<lparr>im_op := IPC_ACCEPT, im_fd := fd\<rparr>) cl w;
     Some (rc, if rc \<ge> 0 \<and> peer then Some (im_addr m) else None, cl, w)
   }"

definition send_message :: "u32 \<Rightarrow> i32 \<Rightarrow> u8 list \<Rightarrow> nat \<Rightarrow> ps_sockaddr option \<Rightarrow> ipc_message" where
  "send_message op fd bytes len dst =
     (let n = min len IPC_PAYLOAD_MAX in
      zero_message\<lparr>im_op := op, im_fd := fd, im_length := of_nat n,
        im_addr := (case dst of None \<Rightarrow> zero_sockaddr | Some d \<Rightarrow> d),
        im_data := memcpy_at (im_data zero_message) 0 (take n bytes)\<rparr>)"

definition send_request ::
    "('w, 'x) system_scheme \<Rightarrow> u32 \<Rightarrow> i32 \<Rightarrow> u8 list option \<Rightarrow> nat \<Rightarrow> ps_sockaddr option \<Rightarrow> ps_client \<Rightarrow> 'w
       \<Rightarrow> (int \<times> ps_client \<times> 'w) option" where
  "send_request os op fd buf len dst cl w =
     (if buf = None \<and> len \<noteq> 0 then Some (- errno_code EINVAL, cl, w)
      else if op = IPC_SENDTO \<and> (dst = None \<or> len > PS_DGRAM_MAX_PAYLOAD)
      then Some (if dst \<noteq> None then - errno_code EMSGSIZE else - errno_code EINVAL, cl, w)
      else
        let bytes = (case buf of None \<Rightarrow> [] | Some b \<Rightarrow> b) in
        if length bytes < min len IPC_PAYLOAD_MAX then None
        else do {
          (rc, _, cl, w) \<leftarrow> request os (send_message op fd bytes len dst) cl w;
          if rc \<ge> 0 \<and> nat rc > min len IPC_PAYLOAD_MAX then Some (broken os (- errno_code EPROTO) cl w)
          else Some (rc, cl, w)
        })"

definition ps_send ::
    "('w, 'x) system_scheme \<Rightarrow> i32 \<Rightarrow> u8 list option \<Rightarrow> nat \<Rightarrow> ps_client \<Rightarrow> 'w \<Rightarrow> (int \<times> ps_client \<times> 'w) option" where
  "ps_send os fd buf len = send_request os IPC_SEND fd buf len None"

definition ps_sendto ::
    "('w, 'x) system_scheme \<Rightarrow> i32 \<Rightarrow> u8 list option \<Rightarrow> nat \<Rightarrow> ps_sockaddr option \<Rightarrow> ps_client \<Rightarrow> 'w
       \<Rightarrow> (int \<times> ps_client \<times> 'w) option" where
  "ps_sendto os fd buf len dst = send_request os IPC_SENDTO fd buf len dst"

text \<open>A receive returns the caller's buffer as well, and the source if it was asked for and stored.\<close>

definition recv_message :: "u32 \<Rightarrow> i32 \<Rightarrow> nat \<Rightarrow> ipc_message" where
  "recv_message op fd len = zero_message\<lparr>im_op := op, im_fd := fd, im_a := of_nat (min len IPC_PAYLOAD_MAX)\<rparr>"

definition recv_request ::
    "('w, 'x) system_scheme \<Rightarrow> u32 \<Rightarrow> i32 \<Rightarrow> u8 list option \<Rightarrow> nat \<Rightarrow> bool \<Rightarrow> ps_client \<Rightarrow> 'w
       \<Rightarrow> (int \<times> u8 list option \<times> ps_sockaddr option \<times> ps_client \<times> 'w) option" where
  "recv_request os op fd buf len src cl w =
     (if buf = None \<and> len \<noteq> 0 then Some (- errno_code EINVAL, buf, None, cl, w)
      else do {
        (rc, m, cl, w) \<leftarrow> request os (recv_message op fd len) cl w;
        if rc < 0 then Some (rc, buf, None, cl, w)
        else if nat rc \<noteq> unat (im_length m) \<or> unat (im_length m) > min len IPC_PAYLOAD_MAX
        then (let (rc, cl, w) = broken os (- errno_code EPROTO) cl w in Some (rc, buf, None, cl, w))
        else
          let n = unat (im_length m) in do {
          buf \<leftarrow> (if n = 0 then Some buf
                  else case buf of
                    None \<Rightarrow> None
                  | Some b \<Rightarrow> if length b < n then None else Some (Some (memcpy_at b 0 (take n (im_data m)))));
          Some (rc, buf, if src then Some (im_addr m) else None, cl, w)
        }
      })"

definition ps_recv ::
    "('w, 'x) system_scheme \<Rightarrow> i32 \<Rightarrow> u8 list option \<Rightarrow> nat \<Rightarrow> ps_client \<Rightarrow> 'w
       \<Rightarrow> (int \<times> u8 list option \<times> ps_sockaddr option \<times> ps_client \<times> 'w) option" where
  "ps_recv os fd buf len = recv_request os IPC_RECV fd buf len False"

definition ps_recvfrom ::
    "('w, 'x) system_scheme \<Rightarrow> i32 \<Rightarrow> u8 list option \<Rightarrow> nat \<Rightarrow> bool \<Rightarrow> ps_client \<Rightarrow> 'w
       \<Rightarrow> (int \<times> u8 list option \<times> ps_sockaddr option \<times> ps_client \<times> 'w) option" where
  "ps_recvfrom os fd buf len src cl w =
     (if \<not> src then Some (- errno_code EINVAL, buf, None, cl, w)
      else recv_request os IPC_RECVFROM fd buf len src cl w)"

subsection \<open>Batches of datagrams\<close>

definition batch_valid ::
    "('w, 'x) system_scheme \<Rightarrow> ps_mmsg list option \<Rightarrow> nat \<Rightarrow> ps_client \<Rightarrow> 'w \<Rightarrow> int \<times> ps_client \<times> 'w" where
  "batch_valid os messages count cl w =
     (if pc_pid cl \<noteq> os_getpid os w then (let (cl, w) = ps_fini os cl w in (- errno_code ENOTCONN, cl, w))
      else if pc_fd cl < 0 then (if pc_error cl \<noteq> 0 then pc_error cl else - errno_code ENOTCONN, cl, w)
      else if messages = None \<or> count = 0 \<or> count > PS_DGRAM_BATCH_MAX then (- errno_code EINVAL, cl, w)
      else if \<not> bit (pc_features cl) 0 then (- errno_code EOPNOTSUPP, cl, w)
      else (0, cl, w))"

text \<open>The encoding loop of a batch; it stops at the first datagram that no longer fits.\<close>

fun encode_batch :: "ps_mmsg list \<Rightarrow> ipc_message \<Rightarrow> (int + ipc_message) option" where
  "encode_batch [] m = Some (Inr m)"
| "encode_batch (x # xs) m =
     (if mm_data x = None \<and> mm_len x \<noteq> 0 then Some (Inl (- errno_code EINVAL))
      else if mm_len x > PS_DGRAM_MAX_PAYLOAD then Some (Inl (- errno_code EMSGSIZE))
      else if IPC_DGRAM_HEADER + mm_len x > IPC_PAYLOAD_MAX - unat (im_length m) then Some (Inr m)
      else
        let bytes = (case mm_data x of None \<Rightarrow> [] | Some b \<Rightarrow> b); off = unat (im_length m) in
        if length bytes < mm_len x then None
        else encode_batch xs (m\<lparr>
          im_data := memcpy_at (memcpy_at (im_data m) off (ipc_datagram_encode (mm_addr x) (of_nat (mm_len x))))
            (off + IPC_DGRAM_HEADER) (take (mm_len x) bytes),
          im_length := im_length m + (of_nat IPC_DGRAM_HEADER + of_nat (mm_len x)),
          im_a := im_a m + 1\<rparr>))"

definition send_batch_request ::
    "('w, 'x) system_scheme \<Rightarrow> ipc_message \<Rightarrow> ps_client \<Rightarrow> 'w \<Rightarrow> (int \<times> ps_client \<times> 'w) option" where
  "send_batch_request os m cl w = do {
     (result, r, cl, w) \<leftarrow> request os m cl w;
     if result \<ge> 0 \<and> (result = 0 \<or> nat result > unat (im_a m) \<or> im_length r \<noteq> 0)
     then Some (broken os (- errno_code EPROTO) cl w)
     else Some (result, cl, w)
   }"

definition ps_sendmmsg ::
    "('w, 'x) system_scheme \<Rightarrow> i32 \<Rightarrow> ps_mmsg list option \<Rightarrow> nat \<Rightarrow> ps_client \<Rightarrow> 'w \<Rightarrow> (int \<times> ps_client \<times> 'w) option" where
  "ps_sendmmsg os fd messages count cl w =
     (let (e, cl, w) = batch_valid os messages count cl w in
      if e \<noteq> 0 then Some (e, cl, w)
      else if length (the messages) < count then None
      else do {
        r \<leftarrow> encode_batch (take count (the messages)) (zero_message\<lparr>im_op := IPC_SENDMMSG, im_fd := fd\<rparr>);
        case r of
          Inl e \<Rightarrow> Some (e, cl, w)
        | Inr m \<Rightarrow> send_batch_request os m cl w
      })"

fun encode_capacities :: "ps_mmsg list \<Rightarrow> nat \<Rightarrow> ipc_message \<Rightarrow> int + ipc_message" where
  "encode_capacities [] i m = Inr m"
| "encode_capacities (x # xs) i m =
     (if mm_data x = None \<and> mm_len x \<noteq> 0 then Inl (- errno_code EINVAL)
      else
        let capacity = htonl (of_nat (min (mm_len x) PS_DGRAM_MAX_PAYLOAD)) in
        encode_capacities xs (i + 1) (m\<lparr>im_data := memcpy_at (im_data m) (i * 4) (le32_bytes capacity)\<rparr>))"

text \<open>The datagrams of a response, checked against the buffers they are for: sources, offsets and lengths.\<close>

fun decode_replies ::
    "u8 list \<Rightarrow> nat \<Rightarrow> ps_mmsg list \<Rightarrow> nat \<Rightarrow> ((ps_sockaddr \<times> nat \<times> nat) list \<times> nat) option" where
  "decode_replies bytes len [] used = Some ([], used)"
| "decode_replies bytes len (x # xs) used =
     (case ipc_datagram_decode (drop used bytes) (len - used) of
        Inl e \<Rightarrow> None
      | Inr (addr, sz) \<Rightarrow>
          if unat sz > mm_len x then None
          else case decode_replies bytes len xs (used + IPC_DGRAM_HEADER + unat sz) of
                 None \<Rightarrow> None
               | Some (rest, stop) \<Rightarrow> Some ((addr, used + IPC_DGRAM_HEADER, unat sz) # rest, stop))"

fun store_replies :: "u8 list \<Rightarrow> (ps_sockaddr \<times> nat \<times> nat) list \<Rightarrow> ps_mmsg list \<Rightarrow> ps_mmsg list option" where
  "store_replies bytes [] xs = Some xs"
| "store_replies bytes (r # rs) [] = None"
| "store_replies bytes ((addr, off, n) # rs) (x # xs) = do {
     buf \<leftarrow> (if n = 0 then Some (mm_data x)
             else case mm_data x of
               None \<Rightarrow> None
             | Some b \<Rightarrow> if length b < n \<or> length bytes < off + n then None
                          else Some (Some (memcpy_at b 0 (take n (drop off bytes)))));
     xs \<leftarrow> store_replies bytes rs xs;
     Some (x\<lparr>mm_data := buf, mm_len := n, mm_addr := addr\<rparr> # xs)
   }"

definition recv_batch_request ::
    "('w, 'x) system_scheme \<Rightarrow> ipc_message \<Rightarrow> ps_mmsg list \<Rightarrow> nat \<Rightarrow> ps_client \<Rightarrow> 'w
       \<Rightarrow> (int \<times> ps_mmsg list \<times> ps_client \<times> 'w) option" where
  "recv_batch_request os m xs count cl w = do {
     (result, r, cl, w) \<leftarrow> request os m cl w;
     if result < 0 then Some (result, xs, cl, w)
     else
       let fail = (let (rc, cl, w) = broken os (- errno_code EPROTO) cl w in Some (rc, xs, cl, w)) in
       if result = 0 \<or> nat result > count then fail
       else case decode_replies (im_data r) (unat (im_length r)) (take (nat result) xs) 0 of
              None \<Rightarrow> fail
            | Some (replies, used) \<Rightarrow>
                if used \<noteq> unat (im_length r) then fail
                else do {
                  xs \<leftarrow> store_replies (im_data r) replies xs;
                  Some (result, xs, cl, w)
                }
   }"

definition ps_recvmmsg ::
    "('w, 'x) system_scheme \<Rightarrow> i32 \<Rightarrow> ps_mmsg list option \<Rightarrow> nat \<Rightarrow> ps_client \<Rightarrow> 'w
       \<Rightarrow> (int \<times> ps_mmsg list option \<times> ps_client \<times> 'w) option" where
  "ps_recvmmsg os fd messages count cl w =
     (let (e, cl, w) = batch_valid os messages count cl w in
      if e \<noteq> 0 then Some (e, messages, cl, w)
      else if length (the messages) < count then None
      else case encode_capacities (take count (the messages)) 0 (zero_message\<lparr>im_op := IPC_RECVMMSG, im_fd := fd,
                  im_a := of_nat count, im_length := of_nat count * 4\<rparr>) of
        Inl e \<Rightarrow> Some (e, messages, cl, w)
      | Inr m \<Rightarrow> do {
          (rc, xs, cl, w) \<leftarrow> recv_batch_request os m (the messages) count cl w;
          Some (rc, Some xs, cl, w)
        })"

end
