(* ===== verification/Client_Safety.thy ===== *)
theory Client_Safety
  imports Client Sessions
begin

text \<open>
  The client library returns from every call, keeps inside the caller's buffers, and speaks the
  protocol of the daemon: the batches it encodes are the ones the worker decodes, and the batches the
  worker encodes are the ones it accepts.
\<close>

subsection \<open>What the system calls promise\<close>

text \<open>
  \<open>calls_left os left\<close>: \<open>left d w\<close> bounds the polls that can still start before the clock reads \<open>d\<close>;
  a poll before the deadline uses one of them up and no call of a transfer gives one back.
\<close>

definition calls_left :: "('w, 'x) system_scheme \<Rightarrow> (int \<Rightarrow> 'w \<Rightarrow> nat) \<Rightarrow> bool" where
  "calls_left os left \<longleftrightarrow>
     (\<forall>d w. left d (snd (milliseconds os w)) \<le> left d w) \<and>
     (\<forall>d w fd writing t. fst (milliseconds os w) < d \<longrightarrow>
        left d (snd (os_poll os fd writing t (snd (milliseconds os w)))) < left d w) \<and>
     (\<forall>d w fd bytes. left d (snd (os_send os fd bytes w)) \<le> left d w) \<and>
     (\<forall>d w fd n. left d (snd (os_recv os fd n w)) \<le> left d w)"

definition system_ok :: "('w, 'x) system_scheme \<Rightarrow> bool" where
  "system_ok os \<longleftrightarrow>
     (\<exists>left. calls_left os left) \<and>
     (\<forall>fd writing t w e. fst (os_poll os fd writing t w) = Inl e \<longrightarrow> 0 < e) \<and>
     (\<forall>fd bytes w. case fst (os_send os fd bytes w) of Inl e \<Rightarrow> 0 < e | Inr n \<Rightarrow> n \<le> length bytes) \<and>
     (\<forall>fd n w. case fst (os_recv os fd n w) of Inl e \<Rightarrow> 0 < e | Inr bytes \<Rightarrow> length bytes \<le> n) \<and>
     (\<forall>w. case fst (os_socket os w) of Inl e \<Rightarrow> 0 < e | Inr fd \<Rightarrow> 0 \<le> fd) \<and>
     (\<forall>fd path w e. fst (os_connect os fd path w) = Some e \<longrightarrow> 0 < e) \<and>
     (\<forall>fd w. case fst (os_so_error os fd w) of Inl e \<Rightarrow> 0 < e | Inr e \<Rightarrow> 0 \<le> e)"

lemma system_okD:
  assumes "system_ok os"
  shows "os_poll os fd writing t w = (Inl e, w') \<Longrightarrow> 0 < e"
    "os_send os fd bytes w = (Inl e, w') \<Longrightarrow> 0 < e"
    "os_send os fd bytes w = (Inr n, w') \<Longrightarrow> n \<le> length bytes"
    "os_recv os fd n w = (Inl e, w') \<Longrightarrow> 0 < e"
    "os_recv os fd n w = (Inr bytes, w') \<Longrightarrow> length bytes \<le> n"
    "os_socket os w = (Inl e, w') \<Longrightarrow> 0 < e"
    "os_socket os w = (Inr i, w') \<Longrightarrow> 0 \<le> i"
    "os_connect os fd path w = (Some e, w') \<Longrightarrow> 0 < e"
    "os_so_error os fd w = (Inl e, w') \<Longrightarrow> 0 < e"
    "os_so_error os fd w = (Inr e, w') \<Longrightarrow> 0 \<le> e"
  using assms unfolding system_ok_def by (metis (no_types, lifting) fst_conv sum.simps(5,6))+

lemma calls_leftD:
  assumes "calls_left os left"
  shows "milliseconds os w = (now, w') \<Longrightarrow> left d w' \<le> left d w"
    "milliseconds os w = (now, w') \<Longrightarrow> now < d \<Longrightarrow> os_poll os fd writing t w' = (r, w'') \<Longrightarrow> left d w'' < left d w"
    "os_send os fd bytes w = (s, w') \<Longrightarrow> left d w' \<le> left d w"
    "os_recv os fd n w = (u, w') \<Longrightarrow> left d w' \<le> left d w"
  using assms unfolding calls_left_def by (metis fst_conv snd_conv)+

subsection \<open>The transport\<close>

lemma wait_socket_ok:
  assumes os: "system_ok os" and left: "calls_left os left"
  shows "ok (wait_socket os fd writing d w)
    (\<lambda>(rc, w'). rc \<le> 0 \<and> left d w' \<le> left d w \<and> (rc = 0 \<longrightarrow> left d w' < left d w))"
proof (induction "left d w" arbitrary: w rule: less_induct)
  case less
  obtain now w1 where ms: "milliseconds os w = (now, w1)" by (cases "milliseconds os w")
  let ?t = "sint (word_of_int (d - now) :: i32)"
  obtain r w2 where poll: "os_poll os fd writing ?t w1 = (r, w2)" by (cases "os_poll os fd writing ?t w1")
  have w1: "left d w1 \<le> left d w" by (rule calls_leftD(1) [OF left ms])
  show ?case
  proof (cases "d \<le> now")
    case True
    then show ?thesis by (subst wait_socket.simps) (simp add: ms w1)
  next
    case False
    then have w2: "left d w2 < left d w" by (intro calls_leftD(2) [OF left ms _ poll]) simp
    have again: "ok (wait_socket os fd writing d w2)
        (\<lambda>(rc, w'). rc \<le> 0 \<and> left d w' \<le> left d w \<and> (rc = 0 \<longrightarrow> left d w' < left d w))"
      by (rule ok_mono [OF less [OF w2]]) (use w2 in auto)
    have e: "r = Inl e \<Longrightarrow> 0 < e" for e using system_okD(1) [OF os] poll by simp
    show ?thesis
      by (subst wait_socket.simps)
        (use False w2 e again in \<open>auto simp: ms poll Let_def simp flip: of_int_diff split: sum.splits option.splits\<close>)
  qed
qed

lemma transfer_once_ok:
  assumes os: "system_ok os" and left: "calls_left os left" and fits: "p + n \<le> length buf"
    and once: "transfer_once os fd buf p n writing w = (r, buf', w')"
  shows "left d w' \<le> left d w" "length buf' = length buf" "writing \<Longrightarrow> buf' = buf"
    "r = Inl e \<Longrightarrow> 0 < e" "r = Inr k \<Longrightarrow> k \<le> n"
  using once fits
  by (auto simp: transfer_once_def split: if_splits prod.splits sum.splits
      dest: system_okD(2,3,4,5) [OF os] calls_leftD(3,4) [OF left])

lemma transfer_ok:
  assumes os: "system_ok os" and left: "calls_left os left"
  shows "p + n \<le> length buf \<Longrightarrow> ok (transfer os fd buf p n writing d w)
    (\<lambda>(rc, buf', w'). rc \<le> 0 \<and> length buf' = length buf \<and> (writing \<longrightarrow> buf' = buf))"
proof (induction "left d w" arbitrary: w buf p n rule: less_induct)
  case less
  let ?Q = "\<lambda>(rc :: int, buf', w'). rc \<le> 0 \<and> length buf' = length buf \<and> (writing \<longrightarrow> buf' = buf)"
  let ?next = "\<lambda>w1. case transfer_once os fd buf p n writing w1 of
      (Inl e, buf, w) \<Rightarrow>
        if e = EINTR_CODE \<or> e = errno_code EAGAIN then transfer os fd buf p n writing d w else Some (- e, buf, w)
    | (Inr k, buf, w) \<Rightarrow>
        if k = 0 then Some (- errno_code ECONNRESET, buf, w)
        else if n < k then None
        else transfer os fd buf (p + k) (n - k) writing d w"
  have step: "ok (?next w1) ?Q" if w1: "left d w1 < left d w" for w1
  proof -
    obtain r buf' w2 where once: "transfer_once os fd buf p n writing w1 = (r, buf', w2)"
      by (cases "transfer_once os fd buf p n writing w1")
    note f = transfer_once_ok [OF os left less.prems once]
    have w2: "left d w2 < left d w" using f(1) [of d] w1 by simp
    have again: "ok (transfer os fd buf' q m writing d w2) ?Q" if "q + m \<le> length buf" for q m
      by (rule ok_mono [OF less.hyps [OF w2]]) (use that f(2,3) in auto)
    show ?thesis
    proof (cases r)
      case (Inl e)
      then show ?thesis using f(2,3) f(4) [OF Inl] again less.prems by (auto simp: once)
    next
      case (Inr k)
      then show ?thesis using f(2,3) f(5) [OF Inr] again [of "p + k" "n - k"] less.prems by (auto simp: once)
    qed
  qed
  show ?case
  proof (cases "n = 0")
    case True
    then show ?thesis by (subst transfer.simps) simp
  next
    case False
    have "ok (wait_socket os fd writing d w) (\<lambda>(rc, w1). ok (if rc \<noteq> 0 then Some (rc, buf, w1) else ?next w1) ?Q)"
      by (rule ok_mono [OF wait_socket_ok [OF os left]]) (use step in auto)
    then show ?thesis
      using False less.prems by (subst transfer.simps) (simp add: ok_bind_iff case_prod_unfold)
  qed
qed

subsection \<open>A request\<close>

lemma next_id_nonzero [simp]: "next_id cl \<noteq> 0"
  by (simp add: next_id_def Let_def)

lemma errno_code_nonzero [simp]: "errno_code e \<noteq> 0"
  by (metis errno_code_pos less_irrefl)

text \<open>The response is the answer to the request, and an error carries no payload.\<close>

definition answered :: "ipc_message \<Rightarrow> ipc_message \<Rightarrow> bool" where
  "answered m r \<longleftrightarrow> answers m r \<and> (sint (im_result r) < 0 \<longrightarrow> im_length r = 0)"

lemma read_response_ok:
  assumes os: "system_ok os" and h: "length header = IPC_HEADER_SIZE"
  shows "ok (read_response os fd header m d w) (\<lambda>(rc, r, w'). rc \<le> 0 \<and> (rc = 0 \<longrightarrow> answered m r))"
proof -
  obtain left where left: "calls_left os left" using os by (auto simp: system_ok_def)
  note t = transfer_ok [OF os left]
  have payload: "ok (transfer os fd (im_data r) 0 (unat (im_length r)) False d w)
      (\<lambda>(rc, bytes, w'). rc \<le> 0 \<and> length bytes = IPC_PAYLOAD_MAX)" if "msg_wf r" for r w
    by (rule ok_mono [OF t]) (use that in \<open>auto simp: msg_wf_def\<close>)
  show ?thesis
    unfolding read_response_def
  proof (rule ok_bindI [OF t])
    show "0 + IPC_HEADER_SIZE \<le> length header" using h by simp
  qed (auto simp: answered_def answers_def less_imp_le msg_wf_def case_prod_unfold ok_bind_iff
        split: sum.splits dest!: ipc_decode_wf intro!: ok_mono [OF payload])
qed

lemma write_payload_ok:
  assumes os: "system_ok os" and m: "msg_wf m"
  shows "ok (write_payload os fd m d w) (\<lambda>(rc, _, _). rc \<le> 0)"
proof -
  obtain left where left: "calls_left os left" using os by (auto simp: system_ok_def)
  show ?thesis
    unfolding write_payload_def
    by (intro ok_ifI ok_mono [OF transfer_ok [OF os left]]) (use m in \<open>auto simp: msg_wf_def\<close>)
qed

lemma round_trip_ok:
  assumes os: "system_ok os" and m: "msg_wf m"
  shows "ok (round_trip os fd m d w) (\<lambda>(rc, r, w'). rc \<le> 0 \<and> (rc = 0 \<longrightarrow> answered m r))"
proof -
  obtain left where left: "calls_left os left" using os by (auto simp: system_ok_def)
  show ?thesis
    unfolding round_trip_def
    by (rule ok_bindI [OF transfer_ok [OF os left]])
      (auto intro!: ok_bindI [OF write_payload_ok [OF os m]] ok_mono [OF read_response_ok [OF os]])
qed

text \<open>
  The state of the session after a call: broken or absent, and then the result is an error; or alive,
  and then the result is the one of the response that answers the request.
\<close>

definition client_ok :: "ps_client \<Rightarrow> bool" where
  "client_ok cl \<longleftrightarrow> pc_error cl \<le> 0"

definition concluded :: "ipc_message \<Rightarrow> int \<Rightarrow> ipc_message \<Rightarrow> ps_client \<Rightarrow> bool" where
  "concluded m rc r cl \<longleftrightarrow> client_ok cl \<and>
     (if pc_fd cl < 0 then rc < 0
      else rc = sint (im_result r) \<and> pc_next_id cl \<noteq> 0 \<and> answered (m\<lparr>im_id := pc_next_id cl\<rparr>) r)"

lemma client_ok_start [simp]: "client_ok client_start"
  by (simp add: client_ok_def client_start_def)

lemma broken_ok: "broken os e cl w = (rc, cl', w') \<Longrightarrow> rc = e \<and> client_ok cl' \<and> pc_fd cl' < 0"
  by (auto simp: broken_def client_ok_def)

lemma request_ok:
  assumes os: "system_ok os" and m: "msg_wf m" and cl: "client_ok cl"
  shows "ok (request os m cl w) (\<lambda>(rc, r, cl', w'). concluded m rc r cl')"
proof -
  obtain cl1 w1 where enter: "request_enter os cl w = (cl1, w1)" by (cases "request_enter os cl w")
  then have cl1: "client_ok cl1" using cl by (auto simp: request_enter_def client_ok_def split: if_splits)
  obtain now w2 where ms: "milliseconds os w1 = (now, w2)" by (cases "milliseconds os w1")
  let ?m = "m\<lparr>im_id := next_id cl1\<rparr>" and ?cl = "cl1\<lparr>pc_next_id := next_id cl1\<rparr>"
  have m': "msg_wf ?m" using m by (simp add: msg_wf_def)
  have "ok (round_trip os (pc_fd cl1) ?m (now + IPC_TIMEOUT_MS) w2)
      (\<lambda>(rc, r, w). ok (if rc \<noteq> 0 then (let (rc, cl, w) = broken os rc ?cl w in Some (rc, r, cl, w))
          else Some (sint (im_result r), r, ?cl, w)) (\<lambda>(rc, r, cl', w'). concluded m rc r cl'))" if "0 \<le> pc_fd cl1"
    by (rule ok_mono [OF round_trip_ok [OF os m']])
      (use that cl1 in \<open>auto simp: concluded_def client_ok_def broken_def\<close>)
  then show ?thesis
    using cl1 by (auto simp: request_def enter ms ok_bind_iff case_prod_unfold Let_def concluded_def client_ok_def not_less)
qed

subsection \<open>Calls\<close>

text \<open>What every call leaves behind: a session that is usable, or none and an error.\<close>

definition settled :: "int \<Rightarrow> ps_client \<Rightarrow> bool" where
  "settled rc cl \<longleftrightarrow> client_ok cl \<and> (pc_fd cl < 0 \<longrightarrow> rc < 0)"

lemma concluded_settled: "concluded m rc r cl \<Longrightarrow> settled rc cl"
  by (auto simp: concluded_def settled_def)

lemma settled_broken [simp]: "broken os e cl w = (rc, cl', w') \<Longrightarrow> e < 0 \<Longrightarrow> settled rc cl'"
  by (auto simp: broken_def client_ok_def settled_def)

lemma msg_wf_zero_with [simp]:
  "msg_wf (m\<lparr>im_op := op\<rparr>) = msg_wf m" "msg_wf (m\<lparr>im_fd := fd\<rparr>) = msg_wf m" "msg_wf (m\<lparr>im_a := a\<rparr>) = msg_wf m"
  "msg_wf (m\<lparr>im_b := a\<rparr>) = msg_wf m" "msg_wf (m\<lparr>im_c := a\<rparr>) = msg_wf m" "msg_wf (m\<lparr>im_addr := p\<rparr>) = msg_wf m"
  "msg_wf zero_message"
  by (simp_all add: msg_wf_def zero_message_def)

lemma request_bindI:
  assumes os: "system_ok os" and m: "msg_wf m" and cl: "client_ok cl"
    and rest: "\<And>rc r cl' w'. concluded m rc r cl' \<Longrightarrow> settled rc cl' \<Longrightarrow> (0 \<le> rc \<Longrightarrow> msg_wf r) \<Longrightarrow> ok (f rc r cl' w') Q"
  shows "ok (Option.bind (request os m cl w) (\<lambda>(rc, r, cl, w). f rc r cl w)) Q"
proof (rule ok_bindI [OF request_ok [OF os m cl]])
  fix x :: "int \<times> ipc_message \<times> ps_client \<times> 'a"
  assume "case x of (rc, r, cl', w') \<Rightarrow> concluded m rc r cl'"
  then obtain rc r cl' w' where x: "x = (rc, r, cl', w')" and c: "concluded m rc r cl'" by (cases x) auto
  have "0 \<le> rc \<Longrightarrow> msg_wf r" using c by (auto simp: concluded_def answered_def answers_def split: if_splits)
  then show "ok (case x of (rc, r, cl, w) \<Rightarrow> f rc r cl w) Q"
    using c concluded_settled [OF c] by (simp add: x rest)
qed

lemma simple_request_ok:
  assumes "system_ok os" "msg_wf m" "client_ok cl"
  shows "ok (simple_request os m cl w) (\<lambda>(rc, cl', w'). settled rc cl')"
  unfolding simple_request_def
  by (rule request_bindI [OF assms]) simp

lemma send_message_wf [simp]: "len \<le> length bytes \<Longrightarrow> msg_wf (send_message op fd bytes len dst)"
  by (simp add: msg_wf_def send_message_def zero_message_def Let_def unat_of_nat take_bit_eq_mod)

text \<open>A buffer argument: null only with length zero is useful, and the caller owns \<open>len\<close> bytes.\<close>

definition buffer_ok :: "u8 list option \<Rightarrow> nat \<Rightarrow> bool" where
  "buffer_ok buf len \<longleftrightarrow> (case buf of None \<Rightarrow> True | Some b \<Rightarrow> len \<le> length b)"

lemma settled_error [simp]: "client_ok cl \<Longrightarrow> e < 0 \<Longrightarrow> settled e cl"
  by (simp add: settled_def)

lemma send_request_ok:
  assumes os: "system_ok os" and cl: "client_ok cl" and buf: "buffer_ok buf len"
  shows "ok (send_request os op fd buf len dst cl w)
    (\<lambda>(rc, cl', w'). settled rc cl' \<and> rc \<le> int len)"
proof -
  have len: "len \<le> length (case buf of None \<Rightarrow> [] | Some b \<Rightarrow> b)" if "\<not> (buf = None \<and> len \<noteq> 0)"
    using that buf by (cases buf) (auto simp: buffer_ok_def)
  have err: "- errno_code e \<le> int len" for e using errno_code_pos [of e] by linarith
  show ?thesis
    unfolding send_request_def Let_def
    by (intro ok_ifI)
      (use cl len err in \<open>auto intro!: ok_bindI [OF request_ok [OF os send_message_wf cl]]
        simp: concluded_def broken_def settled_def client_ok_def\<close>)
qed

lemma recv_message_wf [simp]: "msg_wf (recv_message op fd len)"
  by (simp add: recv_message_def)

text \<open>A receive into a buffer: only the first bytes change, as many as the result says.\<close>

definition filled :: "u8 list option \<Rightarrow> nat \<Rightarrow> int \<Rightarrow> u8 list option \<Rightarrow> bool" where
  "filled buf len rc buf' \<longleftrightarrow>
     (if rc \<le> 0 then buf' = buf
      else nat rc \<le> len \<and> (\<exists>b bytes. buf = Some b \<and> length bytes = nat rc \<and> buf' = Some (bytes @ drop (nat rc) b)))"

lemma recv_request_ok:
  assumes os: "system_ok os" and cl: "client_ok cl" and buf: "buffer_ok buf len"
  shows "ok (recv_request os op fd buf len src cl w)
    (\<lambda>(rc, buf', addr, cl', w'). settled rc cl' \<and> filled buf len rc buf' \<and> (addr \<noteq> None \<longleftrightarrow> src \<and> 0 \<le> rc))"
proof (cases "buf = None \<and> len \<noteq> 0")
  case True
  then show ?thesis using cl by (simp add: recv_request_def filled_def)
next
  case False
  show ?thesis
    unfolding recv_request_def if_not_P [OF False]
    by (rule request_bindI [OF os recv_message_wf cl])
      (use False buf in \<open>auto simp: filled_def broken_def settled_def client_ok_def Let_def buffer_ok_def
        memcpy_at_def msg_wf_def split: option.splits\<close>)
qed

end
