(* ===== verification/Client_Batch.thy ===== *)
theory Client_Batch
  imports Client_Safety
begin

text \<open>
  The batch protocol between the client library and the worker.  A batch on the wire is the
  concatenation of frames; both encoders produce one and both decoders take it apart again.
\<close>

subsection \<open>A batch as a list of frames\<close>

definition datagram_frame :: "ps_sockaddr \<times> u8 list \<Rightarrow> u8 list" where
  "datagram_frame d = ipc_datagram_encode (fst d) (of_nat (length (snd d))) @ snd d"

abbreviation frames :: "(ps_sockaddr \<times> u8 list) list \<Rightarrow> u8 list" where
  "frames ds \<equiv> concat (map datagram_frame ds)"

text \<open>Where the payloads lie in a batch that starts at an offset.\<close>

fun spans :: "nat \<Rightarrow> (ps_sockaddr \<times> u8 list) list \<Rightarrow> (ps_sockaddr \<times> nat \<times> nat) list" where
  "spans off [] = []"
| "spans off (d # ds) = (fst d, off + IPC_DGRAM_HEADER, length (snd d)) # spans (off + IPC_DGRAM_HEADER + length (snd d)) ds"

definition fetch :: "u8 list \<Rightarrow> ps_sockaddr \<times> nat \<times> nat \<Rightarrow> ps_sockaddr \<times> u8 list" where
  "fetch bytes s = (case s of (a, off, n) \<Rightarrow> (a, take n (drop off bytes)))"

lemma length_datagram_frame [simp]: "length (datagram_frame d) = IPC_DGRAM_HEADER + length (snd d)"
  by (simp add: datagram_frame_def)

lemma length_spans [simp]: "length (spans off ds) = length ds"
  by (induction ds arbitrary: off) simp_all

lemma spans_length: "i < length ds \<Longrightarrow> snd (snd (spans off ds ! i)) = length (snd (ds ! i))"
  by (induction ds arbitrary: off i) (auto simp: nth_Cons split: nat.splits)

lemma fetch_spans: "map (fetch (pre @ frames ds @ post)) (spans (length pre) ds) = ds"
proof (induction ds arbitrary: pre)
  case (Cons d ds)
  have "map (fetch ((pre @ datagram_frame d) @ frames ds @ post)) (spans (length (pre @ datagram_frame d)) ds) = ds"
    by (rule Cons)
  moreover have "fetch (pre @ datagram_frame d @ rest) (fst d, length pre + IPC_DGRAM_HEADER, length (snd d)) = d" for rest
    by (simp add: fetch_def datagram_frame_def)
  ultimately show ?case by (simp add: add.assoc)
qed simp

lemma decode_batch_frames:
  assumes "\<And>d. d \<in> set ds \<Longrightarrow> length (snd d) \<le> PS_DGRAM_MAX_PAYLOAD"
  shows "decode_batch (pre @ frames ds @ post) (length pre + length (frames ds)) (length ds) (length pre) =
    Some (spans (length pre) ds, length pre + length (frames ds))"
  using assms
proof (induction ds arbitrary: pre)
  case (Cons d ds)
  have n: "length (snd d) \<le> PS_DGRAM_MAX_PAYLOAD" using Cons.prems by simp
  then have u: "unat (of_nat (length (snd d)) :: u32) = length (snd d)"
    by (simp add: unat_of_nat take_bit_eq_mod)
  have "ipc_datagram_decode (ipc_datagram_encode (fst d) (of_nat (length (snd d))) @ snd d @ frames ds @ post)
      (length (frames (d # ds))) = Inr (fst d, of_nat (length (snd d)))"
    using n u by (intro ipc_datagram_decode_encode) simp_all
  then have dec: "ipc_datagram_decode (drop (length pre) (pre @ frames (d # ds) @ post))
      (length pre + length (frames (d # ds)) - length pre) = Inr (fst d, of_nat (length (snd d)))"
    by (simp add: datagram_frame_def)
  have "decode_batch ((pre @ datagram_frame d) @ frames ds @ post) (length (pre @ datagram_frame d) + length (frames ds))
      (length ds) (length (pre @ datagram_frame d)) =
      Some (spans (length (pre @ datagram_frame d)) ds, length (pre @ datagram_frame d) + length (frames ds))"
    by (rule Cons.IH) (simp add: Cons.prems)
  then show ?case
    unfolding length_Cons decode_batch.simps dec by (simp add: u add.assoc)
qed simp

text \<open>The response of the worker is decoded the same way, with the capacities checked on the way.\<close>

lemma decode_replies_decode_batch:
  "decode_batch bytes len (length xs) used = Some (rs, stop) \<Longrightarrow>
   list_all2 (\<lambda>s x. snd (snd s) \<le> mm_len x) rs xs \<Longrightarrow> decode_replies bytes len xs used = Some (rs, stop)"
  by (induction xs arbitrary: used rs)
    (auto split: sum.splits option.splits prod.splits simp: list_all2_Cons1)

subsection \<open>Growing a batch\<close>

definition holds_batch :: "ipc_message \<Rightarrow> (ps_sockaddr \<times> u8 list) list \<Rightarrow> bool" where
  "holds_batch m ds \<longleftrightarrow> length (im_data m) = IPC_PAYLOAD_MAX \<and> unat (im_length m) = length (frames ds) \<and>
     length (frames ds) \<le> IPC_PAYLOAD_MAX \<and> take (length (frames ds)) (im_data m) = frames ds \<and>
     (\<forall>d\<in>set ds. length (snd d) \<le> PS_DGRAM_MAX_PAYLOAD)"

lemma holds_batch_cong:
  "im_data m' = im_data m \<Longrightarrow> im_length m' = im_length m \<Longrightarrow> holds_batch m' ds = holds_batch m ds"
  by (simp add: holds_batch_def)

lemma holds_batch_empty: "length (im_data m) = IPC_PAYLOAD_MAX \<Longrightarrow> im_length m = 0 \<Longrightarrow> holds_batch m []"
  by (simp add: holds_batch_def)

lemma holds_batch_wf: "holds_batch m ds \<Longrightarrow> msg_wf m"
  by (simp add: holds_batch_def msg_wf_def)

lemma holds_batch_decode:
  assumes "holds_batch m ds"
  shows "decode_batch (im_data m) (unat (im_length m)) (length ds) 0 = Some (spans 0 ds, unat (im_length m))"
    "map (fetch (im_data m)) (spans 0 ds) = ds"
proof -
  have f: "unat (im_length m) = length (frames ds)" "take (length (frames ds)) (im_data m) = frames ds"
    "\<And>d. d \<in> set ds \<Longrightarrow> length (snd d) \<le> PS_DGRAM_MAX_PAYLOAD"
    using assms by (simp_all add: holds_batch_def)
  have d: "im_data m = frames ds @ drop (length (frames ds)) (im_data m)"
    using append_take_drop_id [of "length (frames ds)" "im_data m"] f(2) by simp
  show "decode_batch (im_data m) (unat (im_length m)) (length ds) 0 = Some (spans 0 ds, unat (im_length m))"
    by (subst d) (use decode_batch_frames [OF f(3), of ds "[]" "drop (length (frames ds)) (im_data m)"] f(1) in simp)
  show "map (fetch (im_data m)) (spans 0 ds) = ds"
    by (subst d) (use fetch_spans [of "[]" ds "drop (length (frames ds)) (im_data m)"] in simp)
qed

lemma memcpy_at_twice:
  assumes "off + length h + length bs \<le> length D"
  shows "memcpy_at (memcpy_at D off h) (off + length h) bs = take off D @ h @ bs @ drop (off + length h + length bs) D"
    "memcpy_at (memcpy_at D (off + length h) bs) off h = take off D @ h @ bs @ drop (off + length h + length bs) D"
proof -
  have "length D \<le> off \<Longrightarrow> h = []" using assms by (cases h) simp_all
  then show "memcpy_at (memcpy_at D off h) (off + length h) bs = take off D @ h @ bs @ drop (off + length h + length bs) D"
    "memcpy_at (memcpy_at D (off + length h) bs) off h = take off D @ h @ bs @ drop (off + length h + length bs) D"
    using assms by (auto simp: memcpy_at_def add.commute add.left_commute min_def)
qed

lemma holds_batch_append:
  assumes m: "holds_batch m ds" and n: "length bs \<le> PS_DGRAM_MAX_PAYLOAD"
    and room: "IPC_DGRAM_HEADER + length bs \<le> IPC_PAYLOAD_MAX - unat (im_length m)"
    and len: "im_length m' = im_length m + (of_nat IPC_DGRAM_HEADER + of_nat (length bs))"
    and data: "im_data m' = take (unat (im_length m)) (im_data m) @ datagram_frame (a, bs) @
       drop (unat (im_length m) + IPC_DGRAM_HEADER + length bs) (im_data m)"
  shows "holds_batch m' (ds @ [(a, bs)])"
proof -
  have f: "unat (im_length m) = length (frames ds)" "length (frames ds) \<le> IPC_PAYLOAD_MAX"
    "length (im_data m) = IPC_PAYLOAD_MAX" "take (length (frames ds)) (im_data m) = frames ds"
    using m by (simp_all add: holds_batch_def)
  have l: "im_length m' = of_nat (length (frames ds) + (IPC_DGRAM_HEADER + length bs))" by (simp add: len flip: f(1))
  have "unat (im_length m') = length (frames ds) + (IPC_DGRAM_HEADER + length bs)"
    unfolding l unat_of_nat take_bit_eq_mod using f(1,2) room n by (intro mod_less) simp
  moreover have "length (frames ds) + (IPC_DGRAM_HEADER + length bs) \<le> IPC_PAYLOAD_MAX" using room f by simp
  ultimately show ?thesis
    using m n f by (simp add: holds_batch_def data add.assoc)
qed

subsection \<open>Sending\<close>

definition datagram_of :: "ps_mmsg \<Rightarrow> ps_sockaddr \<times> u8 list" where
  "datagram_of x = (mm_addr x, take (mm_len x) (case mm_data x of None \<Rightarrow> [] | Some b \<Rightarrow> b))"

lemma encode_batch_ok:
  assumes "\<And>x. x \<in> set xs \<Longrightarrow> buffer_ok (mm_data x) (mm_len x)" "holds_batch m ds"
  shows "ok (encode_batch xs m) (\<lambda>r. case r of Inl e \<Rightarrow> e < 0 | Inr m' \<Rightarrow>
     \<exists>k\<le>length xs. holds_batch m' (ds @ map datagram_of (take k xs)) \<and> (ds = [] \<and> xs \<noteq> [] \<longrightarrow> 0 < k) \<and>
       m' = m\<lparr>im_data := im_data m', im_length := im_length m', im_a := im_a m + of_nat k\<rparr>)"
  using assms
proof (induction xs arbitrary: m ds)
  case Nil
  then show ?case by (auto intro!: exI [of _ 0])
next
  case (Cons x xs)
  let ?bytes = "case mm_data x of None \<Rightarrow> [] | Some b \<Rightarrow> b"
  let ?bs = "take (mm_len x) ?bytes" and ?off = "unat (im_length m)"
  let ?m = "m\<lparr>im_data := memcpy_at (memcpy_at (im_data m) ?off (ipc_datagram_encode (mm_addr x) (of_nat (mm_len x))))
            (?off + IPC_DGRAM_HEADER) ?bs,
          im_length := im_length m + (of_nat IPC_DGRAM_HEADER + of_nat (mm_len x)), im_a := im_a m + 1\<rparr>"
  consider (null) "mm_data x = None \<and> mm_len x \<noteq> 0" | (long) "\<not> (mm_data x = None \<and> mm_len x \<noteq> 0)" "mm_len x > PS_DGRAM_MAX_PAYLOAD"
    | (full) "\<not> (mm_data x = None \<and> mm_len x \<noteq> 0)" "mm_len x \<le> PS_DGRAM_MAX_PAYLOAD" "IPC_DGRAM_HEADER + mm_len x > IPC_PAYLOAD_MAX - ?off"
    | (fits) "\<not> (mm_data x = None \<and> mm_len x \<noteq> 0)" "mm_len x \<le> PS_DGRAM_MAX_PAYLOAD" "IPC_DGRAM_HEADER + mm_len x \<le> IPC_PAYLOAD_MAX - ?off"
    by linarith
  then show ?case
  proof cases
    case full
    moreover have "ds \<noteq> []" using full Cons.prems(2) by (auto simp: holds_batch_def)
    ultimately show ?thesis using Cons.prems(2) by (auto intro!: exI [of _ 0])
  next
    case fits
    have buf: "buffer_ok (mm_data x) (mm_len x)" using Cons.prems by simp
    have len: "mm_len x \<le> length ?bytes" using fits(1) buf by (auto simp: buffer_ok_def split: option.splits)
    then have lb: "length ?bs = mm_len x" by simp
    have D: "length (im_data m) = IPC_PAYLOAD_MAX" using Cons.prems by (simp add: holds_batch_def)
    have m': "holds_batch ?m (ds @ [datagram_of x])"
      unfolding datagram_of_def
    proof (rule holds_batch_append [OF Cons.prems(2)])
      show "im_data ?m = take ?off (im_data m) @ datagram_frame (mm_addr x, ?bs) @
          drop (?off + IPC_DGRAM_HEADER + length ?bs) (im_data m)"
        using memcpy_at_twice(1) [of ?off "ipc_datagram_encode (mm_addr x) (of_nat (mm_len x))" ?bs "im_data m"] D lb fits(3)
        by (simp add: datagram_frame_def)
    qed (use fits lb in simp_all)
    have step: "encode_batch (x # xs) m = encode_batch xs ?m"
      using fits len by (auto simp: Let_def)
    show ?thesis
      unfolding step
    proof (rule ok_mono [OF Cons.IH [OF _ m']])
      fix r assume r: "case r of Inl e \<Rightarrow> e < 0 | Inr m' \<Rightarrow>
        \<exists>k\<le>length xs. holds_batch m' ((ds @ [datagram_of x]) @ map datagram_of (take k xs)) \<and>
          (ds @ [datagram_of x] = [] \<and> xs \<noteq> [] \<longrightarrow> 0 < k) \<and>
          m' = ?m\<lparr>im_data := im_data m', im_length := im_length m', im_a := im_a ?m + of_nat k\<rparr>"
      show "case r of Inl e \<Rightarrow> e < 0 | Inr m' \<Rightarrow>
        \<exists>k\<le>length (x # xs). holds_batch m' (ds @ map datagram_of (take k (x # xs))) \<and> (ds = [] \<and> x # xs \<noteq> [] \<longrightarrow> 0 < k) \<and>
          m' = m\<lparr>im_data := im_data m', im_length := im_length m', im_a := im_a m + of_nat k\<rparr>"
      proof (cases r)
        case (Inr m')
        then obtain k where "k \<le> length xs" "holds_batch m' ((ds @ [datagram_of x]) @ map datagram_of (take k xs))"
          "m' = ?m\<lparr>im_data := im_data m', im_length := im_length m', im_a := im_a ?m + of_nat k\<rparr>"
          using r by auto
        then show ?thesis using Inr by (auto intro!: exI [of _ "Suc k"] simp: add.assoc)
      qed (use r in simp)
    qed (simp add: Cons.prems)
  qed (use Cons.prems in auto)
qed

lemma frames_ge: "IPC_DGRAM_HEADER * length ds \<le> length (frames ds)"
  by (induction ds) simp_all

text \<open>Counts of a batch are small enough for the signed 32-bit fields.\<close>

lemma count_word:
  assumes "k \<le> PS_DGRAM_BATCH_MAX"
  shows "unat (of_nat k :: i32) = k" "sint (of_nat k :: i32) = int k"
proof -
  show u: "unat (of_nat k :: i32) = k" using assms by (simp add: unat_of_nat take_bit_eq_mod)
  show "sint (of_nat k :: i32) = int k" using assms sint_u32 [of "of_nat k"] u by simp
qed

text \<open>C10: The batch that \<open>ps_sendmmsg\<close> encodes from the caller's messages is one that the daemon accepts as a
  valid request and that the worker's decoder takes apart into exactly the destinations and payloads
  of the first messages of the caller: at least one, and as many as the count in the request says.
  The encoder never reads outside a buffer, and otherwise returns an error.\<close>

theorem sent_batch_understood:
  assumes xs: "xs \<noteq> []" "length xs \<le> PS_DGRAM_BATCH_MAX"
    and buf: "\<And>x. x \<in> set xs \<Longrightarrow> buffer_ok (mm_data x) (mm_len x)"
  shows "ok (encode_batch xs (zero_message\<lparr>im_op := IPC_SENDMMSG, im_fd := fd\<rparr>)) (\<lambda>r. case r of
      Inl e \<Rightarrow> e < 0
    | Inr m \<Rightarrow> ipc_request_valid (m\<lparr>im_id := ident\<rparr>) \<and>
        (\<exists>k ss. 0 < k \<and> k \<le> length xs \<and> sint (im_a m) = int k \<and>
          decode_batch (im_data m) (unat (im_length m)) k 0 = Some (ss, unat (im_length m)) \<and>
          map (fetch (im_data m)) ss = map datagram_of (take k xs)))"
proof (rule ok_mono [OF encode_batch_ok [OF buf]])
  let ?z = "zero_message\<lparr>im_op := IPC_SENDMMSG, im_fd := fd\<rparr>"
  show "holds_batch ?z []" by (rule holds_batch_empty) (simp_all add: zero_message_def)
  fix r assume r: "case r of Inl e \<Rightarrow> e < 0 | Inr m' \<Rightarrow>
     \<exists>k\<le>length xs. holds_batch m' ([] @ map datagram_of (take k xs)) \<and> ([] = [] \<and> xs \<noteq> [] \<longrightarrow> 0 < k) \<and>
       m' = ?z\<lparr>im_data := im_data m', im_length := im_length m', im_a := im_a ?z + of_nat k\<rparr>"
  show "case r of Inl e \<Rightarrow> e < 0
    | Inr m \<Rightarrow> ipc_request_valid (m\<lparr>im_id := ident\<rparr>) \<and>
        (\<exists>k ss. 0 < k \<and> k \<le> length xs \<and> sint (im_a m) = int k \<and>
          decode_batch (im_data m) (unat (im_length m)) k 0 = Some (ss, unat (im_length m)) \<and>
          map (fetch (im_data m)) ss = map datagram_of (take k xs))"
  proof (cases r)
    case (Inr m)
    let ?ds = "\<lambda>k. map datagram_of (take k xs)"
    obtain k where k: "k \<le> length xs" "0 < k" and h: "holds_batch m (?ds k)"
      and m: "m = ?z\<lparr>im_data := im_data m, im_length := im_length m, im_a := of_nat k\<rparr>"
      using r Inr xs(1) by (auto simp: zero_message_def)
    have lk: "length (?ds k) = k" using k by simp
    have k16: "k \<le> PS_DGRAM_BATCH_MAX" using k xs(2) by simp
    have a: "im_a m = of_nat k" "im_op m = IPC_SENDMMSG" "im_result m = 0"
      by (subst m; simp add: zero_message_def)+
    have len: "unat (im_length m) = length (frames (?ds k))" "unat (im_length m) \<le> IPC_PAYLOAD_MAX"
      using h by (simp_all add: holds_batch_def)
    have "unat (of_nat k * 12 :: u32) \<le> unat (im_length m)"
      using frames_ge [of "?ds k"] k k16 count_word(1) [OF k16] unfolding len(1)
      by (simp add: unat_mult_lem [THEN iffD1] min_def split: if_splits)
    then have "\<not> im_length m < of_nat k * 12" by (simp add: word_less_nat_alt)
    then have "ipc_request_valid (m\<lparr>im_id := ident\<rparr>)"
      using k k16 len(2) by (simp add: ipc_request_valid_def a count_word(2) [OF k16])
    then show ?thesis
      using Inr k holds_batch_decode(1) [OF h, unfolded lk] holds_batch_decode(2) [OF h] a(1) count_word(2) [OF k16] by auto
  qed (use r in simp)
qed

theorem sent_batch_understood_witness:
  "ok (encode_batch [\<lparr>mm_data = Some [1, 2, 3], mm_len = 3, mm_addr = zero_sockaddr\<rparr>]
      (zero_message\<lparr>im_op := IPC_SENDMMSG, im_fd := 7\<rparr>)) (\<lambda>r. case r of
      Inl e \<Rightarrow> e < 0
    | Inr m \<Rightarrow> ipc_request_valid (m\<lparr>im_id := 1\<rparr>) \<and>
        (\<exists>k ss. 0 < k \<and> k \<le> length [\<lparr>mm_data = Some [1, 2, 3 :: u8], mm_len = 3, mm_addr = zero_sockaddr\<rparr>] \<and>
          sint (im_a m) = int k \<and>
          decode_batch (im_data m) (unat (im_length m)) k 0 = Some (ss, unat (im_length m)) \<and>
          map (fetch (im_data m)) ss = map datagram_of (take k [\<lparr>mm_data = Some [1, 2, 3], mm_len = 3, mm_addr = zero_sockaddr\<rparr>])))"
  by (rule sent_batch_understood) (simp_all add: buffer_ok_def)

subsection \<open>Receiving\<close>

lemma recv_each_batch:
  assumes "holds_batch m ds" "\<And>c. c \<in> set caps \<Longrightarrow> c \<le> PS_DGRAM_MAX_PAYLOAD" "i = length ds"
    "recv_each fd caps i m rt = (r, rt')"
  shows "\<exists>new. holds_batch r (ds @ new) \<and> list_all2 (\<lambda>d c. length (snd d) \<le> c) new (take (length new) caps) \<and>
      (if new = [] then (caps = [] \<or> ds \<noteq> []) \<and> im_result r = im_result m \<or> ds = [] \<and> (\<exists>e. im_result r = res_err e)
       else im_result r = of_nat (i + length new))"
  using assms
proof (induction caps arbitrary: m ds i rt)
  case Nil
  then show ?case by (auto intro!: exI [of _ "[]"])
next
  case (Cons c caps)
  let ?len = "unat (im_length m)"
  let ?n = "if c < IPC_PAYLOAD_MAX - ?len - IPC_DGRAM_HEADER then c else IPC_PAYLOAD_MAX - ?len - IPC_DGRAM_HEADER"
  obtain x rt1 where recv: "core_recvfrom rt fd ?n = (x, rt1)" by (cases "core_recvfrom rt fd ?n")
  consider (full) "IPC_PAYLOAD_MAX - ?len < IPC_DGRAM_HEADER"
    | (empty) e where "\<not> IPC_PAYLOAD_MAX - ?len < IPC_DGRAM_HEADER" "x = Inl e"
    | (got) a bs where "\<not> IPC_PAYLOAD_MAX - ?len < IPC_DGRAM_HEADER" "x = Inr (a, bs)"
    by (cases x) auto
  then show ?case
  proof cases
    case full
    then have "ds \<noteq> []" using Cons.prems(1) by (auto simp: holds_batch_def)
    then show ?thesis using full Cons.prems by (auto intro!: exI [of _ "[]"])
  next
    case empty
    have "recv_each fd (c # caps) i m rt = (if i = 0 then m\<lparr>im_result := res_err e\<rparr> else m, rt1)"
      by (simp only: recv_each.simps Let_def empty if_False recv prod.case sum.case)
    then have "holds_batch r ds \<and> (if ds = [] then im_result r = res_err e else im_result r = im_result m)"
      using Cons.prems holds_batch_cong [of "m\<lparr>im_result := res_err e\<rparr>" m ds] by auto
    then show ?thesis by (auto intro!: exI [of _ "[]"] split: if_splits)
  next
    case got
    let ?m = "m\<lparr>im_data := memcpy_at (memcpy_at (im_data m) (?len + IPC_DGRAM_HEADER) bs) ?len
                                (ipc_datagram_encode a (of_nat (length bs))),
                     im_length := im_length m + of_nat (IPC_DGRAM_HEADER + length bs),
                     im_result := of_nat (i + 1)\<rparr>"
    have n: "length bs \<le> ?n" using recv got(2) by (intro core_recvfrom_length) simp
    then have bs: "length bs \<le> c" "IPC_DGRAM_HEADER + length bs \<le> IPC_PAYLOAD_MAX - ?len" "c \<le> PS_DGRAM_MAX_PAYLOAD"
      using got(1) Cons.prems(2) by (auto split: if_splits)
    have m': "holds_batch ?m (ds @ [(a, bs)])"
    proof (rule holds_batch_append [OF Cons.prems(1)])
      show "im_data ?m = take ?len (im_data m) @ datagram_frame (a, bs) @ drop (?len + IPC_DGRAM_HEADER + length bs) (im_data m)"
        using memcpy_at_twice(2) [of ?len "ipc_datagram_encode a (of_nat (length bs))" bs "im_data m"] bs Cons.prems(1)
        by (simp add: datagram_frame_def holds_batch_def)
    qed (use bs in simp_all)
    have step: "recv_each fd caps (i + 1) ?m rt1 = (r, rt')"
      using Cons.prems(4) by (simp only: recv_each.simps Let_def got if_False recv prod.case sum.case)
    obtain new where "holds_batch r ((ds @ [(a, bs)]) @ new)" "list_all2 (\<lambda>d c. length (snd d) \<le> c) new (take (length new) caps)"
      "if new = [] then im_result r = of_nat (i + 1) else im_result r = of_nat (i + 1 + length new)"
      using Cons.IH [OF m' _ _ step] Cons.prems(2,3) by (auto split: if_splits)
    then show ?thesis using bs by (intro exI [of _ "(a, bs) # new"]) (auto simp: add.assoc split: if_splits)
  qed
qed

lemma be_words_snoc: "be_words (ws @ [c]) = be_words ws @ le32_bytes (htonl c)"
  by (simp add: be_words_def)

lemma be_word_append: "j < length ws \<Longrightarrow> be_word (be_words ws @ post) j = ws ! j"
  using be_word_be_words [of j ws] by (simp add: be_word_def load32_def)

definition capacity_of :: "ps_mmsg \<Rightarrow> nat" where
  "capacity_of x = min (mm_len x) PS_DGRAM_MAX_PAYLOAD"

lemma encode_capacities_words:
  assumes "encode_capacities xs i m = Inr m'" "im_data m = be_words ws @ post" "length ws = i" "4 * length xs \<le> length post"
  shows "m' = m\<lparr>im_data := be_words (ws @ map (of_nat \<circ> capacity_of) xs) @ drop (4 * length xs) post\<rparr>"
  using assms
proof (induction xs arbitrary: i m ws post)
  case (Cons x xs)
  let ?c = "of_nat (capacity_of x) :: u32"
  let ?m = "m\<lparr>im_data := memcpy_at (im_data m) (i * 4) (le32_bytes (htonl ?c))\<rparr>"
  have enc: "encode_capacities xs (i + 1) ?m = Inr m'"
    using Cons.prems(1) by (simp add: Let_def capacity_of_def split: if_splits)
  have "im_data ?m = be_words (ws @ [?c]) @ drop 4 post"
    using Cons.prems(2,3,4) by (simp add: memcpy_at_def be_words_snoc mult.commute)
  from Cons.IH [OF enc this] show ?case using Cons.prems(3,4) by (simp add: add.commute)
qed (simp add: be_words_def)

lemma encode_capacities_error: "encode_capacities xs i m = Inl e \<Longrightarrow> e < 0"
  by (induction xs arbitrary: i m) (auto simp: Let_def split: if_splits)

definition recv_batch_message :: "i32 \<Rightarrow> nat \<Rightarrow> ipc_message" where
  "recv_batch_message fd count = zero_message\<lparr>im_op := IPC_RECVMMSG, im_fd := fd, im_a := of_nat count, im_length := of_nat count * 4\<rparr>"

lemma recv_batch_request:
  assumes enc: "encode_capacities xs 0 (recv_batch_message fd (length xs)) = Inr m"
    and xs: "xs \<noteq> []" "length xs \<le> PS_DGRAM_BATCH_MAX"
  shows "ipc_request_valid (m\<lparr>im_id := ident\<rparr>)" "msg_wf m" "sint (im_a m) = int (length xs)"
    "map (batch_capacity (im_data m)) [0..<length xs] = map capacity_of xs"
proof -
  let ?ws = "map (of_nat \<circ> capacity_of) xs :: u32 list"
  let ?post = "drop (4 * length xs) (replicate IPC_PAYLOAD_MAX 0)"
  have m: "m = (recv_batch_message fd (length xs))\<lparr>im_data := be_words ?ws @ ?post\<rparr>"
    using encode_capacities_words [OF enc, of "[]" "replicate IPC_PAYLOAD_MAX 0"] xs(2)
    by (simp add: recv_batch_message_def zero_message_def be_words_def)
  note n = count_word [OF xs(2)]
  have f: "im_op m = IPC_RECVMMSG" "im_a m = of_nat (length xs)" "im_length m = of_nat (length xs) * 4" "im_result m = 0"
    "im_data m = be_words ?ws @ ?post"
    by (simp_all add: m recv_batch_message_def zero_message_def)
  have len: "unat (im_length m) = 4 * length xs"
    unfolding f(3) using n(1) xs(2) by (simp add: unat_mult_lem [THEN iffD1])
  show "ipc_request_valid (m\<lparr>im_id := ident\<rparr>)"
    using xs len by (simp add: ipc_request_valid_def f(1,2,4) n(2)) (simp add: f(3))
  show "msg_wf m" using xs(2) by (simp add: msg_wf_def len) (simp add: f(5))
  show "sint (im_a m) = int (length xs)" by (simp add: f(2) n(2))
  show "map (batch_capacity (im_data m)) [0..<length xs] = map capacity_of xs"
  proof (rule nth_equalityI)
    fix j assume "j < length (map (batch_capacity (im_data m)) [0..<length xs])"
    then have j: "j < length xs" by simp
    then have "batch_capacity (im_data m) j = unat (?ws ! j)"
      using be_word_append [of j ?ws ?post] by (simp add: batch_capacity_def f(5) be_word_def mult.commute)
    then show "map (batch_capacity (im_data m)) [0..<length xs] ! j = map capacity_of xs ! j"
      using j by (simp add: capacity_of_def unat_of_nat take_bit_eq_mod)
  qed simp
qed

lemma sint_res_err_neg [simp]: "sint (res_err e) < 0"
  by (cases e) (simp_all add: res_err_def)

text \<open>C11: The two ends of \<open>ps_recvmmsg\<close> agree.  The request the library sends for the caller's messages is one that
  the daemon accepts, and whatever the sockets of the worker hold, the response the worker builds for
  it is either an error without payload or a batch of at least one datagram, at most one per message
  of the caller, that the library's decoder accepts to the last byte with every datagram inside the
  caller's buffer.\<close>

theorem received_batch_understood:
  assumes enc: "encode_capacities xs 0 (recv_batch_message fd (length xs)) = Inr m"
    and xs: "xs \<noteq> []" "length xs \<le> PS_DGRAM_BATCH_MAX"
    and rep: "length (im_data rep) = IPC_PAYLOAD_MAX" "im_length rep = 0"
    and recv: "receive_batch m rep rt = (r, rt')"
  shows "ipc_request_valid (m\<lparr>im_id := ident\<rparr>) \<and>
    (sint (im_result r) < 0 \<and> im_length r = 0 \<or>
     (\<exists>k ss. 0 < k \<and> k \<le> length xs \<and> sint (im_result r) = int k \<and>
        decode_replies (im_data r) (unat (im_length r)) (take k xs) 0 = Some (ss, unat (im_length r))))"
proof -
  note q = recv_batch_request [OF enc xs]
  have caps: "c \<in> set (map capacity_of xs) \<Longrightarrow> c \<le> PS_DGRAM_MAX_PAYLOAD" for c by (auto simp: capacity_of_def)
  have "receive_batch m rep rt = recv_each (sint (im_fd m)) (map capacity_of xs) 0 rep rt"
    by (simp add: receive_batch_def q(3,4) capacity_of_def)
  then have each: "recv_each (sint (im_fd m)) (map capacity_of xs) 0 rep rt = (r, rt')" using recv by simp
  from recv_each_batch [OF holds_batch_empty [OF rep] caps _ each] obtain new where
    new: "holds_batch r new" "list_all2 (\<lambda>d c. length (snd d) \<le> c) new (take (length new) (map capacity_of xs))"
    and "if new = [] then (map capacity_of xs = [] \<or> [] \<noteq> ([] :: (ps_sockaddr \<times> u8 list) list)) \<and> im_result r = im_result rep \<or>
        [] = ([] :: (ps_sockaddr \<times> u8 list) list) \<and> (\<exists>e. im_result r = res_err e) else im_result r = of_nat (0 + length new)" by auto
  then have result: "if new = [] then \<exists>e. im_result r = res_err e else im_result r = of_nat (length new)"
    using xs(1) by (simp split: if_splits)
  show ?thesis
  proof (cases "new = []")
    case True
    then have "im_length r = 0" using new(1) by (simp add: holds_batch_def unat_eq_0)
    then show ?thesis using q(1) result True by auto
  next
    case False
    have k: "length new \<le> length xs" using list_all2_lengthD [OF new(2)] by simp
    have "list_all2 (\<lambda>s x. snd (snd s) \<le> mm_len x) (spans 0 new) (take (length new) xs)"
      using new(2) k by (auto simp: list_all2_conv_all_nth spans_length capacity_of_def)
    moreover have "decode_batch (im_data r) (unat (im_length r)) (length (take (length new) xs)) 0 =
        Some (spans 0 new, unat (im_length r))"
      using holds_batch_decode(1) [OF new(1)] k by simp
    ultimately have "decode_replies (im_data r) (unat (im_length r)) (take (length new) xs) 0 =
        Some (spans 0 new, unat (im_length r))"
      by (intro decode_replies_decode_batch)
    then show ?thesis using q(1) result False k xs(2) by (auto simp: count_word)
  qed
qed

definition sample_mmsg :: ps_mmsg where
  "sample_mmsg = \<lparr>mm_data = Some [0, 0], mm_len = 2, mm_addr = zero_sockaddr\<rparr>"

theorem received_batch_understood_witness:
  "\<exists>m r rt'. encode_capacities [sample_mmsg] 0 (recv_batch_message 1 1) = Inr m \<and>
    receive_batch m zero_message (sample_runtime 0 None :: nat app_runtime) = (r, rt') \<and>
    ipc_request_valid (m\<lparr>im_id := 1\<rparr>) \<and>
    (sint (im_result r) < 0 \<and> im_length r = 0 \<or>
     (\<exists>k ss. 0 < k \<and> k \<le> 1 \<and> sint (im_result r) = int k \<and>
        decode_replies (im_data r) (unat (im_length r)) (take k [sample_mmsg]) 0 = Some (ss, unat (im_length r))))"
proof -
  obtain m where m: "encode_capacities [sample_mmsg] 0 (recv_batch_message 1 (length [sample_mmsg])) = Inr m"
    by (simp add: sample_mmsg_def Let_def)
  obtain r rt' where r: "receive_batch m zero_message (sample_runtime 0 None :: nat app_runtime) = (r, rt')"
    by (cases "receive_batch m zero_message (sample_runtime 0 None :: nat app_runtime)")
  show ?thesis
    using received_batch_understood [OF m _ _ _ _ r, of 1] m r by (auto simp: zero_message_def)
qed

subsection \<open>The batch calls\<close>

definition messages_ok :: "ps_mmsg list option \<Rightarrow> nat \<Rightarrow> bool" where
  "messages_ok messages count \<longleftrightarrow> (case messages of None \<Rightarrow> True
     | Some xs \<Rightarrow> count \<le> length xs \<and> (\<forall>x\<in>set xs. buffer_ok (mm_data x) (mm_len x)))"

lemma batch_valid_ok:
  assumes "client_ok cl" "batch_valid os messages count cl w = (e, cl', w')"
  shows "client_ok cl'" "e \<le> 0"
    "e = 0 \<Longrightarrow> messages \<noteq> None \<and> 0 < count \<and> count \<le> PS_DGRAM_BATCH_MAX"
  using assms by (auto simp: batch_valid_def client_ok_def ps_fini_def Let_def split: if_splits)

lemma send_batch_request_ok:
  assumes "system_ok os" "msg_wf m" "client_ok cl" "unat (im_a m) \<le> count"
  shows "ok (send_batch_request os m cl w) (\<lambda>(rc, cl', w'). settled rc cl' \<and> rc \<noteq> 0 \<and> rc \<le> int count)"
  unfolding send_batch_request_def
  by (rule request_bindI [OF assms(1,2,3)]) (use assms(4) in \<open>auto simp: broken_def settled_def client_ok_def\<close>)

lemma batch_validE:
  assumes "client_ok cl" "messages_ok messages count" "batch_valid os messages count cl w = (0, cl', w')"
  obtains xs where "messages = Some xs" "count \<le> length xs" "0 < count" "count \<le> PS_DGRAM_BATCH_MAX" "client_ok cl'"
    "\<forall>x\<in>set xs. buffer_ok (mm_data x) (mm_len x)"
  using batch_valid_ok [OF assms(1,3)] assms(2) by (auto simp: messages_ok_def)

lemma ps_sendmmsg_ok:
  assumes os: "system_ok os" and cl: "client_ok cl" and ms: "messages_ok messages count"
  shows "ok (ps_sendmmsg os fd messages count cl w) (\<lambda>(rc, cl', w'). settled rc cl' \<and> rc \<noteq> 0 \<and> rc \<le> int count)"
proof -
  obtain e cl1 w1 where bv: "batch_valid os messages count cl w = (e, cl1, w1)"
    by (cases "batch_valid os messages count cl w")
  show ?thesis
  proof (cases "e = 0")
    case False
    then show ?thesis using batch_valid_ok [OF cl bv] by (simp add: ps_sendmmsg_def bv settled_def)
  next
    case True
    obtain xs where xs: "messages = Some xs" "count \<le> length xs" "0 < count" "count \<le> PS_DGRAM_BATCH_MAX" "client_ok cl1"
      "\<forall>x\<in>set xs. buffer_ok (mm_data x) (mm_len x)"
      using batch_validE [OF cl ms bv [unfolded True]] by blast
    have buf: "x \<in> set (take count xs) \<Longrightarrow> buffer_ok (mm_data x) (mm_len x)" for x
      using xs(6) by (auto dest: in_set_takeD)
    let ?z = "zero_message\<lparr>im_op := IPC_SENDMMSG, im_fd := fd\<rparr>"
    have z: "holds_batch ?z []" by (rule holds_batch_empty) (simp_all add: zero_message_def)
    have enc: "ok (encode_batch (take count xs) ?z)
        (\<lambda>r. case r of Inl e \<Rightarrow> e < 0 | Inr m \<Rightarrow> msg_wf m \<and> unat (im_a m) \<le> count)"
    proof (rule ok_mono [OF encode_batch_ok [OF buf z]])
      fix r :: "int + ipc_message"
      assume r: "case r of Inl e \<Rightarrow> e < 0 | Inr m' \<Rightarrow>
         \<exists>k\<le>length (take count xs). holds_batch m' ([] @ map datagram_of (take k (take count xs))) \<and>
           ([] = ([] :: (ps_sockaddr \<times> u8 list) list) \<and> take count xs \<noteq> [] \<longrightarrow> 0 < k) \<and>
           m' = ?z\<lparr>im_data := im_data m', im_length := im_length m', im_a := im_a ?z + of_nat k\<rparr>"
      show "case r of Inl e \<Rightarrow> e < 0 | Inr m \<Rightarrow> msg_wf m \<and> unat (im_a m) \<le> count"
      proof (cases r)
        case (Inr m)
        then obtain k where k: "k \<le> count" and h: "holds_batch m (map datagram_of (take k (take count xs)))"
          and m: "m = ?z\<lparr>im_data := im_data m, im_length := im_length m, im_a := im_a ?z + of_nat k\<rparr>"
          using r xs(2,3) by fastforce
        have "im_a m = of_nat k" by (subst m) (simp add: zero_message_def)
        then show ?thesis using Inr k xs(4) count_word(1) [of k] holds_batch_wf [OF h] by simp
      qed (use r in simp)
    qed
    show ?thesis
      unfolding ps_sendmmsg_def xs(1) bv [unfolded xs(1)] True
      using xs(2,5)
      by (auto intro!: ok_bindI [OF enc] ok_mono [OF send_batch_request_ok [OF os]] split: sum.splits)
  qed
qed

text \<open>A received datagram in its message: a prefix of the buffer, the length and the source.\<close>

definition stored :: "ps_mmsg \<Rightarrow> ps_mmsg \<Rightarrow> bool" where
  "stored x x' \<longleftrightarrow> mm_len x' \<le> mm_len x \<and> (\<exists>bytes. length bytes = mm_len x' \<and>
     mm_data x' = map_option (\<lambda>b. bytes @ drop (length bytes) b) (mm_data x))"

lemma store_replies_ok:
  assumes "decode_replies bytes len ys used = Some (rs, stop)" "len \<le> length bytes"
    "\<And>y. y \<in> set ys \<Longrightarrow> buffer_ok (mm_data y) (mm_len y) \<and> (mm_data y = None \<longrightarrow> mm_len y = 0)"
  shows "\<exists>ys'. store_replies bytes rs (ys @ rest) = Some (ys' @ rest) \<and> list_all2 stored ys ys'"
  using assms
proof (induction ys arbitrary: used rs)
  case (Cons y ys)
  obtain addr sz rs' where dec: "ipc_datagram_decode (drop used bytes) (len - used) = Inr (addr, sz)"
      "unat sz \<le> mm_len y" "decode_replies bytes len ys (used + IPC_DGRAM_HEADER + unat sz) = Some (rs', stop)"
    and rs: "rs = (addr, used + IPC_DGRAM_HEADER, unat sz) # rs'"
    using Cons.prems(1) by (auto split: sum.splits option.splits if_splits)
  obtain ys' where ys': "store_replies bytes rs' (ys @ rest) = Some (ys' @ rest)" "list_all2 stored ys ys'"
    using Cons.IH [OF dec(3)] Cons.prems(2,3) by auto
  have inside: "used + IPC_DGRAM_HEADER + unat sz \<le> length bytes"
    using dec(1) Cons.prems(2) by (auto simp: ipc_datagram_decode_def Let_def split: if_splits)
  have y: "buffer_ok (mm_data y) (mm_len y)" "mm_data y = None \<longrightarrow> mm_len y = 0" using Cons.prems(3) by simp_all
  obtain buf where buf: "(if unat sz = 0 then Some (mm_data y)
        else case mm_data y of
          None \<Rightarrow> None
        | Some b \<Rightarrow> if length b < unat sz \<or> length bytes < used + IPC_DGRAM_HEADER + unat sz then None
             else Some (Some (memcpy_at b 0 (take (unat sz) (drop (used + IPC_DGRAM_HEADER) bytes))))) = Some buf"
    and st: "stored y (y\<lparr>mm_data := buf, mm_len := unat sz, mm_addr := addr\<rparr>)"
  proof (cases "mm_data y")
    case None
    then show ?thesis using y dec(2) that by (simp add: stored_def)
  next
    case (Some b)
    let ?p = "take (unat sz) (drop (used + IPC_DGRAM_HEADER) bytes)"
    have "length ?p = unat sz" using inside by simp
    then have "stored y (y\<lparr>mm_data := Some (memcpy_at b 0 ?p), mm_len := unat sz, mm_addr := addr\<rparr>)"
      using Some dec(2) unfolding stored_def by (intro conjI exI [of _ ?p]) (simp_all add: memcpy_at_def)
    then show ?thesis using that Some y dec(2) inside by (cases "unat sz = 0") (auto simp: buffer_ok_def memcpy_at_def)
  qed
  show ?case
    using ys' st by (intro exI [of _ "y\<lparr>mm_data := buf, mm_len := unat sz, mm_addr := addr\<rparr> # ys'"])
      (simp add: rs buf)
qed simp

lemma encode_capacities_null:
  "encode_capacities xs i m = Inr m' \<Longrightarrow> x \<in> set xs \<Longrightarrow> mm_data x = None \<Longrightarrow> mm_len x = 0"
  by (induction xs arbitrary: i m) (auto simp: Let_def split: if_splits)

text \<open>What a batch receive does to the caller's array.\<close>

definition batch_stored :: "int \<Rightarrow> nat \<Rightarrow> ps_mmsg list \<Rightarrow> ps_mmsg list \<Rightarrow> bool" where
  "batch_stored rc count xs xs' \<longleftrightarrow>
     (if rc < 0 then xs' = xs
      else 0 < rc \<and> nat rc \<le> count \<and> list_all2 stored (take (nat rc) xs) (take (nat rc) xs') \<and> drop (nat rc) xs' = drop (nat rc) xs)"

lemma recv_batch_request_ok:
  assumes os: "system_ok os" and m: "msg_wf m" and cl: "client_ok cl"
    and xs: "count \<le> length xs" "\<And>y. y \<in> set (take count xs) \<Longrightarrow> buffer_ok (mm_data y) (mm_len y) \<and> (mm_data y = None \<longrightarrow> mm_len y = 0)"
  shows "ok (recv_batch_request os m xs count cl w) (\<lambda>(rc, xs', cl', w'). settled rc cl' \<and> batch_stored rc count xs xs')"
proof -
  have fill: "ok (store_replies (im_data r) rs xs) (\<lambda>xs'. list_all2 stored (take (nat rc) xs) (take (nat rc) xs') \<and>
      drop (nat rc) xs' = drop (nat rc) xs)"
    if rc: "0 < rc" "nat rc \<le> count" and dec: "decode_replies (im_data r) (unat (im_length r)) (take (nat rc) xs) 0 = Some (rs, stop)"
      and r: "msg_wf r" for rc r rs stop
  proof -
    have "buffer_ok (mm_data y) (mm_len y) \<and> (mm_data y = None \<longrightarrow> mm_len y = 0)" if "y \<in> set (take (nat rc) xs)" for y
      using that xs(2) set_take_subset_set_take [OF rc(2), of xs] by auto
    with store_replies_ok [OF dec, of "drop (nat rc) xs"] r obtain ys' where
      "store_replies (im_data r) rs (take (nat rc) xs @ drop (nat rc) xs) = Some (ys' @ drop (nat rc) xs)"
      and ys': "list_all2 stored (take (nat rc) xs) ys'" by (auto simp: msg_wf_def)
    moreover have "length ys' = nat rc" using list_all2_lengthD [OF ys'] rc(2) xs(1) by simp
    ultimately show ?thesis
      by simp
  qed
  show ?thesis
    unfolding recv_batch_request_def
    by (rule request_bindI [OF os m cl])
      (auto simp: Let_def broken_def settled_def client_ok_def batch_stored_def ok_bind_iff
        split: option.splits intro!: fill)
qed

lemma ps_recvmmsg_ok:
  assumes os: "system_ok os" and cl: "client_ok cl" and ms: "messages_ok messages count"
  shows "ok (ps_recvmmsg os fd messages count cl w)
    (\<lambda>(rc, messages', cl', w'). settled rc cl' \<and> (messages = None \<and> messages' = None \<and> rc < 0 \<or>
       (\<exists>xs xs'. messages = Some xs \<and> messages' = Some xs' \<and> batch_stored rc count xs xs')))"
proof -
  obtain e cl1 w1 where bv: "batch_valid os messages count cl w = (e, cl1, w1)"
    by (cases "batch_valid os messages count cl w")
  show ?thesis
  proof (cases "e = 0")
    case False
    then show ?thesis using batch_valid_ok [OF cl bv]
      unfolding ps_recvmmsg_def bv by (cases messages) (auto simp: settled_def batch_stored_def)
  next
    case True
    obtain xs where xs: "messages = Some xs" "count \<le> length xs" "0 < count" "count \<le> PS_DGRAM_BATCH_MAX" "client_ok cl1"
      "\<forall>x\<in>set xs. buffer_ok (mm_data x) (mm_len x)"
      using batch_validE [OF cl ms bv [unfolded True]] by blast
    have n: "length (take count xs) = count" using xs(2) by simp
    have msg: "zero_message\<lparr>im_op := IPC_RECVMMSG, im_fd := fd, im_a := of_nat count, im_length := of_nat count * 4\<rparr> =
        recv_batch_message fd count" by (simp add: recv_batch_message_def)
    show ?thesis
    proof (cases "encode_capacities (take count xs) 0 (recv_batch_message fd count)")
      case (Inl e)
      show ?thesis
        unfolding ps_recvmmsg_def xs(1) bv [unfolded xs(1)] True msg
        using Inl xs(2,5) encode_capacities_error [OF Inl] by (simp add: batch_stored_def)
    next
      case (Inr m)
      have m: "msg_wf m"
        using recv_batch_request(2) [of "take count xs" fd m] Inr n xs(2,3,4) by fastforce
      have buf: "y \<in> set (take count xs) \<Longrightarrow> buffer_ok (mm_data y) (mm_len y) \<and> (mm_data y = None \<longrightarrow> mm_len y = 0)" for y
        using xs(6) encode_capacities_null [OF Inr] by (auto dest: in_set_takeD)
      show ?thesis
        unfolding ps_recvmmsg_def xs(1) bv [unfolded xs(1)] True msg
        using xs(2) by (auto simp: Inr intro!: ok_bindI [OF recv_batch_request_ok [OF os m xs(5,2) buf]])
    qed
  qed
qed

end
