(* ===== verification/Client_Calls.thy ===== *)
theory Client_Calls
  imports Client_Batch
begin

text \<open>
  Sequences of calls of an application: every call returns, and a session that is lost is reported.
\<close>

subsection \<open>Opening a session\<close>

definition opened :: "int \<Rightarrow> ps_client \<Rightarrow> bool" where
  "opened rc cl \<longleftrightarrow> client_ok cl \<and> (pc_fd cl < 0 \<longrightarrow> rc \<noteq> 0)"

lemma opened_error: "client_ok cl \<Longrightarrow> rc \<noteq> 0 \<Longrightarrow> opened rc cl"
  by (simp add: opened_def)

lemma opened_lost [simp]: "opened e (cl\<lparr>pc_fd := - 1, pc_error := - 104\<rparr>) \<longleftrightarrow> e \<noteq> 0"
  by (simp add: opened_def client_ok_def)

lemma client_hello_ok:
  assumes "system_ok os" "client_ok cl"
  shows "ok (client_hello os cl w) (\<lambda>(rc, cl', w'). opened rc cl')"
  unfolding client_hello_def
  by (rule request_bindI [OF assms(1) _ assms(2)])
    (auto simp: opened_def broken_def settled_def client_ok_def)

lemma client_connecting_ok:
  assumes os: "system_ok os" and cl: "client_ok cl"
  shows "ok (client_connecting os cl w) (\<lambda>(rc, cl', w'). opened rc cl')"
proof -
  obtain left where left: "calls_left os left" using os by (auto simp: system_ok_def)
  have wait: "ok (wait_socket os fd True d w) (\<lambda>(rc, w'). rc \<le> 0)" for fd d w
    by (rule ok_mono [OF wait_socket_ok [OF os left]]) auto
  have e: "os_so_error os fd w = (Inl e, w') \<Longrightarrow> e \<noteq> 0" for fd w e w' using system_okD(9) [OF os] by fastforce
  show ?thesis
    unfolding client_connecting_def
    by (auto intro!: ok_bindI [OF wait] client_hello_ok [OF os cl] simp: broken_def split: prod.split sum.split dest: e)
qed

lemma client_connect_ok:
  assumes os: "system_ok os" and cl: "client_ok cl"
  shows "ok (client_connect os path cl w) (\<lambda>(rc, cl', w'). opened rc cl')"
proof -
  have cl': "client_ok (cl\<lparr>pc_fd := fd\<rparr>)" for fd using cl by (simp add: client_ok_def)
  have e: "os_socket os w = (Inl e, w') \<Longrightarrow> e \<noteq> 0" "os_connect os fd path w = (Some e, w') \<Longrightarrow> e \<noteq> 0" for fd w e w'
    using system_okD(6,8) [OF os] by fastforce+
  show ?thesis
    unfolding client_connect_def Let_def
    by (auto split: prod.split sum.split option.split dest: e simp: broken_def
        intro!: client_hello_ok [OF os cl'] client_connecting_ok [OF os cl'] opened_error cl')
qed

lemma ps_init_ok:
  assumes os: "system_ok os" and cl: "client_ok cl"
  shows "ok (ps_init os path cl w) (\<lambda>(rc, cl', w'). opened rc cl')"
proof -
  obtain c w1 where fini: "ps_fini os cl w = (c, w1)" by (cases "ps_fini os cl w")
  have c: "client_ok (c\<lparr>pc_pid := p\<rparr>)" for p using fini by (auto simp: ps_fini_def client_ok_def Let_def)
  show ?thesis
    unfolding ps_init_def fini Let_def case_prod_conv
    by (intro ok_ifI client_connect_ok [OF os c]) (simp_all add: opened_error cl c)
qed

subsection \<open>Sequences of calls\<close>

datatype ps_call =
    PS_Init "string option"
  | PS_Fini
  | PS_Socket i32 i32 i32
  | PS_Bind i32 "ps_sockaddr option"
  | PS_Connect i32 "ps_sockaddr option"
  | PS_Listen i32 i32
  | PS_Accept i32 bool
  | PS_Close i32
  | PS_Send i32 "u8 list option" nat
  | PS_Sendto i32 "u8 list option" nat "ps_sockaddr option"
  | PS_Recv i32 "u8 list option" nat
  | PS_Recvfrom i32 "u8 list option" nat bool
  | PS_Sendmmsg i32 "ps_mmsg list option" nat
  | PS_Recvmmsg i32 "ps_mmsg list option" nat

text \<open>The result of a call, and the session it leaves.  \<open>ps_fini\<close> has no result.\<close>

fun perform :: "('w, 'x) system_scheme \<Rightarrow> ps_call \<Rightarrow> ps_client \<times> 'w \<Rightarrow> (int \<times> ps_client \<times> 'w) option" where
  "perform os (PS_Init path) (cl, w) = ps_init os path cl w"
| "perform os PS_Fini (cl, w) = Some (0, ps_fini os cl w)"
| "perform os (PS_Socket domain ty protocol) (cl, w) = ps_socket os domain ty protocol cl w"
| "perform os (PS_Bind fd addr) (cl, w) = ps_bind os fd addr cl w"
| "perform os (PS_Connect fd addr) (cl, w) = ps_connect os fd addr cl w"
| "perform os (PS_Listen fd backlog) (cl, w) = ps_listen os fd backlog cl w"
| "perform os (PS_Accept fd peer) (cl, w) = map_option (\<lambda>(rc, _, s). (rc, s)) (ps_accept os fd peer cl w)"
| "perform os (PS_Close fd) (cl, w) = ps_close os fd cl w"
| "perform os (PS_Send fd buf len) (cl, w) = ps_send os fd buf len cl w"
| "perform os (PS_Sendto fd buf len dst) (cl, w) = ps_sendto os fd buf len dst cl w"
| "perform os (PS_Recv fd buf len) (cl, w) = map_option (\<lambda>(rc, _, _, s). (rc, s)) (ps_recv os fd buf len cl w)"
| "perform os (PS_Recvfrom fd buf len src) (cl, w) = map_option (\<lambda>(rc, _, _, s). (rc, s)) (ps_recvfrom os fd buf len src cl w)"
| "perform os (PS_Sendmmsg fd messages count) (cl, w) = ps_sendmmsg os fd messages count cl w"
| "perform os (PS_Recvmmsg fd messages count) (cl, w) = map_option (\<lambda>(rc, _, s). (rc, s)) (ps_recvmmsg os fd messages count cl w)"

text \<open>The caller owns the buffers it passes.\<close>

fun call_ok :: "ps_call \<Rightarrow> bool" where
  "call_ok (PS_Send fd buf len) = buffer_ok buf len"
| "call_ok (PS_Sendto fd buf len dst) = buffer_ok buf len"
| "call_ok (PS_Recv fd buf len) = buffer_ok buf len"
| "call_ok (PS_Recvfrom fd buf len src) = buffer_ok buf len"
| "call_ok (PS_Sendmmsg fd messages count) = messages_ok messages count"
| "call_ok (PS_Recvmmsg fd messages count) = messages_ok messages count"
| "call_ok _ = True"

text \<open>A call after which there is no session has failed, unless it was the one to end it.\<close>

fun reported :: "ps_call \<Rightarrow> int \<Rightarrow> ps_client \<Rightarrow> bool" where
  "reported (PS_Init path) rc cl = opened rc cl"
| "reported PS_Fini rc cl = (pc_fd cl < 0)"
| "reported _ rc cl = settled rc cl"

lemma ok_map_option: "ok (map_option f m) Q = ok m (\<lambda>r. Q (f r))"
  by (cases m) simp_all

lemma perform_ok:
  assumes os: "system_ok os" and cl: "client_ok cl" and c: "call_ok c"
  shows "ok (perform os c (cl, w)) (\<lambda>(rc, cl', w'). client_ok cl' \<and> reported c rc cl')"
proof -
  have settled: "(\<lambda>(rc, cl', w'). client_ok cl' \<and> settled rc cl') = (\<lambda>(rc :: int, cl', w' :: 'a). settled rc cl')"
    by (auto simp: settled_def fun_eq_iff)
  have opened: "(\<lambda>(rc, cl', w'). client_ok cl' \<and> opened rc cl') = (\<lambda>(rc :: int, cl', w' :: 'a). opened rc cl')"
    by (auto simp: opened_def fun_eq_iff)
  note simple = simple_request_ok [OF os _ cl]
  show ?thesis
  proof (cases c)
    case (PS_Init path)
    then show ?thesis using ps_init_ok [OF os cl] by (simp add: opened)
  next
    case PS_Fini
    then show ?thesis by (simp add: ps_fini_def client_ok_def Let_def)
  next
    case (PS_Accept fd peer)
    have "ok (ps_accept os fd peer cl w) (\<lambda>(rc, _, cl', w'). settled rc cl')"
      unfolding ps_accept_def by (rule request_bindI [OF os _ cl]) simp_all
    then show ?thesis unfolding PS_Accept perform.simps ok_map_option by (rule ok_mono) (auto simp: settled_def)
  next
    case (PS_Send fd buf len)
    then show ?thesis
      using c by (auto simp: ps_send_def settled_def intro!: ok_mono [OF send_request_ok [OF os cl]])
  next
    case (PS_Sendto fd buf len dst)
    then show ?thesis
      using c by (auto simp: ps_sendto_def settled_def intro!: ok_mono [OF send_request_ok [OF os cl]])
  next
    case (PS_Recv fd buf len)
    then show ?thesis
      using c by (auto simp: ps_recv_def ok_map_option settled_def intro!: ok_mono [OF recv_request_ok [OF os cl]])
  next
    case (PS_Recvfrom fd buf len src)
    then show ?thesis
      using c cl by (auto simp: ps_recvfrom_def ok_map_option settled_def intro!: ok_mono [OF recv_request_ok [OF os cl]])
  next
    case (PS_Sendmmsg fd messages count)
    then show ?thesis using c by (auto simp: settled_def intro!: ok_mono [OF ps_sendmmsg_ok [OF os cl]])
  next
    case (PS_Recvmmsg fd messages count)
    then show ?thesis
      using c by (auto simp: ok_map_option settled_def intro!: ok_mono [OF ps_recvmmsg_ok [OF os cl]])
  qed (use cl in \<open>auto simp: settled ps_socket_def ps_bind_def ps_connect_def ps_listen_def ps_close_def address_request_def
      split: option.splits intro!: simple\<close>)
qed

text \<open>The results of a sequence of calls, each with the session it left.\<close>

fun perform_all ::
    "('w, 'x) system_scheme \<Rightarrow> ps_call list \<Rightarrow> ps_client \<times> 'w \<Rightarrow> ((int \<times> ps_client) list \<times> ps_client \<times> 'w) option" where
  "perform_all os [] s = Some ([], s)"
| "perform_all os (c # cs) s = do {
     (rc, s) \<leftarrow> perform os c s;
     (rs, t) \<leftarrow> perform_all os cs s;
     Some ((rc, fst s) # rs, t)
   }"

lemma perform_all_ok:
  assumes os: "system_ok os" and c: "\<And>c. c \<in> set cs \<Longrightarrow> call_ok c"
  shows "client_ok cl \<Longrightarrow> ok (perform_all os cs (cl, w)) (\<lambda>(rs, _). list_all2 (\<lambda>c r. reported c (fst r) (snd r)) cs rs)"
  using c
proof (induction cs arbitrary: cl w)
  case (Cons c cs)
  have "ok (perform os c (cl, w)) (\<lambda>(rc, cl', w'). client_ok cl' \<and> reported c rc cl')"
    by (rule perform_ok [OF os Cons.prems(1)]) (simp add: Cons.prems)
  then obtain rc cl' w' where 1: "perform os c (cl, w) = Some (rc, cl', w')" "client_ok cl'" "reported c rc cl'"
    by (auto simp: ok_iff)
  show ?case using Cons.IH [OF 1(2), of w'] 1(1,3) Cons.prems by (auto simp: ok_iff)
qed simp


text \<open>A system whose clock ticks at every poll and whose peer has already sent some bytes.\<close>

definition sample_system :: "(int \<times> u8 list) system" where
  "sample_system = \<lparr>os_getpid = (\<lambda>_. 42), os_clock = (\<lambda>(t, bs). ((t, 0), (t, bs))),
     os_poll = (\<lambda>fd writing ms (t, bs). (Inr (Some (True, False)), (t + 1, bs))),
     os_send = (\<lambda>fd bytes w. (Inr (length bytes), w)),
     os_recv = (\<lambda>fd n (t, bs). (Inr (take n bs), (t, drop n bs))),
     os_close = (\<lambda>fd w. w), os_socket = (\<lambda>w. (Inr 3, w)), os_connect = (\<lambda>fd path w. (None, w)),
     os_so_error = (\<lambda>fd w. (Inr 0, w))\<rparr>"

definition sample_client :: ps_client where
  "sample_client = client_start\<lparr>pc_fd := 3, pc_pid := 42, pc_features := 1\<rparr>"

lemma sample_system_ok: "system_ok sample_system"
proof -
  have "calls_left sample_system (\<lambda>d (t, bs). nat (d - t * 1000))"
    by (auto simp: calls_left_def sample_system_def milliseconds_def)
  then show ?thesis by (auto simp: system_ok_def) (auto simp: sample_system_def)
qed


text \<open>C9: A receive never writes past what it reports: when \<open>ps_recv\<close> or \<open>ps_recvfrom\<close> returns \<open>n\<close>, \<open>n\<close> is at most the
  length the caller gave, exactly the first \<open>n\<close> bytes of the buffer are replaced, and on an error
  or at the end of the stream the buffer is as before.  The batch receive keeps every datagram inside
  the buffer of its own message, leaves the messages after the reported count untouched, and
  leaves all of them untouched on an error.\<close>

theorem receive_within_buffers:
  assumes "system_ok os" "client_ok cl" "buffer_ok buf len" "messages_ok messages count"
  shows "ok (recv_request os op fd buf len src cl w) (\<lambda>(rc, buf', addr, cl', w'). filled buf len rc buf') \<and>
    ok (ps_recvmmsg os fd messages count cl w) (\<lambda>(rc, messages', cl', w').
      messages = None \<and> messages' = None \<and> rc < 0 \<or>
      (\<exists>xs xs'. messages = Some xs \<and> messages' = Some xs' \<and> batch_stored rc count xs xs'))"
  using ok_mono [OF recv_request_ok [OF assms(1-3)]] ok_mono [OF ps_recvmmsg_ok [OF assms(1,2,4)]]
  by (auto simp: case_prod_unfold)

theorem receive_within_buffers_witness:
  "ok (recv_request sample_system IPC_RECV 1 (Some [0, 0, 0]) 3 False sample_client (0, []))
      (\<lambda>(rc, buf', addr, cl', w'). filled (Some [0, 0, 0]) 3 rc buf') \<and>
    ok (ps_recvmmsg sample_system 1 (Some [sample_mmsg]) 1 sample_client (0, [])) (\<lambda>(rc, messages', cl', w').
      Some [sample_mmsg] = None \<and> messages' = None \<and> rc < 0 \<or>
      (\<exists>xs xs'. Some [sample_mmsg] = Some xs \<and> messages' = Some xs' \<and> batch_stored rc 1 xs xs'))"
  by (rule receive_within_buffers [OF sample_system_ok])
    (simp_all add: buffer_ok_def messages_ok_def sample_mmsg_def sample_client_def client_ok_def client_start_def)

end
