(* ===== verification/C_Text.thy ===== *)
theory C_Text
  imports Net_Prefix "HOL-Library.Char_ord"
begin

text \<open>
  The text functions of the C library that the parsers use, on strings as lists of characters without
  the terminating null: classification in the C locale, \<^verbatim>\<open>strchr\<close>, \<^verbatim>\<open>strtoul\<close> on digits and
  \<^verbatim>\<open>inet_pton\<close> for IPv4.
\<close>

abbreviation (input) NUL :: char where "NUL \<equiv> CHR 0x00"
abbreviation (input) NEWLINE :: char where "NEWLINE \<equiv> CHR 0x0A"

text \<open>The string in a character array: what precedes the first null.\<close>

definition c_string :: "char list \<Rightarrow> string" where
  "c_string s = takeWhile (\<lambda>c. c \<noteq> NUL) s"

definition isspace :: "char \<Rightarrow> bool" where
  "isspace c \<longleftrightarrow> c = CHR '' '' \<or> 9 \<le> (of_char c :: nat) \<and> (of_char c :: nat) \<le> 13"

definition isdigit :: "char \<Rightarrow> bool" where
  "isdigit c \<longleftrightarrow> 48 \<le> (of_char c :: nat) \<and> (of_char c :: nat) \<le> 57"

definition isalnum :: "char \<Rightarrow> bool" where
  "isalnum c \<longleftrightarrow> isdigit c \<or> 65 \<le> (of_char c :: nat) \<and> (of_char c :: nat) \<le> 90 \<or>
     97 \<le> (of_char c :: nat) \<and> (of_char c :: nat) \<le> 122"

definition digit :: "char \<Rightarrow> nat" where
  "digit c = of_char c - 48"

text \<open>The text before and after the first occurrence of a character.\<close>

definition split_at :: "char \<Rightarrow> string \<Rightarrow> (string \<times> string) option" where
  "split_at c s = (if c \<in> set s then Some (takeWhile (\<lambda>x. x \<noteq> c) s, tl (dropWhile (\<lambda>x. x \<noteq> c) s)) else None)"

lemma split_at_append [simp]: "c \<notin> set s \<Longrightarrow> split_at c (s @ c # t) = Some (s, t)"
  by (induction s) (auto simp: split_at_def)

subsection \<open>Numbers\<close>

definition decimal :: "string \<Rightarrow> nat" where
  "decimal s = foldl (\<lambda>n c. n * 10 + digit c) 0 s"

text \<open>\<^verbatim>\<open>strtoul\<close> in base ten on a non-empty string of digits; the range error is \<^const>\<open>None\<close>.\<close>

definition strtoul :: "string \<Rightarrow> nat option" where
  "strtoul s = (if decimal s < 2 ^ 64 then Some (decimal s) else None)"

subsection \<open>IPv4 addresses\<close>

text \<open>
  The octets so far, the current one first, and whether it has a digit yet.  An octet is at most 255
  and has no leading zero.
\<close>

fun pton_octets :: "string \<Rightarrow> nat list \<Rightarrow> bool \<Rightarrow> nat list option" where
  "pton_octets [] os saw = (if saw \<and> length os = 4 then Some (rev os) else None)"
| "pton_octets (c # s) os saw =
     (if isdigit c then
        (case (saw, os) of
           (True, x # xs) \<Rightarrow>
             if x = 0 \<or> x * 10 + digit c > 255 then None else pton_octets s ((x * 10 + digit c) # xs) True
         | _ \<Rightarrow> if length os = 4 then None else pton_octets s (digit c # os) True)
      else if c = CHR ''.'' \<and> saw \<and> length os < 4 then pton_octets s os False
      else None)"

definition inet_pton :: "string \<Rightarrow> u32 option" where
  "inet_pton s = map_option (\<lambda>os. le32_of (map of_nat os)) (pton_octets s [] False)"

text \<open>The printed form, for which the parser is an inverse.\<close>

definition octet_text :: "nat \<Rightarrow> string" where
  "octet_text n = (if n < 10 then [char_of (48 + n)]
     else if n < 100 then [char_of (48 + n div 10), char_of (48 + n mod 10)]
     else [char_of (48 + n div 10 div 10), char_of (48 + n div 10 mod 10), char_of (48 + n mod 10)])"

definition inet_ntop :: "u32 \<Rightarrow> string" where
  "inet_ntop ip = (case map (octet_text \<circ> unat) (le32_bytes ip) of
     [a, b, c, d] \<Rightarrow> a @ ''.'' @ b @ ''.'' @ c @ ''.'' @ d)"

lemma of_char_digit: "n < 10 \<Longrightarrow> (of_char (char_of (48 + n)) :: nat) = 48 + n"
  by (simp add: of_char_of)

lemma isdigit_digit [simp]: "n < 10 \<Longrightarrow> isdigit (char_of (48 + n))" "n < 10 \<Longrightarrow> digit (char_of (48 + n)) = n"
  by (simp_all add: isdigit_def digit_def of_char_digit)

lemma pton_octet:
  assumes "n \<le> 255" "length os < 4"
  shows "pton_octets (octet_text n @ s) os False = pton_octets s (n # os) True"
proof -
  have m: "n mod 10 < 10" "n div 10 mod 10 < 10" by simp_all
  have v: "n div 10 * 10 + n mod 10 = n" "n div 10 div 10 * 10 + n div 10 mod 10 = n div 10" by simp_all
  consider "n < 10" | "10 \<le> n" "n < 100" | "100 \<le> n" by linarith
  then show ?thesis
  proof cases
    case 1
    then show ?thesis using assms by (simp add: octet_text_def)
  next
    case 2
    then have "n div 10 < 10" "\<not> n div 10 = 0" by auto
    then show ?thesis using 2 assms m v by (auto simp: octet_text_def)
  next
    case 3
    then have "10 \<le> n div 10" by (simp add: less_eq_div_iff_mult_less_eq)
    moreover have "n div 10 \<le> 25" using assms div_le_mono [of n 255 10] by simp
    ultimately have "n div 10 div 10 < 10" "n div 10 div 10 \<noteq> 0" by (simp_all add: div_eq_0_iff less_mult_imp_div_less)
    then show ?thesis using 3 \<open>n div 10 \<le> 25\<close> \<open>10 \<le> n div 10\<close> assms m by (simp add: octet_text_def v)
  qed
qed

lemma inet_pton_ntop [simp]: "inet_pton (inet_ntop ip) = Some ip"
proof -
  have u: "unat (w :: u8) \<le> 255" for w using unsigned_less [of w] by (simp add: less_Suc_eq_le [symmetric])
  have "inet_pton (inet_ntop ip) = Some (le32_of (map of_nat (map unat (le32_bytes ip))))"
    by (simp add: inet_pton_def inet_ntop_def le32_bytes_def pton_octet pton_octet [where s = "[]", simplified] u isdigit_def)
  also have "map of_nat (map unat (le32_bytes ip)) = le32_bytes ip" by (simp add: comp_def)
  finally show ?thesis by simp
qed

subsection \<open>Lines of a file\<close>

text \<open>
  \<^verbatim>\<open>fgets\<close> with room for \<open>limit\<close> characters: up to that many, through the first newline.  It fails at the
  end of the file when nothing was read, and on a read error.  The result is the line, whether the end of the
  file was met reading it, and the rest of the file.
\<close>

definition line_break :: "nat \<Rightarrow> string \<Rightarrow> nat" where
  "line_break limit input = (case first_index (\<lambda>c. c = NEWLINE) (take limit input) of
     Some i \<Rightarrow> i + 1 | None \<Rightarrow> min (length input) limit)"

definition fgets :: "nat \<Rightarrow> string \<Rightarrow> bool \<Rightarrow> (string \<times> bool \<times> string) option" where
  "fgets limit input failing =
     (let n = line_break limit input; eof = (NEWLINE \<notin> set (take n input) \<and> n < limit) in
      if input = [] \<or> eof \<and> failing then None else Some (take n input, eof, drop n input))"

lemma line_break_pos: "input \<noteq> [] \<Longrightarrow> 0 < limit \<Longrightarrow> 0 < line_break limit input"
  by (simp add: line_break_def split: option.splits)

lemma fgets_shorter: "fgets limit input failing = Some (line, eof, rest) \<Longrightarrow> 0 < limit \<Longrightarrow> length rest < length input"
  using line_break_pos [of input limit] by (auto simp: fgets_def Let_def split: if_splits)

end
