(* ===== verification/Config.thy ===== *)
theory Config
  imports C_Text Route
begin

text \<open>
  The start-up configuration file: \<^verbatim>\<open>src/config.c\<close>.

  A file that opens is the list of its characters and whether reading it fails at the end.  The loop over
  \<^verbatim>\<open>fgets\<close> with a buffer of 256 is \<open>config_lines\<close>; one iteration is \<open>config_line\<close> on the local variables
  of the function, the record \<open>config_state\<close>.  The arrays \<^verbatim>\<open>interfaces\<close>, \<^verbatim>\<open>seen\<close> are lists of length
  \<^verbatim>\<open>NETIF_MAX\<close>; \<^verbatim>\<open>routes\<close> and \<^verbatim>\<open>route_seen\<close> are lists of the \<^verbatim>\<open>route_count\<close> elements in use.  An error is the
  line number and the reason that the message prints.
\<close>

abbreviation (input) CONFIG_LINE_MAX :: nat where "CONFIG_LINE_MAX \<equiv> 255"
abbreviation (input) DEVICE_MAX :: nat where "DEVICE_MAX \<equiv> 64"

definition zero_netif :: netif_config where
  "zero_netif = \<lparr>nif_pmd = PMD_TAP, nif_device = [], nif_ip_be = 0, nif_prefix_len = 0\<rparr>"

definition zero_route :: route_config where
  "zero_route = \<lparr>rcf_prefix_be = 0, rcf_gateway_be = 0, rcf_prefix_len = 0, rcf_device = []\<rparr>"

definition app_config_defaults :: app_config where
  "app_config_defaults = \<lparr>cf_lcore = 0, cf_interfaces = [], cf_no_huge = 0, cf_ipv4_forwarding = 0, cf_routes = [],
     cf_mbufs = 8192, cf_mbuf_cache = 256, cf_rx_desc = 1024, cf_tx_desc = 1024\<rparr>"

definition trim :: "string \<Rightarrow> string" where
  "trim s = rev (dropWhile isspace (rev (dropWhile isspace s)))"

definition number :: "string \<Rightarrow> nat \<Rightarrow> nat option" where
  "number s limit =
     (if s = [] \<or> \<not> list_all isdigit s then None
      else case strtoul s of
        None \<Rightarrow> None
      | Some n \<Rightarrow> if n > limit then None else Some n)"

definition parse_prefix :: "string \<Rightarrow> (u32 \<times> u8) option" where
  "parse_prefix s =
     (case split_at (CHR ''/'') s of
        None \<Rightarrow> None
      | Some (a, len) \<Rightarrow>
          (case (number len 32, inet_pton a) of
             (Some prefix, Some ip) \<Rightarrow> Some (ip, of_nat prefix)
           | _ \<Rightarrow> None))"

definition cidr_host :: "u32 \<Rightarrow> u8 \<Rightarrow> bool" where
  "cidr_host ip_be prefix =
     (let host = ntohl ip_be; mask = (if prefix \<noteq> 0 then push_bit (32 - unat prefix) UINT32_MAX else 0) in
      \<not> (drop_bit 24 host = 0 \<or> drop_bit 24 host = 127 \<or> host \<ge> 0xe0000000 \<or>
         prefix \<le> 30 \<and> (host AND NOT mask = 0 \<or> host AND NOT mask = NOT mask)))"

definition parse_cidr :: "string \<Rightarrow> netif_config \<Rightarrow> netif_config option" where
  "parse_cidr s conf =
     (case parse_prefix s of
        None \<Rightarrow> None
      | Some (ip, prefix) \<Rightarrow>
          if cidr_host ip prefix then Some (conf\<lparr>nif_ip_be := ip, nif_prefix_len := prefix\<rparr>) else None)"

record config_state =
  cs_lcore :: nat
  cs_no_huge :: u8
  cs_forwarding :: u8
  cs_netif_count :: nat
  cs_interfaces :: "netif_config list"
  cs_routes :: "route_config list"
  cs_global_seen :: u32
  cs_seen :: "u32 list"
  cs_route_seen :: "u32 list"
  cs_sectioned :: bool
  cs_in_route :: bool
  cs_current :: nat

definition config_start :: config_state where
  "config_start = \<lparr>cs_lcore = 0, cs_no_huge = 0, cs_forwarding = 0, cs_netif_count = 0,
     cs_interfaces = replicate NETIF_MAX zero_netif, cs_routes = [], cs_global_seen = 0,
     cs_seen = replicate NETIF_MAX 0, cs_route_seen = [], cs_sectioned = False, cs_in_route = False, cs_current = 0\<rparr>"

abbreviation (input) invalid_value :: string where "invalid_value \<equiv> ''invalid value''"

subsection \<open>Sections\<close>

definition interface_section :: "config_state \<Rightarrow> string + config_state" where
  "interface_section s =
     (if \<not> cs_sectioned s \<and> cs_seen s ! 0 \<noteq> 0 then Inl ''cannot mix legacy and interface sections''
      else if cs_netif_count s = NETIF_MAX then Inl ''too many interfaces''
      else Inr (s\<lparr>cs_current := cs_netif_count s, cs_netif_count := cs_netif_count s + 1,
             cs_sectioned := True, cs_in_route := False\<rparr>))"

definition route_section :: "config_state \<Rightarrow> string + config_state" where
  "route_section s =
     (if length (cs_routes s) = ROUTE_CAPACITY then Inl ''too many routes''
      else Inr (s\<lparr>cs_routes := cs_routes s @ [zero_route], cs_route_seen := cs_route_seen s @ [0], cs_in_route := True\<rparr>))"

subsection \<open>Keys\<close>

definition route_value :: "nat \<Rightarrow> string \<Rightarrow> route_config \<Rightarrow> route_config option" where
  "route_value b value route =
     (if b = 1 then
        (case parse_prefix value of
           None \<Rightarrow> None
         | Some (ip, len) \<Rightarrow>
             let mask = (if len \<noteq> 0 then push_bit (32 - unat len) UINT32_MAX else 0) in
             Some (route\<lparr>rcf_prefix_be := ip AND htonl mask, rcf_prefix_len := len\<rparr>))
      else if b = 2 then
        (if value = [] \<or> length value \<ge> DEVICE_MAX then None else Some (route\<lparr>rcf_device := value\<rparr>))
      else
        (case inet_pton value of
           None \<Rightarrow> None
         | Some gateway \<Rightarrow> if gateway = 0 then None else Some (route\<lparr>rcf_gateway_be := gateway\<rparr>)))"

definition route_bit :: "string \<Rightarrow> nat option" where
  "route_bit key = (if key = ''prefix'' then Some 1 else if key = ''device'' then Some 2
     else if key = ''gateway'' then Some 4 else None)"

definition route_key :: "string \<Rightarrow> string \<Rightarrow> config_state \<Rightarrow> string + config_state" where
  "route_key key value s =
     (case route_bit key of
        None \<Rightarrow> Inl ''unknown route key''
      | Some b \<Rightarrow>
          let i = length (cs_routes s) - 1; scope = cs_route_seen s ! i in
          if scope AND of_nat b \<noteq> 0 then Inl ''duplicate route key''
          else case route_value b value (cs_routes s ! i) of
                 None \<Rightarrow> Inl invalid_value
               | Some route \<Rightarrow> Inr (s\<lparr>cs_route_seen := (cs_route_seen s)[i := scope OR of_nat b],
                   cs_routes := (cs_routes s)[i := route]\<rparr>))"

definition config_keys :: "string list" where
  "config_keys = [''lcore'', ''pmd'', ''device'', ''ip'', ''no_huge'', ''ipv4_forwarding'']"

definition device_char :: "char \<Rightarrow> bool" where
  "device_char c \<longleftrightarrow> isalnum c \<or> c \<in> set ''_.:-''"

definition netif_value :: "nat \<Rightarrow> string \<Rightarrow> netif_config \<Rightarrow> netif_config option" where
  "netif_value k value netif =
     (if k = 1 then
        (if value = ''tap'' then Some (netif\<lparr>nif_pmd := PMD_TAP\<rparr>)
         else if value = ''af_packet'' then Some (netif\<lparr>nif_pmd := PMD_AFPKT\<rparr>)
         else if value = ''physical'' then Some (netif\<lparr>nif_pmd := PMD_PHYS\<rparr>)
         else None)
      else if k = 2 then
        (if value = [] \<or> length value \<ge> DEVICE_MAX \<or> \<not> list_all device_char value then None
         else Some (netif\<lparr>nif_device := value\<rparr>))
      else parse_cidr value netif)"

definition global_value :: "nat \<Rightarrow> string \<Rightarrow> config_state \<Rightarrow> config_state option" where
  "global_value k value s =
     (if k = 0 then map_option (\<lambda>n. s\<lparr>cs_lcore := n\<rparr>) (number value 1023)
      else if k = 4 then map_option (\<lambda>n. s\<lparr>cs_no_huge := of_nat n\<rparr>) (number value 1)
      else map_option (\<lambda>n. s\<lparr>cs_forwarding := of_nat n\<rparr>) (number value 1))"

definition global_key :: "nat \<Rightarrow> bool" where
  "global_key k \<longleftrightarrow> k = 0 \<or> k = 4 \<or> k = 5"

definition config_key :: "string \<Rightarrow> string \<Rightarrow> config_state \<Rightarrow> string + config_state" where
  "config_key key value s =
     (case first_index (\<lambda>x. x = key) config_keys of
        None \<Rightarrow> Inl ''unknown key''
      | Some k \<Rightarrow>
          if cs_sectioned s \<and> global_key k then Inl ''global keys must precede sections''
          else
            let i = cs_current s; scope = (if global_key k then cs_global_seen s else cs_seen s ! i) in
            if bit scope k then Inl ''duplicate key''
            else if global_key k then
              (case global_value k value (s\<lparr>cs_global_seen := set_bit k scope\<rparr>) of
                 None \<Rightarrow> Inl invalid_value | Some s \<Rightarrow> Inr s)
            else
              (case netif_value k value (cs_interfaces s ! i) of
                 None \<Rightarrow> Inl invalid_value
               | Some netif \<Rightarrow> Inr (s\<lparr>cs_seen := (cs_seen s)[i := set_bit k scope],
                   cs_interfaces := (cs_interfaces s)[i := netif]\<rparr>)))"

definition config_setting :: "string \<Rightarrow> config_state \<Rightarrow> string + config_state" where
  "config_setting key s =
     (case split_at (CHR ''='') key of
        None \<Rightarrow> Inl ''expected key=value''
      | Some (key, value) \<Rightarrow>
          if cs_in_route s then route_key (trim key) (trim value) s else config_key (trim key) (trim value) s)"

text \<open>One line as \<^verbatim>\<open>fgets\<close> leaves it in the buffer, and whether the end of the file was met reading it.\<close>

definition config_line :: "string \<Rightarrow> bool \<Rightarrow> config_state \<Rightarrow> string + config_state" where
  "config_line buffer eof s =
     (let line = c_string buffer in
      if NEWLINE \<notin> set line \<and> \<not> eof then Inl ''line too long''
      else
        let key = trim line in
        if key = [] \<or> hd key = CHR ''#'' then Inr s
        else if key = ''[interface]'' then interface_section s
        else if key = ''[route]'' then route_section s
        else config_setting key s)"

subsection \<open>The file\<close>

function config_lines :: "string \<Rightarrow> bool \<Rightarrow> nat \<Rightarrow> config_state \<Rightarrow> (nat \<times> string) + (nat \<times> config_state)" where
  "config_lines input failing line_no s =
     (case fgets CONFIG_LINE_MAX input failing of
        None \<Rightarrow> Inr (line_no, s)
      | Some (line, eof, rest) \<Rightarrow>
          (case config_line line eof s of
             Inl why \<Rightarrow> Inl (line_no + 1, why)
           | Inr s \<Rightarrow> config_lines rest failing (line_no + 1) s))"
  by pat_completeness auto
termination by (relation "measure (\<lambda>(input, _). length input)") (auto dest: fgets_shorter)

declare config_lines.simps [simp del]

subsection \<open>The checks at the end\<close>

definition check_interface :: "config_state \<Rightarrow> nat \<Rightarrow> string option" where
  "check_interface s i =
     (let netif = cs_interfaces s ! i in
      if cs_seen s ! i AND 14 \<noteq> 14 then Some ''pmd, device and ip are required per interface''
      else if nif_pmd netif \<noteq> PMD_PHYS \<and> length (nif_device netif) \<ge> 16
      then Some ''interface name must be shorter than 16 bytes''
      else if nif_pmd netif = PMD_PHYS \<and> cs_no_huge s \<noteq> 0 then Some ''no_huge is only supported with virtual PMDs''
      else case List.find (\<lambda>other. nif_device netif = nif_device other \<or> nif_ip_be netif = nif_ip_be other) (take i (cs_interfaces s)) of
             None \<Rightarrow> None
           | Some other \<Rightarrow> Some (if nif_device netif = nif_device other then ''duplicate device'' else ''duplicate local IP''))"

definition check_route :: "config_state \<Rightarrow> nat \<Rightarrow> string option" where
  "check_route s i = (if cs_route_seen s ! i AND 3 \<noteq> 3 then Some ''prefix and device are required per route'' else None)"

text \<open>The first failure of a check over the indices below a bound.\<close>

fun first_failure :: "(nat \<Rightarrow> string option) \<Rightarrow> nat list \<Rightarrow> string option" where
  "first_failure f [] = None"
| "first_failure f (i # is) = (case f i of None \<Rightarrow> first_failure f is | Some why \<Rightarrow> Some why)"

definition config_of :: "config_state \<Rightarrow> app_config" where
  "config_of s = app_config_defaults\<lparr>cf_lcore := cs_lcore s, cf_no_huge := cs_no_huge s, cf_ipv4_forwarding := cs_forwarding s,
     cf_interfaces := take (if cs_sectioned s then cs_netif_count s else 1) (cs_interfaces s), cf_routes := cs_routes s\<rparr>"

definition config_finish :: "bool \<Rightarrow> config_state \<Rightarrow> string + app_config" where
  "config_finish failing s =
     (let conf = config_of s in
      if failing then Inl ''read failed''
      else case first_failure (check_interface s) [0..<length (cf_interfaces conf)] of
        Some why \<Rightarrow> Inl why
      | None \<Rightarrow>
          (case first_failure (check_route s) [0..<length (cf_routes conf)] of
             Some why \<Rightarrow> Inl why
           | None \<Rightarrow>
               (case fst (route_config_init conf []) of
                  None \<Rightarrow> Inr conf
                | Some e \<Rightarrow> Inl (if e = ENOSPC then ''too many connected and static routes''
                     else if e = ENODEV then ''unknown route device'' else ''invalid or unreachable gateway''))))"

datatype config_error = Cannot_Open | At_Line nat string

definition app_config_load :: "(string \<times> bool) option \<Rightarrow> config_error + app_config" where
  "app_config_load file =
     (case file of
        None \<Rightarrow> Inl Cannot_Open
      | Some (input, failing) \<Rightarrow>
          (case config_lines input failing 0 config_start of
             Inl (line_no, why) \<Rightarrow> Inl (At_Line line_no why)
           | Inr (line_no, s) \<Rightarrow>
               (case config_finish failing s of Inl why \<Rightarrow> Inl (At_Line line_no why) | Inr conf \<Rightarrow> Inr conf)))"

end
