(* ===== verification/Config_Safety.thy ===== *)
theory Config_Safety
  imports Config
begin

text \<open>
  What an accepted configuration file guarantees, and what the error message of a rejected one says.
\<close>

subsection \<open>The invariant of the parser\<close>

definition device_ok :: "string \<Rightarrow> bool" where
  "device_ok name \<longleftrightarrow> name \<noteq> [] \<and> length name < DEVICE_MAX"

text \<open>A key that has been seen has left a valid field.\<close>

definition netif_inv :: "u32 \<Rightarrow> netif_config \<Rightarrow> bool" where
  "netif_inv seen n \<longleftrightarrow>
     (bit seen 2 \<longrightarrow> device_ok (nif_device n) \<and> list_all device_char (nif_device n)) \<and>
     (bit seen 3 \<longrightarrow> nif_prefix_len n \<le> 32 \<and> cidr_host (nif_ip_be n) (nif_prefix_len n))"

definition route_inv :: "u32 \<Rightarrow> route_config \<Rightarrow> bool" where
  "route_inv seen r \<longleftrightarrow>
     (seen AND 1 \<noteq> 0 \<longrightarrow> rcf_prefix_len r \<le> 32 \<and> rcf_prefix_be r AND htonl (prefix_mask (rcf_prefix_len r)) = rcf_prefix_be r) \<and>
     (seen AND 2 \<noteq> 0 \<longrightarrow> device_ok (rcf_device r))"

definition config_inv :: "config_state \<Rightarrow> bool" where
  "config_inv s \<longleftrightarrow>
     length (cs_interfaces s) = NETIF_MAX \<and> length (cs_seen s) = NETIF_MAX \<and> cs_current s < NETIF_MAX \<and>
     cs_netif_count s \<le> NETIF_MAX \<and> (cs_sectioned s \<longrightarrow> 0 < cs_netif_count s) \<and>
     length (cs_route_seen s) = length (cs_routes s) \<and> length (cs_routes s) \<le> ROUTE_CAPACITY \<and>
     (cs_in_route s \<longrightarrow> cs_routes s \<noteq> []) \<and>
     cs_lcore s \<le> 1023 \<and> cs_no_huge s \<le> 1 \<and> cs_forwarding s \<le> 1 \<and>
     list_all2 netif_inv (cs_seen s) (cs_interfaces s) \<and> list_all2 route_inv (cs_route_seen s) (cs_routes s)"

lemma config_inv_start: "config_inv config_start"
  by (auto simp: config_inv_def config_start_def list_all2_conv_all_nth netif_inv_def)

lemma number_le: "number s limit = Some n \<Longrightarrow> n \<le> limit"
  by (auto simp: number_def split: if_splits option.splits)

lemma of_nat_u8_le: "n \<le> m \<Longrightarrow> m < 256 \<Longrightarrow> (of_nat n :: u8) \<le> of_nat m"
  by (simp add: word_le_nat_alt unat_of_nat take_bit_eq_mod)

lemma parse_prefix_len: "parse_prefix s = Some (ip, len) \<Longrightarrow> len \<le> 32"
  using of_nat_u8_le [of _ 32] by (auto simp: parse_prefix_def split: option.splits dest!: number_le)

lemma netif_value_inv:
  assumes "netif_value k value n = Some n'" "netif_inv seen n" "k = 1 \<or> k = 2 \<or> k = 3"
  shows "netif_inv (set_bit k seen) n'"
proof -
  have "parse_cidr value n = Some n' \<Longrightarrow> nif_prefix_len n' \<le> 32 \<and> cidr_host (nif_ip_be n') (nif_prefix_len n') \<and> nif_device n' = nif_device n"
    using parse_prefix_len by (auto simp: parse_cidr_def split: option.splits if_splits)
  then show ?thesis
    using assms by (auto simp: netif_value_def netif_inv_def device_ok_def bit_simps split: if_splits)
qed

lemma and_or_distrib_word: "(a OR b) AND c = (a AND c) OR (b AND c)" for a b c :: u32
  by (rule bit_word_eqI) (auto simp: bit_simps)

lemma route_value_inv:
  assumes "route_value b value r = Some r'" "route_inv seen r" "b = 1 \<or> b = 2 \<or> b = 4"
  shows "route_inv (seen OR of_nat b) r'"
  using assms parse_prefix_len
  by (auto simp: route_value_def route_inv_def device_ok_def Let_def prefix_mask_def and_or_distrib_word
      and.assoc split: if_splits option.splits)

lemma interface_section_inv: "interface_section s = Inr s' \<Longrightarrow> config_inv s \<Longrightarrow> config_inv s'"
  by (auto simp: interface_section_def config_inv_def split: if_splits)

lemma route_section_inv: "route_section s = Inr s' \<Longrightarrow> config_inv s \<Longrightarrow> config_inv s'"
  by (auto simp: route_section_def config_inv_def route_inv_def list_all2_append split: if_splits)

lemma route_key_inv:
  assumes "route_key key value s = Inr s'" "config_inv s" "cs_in_route s"
  shows "config_inv s'"
proof -
  let ?i = "length (cs_routes s) - 1"
  obtain b r where rb: "route_bit key = Some b" and r: "route_value b value (cs_routes s ! ?i) = Some r"
    and s': "s' = s\<lparr>cs_route_seen := (cs_route_seen s)[?i := cs_route_seen s ! ?i OR of_nat b], cs_routes := (cs_routes s)[?i := r]\<rparr>"
    using assms(1) by (auto simp: route_key_def Let_def split: if_splits option.splits)
  have b: "b = 1 \<or> b = 2 \<or> b = 4" using rb by (simp add: route_bit_def split: if_splits)
  have inv: "list_all2 route_inv (cs_route_seen s) (cs_routes s)" and i: "?i < length (cs_routes s)"
    using assms(2,3) by (auto simp: config_inv_def)
  then have "route_inv (cs_route_seen s ! ?i) (cs_routes s ! ?i)" by (simp add: list_all2_conv_all_nth)
  then have "route_inv (cs_route_seen s ! ?i OR of_nat b) r" using route_value_inv [OF r _ b] by simp
  then show ?thesis using assms(2) inv by (simp add: s' config_inv_def list_all2_update_cong)
qed

lemma config_inv_with:
  "config_inv s \<Longrightarrow> n \<le> 1023 \<Longrightarrow> config_inv (s\<lparr>cs_lcore := n\<rparr>)"
  "config_inv s \<Longrightarrow> b \<le> 1 \<Longrightarrow> config_inv (s\<lparr>cs_no_huge := b\<rparr>)"
  "config_inv s \<Longrightarrow> b \<le> 1 \<Longrightarrow> config_inv (s\<lparr>cs_forwarding := b\<rparr>)"
  "config_inv s \<Longrightarrow> config_inv (s\<lparr>cs_global_seen := w\<rparr>)"
  by (simp_all add: config_inv_def)

lemma global_value_inv:
  assumes "global_value k value s = Some s'" "config_inv s"
  shows "config_inv s'"
proof -
  have n: "number value 1 = Some n \<Longrightarrow> (of_nat n :: u8) \<le> 1" for n using number_le [of "value" 1 n] of_nat_u8_le [of n 1] by simp
  show ?thesis
    using assms n by (auto simp: global_value_def intro!: config_inv_with dest: number_le split: if_splits)
qed

lemma config_key_inv:
  assumes "config_key key value s = Inr s'" "config_inv s"
  shows "config_inv s'"
proof -
  obtain k where k: "first_index (\<lambda>x. x = key) config_keys = Some k"
    using assms(1) by (auto simp: config_key_def split: option.splits)
  then have "k < length config_keys" by (rule first_indexD)
  then have k6: "k < 6" by (simp add: config_keys_def)
  show ?thesis
  proof (cases "global_key k")
    case True
    then show ?thesis
      using assms k by (auto simp: config_key_def Let_def split: if_splits option.splits
          intro: global_value_inv config_inv_with)
  next
    case False
    then have k3: "k = 1 \<or> k = 2 \<or> k = 3" using k6 by (auto simp: global_key_def)
    let ?i = "cs_current s"
    obtain n where n: "netif_value k value (cs_interfaces s ! ?i) = Some n"
      and s': "s' = s\<lparr>cs_seen := (cs_seen s)[?i := set_bit k (cs_seen s ! ?i)], cs_interfaces := (cs_interfaces s)[?i := n]\<rparr>"
      using assms(1) k False by (auto simp: config_key_def Let_def split: if_splits option.splits)
    have inv: "list_all2 netif_inv (cs_seen s) (cs_interfaces s)" "?i < length (cs_interfaces s)"
      using assms(2) by (auto simp: config_inv_def)
    then have "netif_inv (cs_seen s ! ?i) (cs_interfaces s ! ?i)" by (simp add: list_all2_conv_all_nth)
    then have "netif_inv (set_bit k (cs_seen s ! ?i)) n" by (rule netif_value_inv [OF n _ k3])
    then show ?thesis using assms(2) inv(1) by (simp add: s' config_inv_def list_all2_update_cong)
  qed
qed

lemma config_line_inv: "config_line buffer eof s = Inr s' \<Longrightarrow> config_inv s \<Longrightarrow> config_inv s'"
  by (auto simp: config_line_def config_setting_def Let_def
      split: if_splits option.splits intro: interface_section_inv route_section_inv route_key_inv config_key_inv)

lemma config_lines_inv:
  "config_lines input failing n s = Inr (n', s') \<Longrightarrow> config_inv s \<Longrightarrow> config_inv s'"
proof (induction input failing n s rule: config_lines.induct)
  case (1 input failing n s)
  show ?case
  proof (cases "fgets CONFIG_LINE_MAX input failing")
    case None
    then show ?thesis using 1(2,3) by (simp add: config_lines.simps [of input])
  next
    case (Some l)
    obtain line eof rest where l: "l = (line, eof, rest)" by (cases l)
    obtain s1 where s1: "config_line line eof s = Inr s1" "config_lines rest failing (n + 1) s1 = Inr (n', s')"
      using 1(2) Some l by (auto simp: config_lines.simps [of input] split: sum.splits)
    show ?thesis
      by (rule 1(1) [OF Some l [symmetric] refl s1 config_line_inv [OF s1(1) 1(3)]])
  qed
qed

subsection \<open>The checks at the end\<close>

lemma first_failure_None: "first_failure f is = None \<longleftrightarrow> (\<forall>i\<in>set is. f i = None)"
  by (induction "is") (auto split: option.splits)

text \<open>A local address as the dataplane understands it: unicast, and neither the network nor its broadcast address.\<close>

lemma cidr_host_iff: "cidr_host ip len \<longleftrightarrow> unicast ip \<and> subnet_host ip len ip"
proof -
  have "len \<le> 30 \<longleftrightarrow> \<not> len \<ge> 31" by (simp add: word_le_nat_alt) arith
  then show ?thesis
    by (auto simp: cidr_host_def unicast_def subnet_host_def prefix_mask_def Let_def not_le)
qed

lemma add_static_routes_device:
  "add_static_routes nifs rs table = (None, table') \<Longrightarrow> r \<in> set rs \<Longrightarrow> \<exists>n\<in>set nifs. nif_device n = rcf_device r"
proof (induction rs arbitrary: table)
  case (Cons a rs)
  then show ?case by (auto split: option.splits prod.splits simp: first_index_Some)
qed simp

definition netif_wf :: "app_config \<Rightarrow> netif_config \<Rightarrow> bool" where
  "netif_wf conf n \<longleftrightarrow>
     device_ok (nif_device n) \<and> list_all device_char (nif_device n) \<and> nif_prefix_len n \<le> 32 \<and>
     unicast (nif_ip_be n) \<and> subnet_host (nif_ip_be n) (nif_prefix_len n) (nif_ip_be n) \<and>
     (if nif_pmd n = PMD_PHYS then cf_no_huge conf = 0 else length (nif_device n) < 16)"

definition route_wf :: "app_config \<Rightarrow> route_config \<Rightarrow> bool" where
  "route_wf conf r \<longleftrightarrow> rcf_prefix_len r \<le> 32 \<and>
     rcf_prefix_be r AND htonl (prefix_mask (rcf_prefix_len r)) = rcf_prefix_be r \<and>
     (\<exists>n\<in>set (cf_interfaces conf). nif_device n = rcf_device r)"

definition config_wf :: "app_config \<Rightarrow> bool" where
  "config_wf conf \<longleftrightarrow>
     cf_interfaces conf \<noteq> [] \<and> length (cf_interfaces conf) \<le> NETIF_MAX \<and> length (cf_routes conf) \<le> ROUTE_CAPACITY \<and>
     cf_lcore conf \<le> 1023 \<and> cf_no_huge conf \<le> 1 \<and> cf_ipv4_forwarding conf \<le> 1 \<and>
     list_all (netif_wf conf) (cf_interfaces conf) \<and> list_all (route_wf conf) (cf_routes conf) \<and>
     distinct (map nif_device (cf_interfaces conf)) \<and> distinct (map nif_ip_be (cf_interfaces conf)) \<and>
     fst (route_config_init conf []) = None"

lemma and_14:
  assumes "(w :: u32) AND 14 = 14"
  shows "bit w 1" "bit w 2" "bit w 3"
proof -
  have e: "bit (w AND 14) n = bit (14 :: u32) n" for n using assms by simp
  show "bit w 1" using e [of 1] by (simp add: bit_simps)
  show "bit w 2" using e [of 2] by (simp add: bit_simps)
  show "bit w 3" using e [of 3] by (simp add: bit_simps)
qed

lemma and_3:
  assumes "(w :: u32) AND 3 = 3"
  shows "w AND 1 \<noteq> 0" "w AND 2 \<noteq> 0"
proof -
  have "w AND 1 = (w AND 3) AND 1" "w AND 2 = (w AND 3) AND 2" by (simp_all add: and.assoc)
  then show "w AND 1 \<noteq> 0" "w AND 2 \<noteq> 0" using assms by simp_all
qed

lemma check_interface_None:
  assumes "config_inv s" "i < NETIF_MAX" "check_interface s i = None" "cf_no_huge conf = cs_no_huge s"
  shows "netif_wf conf (cs_interfaces s ! i)"
    "\<And>j. j < i \<Longrightarrow> nif_device (cs_interfaces s ! j) \<noteq> nif_device (cs_interfaces s ! i) \<and>
       nif_ip_be (cs_interfaces s ! j) \<noteq> nif_ip_be (cs_interfaces s ! i)"
proof -
  let ?n = "cs_interfaces s ! i"
  have inv: "netif_inv (cs_seen s ! i) ?n" and len: "length (cs_interfaces s) = NETIF_MAX"
    using assms(1,2) by (auto simp: config_inv_def list_all2_conv_all_nth)
  have c: "cs_seen s ! i AND 14 = 14" "nif_pmd ?n \<noteq> PMD_PHYS \<longrightarrow> length (nif_device ?n) < 16"
    "nif_pmd ?n = PMD_PHYS \<longrightarrow> cs_no_huge s = 0"
    "List.find (\<lambda>other. nif_device ?n = nif_device other \<or> nif_ip_be ?n = nif_ip_be other) (take i (cs_interfaces s)) = None"
    using assms(3) by (auto simp: check_interface_def Let_def split: if_splits option.splits)
  show "netif_wf conf ?n"
    using inv and_14 [OF c(1)] c(2,3) assms(4) by (auto simp: netif_wf_def netif_inv_def cidr_host_iff)
  show "nif_device (cs_interfaces s ! j) \<noteq> nif_device ?n \<and> nif_ip_be (cs_interfaces s ! j) \<noteq> nif_ip_be ?n" if "j < i" for j
  proof -
    have "cs_interfaces s ! j \<in> set (take i (cs_interfaces s))"
      using that assms(2) len by (auto simp: in_set_conv_nth intro!: exI [of _ j])
    then show ?thesis using c(4) by (auto simp: find_None_iff)
  qed
qed

lemma distinct_map_less:
  assumes "\<And>i j. j < i \<Longrightarrow> i < length xs \<Longrightarrow> f (xs ! j) \<noteq> f (xs ! i)"
  shows "distinct (map f xs)"
  unfolding distinct_conv_nth by (metis assms length_map linorder_neqE_nat nth_map)

lemma config_finish_wf:
  assumes inv: "config_inv s" and fin: "config_finish failing s = Inr conf"
  shows "config_wf conf"
proof -
  have conf: "conf = config_of s" and ok: "fst (route_config_init conf []) = None"
    and i: "\<And>i. i < length (cf_interfaces conf) \<Longrightarrow> check_interface s i = None"
    and r: "\<And>i. i < length (cf_routes conf) \<Longrightarrow> check_route s i = None"
    using fin by (auto simp: config_finish_def Let_def first_failure_None split: if_splits option.splits)
  have f: "cf_interfaces conf = take (if cs_sectioned s then cs_netif_count s else 1) (cs_interfaces s)" "cf_routes conf = cs_routes s"
    "cf_lcore conf = cs_lcore s" "cf_no_huge conf = cs_no_huge s" "cf_ipv4_forwarding conf = cs_forwarding s"
    by (simp_all add: conf config_of_def app_config_defaults_def)
  have n: "length (cf_interfaces conf) \<le> NETIF_MAX" "cf_interfaces conf \<noteq> []"
    using inv unfolding f(1) by (auto simp: config_inv_def)
  have nth: "i < length (cf_interfaces conf) \<Longrightarrow> cf_interfaces conf ! i = cs_interfaces s ! i" for i by (simp add: f(1))
  note c = check_interface_None [OF inv _ i f(4)]
  have "list_all (netif_wf conf) (cf_interfaces conf)"
    using c(1) n(1) nth by (auto simp: list_all_length)
  moreover have "distinct (map nif_device (cf_interfaces conf))" "distinct (map nif_ip_be (cf_interfaces conf))"
    by (rule distinct_map_less; use c(2) n(1) nth in force)+
  moreover have "list_all (route_wf conf) (cf_routes conf)"
  proof (unfold list_all_length, intro allI impI)
    fix k assume k: "k < length (cf_routes conf)"
    have "route_inv (cs_route_seen s ! k) (cs_routes s ! k)"
      using inv k by (simp add: config_inv_def list_all2_conv_all_nth f(2))
    moreover have "cs_route_seen s ! k AND 3 = 3" using r [OF k] by (simp add: check_route_def split: if_splits)
    moreover have "\<exists>n\<in>set (cf_interfaces conf). nif_device n = rcf_device (cf_routes conf ! k)"
      using ok k by (auto simp: route_config_init_def split: if_splits prod.splits option.splits
          dest!: add_static_routes_device [where r = "cf_routes conf ! k"])
    ultimately show "route_wf conf (cf_routes conf ! k)"
      using and_3 [of "cs_route_seen s ! k"] by (auto simp: route_wf_def route_inv_def f(2))
  qed
  ultimately show ?thesis
    using inv n ok by (simp add: config_wf_def f(2-5) config_inv_def)
qed

end
