(* ===== verification/Config_Complete.thy ===== *)
theory Config_Complete
  imports Config_Safety
begin

text \<open>
  Every well-formed configuration can be written as a file that loads to it; with the converse of
  theory \<open>Config_Safety\<close>, the parser accepts exactly the well-formed configurations.
\<close>

subsection \<open>Printing\<close>

fun nat_text :: "nat \<Rightarrow> string" where
  "nat_text n = (if n < 10 then [char_of (48 + n)] else nat_text (n div 10) @ [char_of (48 + n mod 10)])"

declare nat_text.simps [simp del]

definition plain_char :: "char \<Rightarrow> bool" where
  "plain_char c \<longleftrightarrow> 33 \<le> (of_char c :: nat)"

abbreviation plain :: "string \<Rightarrow> bool" where
  "plain \<equiv> list_all plain_char"

lemma nat_text_digits: "list_all isdigit (nat_text n)" "nat_text n \<noteq> []"
  by (induction n rule: nat_text.induct) (subst nat_text.simps; simp)+

lemma decimal_snoc: "decimal (s @ [c]) = decimal s * 10 + digit c"
  by (simp add: decimal_def)

lemma decimal_nat_text: "decimal (nat_text n) = n"
proof (induction n rule: nat_text.induct)
  case (1 n)
  then show ?case by (subst nat_text.simps) (simp add: decimal_snoc, simp add: decimal_def)
qed

lemma number_nat_text: "n \<le> limit \<Longrightarrow> limit < 2 ^ 64 \<Longrightarrow> number (nat_text n) limit = Some n"
  by (simp add: number_def nat_text_digits strtoul_def decimal_nat_text)

lemma isdigit_plain: "isdigit c \<Longrightarrow> plain_char c" and device_plain: "device_char c \<Longrightarrow> plain_char c"
  by (auto simp: isdigit_def plain_char_def device_char_def isalnum_def)

lemma plain_nat_text: "plain (nat_text n)"
  using nat_text_digits(1) by (auto simp: list_all_iff intro: isdigit_plain)

lemma octet_text_digits: "n \<le> 255 \<Longrightarrow> list_all isdigit (octet_text n)"
proof -
  assume "n \<le> 255"
  then have "n div 10 div 10 < 10" "n < 100 \<Longrightarrow> n div 10 < 10" by auto
  then show ?thesis by (simp add: octet_text_def)
qed

lemma inet_ntop_chars: "list_all (\<lambda>c. isdigit c \<or> c = CHR ''.'') (inet_ntop ip)"
proof -
  have u: "unat (w :: u8) \<le> 255" for w using unsigned_less [of w] by (simp add: less_Suc_eq_le [symmetric])
  have "list_all (\<lambda>c. isdigit c \<or> c = CHR ''.'') (octet_text (unat w))" for w :: u8
    using octet_text_digits [OF u, of w] by (simp add: list_all_iff)
  then show ?thesis by (simp add: inet_ntop_def le32_bytes_def)
qed

lemma plain_inet_ntop: "plain (inet_ntop ip)"
  using inet_ntop_chars [of ip] by (auto simp: list_all_iff plain_char_def isdigit_def)

lemma inet_ntop_no_slash: "CHR ''/'' \<notin> set (inet_ntop ip)"
  using inet_ntop_chars [of ip] by (auto simp: list_all_iff isdigit_def)

definition prefix_text :: "u32 \<Rightarrow> u8 \<Rightarrow> string" where
  "prefix_text ip len = inet_ntop ip @ ''/'' @ nat_text (unat len)"

lemma parse_prefix_text: "len \<le> 32 \<Longrightarrow> parse_prefix (prefix_text ip len) = Some (ip, len)"
proof -
  assume "len \<le> 32"
  then have "unat len \<le> 32" by (simp add: word_le_nat_alt)
  then show ?thesis
    by (simp add: parse_prefix_def prefix_text_def inet_ntop_no_slash number_nat_text)
qed

lemma plain_prefix_text: "plain (prefix_text ip len)"
  by (simp add: prefix_text_def plain_inet_ntop plain_nat_text) (simp add: plain_char_def)

subsection \<open>Lines\<close>

lemma plain_no_space: "plain t \<Longrightarrow> c \<in> set t \<Longrightarrow> \<not> isspace c \<and> c \<noteq> NUL \<and> c \<noteq> NEWLINE"
  by (auto simp: list_all_iff plain_char_def isspace_def)

lemma dropWhile_plain: "plain t \<Longrightarrow> dropWhile isspace t = t"
  using plain_no_space [of t] by (cases t) auto

lemma trim_plain: "plain t \<Longrightarrow> trim t = t"
  by (simp add: trim_def dropWhile_plain)

lemma trim_line: "plain t \<Longrightarrow> trim (t @ [NEWLINE]) = t"
proof -
  assume t: "plain t"
  have sp: "isspace NEWLINE" by (simp add: isspace_def)
  have "dropWhile isspace (t @ [NEWLINE]) = (if t = [] then [] else t @ [NEWLINE])"
    using plain_no_space [OF t] sp by (cases t) auto
  then show ?thesis using t by (simp add: trim_def sp dropWhile_plain)
qed

lemma fgets_line:
  assumes "plain t" "length t < CONFIG_LINE_MAX"
  shows "fgets CONFIG_LINE_MAX (t @ NEWLINE # rest) failing = Some (t @ [NEWLINE], False, rest)"
proof -
  have "first_index (\<lambda>c. c = NEWLINE) (take CONFIG_LINE_MAX (t @ NEWLINE # rest)) = Some (length t)"
    using assms(2) plain_no_space [OF assms(1)]
    by (auto simp: first_index_Some nth_append take_Cons' min_def)
  then have "line_break CONFIG_LINE_MAX (t @ NEWLINE # rest) = length t + 1" by (simp add: line_break_def)
  then show ?thesis by (simp add: fgets_def Let_def)
qed

fun run_lines :: "string list \<Rightarrow> config_state \<Rightarrow> string + config_state" where
  "run_lines [] s = Inr s"
| "run_lines (l # ls) s = (case config_line (l @ [NEWLINE]) False s of Inl why \<Rightarrow> Inl why | Inr s \<Rightarrow> run_lines ls s)"

definition lines_text :: "string list \<Rightarrow> string" where
  "lines_text ls = concat (map (\<lambda>l. l @ [NEWLINE]) ls)"

definition line_ok :: "string \<Rightarrow> bool" where
  "line_ok l \<longleftrightarrow> plain l \<and> length l < CONFIG_LINE_MAX"

lemma run_lines_append:
  "run_lines ls s = Inr s' \<Longrightarrow> run_lines (ls @ ls') s = run_lines ls' s'"
  by (induction ls arbitrary: s) (auto split: sum.splits)

lemma config_lines_text:
  "list_all line_ok ls \<Longrightarrow> run_lines ls s = Inr s' \<Longrightarrow>
     config_lines (lines_text ls) failing n s = Inr (n + length ls, s')"
proof (induction ls arbitrary: n s)
  case Nil
  then show ?case by (simp add: lines_text_def config_lines.simps fgets_def)
next
  case (Cons l ls)
  have "fgets CONFIG_LINE_MAX (lines_text (l # ls)) failing = Some (l @ [NEWLINE], False, lines_text ls)"
    using fgets_line [of l] Cons.prems(1) by (simp add: lines_text_def line_ok_def)
  then show ?case using Cons by (auto simp: config_lines.simps [of "lines_text (l # ls)"] split: sum.splits)
qed

lemma config_line_plain:
  assumes "plain t"
  shows "config_line (t @ [NEWLINE]) False s =
    (if t = [] \<or> hd t = CHR ''#'' then Inr s else if t = ''[interface]'' then interface_section s
     else if t = ''[route]'' then route_section s else config_setting t s)"
proof -
  have "c_string (t @ [NEWLINE]) = t @ [NEWLINE]"
    using plain_no_space [OF assms] by (simp add: c_string_def takeWhile_eq_all_conv)
  then show ?thesis by (simp add: config_line_def Let_def trim_line [OF assms])
qed

definition setting_key :: "string \<Rightarrow> bool" where
  "setting_key key \<longleftrightarrow> list_all plain_char key \<and> CHR ''='' \<notin> set key \<and> key \<noteq> [] \<and> hd key \<noteq> CHR ''#'' \<and> hd key \<noteq> CHR ''[''"

lemma config_line_setting:
  assumes "setting_key key" "plain v"
  shows "config_line ((key @ CHR ''='' # v) @ [NEWLINE]) False s =
    (if cs_in_route s then route_key key v s else config_key key v s)"
proof -
  have p: "plain (key @ CHR ''='' # v)" "plain key" using assms by (simp_all add: setting_key_def plain_char_def)
  have h: "hd (key @ CHR ''='' # v) = hd key" "key \<noteq> []" using assms by (auto simp: setting_key_def)
  have n: "key @ CHR ''='' # v \<noteq> ''[interface]''" "key @ CHR ''='' # v \<noteq> ''[route]''"
    using assms(1) by (cases key; simp add: setting_key_def)+
  show ?thesis
    unfolding config_line_plain [OF p(1)] using n h assms p
    by (simp add: config_setting_def setting_key_def trim_plain)
qed

lemma setting_keys [simp]:
  "setting_key ''lcore''" "setting_key ''pmd''" "setting_key ''device''" "setting_key ''ip''"
  "setting_key ''no_huge''" "setting_key ''ipv4_forwarding''" "setting_key ''prefix''" "setting_key ''gateway''"
  by (simp_all add: setting_key_def plain_char_def)

subsection \<open>The printed configuration\<close>

definition setting_line :: "string \<Rightarrow> string \<Rightarrow> string" where
  "setting_line key v = key @ CHR ''='' # v"

fun pmd_text :: "app_pmd \<Rightarrow> string" where
  "pmd_text PMD_TAP = ''tap''" | "pmd_text PMD_AFPKT = ''af_packet''" | "pmd_text PMD_PHYS = ''physical''"

definition netif_lines :: "netif_config \<Rightarrow> string list" where
  "netif_lines n = [''[interface]'', setting_line ''pmd'' (pmd_text (nif_pmd n)), setting_line ''device'' (nif_device n),
     setting_line ''ip'' (prefix_text (nif_ip_be n) (nif_prefix_len n))]"

definition route_lines :: "route_config \<Rightarrow> string list" where
  "route_lines r = [''[route]'', setting_line ''prefix'' (prefix_text (rcf_prefix_be r) (rcf_prefix_len r)),
     setting_line ''device'' (rcf_device r)] @
     (if rcf_gateway_be r = 0 then [] else [setting_line ''gateway'' (inet_ntop (rcf_gateway_be r))])"

definition global_lines :: "app_config \<Rightarrow> string list" where
  "global_lines conf = [setting_line ''lcore'' (nat_text (cf_lcore conf)), setting_line ''no_huge'' (nat_text (unat (cf_no_huge conf))),
     setting_line ''ipv4_forwarding'' (nat_text (unat (cf_ipv4_forwarding conf)))]"

definition config_text :: "app_config \<Rightarrow> string" where
  "config_text conf = lines_text (global_lines conf @ concat (map netif_lines (cf_interfaces conf)) @
     concat (map route_lines (cf_routes conf)))"

lemma plain_pmd_text: "plain (pmd_text p)"
  by (cases p) (simp_all add: plain_char_def)

text \<open>The line of a key in the state that precedes it.\<close>

lemma run_setting:
  assumes "setting_key key" "plain v"
    "(if cs_in_route s then route_key key v s else config_key key v s) = Inr s'"
  shows "run_lines (setting_line key v # ls) s = run_lines ls s'"
  by (simp only: run_lines.simps setting_line_def config_line_setting [OF assms(1,2)] assms(3) sum.case)

lemma config_key_at:
  assumes "config_keys ! k = key" "k < length config_keys"
  shows "first_index (\<lambda>x. x = key) config_keys = Some k"
proof -
  have "distinct config_keys" by (simp add: config_keys_def)
  then show ?thesis using assms by (auto simp: first_index_Some nth_eq_iff_index_eq)
qed

lemma config_key_index:
  "first_index (\<lambda>x. x = ''lcore'') config_keys = Some 0" "first_index (\<lambda>x. x = ''pmd'') config_keys = Some 1"
  "first_index (\<lambda>x. x = ''device'') config_keys = Some 2" "first_index (\<lambda>x. x = ''ip'') config_keys = Some 3"
  "first_index (\<lambda>x. x = ''no_huge'') config_keys = Some 4" "first_index (\<lambda>x. x = ''ipv4_forwarding'') config_keys = Some 5"
  by (simp_all add: config_keys_def)

lemma run_globals:
  assumes "cf_lcore conf \<le> 1023" "cf_no_huge conf \<le> 1" "cf_ipv4_forwarding conf \<le> 1"
  shows "\<exists>g. run_lines (global_lines conf @ ls) config_start = run_lines ls
    (config_start\<lparr>cs_lcore := cf_lcore conf, cs_no_huge := cf_no_huge conf, cs_forwarding := cf_ipv4_forwarding conf, cs_global_seen := g\<rparr>)"
proof -
  have u: "unat (cf_no_huge conf) \<le> 1" "unat (cf_ipv4_forwarding conf) \<le> 1" using assms(2,3) by (simp_all add: word_le_nat_alt)
  let ?s1 = "config_start\<lparr>cs_lcore := cf_lcore conf, cs_global_seen := set_bit 0 0\<rparr>"
  let ?s2 = "?s1\<lparr>cs_no_huge := cf_no_huge conf, cs_global_seen := set_bit 4 (set_bit 0 0)\<rparr>"
  let ?s3 = "?s2\<lparr>cs_forwarding := cf_ipv4_forwarding conf, cs_global_seen := set_bit 5 (set_bit 4 (set_bit 0 0))\<rparr>"
  have 1: "config_key ''lcore'' (nat_text (cf_lcore conf)) config_start = Inr ?s1"
    using assms(1) by (simp add: config_key_def config_key_index global_key_def global_value_def config_start_def number_nat_text Let_def)
  have 2: "config_key ''no_huge'' (nat_text (unat (cf_no_huge conf))) ?s1 = Inr ?s2"
    using u(1) by (simp add: config_key_def config_key_index global_key_def global_value_def config_start_def number_nat_text Let_def bit_simps)
  have 3: "config_key ''ipv4_forwarding'' (nat_text (unat (cf_ipv4_forwarding conf))) ?s2 = Inr ?s3"
    using u(2) by (simp add: config_key_def config_key_index global_key_def global_value_def config_start_def number_nat_text Let_def bit_simps)
  have out: "cs_in_route config_start = False" by (simp add: config_start_def)
  have "run_lines (global_lines conf @ ls) config_start = run_lines (tl (global_lines conf) @ ls) ?s1"
    unfolding global_lines_def append_Cons list.sel by (rule run_setting [OF setting_keys(1) plain_nat_text]) (use 1 in \<open>simp add: out\<close>)
  also have "\<dots> = run_lines (tl (tl (global_lines conf)) @ ls) ?s2"
    unfolding global_lines_def append_Cons list.sel by (rule run_setting [OF setting_keys(5) plain_nat_text]) (use 2 in \<open>simp add: out\<close>)
  also have "\<dots> = run_lines ls ?s3"
    unfolding global_lines_def append_Cons append_Nil list.sel
    by (rule run_setting [OF setting_keys(6) plain_nat_text]) (use 3 in \<open>simp add: out\<close>)
  finally have "run_lines (global_lines conf @ ls) config_start = run_lines ls ?s3" .
  moreover have "?s3 = config_start\<lparr>cs_lcore := cf_lcore conf, cs_no_huge := cf_no_huge conf,
      cs_forwarding := cf_ipv4_forwarding conf, cs_global_seen := set_bit 5 (set_bit 4 (set_bit 0 0))\<rparr>" by simp
  ultimately show ?thesis by metis
qed

lemma set_bits_14: "set_bit 3 (set_bit 2 (set_bit 1 (0 :: u32))) = 14"
  by (rule bit_word_eqI) (auto simp: bit_simps set_bit_eq)

lemma run_netif:
  assumes n: "device_ok (nif_device n)" "list_all device_char (nif_device n)" "nif_prefix_len n \<le> 32"
      "cidr_host (nif_ip_be n) (nif_prefix_len n)"
    and s: "i = cs_netif_count s" "i < NETIF_MAX" "length (cs_seen s) = NETIF_MAX" "length (cs_interfaces s) = NETIF_MAX"
      "cs_seen s ! i = 0" "cs_sectioned s \<or> cs_seen s ! 0 = 0"
  shows "run_lines (netif_lines n @ ls) s = run_lines ls
    (s\<lparr>cs_current := i, cs_netif_count := i + 1, cs_sectioned := True, cs_in_route := False,
       cs_seen := (cs_seen s)[i := 14], cs_interfaces := (cs_interfaces s)[i := n]\<rparr>)"
proof -
  let ?s0 = "s\<lparr>cs_current := i, cs_netif_count := i + 1, cs_sectioned := True, cs_in_route := False\<rparr>"
  let ?n1 = "(cs_interfaces s ! i)\<lparr>nif_pmd := nif_pmd n\<rparr>" and ?n2 = "(cs_interfaces s ! i)\<lparr>nif_pmd := nif_pmd n, nif_device := nif_device n\<rparr>"
  let ?s1 = "?s0\<lparr>cs_seen := (cs_seen s)[i := set_bit 1 0], cs_interfaces := (cs_interfaces s)[i := ?n1]\<rparr>"
  let ?s2 = "?s0\<lparr>cs_seen := (cs_seen s)[i := set_bit 2 (set_bit 1 0)], cs_interfaces := (cs_interfaces s)[i := ?n2]\<rparr>"
  let ?s3 = "?s0\<lparr>cs_seen := (cs_seen s)[i := 14], cs_interfaces := (cs_interfaces s)[i := n]\<rparr>"
  note key = config_key_def config_key_index global_key_def netif_value_def Let_def
  have dev: "plain (nif_device n)" using n(2) by (auto simp: list_all_iff intro: device_plain)
  have full: "m\<lparr>nif_pmd := nif_pmd n, nif_device := nif_device n, nif_ip_be := nif_ip_be n, nif_prefix_len := nif_prefix_len n\<rparr> = n" for m
    by simp
  have 0: "config_line (''[interface]'' @ [NEWLINE]) False s = Inr ?s0"
    by (subst config_line_plain) (use s in \<open>auto simp: plain_char_def interface_section_def\<close>)
  have 1: "config_key ''pmd'' (pmd_text (nif_pmd n)) ?s0 = Inr ?s1"
    using s by (cases "nif_pmd n") (simp_all add: key)
  have 2: "config_key ''device'' (nif_device n) ?s1 = Inr ?s2"
    using s n(1,2) by (simp add: key device_ok_def bit_simps)
  have 3: "config_key ''ip'' (prefix_text (nif_ip_be n) (nif_prefix_len n)) ?s2 = Inr ?s3"
    using s n(3,4) by (simp add: full key parse_cidr_def parse_prefix_text bit_simps set_bits_14)
  have "run_lines (netif_lines n @ ls) s = run_lines (tl (netif_lines n) @ ls) ?s0"
    unfolding netif_lines_def append_Cons list.sel by (simp only: run_lines.simps 0 sum.case)
  also have "\<dots> = run_lines (tl (tl (netif_lines n)) @ ls) ?s1"
    unfolding netif_lines_def append_Cons list.sel by (rule run_setting [OF setting_keys(2) plain_pmd_text]) (use 1 in simp)
  also have "\<dots> = run_lines (tl (tl (tl (netif_lines n))) @ ls) ?s2"
    unfolding netif_lines_def append_Cons list.sel by (rule run_setting [OF setting_keys(3) dev]) (use 2 in simp)
  also have "\<dots> = run_lines ls ?s3"
    unfolding netif_lines_def append_Cons append_Nil list.sel
    by (rule run_setting [OF setting_keys(4) plain_prefix_text]) (use 3 in simp)
  finally show ?thesis by simp
qed

lemma memcpy_at_Nil: "memcpy_at xs i [] = xs"
  by (simp add: memcpy_at_def)

lemma run_netifs:
  assumes "list_all (\<lambda>n. device_ok (nif_device n) \<and> list_all device_char (nif_device n) \<and> nif_prefix_len n \<le> 32 \<and>
      cidr_host (nif_ip_be n) (nif_prefix_len n)) ns"
    and "i = cs_netif_count s" "i + length ns \<le> NETIF_MAX" "length (cs_seen s) = NETIF_MAX" "length (cs_interfaces s) = NETIF_MAX"
      "drop i (cs_seen s) = replicate (NETIF_MAX - i) 0" "cs_sectioned s \<or> i = 0" "\<not> cs_in_route s"
  shows "\<exists>c. run_lines (concat (map netif_lines ns) @ ls) s = run_lines ls
    (s\<lparr>cs_current := c, cs_netif_count := i + length ns, cs_sectioned := cs_sectioned s \<or> ns \<noteq> [],
       cs_in_route := False, cs_seen := memcpy_at (cs_seen s) i (replicate (length ns) 14),
       cs_interfaces := memcpy_at (cs_interfaces s) i ns\<rparr>)"
  using assms
proof (induction ns arbitrary: s i)
  case Nil
  have out: "s\<lparr>cs_in_route := False\<rparr> = s" using Nil(8) by simp
  show ?case using Nil by (intro exI [of _ "cs_current s"]) (simp add: memcpy_at_Nil out)
next
  case (Cons n ns)
  let ?s = "s\<lparr>cs_current := i, cs_netif_count := i + 1, cs_sectioned := True, cs_in_route := False,
       cs_seen := (cs_seen s)[i := 14], cs_interfaces := (cs_interfaces s)[i := n]\<rparr>"
  have nth: "cs_seen s ! i = 0"
    using Cons.prems(3,4) arg_cong [OF Cons.prems(6), of "\<lambda>xs. xs ! 0"] by simp
  have run: "run_lines (concat (map netif_lines (n # ns)) @ ls) s = run_lines (concat (map netif_lines ns) @ ls) ?s"
  proof -
    have "run_lines (netif_lines n @ concat (map netif_lines ns) @ ls) s = run_lines (concat (map netif_lines ns) @ ls) ?s"
      by (rule run_netif) (use Cons.prems nth in auto)
    then show ?thesis by simp
  qed
  have "drop (i + 1) (cs_seen ?s) = drop 1 (drop i (cs_seen s))" by (simp add: drop_update_cancel)
  also have "\<dots> = replicate (NETIF_MAX - (i + 1)) 0" unfolding Cons.prems(6) by simp
  finally have "drop (i + 1) (cs_seen ?s) = replicate (NETIF_MAX - (i + 1)) 0" .
  then obtain c where "run_lines (concat (map netif_lines ns) @ ls) ?s = run_lines ls
    (?s\<lparr>cs_current := c, cs_netif_count := i + 1 + length ns, cs_sectioned := cs_sectioned ?s \<or> ns \<noteq> [],
       cs_in_route := False, cs_seen := memcpy_at (cs_seen ?s) (i + 1) (replicate (length ns) 14),
       cs_interfaces := memcpy_at (cs_interfaces ?s) (i + 1) ns\<rparr>)"
    using Cons.IH [of "i + 1" ?s] Cons.prems by auto
  then have after: "run_lines (concat (map netif_lines (n # ns)) @ ls) s = run_lines ls
    (s\<lparr>cs_current := c, cs_netif_count := i + 1 + length ns, cs_sectioned := True, cs_in_route := False,
       cs_seen := memcpy_at ((cs_seen s)[i := 14]) (i + 1) (replicate (length ns) 14),
       cs_interfaces := memcpy_at ((cs_interfaces s)[i := n]) (i + 1) ns\<rparr>)"
    unfolding run by simp
  have shift: "memcpy_at (xs[i := x]) (i + 1) ys = memcpy_at xs i (x # ys)" if "i < length xs" for xs ys x
    using that by (simp add: memcpy_at_def take_Suc_conv_app_nth upd_conv_take_nth_drop add.commute)
  have i: "i < length (cs_seen s)" "i < length (cs_interfaces s)" using Cons.prems(3,4,5) by simp_all
  show ?case
    unfolding after shift [OF i(1)] shift [OF i(2)] by (intro exI [of _ c]) simp
qed

lemma run_route:
  assumes r: "rcf_prefix_len r \<le> 32" "rcf_prefix_be r AND htonl (prefix_mask (rcf_prefix_len r)) = rcf_prefix_be r"
      "device_ok (rcf_device r)" "list_all device_char (rcf_device r)"
    and s: "length (cs_routes s) < ROUTE_CAPACITY" "length (cs_route_seen s) = length (cs_routes s)"
  shows "\<exists>w. w AND 3 = 3 \<and> run_lines (route_lines r @ ls) s = run_lines ls
    (s\<lparr>cs_in_route := True, cs_route_seen := cs_route_seen s @ [w], cs_routes := cs_routes s @ [r]\<rparr>)"
proof -
  let ?r1 = "zero_route\<lparr>rcf_prefix_be := rcf_prefix_be r, rcf_prefix_len := rcf_prefix_len r\<rparr>"
  let ?r2 = "zero_route\<lparr>rcf_prefix_be := rcf_prefix_be r, rcf_prefix_len := rcf_prefix_len r, rcf_device := rcf_device r\<rparr>"
  let ?s = "\<lambda>w x. s\<lparr>cs_in_route := True, cs_route_seen := cs_route_seen s @ [w], cs_routes := cs_routes s @ [x]\<rparr>"
  note key = route_key_def route_bit_def route_value_def Let_def
  have last: "(cs_route_seen s @ [w])[length (cs_routes s) := v] = cs_route_seen s @ [v]" "(cs_route_seen s @ [w]) ! length (cs_routes s) = w" for v w
    using s(2) by (simp_all add: list_update_append nth_append)
  have dev: "plain (rcf_device r)" using r(4) by (auto simp: list_all_iff intro: device_plain)
  have pv: "route_value 1 (prefix_text (rcf_prefix_be r) (rcf_prefix_len r)) x =
      Some (x\<lparr>rcf_prefix_be := rcf_prefix_be r AND htonl (prefix_mask (rcf_prefix_len r)), rcf_prefix_len := rcf_prefix_len r\<rparr>)" for x
    unfolding route_value_def prefix_mask_def Let_def parse_prefix_text [OF r(1)] by simp
  have 0: "config_line (''[route]'' @ [NEWLINE]) False s = Inr (?s 0 zero_route)"
    by (subst config_line_plain) (use s in \<open>auto simp: plain_char_def route_section_def\<close>)
  have 1: "route_key ''prefix'' (prefix_text (rcf_prefix_be r) (rcf_prefix_len r)) (?s 0 zero_route) = Inr (?s 1 ?r1)"
    using r(2) by (simp add: route_key_def route_bit_def Let_def last pv [simplified])
  have 2: "route_key ''device'' (rcf_device r) (?s 1 ?r1) = Inr (?s 3 ?r2)"
    using r(3) by (simp add: key last device_ok_def)
  have "run_lines (route_lines r @ ls) s = run_lines (tl (route_lines r) @ ls) (?s 0 zero_route)"
    unfolding route_lines_def append_Cons list.sel by (simp only: run_lines.simps 0 sum.case)
  also have "\<dots> = run_lines (tl (tl (route_lines r)) @ ls) (?s 1 ?r1)"
    unfolding route_lines_def append_Cons list.sel
    by (rule run_setting [OF setting_keys(7) plain_prefix_text]) (use 1 in simp)
  also have "\<dots> = run_lines (tl (tl (tl (route_lines r))) @ ls) (?s 3 ?r2)"
    unfolding route_lines_def append_Cons list.sel by (rule run_setting [OF setting_keys(3) dev]) (use 2 in simp)
  also have "\<exists>w. w AND 3 = 3 \<and> \<dots> = run_lines ls (?s w r)"
  proof (cases "rcf_gateway_be r = 0")
    case True
    then have "?r2 = r" by (simp add: zero_route_def)
    then show ?thesis using True by (intro exI [of _ 3]) (simp add: route_lines_def)
  next
    case False
    have full: "?r2\<lparr>rcf_gateway_be := rcf_gateway_be r\<rparr> = r" by (simp add: zero_route_def)
    have 3: "route_key ''gateway'' (inet_ntop (rcf_gateway_be r)) (?s 3 ?r2) = Inr (?s 7 r)"
      using False full by (simp add: key last)
    have "run_lines (tl (tl (tl (route_lines r))) @ ls) (?s 3 ?r2) = run_lines ls (?s 7 r)"
      using False unfolding route_lines_def append_Cons append_Nil list.sel
      by (simp only: if_False append_Cons append_Nil) (rule run_setting [OF setting_keys(8) plain_inet_ntop], use 3 in simp)
    then show ?thesis by (intro exI [of _ 7]) simp
  qed
  finally show ?thesis .
qed

lemma run_routes:
  assumes "list_all (\<lambda>r. rcf_prefix_len r \<le> 32 \<and> rcf_prefix_be r AND htonl (prefix_mask (rcf_prefix_len r)) = rcf_prefix_be r \<and>
      device_ok (rcf_device r) \<and> list_all device_char (rcf_device r)) rs"
    and "length (cs_routes s) + length rs \<le> ROUTE_CAPACITY" "length (cs_route_seen s) = length (cs_routes s)"
  shows "\<exists>ws c. length ws = length rs \<and> (\<forall>w\<in>set ws. w AND 3 = 3) \<and>
    run_lines (concat (map route_lines rs)) s =
      Inr (s\<lparr>cs_in_route := c, cs_route_seen := cs_route_seen s @ ws, cs_routes := cs_routes s @ rs\<rparr>)"
  using assms
proof (induction rs arbitrary: s)
  case Nil
  then show ?case by (intro exI [of _ "[]"] exI [of _ "cs_in_route s"]) simp
next
  case (Cons r rs)
  obtain w where w: "w AND 3 = 3" "run_lines (route_lines r @ concat (map route_lines rs)) s = run_lines (concat (map route_lines rs))
      (s\<lparr>cs_in_route := True, cs_route_seen := cs_route_seen s @ [w], cs_routes := cs_routes s @ [r]\<rparr>)"
    using run_route [of r s "concat (map route_lines rs)"] Cons.prems by auto
  obtain ws c where "length ws = length rs" "\<forall>w\<in>set ws. w AND 3 = 3"
      "run_lines (concat (map route_lines rs)) (s\<lparr>cs_in_route := True, cs_route_seen := cs_route_seen s @ [w], cs_routes := cs_routes s @ [r]\<rparr>) =
       Inr (s\<lparr>cs_in_route := c, cs_route_seen := (cs_route_seen s @ [w]) @ ws, cs_routes := (cs_routes s @ [r]) @ rs\<rparr>)"
    using Cons.IH [of "s\<lparr>cs_in_route := True, cs_route_seen := cs_route_seen s @ [w], cs_routes := cs_routes s @ [r]\<rparr>"] Cons.prems by auto
  then show ?case using w by (intro exI [of _ "w # ws"] exI [of _ c]) simp
qed

subsection \<open>Loading the printed configuration\<close>

lemma length_octet_text: "length (octet_text n) \<le> 3"
  by (simp add: octet_text_def)

lemma length_nat_text: "n < 10000 \<Longrightarrow> length (nat_text n) \<le> 4"
  by (subst nat_text.simps, subst nat_text.simps, subst nat_text.simps, subst nat_text.simps) auto

lemma length_inet_ntop: "length (inet_ntop ip) \<le> 15"
  using length_octet_text [of "unat (le32_bytes ip ! 0)"] length_octet_text [of "unat (le32_bytes ip ! 1)"]
    length_octet_text [of "unat (le32_bytes ip ! 2)"] length_octet_text [of "unat (le32_bytes ip ! 3)"]
  by (simp add: inet_ntop_def le32_bytes_def)

lemma length_prefix_text: "len \<le> 32 \<Longrightarrow> length (prefix_text ip len) \<le> 20"
  using length_inet_ntop [of ip] length_nat_text [of "unat len"] by (simp add: prefix_text_def word_le_nat_alt)

lemma line_ok_setting: "setting_key key \<Longrightarrow> plain v \<Longrightarrow> length key + length v < 254 \<Longrightarrow> line_ok (setting_line key v)"
  by (simp add: line_ok_def setting_line_def setting_key_def plain_char_def)

text \<open>The options of the memory pool and the rings are not in the file.\<close>

definition default_pool :: "app_config \<Rightarrow> bool" where
  "default_pool conf \<longleftrightarrow> cf_mbufs conf = cf_mbufs app_config_defaults \<and> cf_mbuf_cache conf = cf_mbuf_cache app_config_defaults \<and>
     cf_rx_desc conf = cf_rx_desc app_config_defaults \<and> cf_tx_desc conf = cf_tx_desc app_config_defaults"

lemma config_wf_route:
  assumes "config_wf conf" "r \<in> set (cf_routes conf)"
  shows "rcf_prefix_len r \<le> 32" "rcf_prefix_be r AND htonl (prefix_mask (rcf_prefix_len r)) = rcf_prefix_be r"
    "device_ok (rcf_device r)" "list_all device_char (rcf_device r)"
proof -
  have r: "route_wf conf r" and ns: "list_all (netif_wf conf) (cf_interfaces conf)"
    using assms by (auto simp: config_wf_def list_all_iff)
  then obtain n where "n \<in> set (cf_interfaces conf)" "nif_device n = rcf_device r" by (auto simp: route_wf_def)
  then show "device_ok (rcf_device r)" "list_all device_char (rcf_device r)"
    using ns by (auto simp: list_all_iff netif_wf_def)
qed (use assms in \<open>auto simp: config_wf_def route_wf_def list_all_iff\<close>)

lemma config_wf_netif:
  assumes "config_wf conf" "n \<in> set (cf_interfaces conf)"
  shows "device_ok (nif_device n)" "list_all device_char (nif_device n)" "nif_prefix_len n \<le> 32"
    "cidr_host (nif_ip_be n) (nif_prefix_len n)"
  using assms by (auto simp: config_wf_def netif_wf_def list_all_iff cidr_host_iff)

lemma device_plain_list: "list_all device_char d \<Longrightarrow> plain d"
  by (auto simp: list_all_iff intro: device_plain)

lemma config_text_lines:
  assumes wf: "config_wf conf"
  shows "list_all line_ok (global_lines conf @ concat (map netif_lines (cf_interfaces conf)) @ concat (map route_lines (cf_routes conf)))"
proof -
  have c: "cf_lcore conf \<le> 1023" "unat (cf_no_huge conf) \<le> 1" "unat (cf_ipv4_forwarding conf) \<le> 1"
    using wf by (simp_all add: config_wf_def word_le_nat_alt)
  have "list_all line_ok (global_lines conf)"
    using c length_nat_text [of "cf_lcore conf"] length_nat_text [of "unat (cf_no_huge conf)"] length_nat_text [of "unat (cf_ipv4_forwarding conf)"]
    by (simp add: global_lines_def line_ok_setting plain_nat_text)
  moreover have "list_all line_ok (netif_lines n)" if "n \<in> set (cf_interfaces conf)" for n
  proof -
    have "line_ok ''[interface]''" by (simp add: line_ok_def plain_char_def)
    moreover have "length (pmd_text (nif_pmd n)) < 10" by (cases "nif_pmd n") simp_all
    ultimately show ?thesis
      using config_wf_netif [OF wf that] length_prefix_text [of "nif_prefix_len n" "nif_ip_be n"]
      by (simp add: netif_lines_def line_ok_setting plain_pmd_text plain_prefix_text device_plain_list device_ok_def)
  qed
  moreover have "list_all line_ok (route_lines r)" if "r \<in> set (cf_routes conf)" for r
  proof -
    have "line_ok ''[route]''" by (simp add: line_ok_def plain_char_def)
    then show ?thesis
      using config_wf_route [OF wf that] length_prefix_text [of "rcf_prefix_len r" "rcf_prefix_be r"] length_inet_ntop [of "rcf_gateway_be r"]
      by (simp add: route_lines_def line_ok_setting plain_inet_ntop plain_prefix_text device_plain_list device_ok_def)
  qed
  ultimately show ?thesis by (auto simp: list_all_iff)
qed

lemma config_text_runs:
  assumes wf: "config_wf conf"
  shows "\<exists>s. run_lines (global_lines conf @ concat (map netif_lines (cf_interfaces conf)) @ concat (map route_lines (cf_routes conf))) config_start = Inr s \<and>
    cs_lcore s = cf_lcore conf \<and> cs_no_huge s = cf_no_huge conf \<and> cs_forwarding s = cf_ipv4_forwarding conf \<and>
    cs_sectioned s \<and> cs_netif_count s = length (cf_interfaces conf) \<and> cs_routes s = cf_routes conf \<and>
    take (length (cf_interfaces conf)) (cs_interfaces s) = cf_interfaces conf \<and>
    take (length (cf_interfaces conf)) (cs_seen s) = replicate (length (cf_interfaces conf)) 14 \<and>
    length (cs_route_seen s) = length (cf_routes conf) \<and> (\<forall>w\<in>set (cs_route_seen s). w AND 3 = 3)"
proof -
  let ?ns = "cf_interfaces conf" and ?rs = "cf_routes conf"
  have c: "cf_lcore conf \<le> 1023" "cf_no_huge conf \<le> 1" "cf_ipv4_forwarding conf \<le> 1" "?ns \<noteq> []" "length ?ns \<le> NETIF_MAX"
    "length ?rs \<le> ROUTE_CAPACITY"
    using wf by (simp_all add: config_wf_def)
  let ?s0 = "\<lambda>g. config_start\<lparr>cs_lcore := cf_lcore conf, cs_no_huge := cf_no_huge conf, cs_forwarding := cf_ipv4_forwarding conf, cs_global_seen := g\<rparr>"
  obtain g where 1: "run_lines (global_lines conf @ concat (map netif_lines ?ns) @ concat (map route_lines ?rs)) config_start =
      run_lines (concat (map netif_lines ?ns) @ concat (map route_lines ?rs)) (?s0 g)"
    using run_globals [OF c(1-3)] by blast
  let ?s1 = "\<lambda>k. (?s0 g)\<lparr>cs_current := k, cs_netif_count := length ?ns, cs_sectioned := True, cs_in_route := False,
      cs_seen := memcpy_at (replicate NETIF_MAX 0) 0 (replicate (length ?ns) 14),
      cs_interfaces := memcpy_at (replicate NETIF_MAX zero_netif) 0 ?ns\<rparr>"
  obtain k where 2: "run_lines (concat (map netif_lines ?ns) @ concat (map route_lines ?rs)) (?s0 g) =
      run_lines (concat (map route_lines ?rs)) (?s1 k)"
    using run_netifs [of ?ns 0 "?s0 g" "concat (map route_lines ?rs)"] config_wf_netif [OF wf] c(4,5)
    by (auto simp: list_all_iff config_start_def)
  obtain ws b where 3: "length ws = length ?rs" "\<forall>w\<in>set ws. w AND 3 = 3"
      "run_lines (concat (map route_lines ?rs)) (?s1 k) = Inr ((?s1 k)\<lparr>cs_in_route := b, cs_route_seen := ws, cs_routes := ?rs\<rparr>)"
    using run_routes [of ?rs "?s1 k"] config_wf_route [OF wf] c(6) by (auto simp: list_all_iff config_start_def)
  show ?thesis
    unfolding 1 2 3(3) using 3(1,2) c(5) by (simp add: memcpy_at_def)
qed

lemma check_interface_ok:
  assumes wf: "config_wf conf" and i: "i < length (cf_interfaces conf)"
    and s: "cs_seen s ! i = 14" "cs_no_huge s = cf_no_huge conf" "take (length (cf_interfaces conf)) (cs_interfaces s) = cf_interfaces conf"
  shows "check_interface s i = None"
proof -
  let ?ns = "cf_interfaces conf"
  have n: "cs_interfaces s ! i = ?ns ! i" and t: "take i (cs_interfaces s) = take i ?ns"
    using s(3) i by (metis nth_take, metis less_imp_le min.absorb1 take_take)
  have wf_i: "netif_wf conf (?ns ! i)" using wf i by (simp add: config_wf_def list_all_length)
  have "nif_device (?ns ! i) \<noteq> nif_device x \<and> nif_ip_be (?ns ! i) \<noteq> nif_ip_be x" if x: "x \<in> set (take i ?ns)" for x
  proof -
    have d: "distinct (map nif_device ?ns)" "distinct (map nif_ip_be ?ns)" using wf by (simp_all add: config_wf_def)
    obtain j where "j < i" "x = ?ns ! j" using x i by (auto simp: in_set_conv_nth)
    then show ?thesis using d i by (auto simp: distinct_conv_nth)
  qed
  then have "List.find (\<lambda>other. nif_device (?ns ! i) = nif_device other \<or> nif_ip_be (?ns ! i) = nif_ip_be other) (take i ?ns) = None"
    by (auto simp: find_None_iff)
  then show ?thesis
    using wf_i by (auto simp: check_interface_def Let_def n t s(1,2) netif_wf_def split: if_splits)
qed

lemma config_text_accepted:
  assumes wf: "config_wf conf" and pool: "default_pool conf"
  shows "app_config_load (Some (config_text conf, False)) = Inr conf"
proof -
  obtain s where run: "run_lines (global_lines conf @ concat (map netif_lines (cf_interfaces conf)) @
      concat (map route_lines (cf_routes conf))) config_start = Inr s"
    and s: "cs_lcore s = cf_lcore conf" "cs_no_huge s = cf_no_huge conf" "cs_forwarding s = cf_ipv4_forwarding conf"
      "cs_sectioned s" "cs_netif_count s = length (cf_interfaces conf)" "cs_routes s = cf_routes conf"
      "take (length (cf_interfaces conf)) (cs_interfaces s) = cf_interfaces conf"
      "take (length (cf_interfaces conf)) (cs_seen s) = replicate (length (cf_interfaces conf)) 14"
      "length (cs_route_seen s) = length (cf_routes conf)" "\<forall>w\<in>set (cs_route_seen s). w AND 3 = 3"
    using config_text_runs [OF wf] by blast
  have conf: "config_of s = conf"
    using s pool by (simp add: config_of_def default_pool_def)
  have "check_interface s i = None" if "i < length (cf_interfaces conf)" for i
    using that s(2,7,8) by (intro check_interface_ok [OF wf]) (metis nth_take nth_replicate)+
  moreover have "check_route s i = None" if "i < length (cf_routes conf)" for i
    using that s(9,10) by (simp add: check_route_def)
  ultimately have "first_failure (check_interface s) [0..<length (cf_interfaces conf)] = None"
    "first_failure (check_route s) [0..<length (cf_routes conf)] = None"
    by (simp_all add: first_failure_None)
  then have "config_finish False s = Inr conf"
    using wf by (simp add: config_finish_def conf config_wf_def)
  then show ?thesis
    using config_lines_text [OF config_text_lines [OF wf] run, of False 0]
    by (simp add: app_config_load_def config_text_def)
qed

definition sample_loaded :: app_config where
  "sample_loaded = app_config_defaults\<lparr>cf_lcore := 2,
     cf_interfaces := [\<lparr>nif_pmd = PMD_TAP, nif_device = ''e0'', nif_ip_be = htonl 0xC0000202, nif_prefix_len = 24\<rparr>,
       \<lparr>nif_pmd = PMD_AFPKT, nif_device = ''e1'', nif_ip_be = htonl 0xC6336402, nif_prefix_len = 24\<rparr>],
     cf_routes := [\<lparr>rcf_prefix_be = 0, rcf_gateway_be = htonl 0xC0000201, rcf_prefix_len = 0, rcf_device = ''e0''\<rparr>]\<rparr>"

lemma sample_loaded_wf: "config_wf sample_loaded"
  by code_simp

lemma sample_loaded_default: "default_pool sample_loaded"
  by (simp add: default_pool_def sample_loaded_def)

subsection \<open>The parser accepts the well-formed configurations\<close>

text \<open>C12: A configuration file that is accepted describes a usable configuration: one to eight interfaces with
  distinct devices and addresses, every address a unicast host address of its own prefix, device names
  that fit, huge pages off only without physical ports, at most 32 routes with masked prefixes through
  configured devices, options in range, and a static route table that initialises.\<close>

theorem accepted_config_wf:
  assumes "app_config_load file = Inr conf"
  shows "config_wf conf"
proof -
  obtain input failing n s where "config_lines input failing 0 config_start = Inr (n, s)" "config_finish failing s = Inr conf"
    using assms by (auto simp: app_config_load_def split: option.splits sum.splits prod.splits)
  then show ?thesis using config_lines_inv [OF _ config_inv_start] by (intro config_finish_wf)
qed

theorem accepted_config_wf_witness:
  "app_config_load (Some (config_text sample_loaded, False)) = Inr sample_loaded \<and> config_wf sample_loaded"
  using config_text_accepted [OF sample_loaded_wf sample_loaded_default]
    accepted_config_wf [OF config_text_accepted [OF sample_loaded_wf sample_loaded_default]] by simp

text \<open>C13: The parser rejects nothing it should accept: every well-formed configuration, printed with one setting
  per line, loads and gives back exactly that configuration.  Together with the previous property, the
  files that load describe the well-formed configurations and no others.\<close>

theorem config_text_loads:
  assumes "config_wf conf" and "default_pool conf"
  shows "app_config_load (Some (config_text conf, False)) = Inr conf"
  using assms by (rule config_text_accepted)

theorem config_text_loads_witness: "app_config_load (Some (config_text sample_loaded, False)) = Inr sample_loaded"
  by (rule config_text_loads [OF sample_loaded_wf sample_loaded_default])

subsection \<open>Where an error is reported\<close>

text \<open>The lines as \<^verbatim>\<open>fgets\<close> delivers them, and the effect of some of them.\<close>

function file_lines :: "string \<Rightarrow> bool \<Rightarrow> (string \<times> bool) list" where
  "file_lines input failing =
     (case fgets CONFIG_LINE_MAX input failing of None \<Rightarrow> [] | Some (line, eof, rest) \<Rightarrow> (line, eof) # file_lines rest failing)"
  by pat_completeness auto
termination by (relation "measure (\<lambda>(input, _). length input)") (auto dest: fgets_shorter)

declare file_lines.simps [simp del]

fun after_lines :: "(string \<times> bool) list \<Rightarrow> config_state \<Rightarrow> string + config_state" where
  "after_lines [] s = Inr s"
| "after_lines ((line, eof) # ls) s = (case config_line line eof s of Inl why \<Rightarrow> Inl why | Inr s \<Rightarrow> after_lines ls s)"

lemma config_lines_located:
  "case config_lines input failing k s of
     Inl (n, why) \<Rightarrow> k < n \<and> n - k \<le> length (file_lines input failing) \<and>
       (\<exists>s'. after_lines (take (n - k - 1) (file_lines input failing)) s = Inr s' \<and>
         config_line (fst (file_lines input failing ! (n - k - 1))) (snd (file_lines input failing ! (n - k - 1))) s' = Inl why)
   | Inr (n, s') \<Rightarrow> n = k + length (file_lines input failing) \<and> after_lines (file_lines input failing) s = Inr s'"
proof (induction input failing k s rule: config_lines.induct)
  case (1 input failing k s)
  show ?case
  proof (cases "fgets CONFIG_LINE_MAX input failing")
    case None
    then show ?thesis by (simp add: config_lines.simps [of input] file_lines.simps [of input])
  next
    case (Some l)
    obtain line eof rest where l: "l = (line, eof, rest)" by (cases l)
    have f: "file_lines input failing = (line, eof) # file_lines rest failing"
      using Some l by (simp add: file_lines.simps [of input])
    have c: "config_lines input failing k s = (case config_line line eof s of
        Inl why \<Rightarrow> Inl (k + 1, why) | Inr s \<Rightarrow> config_lines rest failing (k + 1) s)"
      using Some l by (simp add: config_lines.simps [of input])
    show ?thesis
    proof (cases "config_line line eof s")
      case (Inl why)
      then show ?thesis by (simp add: f c)
    next
      case (Inr s1)
      show ?thesis
        using 1 [OF Some l [symmetric] refl Inr] Inr
        by (auto simp: f c take_Cons' split: sum.splits prod.splits)
    qed
  qed
qed


lemma sample_error: "app_config_load (Some (''bad'' @ [NEWLINE], False)) = Inl (At_Line 1 ''expected key=value'')"
proof -
  have p: "plain ''bad''" by (simp add: plain_char_def)
  have "fgets CONFIG_LINE_MAX (''bad'' @ NEWLINE # []) False = Some (''bad'' @ [NEWLINE], False, [])" by (rule fgets_line [OF p]) simp
  moreover have "config_line (''bad'' @ [NEWLINE]) False config_start = Inl ''expected key=value''"
    unfolding config_line_plain [OF p] by (simp add: config_setting_def split_at_def)
  ultimately show ?thesis by (simp add: app_config_load_def config_lines.simps)
qed


end
