(* ===== verification/Admin_Parse.thy ===== *)
theory Admin_Parse
  imports Admin_Wire C_Text
begin

text \<open>
  The command line of the administration tool: \<^verbatim>\<open>src/admin_parse.c\<close>.  A command is the list of its arguments;
  the result is the request to send, or the error.  \<^const>\<open>None\<close> in the helpers is the jump to \<^verbatim>\<open>invalid\<close>.

  The local variables of \<^verbatim>\<open>admin_parse\<close> are the record \<open>parse_state\<close>.  The rule file of \<^verbatim>\<open>acl apply\<close> is read through a
  parameter: what opening a path gives, an error or the characters and whether reading them fails.
\<close>

abbreviation (input) ADMIN_STATS :: u32 where "ADMIN_STATS \<equiv> 4"
abbreviation (input) ADMIN_NODES :: u32 where "ADMIN_NODES \<equiv> 8"
abbreviation (input) ADMIN_DEV_MAX :: nat where "ADMIN_DEV_MAX \<equiv> 64"

subsection \<open>Words of a command\<close>

definition admin_number :: "string \<Rightarrow> u32 option" where
  "admin_number s =
     (if s = [] \<or> \<not> list_all isdigit s then None
      else case strtoul s of
        None \<Rightarrow> None
      | Some n \<Rightarrow> if n > 4294967295 then None else Some (of_nat n))"

text \<open>An address and a prefix length; with \<open>host\<close> a single address.\<close>

definition ip_prefix :: "string \<Rightarrow> bool \<Rightarrow> (u32 \<times> u32) option" where
  "ip_prefix s host =
     (if s = ''all'' \<or> s = ''default'' then (if host then None else Some (0, 0))
      else if length s \<ge> 64 then None
      else case split_at (CHR ''/'') s of
        None \<Rightarrow> map_option (\<lambda>ip. (ip, 32)) (inet_pton s)
      | Some (text, len) \<Rightarrow>
          if host then None
          else case admin_number len of
            None \<Rightarrow> None
          | Some prefix \<Rightarrow> if prefix > 32 then None else map_option (\<lambda>ip. (ip, prefix)) (inet_pton text))"

definition admin_table :: "string \<Rightarrow> u32 option" where
  "admin_table s =
     (if s = ''main'' then Some NET_TABLE_MAIN
      else if s = ''local'' then Some NET_TABLE_LOCAL
      else if s = ''default'' then Some NET_TABLE_DEFAULT
      else if s = ''all'' then Some 0
      else case admin_number s of None \<Rightarrow> None | Some n \<Rightarrow> if n = 0 then None else Some n)"

definition admin_action :: "string \<Rightarrow> u32 option" where
  "admin_action s =
     (if s = ''unicast'' then Some 0 else if s = ''blackhole'' then Some 1
      else if s = ''unreachable'' then Some 2 else if s = ''prohibit'' then Some 3 else None)"

definition admin_drop :: "string \<Rightarrow> u32 option" where
  "admin_drop s = (if s = ''accept'' then Some 0 else if s = ''drop'' then Some 1 else None)"

definition bytes_of :: "string \<Rightarrow> u8 list" where
  "bytes_of s = map of_char s"

text \<open>The copy with its null into an array of 64 bytes.\<close>

definition devname :: "string \<Rightarrow> u8 list \<Rightarrow> u8 list option" where
  "devname s out =
     (if s = [] \<or> length s \<ge> ADMIN_DEV_MAX \<or> \<not> list_all (\<lambda>c. isalnum c \<or> c \<in> set ''_-.:'') s then None
      else Some (memcpy_at out 0 (bytes_of s @ [0])))"

definition admin_ports :: "string \<Rightarrow> (u32 \<times> u32) option" where
  "admin_ports s =
     (if s = ''any'' then Some (0, 65535)
      else if length s \<ge> 32 then None
      else
        let (lo, hi) = (case split_at (CHR ''-'') s of None \<Rightarrow> (s, s) | Some p \<Rightarrow> p) in
        case (admin_number lo, admin_number hi) of
          (Some lo, Some hi) \<Rightarrow> if lo > hi \<or> hi > 65535 then None else Some (lo, hi)
        | _ \<Rightarrow> None)"

definition group_names :: "string list" where
  "group_names = [''status'', ''stats'', ''link'', ''addr'', ''route'', ''rule'', ''neigh'', ''acl'', ''app'', ''socket'', ''monitor'']"

definition admin_group :: "string \<Rightarrow> u32" where
  "admin_group s =
     (case first_index (\<lambda>n. n = s) group_names of
        Some i \<Rightarrow> of_nat (i + 1)
      | None \<Rightarrow>
          if s = ''address'' \<or> s = ''a'' then ADM_ADDR else if s = ''r'' then ADM_ROUTE else if s = ''l'' then ADM_LINK
          else if s = ''neighbor'' \<or> s = ''neighbour'' \<or> s = ''n'' then ADM_NEIGH_GROUP else 0)"

definition verb_names :: "string list" where
  "verb_names = [''show'', ''add'', ''replace'', ''del'', ''flush'', ''get'', ''set'', ''apply'', ''default'']"

definition admin_verb :: "string \<Rightarrow> u32" where
  "admin_verb s =
     (case first_index (\<lambda>n. n = s) verb_names of
        Some i \<Rightarrow> of_nat (i + 1)
      | None \<Rightarrow> if s = ''list'' \<or> s = ''ls'' then ADM_SHOW else if s = ''delete'' then VERB_DEL else 0)"

text \<open>
  One \<^verbatim>\<open>%2x\<close> of \<^verbatim>\<open>sscanf\<close>: white space, then at most two characters of a number in base sixteen, which may
  start with a sign.  A negative number wraps to 32 bits.
\<close>

definition hex_digit :: "char \<Rightarrow> nat option" where
  "hex_digit c = (let n = of_char c in
     if isdigit c then Some (n - 48) else if 97 \<le> n \<and> n \<le> 102 then Some (n - 87)
     else if 65 \<le> n \<and> n \<le> 70 then Some (n - 55) else None)"

definition scan_hex2 :: "string \<Rightarrow> (nat \<times> string) option" where
  "scan_hex2 s0 =
     (case dropWhile isspace s0 of
        [] \<Rightarrow> None
      | c # s \<Rightarrow>
          if c = CHR ''+'' \<or> c = CHR ''-'' then
            (case s of
               [] \<Rightarrow> None
             | d # s' \<Rightarrow>
                 (case hex_digit d of
                    None \<Rightarrow> None
                  | Some n \<Rightarrow> Some (if c = CHR ''-'' \<and> n \<noteq> 0 then 2 ^ 32 - n else n, s')))
          else
            (case hex_digit c of
               None \<Rightarrow> None
             | Some n \<Rightarrow>
                 (case s of
                    [] \<Rightarrow> Some (n, [])
                  | d # s' \<Rightarrow>
                      if c = CHR ''0'' \<and> (d = CHR ''x'' \<or> d = CHR ''X'') then None
                      else (case hex_digit d of None \<Rightarrow> Some (n, s) | Some m \<Rightarrow> Some (16 * n + m, s')))))"

text \<open>Six of them with colons between and nothing behind.\<close>

fun scan_mac :: "nat \<Rightarrow> string \<Rightarrow> nat list option" where
  "scan_mac 0 s = (if s = [] then Some [] else None)"
| "scan_mac (Suc k) s =
     (case scan_hex2 s of
        None \<Rightarrow> None
      | Some (n, s) \<Rightarrow>
          if k = 0 then map_option (\<lambda>ns. n # ns) (scan_mac 0 s)
          else (case s of
                  c # s \<Rightarrow> if c = CHR '':'' then map_option (\<lambda>ns. n # ns) (scan_mac k s) else None
                | [] \<Rightarrow> None))"

definition admin_mac :: "string \<Rightarrow> (u32 \<times> u32) option" where
  "admin_mac s =
     (if length s \<noteq> 17 then None
      else case scan_mac 6 s of
        None \<Rightarrow> None
      | Some b \<Rightarrow>
          if \<exists>n\<in>set b. n > 255 then None
          else
            let w = \<lambda>i. of_nat (b ! i) :: u32 in
            Some (push_bit 8 (w 0) OR w 1, push_bit 24 (w 2) OR push_bit 16 (w 3) OR push_bit 8 (w 4) OR w 5))"

subsection \<open>Options\<close>

record parse_state =
  pa_req :: admin_request
  pa_seen :: u32
  pa_prefix :: bool
  pa_pref :: bool
  pa_action :: bool
  pa_lookup :: bool
  pa_mac :: bool
  pa_nud :: bool

definition zero_request :: admin_request where
  "zero_request = \<lparr>ar_group = 0, ar_verb = 0, ar_flags = 0, ar_v = replicate 16 0, ar_dev = replicate ADMIN_DEV_MAX 0, ar_acls = []\<rparr>"

definition parse_start :: "admin_request \<Rightarrow> parse_state" where
  "parse_start r = \<lparr>pa_req = r, pa_seen = 0, pa_prefix = False, pa_pref = False, pa_action = False, pa_lookup = False,
     pa_mac = False, pa_nud = False\<rparr>"

definition set_field :: "nat \<Rightarrow> u32 \<Rightarrow> parse_state \<Rightarrow> parse_state" where
  "set_field f x p = p\<lparr>pa_req := (pa_req p)\<lparr>ar_v := (ar_v (pa_req p))[f := x]\<rparr>\<rparr>"

abbreviation (input) pa_group :: "parse_state \<Rightarrow> u32" where "pa_group p \<equiv> ar_group (pa_req p)"
abbreviation (input) pa_verb :: "parse_state \<Rightarrow> u32" where "pa_verb p \<equiv> ar_verb (pa_req p)"
abbreviation (input) pa_field :: "parse_state \<Rightarrow> nat \<Rightarrow> u32" where "pa_field p f \<equiv> ar_v (pa_req p) ! f"

text \<open>An option without a value, if the word is one: the new state, or \<^const>\<open>None\<close> inside for an invalid command.\<close>

definition flag_option :: "string \<Rightarrow> parse_state \<Rightarrow> parse_state option option" where
  "flag_option key p =
     (if pa_group p = ADM_STATS \<and> key = ''--nodes''
      then Some (Some (p\<lparr>pa_req := (pa_req p)\<lparr>ar_flags := ar_flags (pa_req p) OR ADMIN_NODES\<rparr>\<rparr>))
      else if pa_group p = ADM_LINK \<and> pa_verb p = ADM_SET \<and> (key = ''up'' \<or> key = ''down'')
      then Some (if pa_field p F_PORTS \<noteq> 0 then None
                 else Some (set_field F_ACTION (if key = ''up'' then 1 else 0) (set_field F_PORTS 1 p)))
      else if pa_group p = ADM_ACL \<and> pa_verb p = VERB_ADD \<and> admin_drop key \<noteq> None
      then Some (if pa_action p then None else Some ((set_field F_ACTION (the (admin_drop key)) p)\<lparr>pa_action := True\<rparr>))
      else None)"

definition with_dev :: "string \<Rightarrow> parse_state \<Rightarrow> parse_state option" where
  "with_dev s p = map_option (\<lambda>dev. p\<lparr>pa_req := (pa_req p)\<lparr>ar_dev := dev\<rparr>\<rparr>) (devname s (ar_dev (pa_req p)))"

definition with_prefix :: "nat \<Rightarrow> string \<Rightarrow> bool \<Rightarrow> parse_state \<Rightarrow> parse_state option" where
  "with_prefix f s host p = map_option (\<lambda>(ip, len). set_field (f + 1) len (set_field f ip p)) (ip_prefix s host)"

definition with_address :: "nat \<Rightarrow> string \<Rightarrow> parse_state \<Rightarrow> parse_state option" where
  "with_address f s p = map_option (\<lambda>(ip, _). set_field f ip p) (ip_prefix s True)"

definition proto_option :: "string \<Rightarrow> parse_state \<Rightarrow> parse_state option" where
  "proto_option value p =
     (if value = ''tcp'' then Some (set_field F_PROTO 6 p) else if value = ''udp'' then Some (set_field F_PROTO 17 p)
      else if value = ''icmp'' then Some (set_field F_PROTO 1 p) else if value = ''any'' then Some (set_field F_PROTO 0 p)
      else case admin_number value of None \<Rightarrow> None | Some n \<Rightarrow> if n > 255 then None else Some (set_field F_PROTO n p))"

definition port_option :: "bool \<Rightarrow> string \<Rightarrow> parse_state \<Rightarrow> parse_state option" where
  "port_option source value p =
     (let f = (if source then F_SPORT_MIN else F_DPORT_MIN) in
      case admin_ports value of
        None \<Rightarrow> None
      | Some (lo, hi) \<Rightarrow>
          let p = set_field (f + 1) hi (set_field f lo p) in
          Some (set_field F_PORTS (pa_field p F_PORTS OR (if source then 1 else 2)) p))"

definition action_option :: "string \<Rightarrow> parse_state \<Rightarrow> parse_state option" where
  "action_option value p =
     (if pa_action p then None
      else if pa_group p = ADM_ACL then
        map_option (\<lambda>n. (set_field F_ACTION n p)\<lparr>pa_action := True\<rparr>) (admin_drop value)
      else if pa_group p = ADM_RULE then
        (case admin_action value of
           None \<Rightarrow> None
         | Some n \<Rightarrow> if n = 0 then None else Some ((set_field F_ACTION n p)\<lparr>pa_action := True\<rparr>))
      else None)"

definition mac_option :: "string \<Rightarrow> parse_state \<Rightarrow> parse_state option" where
  "mac_option value p =
     map_option (\<lambda>(hi, lo). (set_field F_SPORT_MAX lo (set_field F_SPORT_MIN hi p))\<lparr>pa_mac := True\<rparr>) (admin_mac value)"

text \<open>An option with a value: its bit and the new state.\<close>

definition value_option :: "string \<Rightarrow> string \<Rightarrow> parse_state \<Rightarrow> (nat \<times> parse_state) option" where
  "value_option key value p =
     (let g = pa_group p; bit_of = \<lambda>b. map_option (\<lambda>p. (b, p)) in
      if key = ''dev'' then
        bit_of (0 :: nat) (if g \<noteq> ADM_LINK \<and> g \<noteq> ADM_ADDR \<and> g \<noteq> ADM_ROUTE \<and> g \<noteq> ADM_NEIGH_GROUP then None else with_dev value p)
      else if key = ''iif'' then
        bit_of 0 (if g \<noteq> ADM_RULE \<and> g \<noteq> ADM_ACL then None else if value = ''any'' then Some p else with_dev value p)
      else if key = ''pref'' \<or> key = ''priority'' then
        bit_of 1 (if g \<noteq> ADM_RULE \<and> g \<noteq> ADM_ACL then None
                  else map_option (\<lambda>n. (set_field F_PREF n p)\<lparr>pa_pref := True\<rparr>) (admin_number value))
      else if key = ''src'' \<or> key = ''from'' then
        bit_of 2 (if g \<noteq> ADM_RULE \<and> g \<noteq> ADM_ACL \<and> \<not> (g = ADM_ROUTE \<and> pa_verb p = ADM_GET) then None
                  else with_prefix F_SRC value (g = ADM_ROUTE) p)
      else if key = ''dst'' \<or> key = ''to'' then
        bit_of 3 (if g \<noteq> ADM_RULE \<and> g \<noteq> ADM_ACL then None else with_prefix F_DST value False p)
      else if key = ''proto'' then bit_of 4 (if g \<noteq> ADM_ACL then None else proto_option value p)
      else if key = ''sport'' then bit_of 5 (if g \<noteq> ADM_ACL then None else port_option True value p)
      else if key = ''dport'' then bit_of 6 (if g \<noteq> ADM_ACL then None else port_option False value p)
      else if key = ''action'' then bit_of 7 (action_option value p)
      else if key = ''table'' \<or> key = ''lookup'' then
        bit_of 8 (if g \<noteq> ADM_ROUTE \<and> g \<noteq> ADM_RULE then None
                  else map_option (\<lambda>n. (set_field F_TABLE n p)\<lparr>pa_lookup := True\<rparr>) (admin_table value))
      else if key = ''via'' then bit_of 9 (if g \<noteq> ADM_ROUTE then None else with_address F_GATEWAY value p)
      else if key = ''mtu'' then
        bit_of 10 (if g \<noteq> ADM_LINK \<or> pa_verb p \<noteq> ADM_SET \<or> pa_field p F_PORTS \<noteq> 0 then None
                   else map_option (\<lambda>n. set_field F_PORTS 2 (set_field F_IP n p)) (admin_number value))
      else if key = ''lladdr'' then bit_of 11 (if g \<noteq> ADM_NEIGH_GROUP then None else mac_option value p)
      else if key = ''nud'' then
        bit_of 12 (if g \<noteq> ADM_NEIGH_GROUP \<or> value \<noteq> ''permanent'' then None else Some (p\<lparr>pa_nud := True\<rparr>))
      else None)"

fun parse_options :: "string list \<Rightarrow> parse_state \<Rightarrow> parse_state option" where
  "parse_options [] p = Some p"
| "parse_options (key # rest) p =
     (case flag_option key p of
        Some None \<Rightarrow> None
      | Some (Some p) \<Rightarrow> parse_options rest p
      | None \<Rightarrow>
          (case rest of
             [] \<Rightarrow> None
           | value # rest \<Rightarrow>
               (case value_option key value p of
                  None \<Rightarrow> None
                | Some (b, p) \<Rightarrow>
                    if bit (pa_seen p) b then None
                    else parse_options rest (p\<lparr>pa_seen := set_bit b (pa_seen p)\<rparr>))))"

subsection \<open>The checks\<close>

text \<open>The argument of some verbs that precedes the options.\<close>

definition parse_subject :: "string list \<Rightarrow> parse_state \<Rightarrow> (string list \<times> parse_state) option" where
  "parse_subject args p =
     (let g = pa_group p; verb = pa_verb p in
      if g = ADM_ROUTE \<and> verb \<noteq> ADM_SHOW \<and> verb \<noteq> ADM_FLUSH then
        (let (args, p) = (case args of
              a # rest \<Rightarrow>
                (case admin_action a of
                   Some n \<Rightarrow> (rest, (set_field F_ACTION n p)\<lparr>pa_action := True\<rparr>) | None \<Rightarrow> (args, p))
            | [] \<Rightarrow> (args, p))
         in case args of
              [] \<Rightarrow> None
            | a # rest \<Rightarrow> map_option (\<lambda>p. (rest, p\<lparr>pa_prefix := True\<rparr>)) (with_prefix F_IP a (verb = ADM_GET) p))
      else if g = ADM_ADDR \<and> verb \<noteq> ADM_SHOW \<and> verb \<noteq> ADM_FLUSH then
        (case args of
           [] \<Rightarrow> None
         | a # rest \<Rightarrow> if CHR ''/'' \<notin> set a then None
             else map_option (\<lambda>p. (rest, p\<lparr>pa_prefix := True\<rparr>)) (with_prefix F_IP a False p))
      else if g = ADM_NEIGH_GROUP \<and> verb \<noteq> ADM_SHOW \<and> verb \<noteq> ADM_FLUSH then
        (case args of [] \<Rightarrow> None | a # rest \<Rightarrow> map_option (\<lambda>p. (rest, p)) (with_address F_IP a p))
      else if g = ADM_ACL \<and> verb = ADM_DEFAULT \<and> args \<noteq> [] then
        (case args of
           [a] \<Rightarrow> map_option (\<lambda>n. ([], (set_field F_ACTION n p)\<lparr>pa_action := True\<rparr>)) (admin_drop a)
         | _ \<Rightarrow> None)
      else Some (args, p))"

definition required_missing :: "parse_state \<Rightarrow> bool" where
  "required_missing p =
     (let g = pa_group p; verb = pa_verb p; v = pa_field p; dev = ar_dev (pa_req p) ! 0 \<noteq> 0 in
      (g = ADM_STATUS \<or> g = ADM_STATS \<or> g = ADM_APP \<or> g = ADM_SOCKET) \<and> verb \<noteq> ADM_SHOW \<or>
      g = ADM_ADDR \<and> verb \<noteq> ADM_SHOW \<and> \<not> dev \<or>
      g = ADM_LINK \<and> verb \<noteq> ADM_SHOW \<and> (verb \<noteq> ADM_SET \<or> \<not> dev \<or> v F_PORTS = 0) \<or>
      g = ADM_NEIGH_GROUP \<and> verb \<noteq> ADM_SHOW \<and>
        (\<not> dev \<or> (verb = VERB_ADD \<or> verb = VERB_REPLACE) \<and> (\<not> pa_mac p \<or> \<not> pa_nud p)) \<or>
      g = ADM_ROUTE \<and> verb \<noteq> ADM_SHOW \<and> verb \<noteq> ADM_GET \<and> (v F_TABLE = 0 \<or> v F_TABLE = NET_TABLE_LOCAL) \<or>
      g = ADM_ROUTE \<and> (verb = VERB_ADD \<or> verb = VERB_REPLACE) \<and> v F_ACTION = 0 \<and> \<not> dev \<or>
      g = ADM_RULE \<and> (verb = VERB_ADD \<and> (\<not> pa_pref p \<or> \<not> pa_lookup p \<and> \<not> pa_action p \<or> pa_lookup p \<and> pa_action p) \<or>
        verb = VERB_DEL \<and> \<not> pa_pref p) \<or>
      g = ADM_ACL \<and> (verb = VERB_ADD \<and> (\<not> pa_pref p \<or> \<not> pa_action p) \<or> verb = VERB_DEL \<and> \<not> pa_pref p))"

definition unmasked :: "parse_state \<Rightarrow> bool" where
  "unmasked p =
     (let g = pa_group p; v = pa_field p in
      g = ADM_ROUTE \<and> pa_prefix p \<and> pa_verb p \<noteq> ADM_GET \<and> v F_IP AND NOT (net_mask (v F_PREFIX)) \<noteq> 0 \<or>
      (g = ADM_RULE \<or> g = ADM_ACL) \<and>
        (v F_SRC AND NOT (net_mask (v F_SRC_PREFIX)) \<noteq> 0 \<or> v F_DST AND NOT (net_mask (v F_DST_PREFIX)) \<noteq> 0))"

text \<open>The bits of the options that the command takes.\<close>

definition allowed_options :: "u32 \<Rightarrow> u32 \<Rightarrow> nat set" where
  "allowed_options g verb =
     (if g = ADM_LINK then (if verb = ADM_SET then {0, 10} else {0})
      else if g = ADM_ADDR then {0}
      else if g = ADM_ROUTE then (if verb = ADM_GET then {2} else if verb = VERB_ADD \<or> verb = VERB_REPLACE then {0, 8, 9} else {8})
      else if g = ADM_RULE then (if verb = VERB_ADD then {0, 1, 2, 3, 7, 8} else if verb = VERB_DEL then {1} else {})
      else if g = ADM_NEIGH_GROUP then (if verb = VERB_ADD \<or> verb = VERB_REPLACE then {0, 11, 12} else {0})
      else if g = ADM_ACL then (if verb = VERB_ADD then {0, 1, 2, 3, 4, 5, 6, 7} else if verb = VERB_DEL then {1} else {})
      else {})"

definition finish_command :: "parse_state \<Rightarrow> admin_request option" where
  "finish_command p =
     (let r = pa_req p; g = pa_group p; verb = pa_verb p in
      if required_missing p then None
      else if g = ADM_ACL \<and> verb = ADM_DEFAULT \<and> \<not> pa_action p then Some (r\<lparr>ar_verb := ADM_SHOW\<rparr>)
      else if g = ADM_ACL \<and> pa_field p F_PORTS \<noteq> 0 \<and> pa_field p F_PROTO \<noteq> 6 \<and> pa_field p F_PROTO \<noteq> 17 then None
      else if unmasked p then None
      else if g = ADM_ROUTE \<and> verb = ADM_FLUSH \<and> \<not> pa_lookup p then None
      else if \<exists>b\<in>set [0..<32]. bit (pa_seen p) b \<and> b \<notin> allowed_options g verb then None
      else case admin_request_encode r of
        None \<Rightarrow> None
      | Some wire \<Rightarrow> (case admin_request_decode wire of Inl e \<Rightarrow> None | Inr decoded \<Rightarrow> Some r))"

subsection \<open>Commands\<close>

text \<open>The first words: the group, the verb, and \<^verbatim>\<open>stats\<close> of the access-control list.\<close>

definition parse_head :: "string list \<Rightarrow> (string list \<times> admin_request) option" where
  "parse_head argv =
     (case argv of
        [] \<Rightarrow> None
      | a # args \<Rightarrow>
          let g = admin_group a in
          if g = 0 then None
          else
            let (args, verb) = (case args of
                  b # rest \<Rightarrow> if admin_verb b \<noteq> 0 then (rest, admin_verb b) else (args, ADM_SHOW)
                | [] \<Rightarrow> (args, ADM_SHOW));
                r = zero_request\<lparr>ar_group := g, ar_verb := verb\<rparr>;
                r = (if g = ADM_ROUTE \<and> verb \<noteq> ADM_GET then r\<lparr>ar_v := (ar_v r)[F_TABLE := NET_TABLE_MAIN]\<rparr> else r)
            in (case args of
                  b # rest \<Rightarrow> if g = ADM_ACL \<and> b = ''stats'' then Some (rest, r\<lparr>ar_flags := ar_flags r OR ADMIN_STATS\<rparr>)
                    else Some (args, r)
                | [] \<Rightarrow> Some (args, r)))"

definition parse_monitor :: "string list \<Rightarrow> admin_request \<Rightarrow> admin_request option" where
  "parse_monitor args r =
     (if ar_verb r \<noteq> ADM_SHOW then None
      else case args of
        [] \<Rightarrow> Some r
      | [a] \<Rightarrow>
          let g = admin_group a in
          if g < ADM_LINK \<or> g > ADM_ACL then None
          else Some (r\<lparr>ar_v := (ar_v r)[F_PROTO := g]\<rparr>)
      | _ \<Rightarrow> None)"

definition parse_rest :: "string list \<Rightarrow> admin_request \<Rightarrow> admin_request option" where
  "parse_rest args r =
     (case parse_subject args (parse_start r) of
        None \<Rightarrow> None
      | Some (args, p) \<Rightarrow> (case parse_options args p of None \<Rightarrow> None | Some p \<Rightarrow> finish_command p))"

text \<open>A command that reads no file.\<close>

definition parse_plain :: "string list \<Rightarrow> admin_request option" where
  "parse_plain argv =
     (case parse_head argv of
        None \<Rightarrow> None
      | Some (args, r) \<Rightarrow> if ar_group r = ADM_MONITOR then parse_monitor args r else parse_rest args r)"

subsection \<open>Rule files\<close>

definition separator :: "char \<Rightarrow> bool" where
  "separator c \<longleftrightarrow> c \<in> {CHR '' '', CHR 0x09, CHR 0x0D, CHR 0x0A}"

text \<open>The tokens that \<^verbatim>\<open>strtok\<close> finds.\<close>

function line_tokens :: "string \<Rightarrow> string list" where
  "line_tokens s =
     (case dropWhile separator s of
        [] \<Rightarrow> []
      | c # t \<Rightarrow> (c # takeWhile (\<lambda>x. \<not> separator x) t) # line_tokens (dropWhile (\<lambda>x. \<not> separator x) t))"
  by pat_completeness auto
termination
proof (relation "measure length", goal_cases)
  case (2 s c t)
  have "length (dropWhile (\<lambda>x. \<not> separator x) t) \<le> length t" by (rule length_dropWhile_le)
  moreover have "length t < length s" using length_dropWhile_le [of separator s] 2 by simp
  ultimately show ?case by simp
qed simp

declare line_tokens.simps [simp del]

definition rule_of_fields :: "u32 list \<Rightarrow> net_acl" where
  "rule_of_fields v = \<lparr>ac_pref = v ! F_PREF, ac_src = v ! F_SRC, ac_src_prefix = v ! F_SRC_PREFIX, ac_dst = v ! F_DST,
     ac_dst_prefix = v ! F_DST_PREFIX, ac_iif = NET_IIF_NONE, ac_proto = v ! F_PROTO,
     ac_sport_min = v ! F_SPORT_MIN, ac_sport_max = v ! F_SPORT_MAX, ac_dport_min = v ! F_DPORT_MIN,
     ac_dport_max = v ! F_DPORT_MAX, ac_ports = v ! F_PORTS, ac_drop = v ! F_ACTION\<rparr>"

text \<open>\<^verbatim>\<open>strcpy\<close> of the device into the zeroed array.\<close>

definition copy_dev :: "u8 list \<Rightarrow> u8 list" where
  "copy_dev dev = (let s = takeWhile (\<lambda>b. b \<noteq> 0) dev in s @ replicate (ADMIN_DEV_MAX - length s) 0)"

definition rule_line :: "string list \<Rightarrow> bool \<times> admin_request \<Rightarrow> errno + (bool \<times> admin_request)" where
  "rule_line tokens = (\<lambda>(have_default, r).
     if tokens = [] then Inr (have_default, r)
     else if hd tokens = ''default'' then
       (if have_default \<or> length tokens \<noteq> 2 then Inl EINVAL
        else case admin_drop (tokens ! 1) of
          None \<Rightarrow> Inl EINVAL
        | Some n \<Rightarrow> Inr (True, r\<lparr>ar_v := (ar_v r)[F_ACTION := n]\<rparr>))
     else if length (ar_acls r) = NET_ACL_MAX then Inl ENOSPC
     else case parse_plain ([''acl'', ''add'', ''pref''] @ tokens) of
       None \<Rightarrow> Inl EINVAL
     | Some entry \<Rightarrow>
         let a = \<lparr>aa_rule = rule_of_fields (ar_v entry), aa_dev = copy_dev (ar_dev entry)\<rparr> in
         if \<exists>b\<in>set (ar_acls r). ac_pref (aa_rule b) = ac_pref (aa_rule a) then Inl EEXIST
         else Inr (have_default, r\<lparr>ar_acls := ar_acls r @ [a]\<rparr>))"

abbreviation (input) RULE_LINE_MAX :: nat where "RULE_LINE_MAX \<equiv> 2047"
abbreviation (input) RULE_TOKENS_MAX :: nat where "RULE_TOKENS_MAX \<equiv> 70"

definition rule_text :: "string \<Rightarrow> bool \<Rightarrow> bool \<times> admin_request \<Rightarrow> errno + (bool \<times> admin_request)" where
  "rule_text buffer eof s =
     (let line = c_string buffer in
      if NEWLINE \<notin> set line \<and> \<not> eof then Inl EINVAL
      else
        let tokens = line_tokens (takeWhile (\<lambda>c. c \<noteq> CHR ''#'') line) in
        if length tokens > RULE_TOKENS_MAX then Inl EINVAL else rule_line tokens s)"

function rule_lines :: "string \<Rightarrow> bool \<Rightarrow> bool \<times> admin_request \<Rightarrow> errno + (bool \<times> admin_request)" where
  "rule_lines input failing s =
     (case fgets RULE_LINE_MAX input failing of
        None \<Rightarrow> Inr s
      | Some (line, eof, rest) \<Rightarrow>
          (case rule_text line eof s of Inl e \<Rightarrow> Inl e | Inr s \<Rightarrow> rule_lines rest failing s))"
  by pat_completeness auto
termination by (relation "measure (\<lambda>(input, _). length input)") (auto dest: fgets_shorter)

declare rule_lines.simps [simp del]

type_synonym opener = "string \<Rightarrow> errno + (string \<times> bool)"

definition apply_file :: "opener \<Rightarrow> string \<Rightarrow> admin_request \<Rightarrow> errno + admin_request" where
  "apply_file opening path r =
     (case opening path of
        Inl e \<Rightarrow> Inl e
      | Inr (input, failing) \<Rightarrow>
          (case rule_lines input failing (False, r) of
             Inl e \<Rightarrow> Inl e
           | Inr (_, r) \<Rightarrow> if failing then Inl EIO else Inr r))"

definition admin_parse :: "opener \<Rightarrow> string list \<Rightarrow> errno + admin_request" where
  "admin_parse opening argv =
     (let checked = (\<lambda>r. case r of None \<Rightarrow> Inl EINVAL | Some r \<Rightarrow> Inr r) in
      case parse_head argv of
        None \<Rightarrow> Inl EINVAL
      | Some (args, r) \<Rightarrow>
          if ar_group r = ADM_MONITOR then checked (parse_monitor args r)
          else if ar_group r = ADM_ACL \<and> ar_verb r = ADM_APPLY then
            (case args of [path] \<Rightarrow> apply_file opening path r | _ \<Rightarrow> Inl EINVAL)
          else checked (parse_rest args r))"

end
