(* ===== verification/Admin_Parse_Safety.thy ===== *)
theory Admin_Parse_Safety
  imports Admin_Parse Admin
begin

text \<open>
  What the command line promises the daemon: a command that parses gives a request that the daemon's decoder
  accepts and reads back unchanged, and a rule file that parses passes the daemon's validation.
\<close>

subsection \<open>The invariant of the options\<close>

text \<open>The fields of an access-control rule.\<close>

definition acl_fields :: "u32 list \<Rightarrow> bool" where
  "acl_fields v \<longleftrightarrow>
     v ! F_SRC_PREFIX \<le> 32 \<and> v ! F_DST_PREFIX \<le> 32 \<and> v ! F_PROTO \<le> 255 \<and> v ! F_ACTION \<le> 1 \<and> v ! F_PORTS \<le> 3 \<and>
     v ! F_SPORT_MIN \<le> v ! F_SPORT_MAX \<and> v ! F_SPORT_MAX \<le> 65535 \<and>
     v ! F_DPORT_MIN \<le> v ! F_DPORT_MAX \<and> v ! F_DPORT_MAX \<le> 65535"

definition request_inv :: "admin_request \<Rightarrow> bool" where
  "request_inv r \<longleftrightarrow> request_shape r \<and> ar_acls r = [] \<and> (ar_group r = ADM_ACL \<longrightarrow> acl_fields (ar_v r))"

text \<open>A step of the parser keeps the invariant and the kind of the command.\<close>

definition parse_step :: "parse_state \<Rightarrow> parse_state \<Rightarrow> bool" where
  "parse_step p p' \<longleftrightarrow> pa_group p' = pa_group p \<and> pa_verb p' = pa_verb p \<and> (request_inv (pa_req p) \<longrightarrow> request_inv (pa_req p'))"

lemma parse_step_refl [simp]: "parse_step p p"
  by (simp add: parse_step_def)

lemma parse_step_trans: "parse_step p q \<Longrightarrow> parse_step q r \<Longrightarrow> parse_step p r"
  by (simp add: parse_step_def)

lemma parse_step_marks [simp]:
  "parse_step p (q\<lparr>pa_seen := w\<rparr>) = parse_step p q" "parse_step p (q\<lparr>pa_pref := b\<rparr>) = parse_step p q"
  "parse_step p (q\<lparr>pa_action := b\<rparr>) = parse_step p q" "parse_step p (q\<lparr>pa_lookup := b\<rparr>) = parse_step p q"
  "parse_step p (q\<lparr>pa_mac := b\<rparr>) = parse_step p q" "parse_step p (q\<lparr>pa_nud := b\<rparr>) = parse_step p q"
  "parse_step p (q\<lparr>pa_prefix := b\<rparr>) = parse_step p q"
  by (simp_all add: parse_step_def)

lemma parse_step_set:
  assumes "pa_group p = ADM_ACL \<Longrightarrow> acl_fields (ar_v (pa_req p)) \<Longrightarrow> length (ar_v (pa_req p)) = 16 \<Longrightarrow> acl_fields ((ar_v (pa_req p))[f := x])"
  shows "parse_step p (set_field f x p)"
  using assms by (auto simp: parse_step_def set_field_def request_inv_def request_shape_def)

lemma admin_drop_le: "admin_drop s = Some n \<Longrightarrow> n \<le> 1"
  by (auto simp: admin_drop_def split: if_splits)

lemma ip_prefix_le: "ip_prefix s host = Some (ip, len) \<Longrightarrow> len \<le> 32"
  by (auto simp: ip_prefix_def split: if_splits option.splits)

lemma admin_ports_le: "admin_ports s = Some (lo, hi) \<Longrightarrow> lo \<le> hi \<and> hi \<le> 65535"
  by (auto simp: admin_ports_def Let_def split: if_splits option.splits prod.splits)

lemma with_dev_step: "with_dev s p = Some p' \<Longrightarrow> parse_step p p'"
  by (auto simp: with_dev_def devname_def parse_step_def request_inv_def request_shape_def bytes_of_def split: if_splits)

lemma with_prefix_step:
  assumes "with_prefix f s host p = Some p'" "f = F_SRC \<or> f = F_DST \<or> f = F_IP"
  shows "parse_step p p'"
proof -
  obtain ip len where l: "ip_prefix s host = Some (ip, len)" and p': "p' = set_field (f + 1) len (set_field f ip p)"
    using assms(1) by (auto simp: with_prefix_def)
  show ?thesis
    unfolding p' using ip_prefix_le [OF l] assms(2)
    by (intro parse_step_trans [OF parse_step_set parse_step_set]) (auto simp: acl_fields_def set_field_def nth_list_update)
qed

lemma with_address_step:
  "with_address f s p = Some p' \<Longrightarrow> f = F_GATEWAY \<or> f = F_IP \<Longrightarrow> parse_step p p'"
  by (auto simp: with_address_def acl_fields_def intro!: parse_step_set)

lemma proto_option_step: "proto_option v p = Some p' \<Longrightarrow> parse_step p p'"
  by (auto simp: proto_option_def acl_fields_def not_less split: if_splits option.splits intro!: parse_step_set)

lemma word_le_3: "(w :: u32) \<le> 3 \<longleftrightarrow> w = 0 \<or> w = 1 \<or> w = 2 \<or> w = 3"
proof
  assume "w \<le> 3"
  then have "unat w \<le> 3" by (simp add: word_le_nat_alt)
  then have "unat w = 0 \<or> unat w = 1 \<or> unat w = 2 \<or> unat w = 3" by linarith
  then show "w = 0 \<or> w = 1 \<or> w = 2 \<or> w = 3" by (auto dest: arg_cong [of _ _ "of_nat :: nat \<Rightarrow> u32"])
qed auto

lemma or_le_3: "(w :: u32) \<le> 3 \<Longrightarrow> w OR 1 \<le> 3" "(w :: u32) \<le> 3 \<Longrightarrow> w OR 2 \<le> 3"
  by (auto simp: word_le_3)

lemma port_option_step:
  assumes "port_option source v p = Some p'"
  shows "parse_step p p'"
proof -
  let ?f = "if source then F_SPORT_MIN else F_DPORT_MIN"
  obtain lo hi where l: "admin_ports v = Some (lo, hi)"
    and p': "p' = set_field F_PORTS (pa_field p F_PORTS OR (if source then 1 else 2)) (set_field (?f + 1) hi (set_field ?f lo p))"
    using assms by (cases source) (auto simp: port_option_def Let_def set_field_def split: option.splits)
  show ?thesis
    unfolding p' using admin_ports_le [OF l]
    by (auto simp: parse_step_def set_field_def request_inv_def request_shape_def acl_fields_def or_le_3)
qed

lemma action_option_step: "action_option v p = Some p' \<Longrightarrow> parse_step p p'"
  using admin_drop_le [of v]
  by (auto simp: action_option_def acl_fields_def split: if_splits option.splits intro!: parse_step_set)

lemma mac_option_step: "mac_option v p = Some p' \<Longrightarrow> pa_group p \<noteq> ADM_ACL \<Longrightarrow> parse_step p p'"
  by (auto simp: mac_option_def parse_step_def set_field_def request_inv_def request_shape_def)

lemma flag_option_step: "flag_option key p = Some (Some p') \<Longrightarrow> parse_step p p'"
  using admin_drop_le [of key]
  by (auto simp: flag_option_def acl_fields_def parse_step_def set_field_def request_inv_def request_shape_def split: if_splits)

definition steps :: "parse_state \<Rightarrow> parse_state option \<Rightarrow> bool" where
  "steps p r \<longleftrightarrow> (\<forall>q. r = Some q \<longrightarrow> parse_step p q)"

lemma steps_intros:
  "steps p None" "parse_step p q \<Longrightarrow> steps p (Some q)" "(\<And>x. parse_step p (f x)) \<Longrightarrow> steps p (map_option f r)"
  "(c \<Longrightarrow> steps p r) \<Longrightarrow> (\<not> c \<Longrightarrow> steps p s) \<Longrightarrow> steps p (if c then r else s)"
  by (auto simp: steps_def)

lemma option_steps:
  "steps p (with_dev v p)" "f = F_SRC \<or> f = F_DST \<or> f = F_IP \<Longrightarrow> steps p (with_prefix f v host p)"
  "f = F_GATEWAY \<or> f = F_IP \<Longrightarrow> steps p (with_address f v p)" "steps p (proto_option v p)" "steps p (port_option source v p)"
  "steps p (action_option v p)" "pa_group p \<noteq> ADM_ACL \<Longrightarrow> steps p (mac_option v p)"
  by (simp_all add: steps_def with_dev_step with_prefix_step with_address_step proto_option_step port_option_step
      action_option_step mac_option_step)

lemma value_option_step:
  assumes "value_option key v p = Some (b, p')"
  shows "parse_step p p'"
proof -
  have split: "\<lbrakk>steps p (map_option snd u); steps p (map_option snd w)\<rbrakk> \<Longrightarrow> steps p (map_option snd (if c then u else w))"
    and bit_of: "steps p r \<Longrightarrow> steps p (map_option snd (map_option (\<lambda>p. (n, p)) r))"
    for c and u w :: "(nat \<times> parse_state) option" and r and n :: nat
    by (auto simp: steps_def)
  have "steps p (map_option snd (value_option key v p))"
    unfolding value_option_def Let_def
    apply (intro split bit_of steps_intros option_steps)
    by (auto simp: steps_def parse_step_def request_inv_def request_shape_def acl_fields_def set_field_def)
  then show ?thesis using assms by (auto simp: steps_def)
qed

lemma parse_options_step: "parse_options args p = Some p' \<Longrightarrow> parse_step p p'"
proof (induction args p rule: parse_options.induct)
  case (2 key rest p)
  show ?case
  proof (cases "flag_option key p")
    case None
    then obtain v rest' b q where v: "rest = v # rest'" "value_option key v p = Some (b, q)" "\<not> bit (pa_seen q) b"
      and q: "parse_options rest' (q\<lparr>pa_seen := set_bit b (pa_seen q)\<rparr>) = Some p'"
      using "2.prems" by (auto split: list.splits option.splits if_splits)
    have "parse_step (q\<lparr>pa_seen := set_bit b (pa_seen q)\<rparr>) p'" by (rule "2.IH"(1)) (use None v q in auto)
    moreover have "parse_step p (q\<lparr>pa_seen := set_bit b (pa_seen q)\<rparr>)" using value_option_step [OF v(2)] by simp
    ultimately show ?thesis by (rule parse_step_trans [rotated])
  next
    case (Some f)
    then obtain q where q: "flag_option key p = Some (Some q)" "parse_options rest q = Some p'"
      using "2.prems" by (auto split: option.splits)
    show ?thesis using parse_step_trans [OF flag_option_step [OF q(1)] "2.IH"(2) [OF q(1) refl q(2)]] .
  qed
qed simp

lemma admin_action_step: "pa_group p = ADM_ROUTE \<Longrightarrow> parse_step p ((set_field F_ACTION n p)\<lparr>pa_action := True\<rparr>)"
  by (auto intro!: parse_step_set)

lemma parse_subject_step:
  assumes "parse_subject args p = Some (args', p')"
  shows "parse_step p p'"
proof -
  have flag: "with_prefix f a host p = Some q \<Longrightarrow> f = F_IP \<Longrightarrow> parse_step p (q\<lparr>pa_prefix := True\<rparr>)" for f a host p q
    using with_prefix_step [of f a host p q] by simp
  have action: "with_prefix F_IP a host ((set_field F_ACTION n p)\<lparr>pa_action := True\<rparr>) = Some q \<Longrightarrow> pa_group p = ADM_ROUTE \<Longrightarrow>
      parse_step p (q\<lparr>pa_prefix := True\<rparr>)" for a host n q
    by (rule parse_step_trans [OF admin_action_step flag]) simp_all
  have default: "admin_drop a = Some n \<Longrightarrow> parse_step p ((set_field F_ACTION n p)\<lparr>pa_action := True\<rparr>)" for a n
    using admin_drop_le [of a n] by (auto intro!: parse_step_set simp: acl_fields_def)
  show ?thesis
    using assms unfolding parse_subject_def Let_def
    by (auto split: if_splits list.splits option.splits dest: flag action default with_address_step)
qed

text \<open>The request that the first words give.\<close>

definition head_request :: "admin_request \<Rightarrow> bool" where
  "head_request r \<longleftrightarrow> request_inv r \<and> 1 \<le> ar_group r \<and> ar_group r \<le> 11 \<and> 1 \<le> ar_verb r \<and> ar_verb r \<le> 9 \<and> ar_flags r \<le> 15 \<and>
     ar_dev r = replicate 64 0 \<and> (ar_group r \<noteq> ADM_ROUTE \<longrightarrow> ar_v r = replicate 16 0)"

lemma small_word: "n \<le> 11 \<Longrightarrow> unat (of_nat n :: u32) = n"
  by (simp add: unat_of_nat)

lemma admin_group_le: "admin_group s \<le> 11"
proof (cases "first_index (\<lambda>n. n = s) group_names")
  case (Some i)
  then have "i < 11" using first_indexD(1) [OF Some] by (simp add: group_names_def)
  then show ?thesis using Some small_word [of "i + 1"] by (simp add: admin_group_def word_le_nat_alt)
next
  case None
  then show ?thesis unfolding admin_group_def None option.case by auto
qed

lemma admin_verb_le: "admin_verb s \<le> 9"
proof (cases "first_index (\<lambda>n. n = s) verb_names")
  case (Some i)
  then have "i < 9" using first_indexD(1) [OF Some] by (simp add: verb_names_def)
  then show ?thesis using Some small_word [of "i + 1"] by (simp add: admin_verb_def word_le_nat_alt)
next
  case None
  then show ?thesis unfolding admin_verb_def None option.case by auto
qed

lemma word_1_le: "(w :: u32) \<noteq> 0 \<Longrightarrow> 1 \<le> w"
  by (simp add: word_le_nat_alt unat_gt_0 Suc_le_eq)

lemma head_request_parts:
  "g \<noteq> 0 \<Longrightarrow> g \<le> 11 \<Longrightarrow> v \<noteq> 0 \<Longrightarrow> v \<le> 9 \<Longrightarrow> head_request (zero_request\<lparr>ar_group := g, ar_verb := v\<rparr>)"
  "v \<noteq> 0 \<Longrightarrow> v \<le> 9 \<Longrightarrow> head_request (zero_request\<lparr>ar_group := ADM_ROUTE, ar_verb := v, ar_v := (ar_v zero_request)[F_TABLE := t]\<rparr>)"
  "v \<noteq> 0 \<Longrightarrow> v \<le> 9 \<Longrightarrow> head_request (zero_request\<lparr>ar_group := ADM_ACL, ar_verb := v, ar_flags := ar_flags zero_request OR ADMIN_STATS\<rparr>)"
  by (simp_all add: head_request_def request_inv_def request_shape_def zero_request_def acl_fields_def word_1_le)

lemma parse_head_request: "parse_head argv = Some (args, r) \<Longrightarrow> head_request r"
  unfolding parse_head_def Let_def
  by (auto split: list.splits if_splits intro!: head_request_parts admin_group_le admin_verb_le)


subsection \<open>Commands\<close>

text \<open>What validation asks of an access-control rule apart from its interface and its place in the list.\<close>

definition acl_body :: "net_acl \<Rightarrow> bool" where
  "acl_body a \<longleftrightarrow> net_prefix_valid (ac_src a) (ac_src_prefix a) \<and> net_prefix_valid (ac_dst a) (ac_dst_prefix a) \<and>
     ac_proto a \<le> 255 \<and> ac_drop a \<le> 1 \<and> ac_ports a \<le> 3 \<and> (ac_ports a = 0 \<or> ac_proto a = 6 \<or> ac_proto a = 17) \<and>
     ac_sport_min a \<le> ac_sport_max a \<and> ac_dport_min a \<le> ac_dport_max a \<and> ac_sport_max a \<le> 65535 \<and> ac_dport_max a \<le> 65535"

definition command_ok :: "admin_request \<Rightarrow> bool" where
  "command_ok r \<longleftrightarrow> request_shape r \<and> length (ar_acls r) \<le> NET_ACL_MAX \<and> request_accepted r \<and>
     (ar_group r = ADM_ACL \<longrightarrow> acl_body (rule_of_fields (ar_v r)) \<and> distinct (map (\<lambda>a. ac_pref (aa_rule a)) (ar_acls r)) \<and>
        (\<forall>a\<in>set (ar_acls r). acl_body (aa_rule a)))"

lemma acl_body_fields:
  "acl_body (rule_of_fields v) \<longleftrightarrow> acl_fields v \<and> v ! F_SRC AND NOT (net_mask (v ! F_SRC_PREFIX)) = 0 \<and>
     v ! F_DST AND NOT (net_mask (v ! F_DST_PREFIX)) = 0 \<and> (v ! F_PORTS = 0 \<or> v ! F_PROTO = 6 \<or> v ! F_PROTO = 17)"
  by (auto simp: acl_body_def rule_of_fields_def acl_fields_def net_prefix_valid_def)

lemma acl_body_iif [simp]: "acl_body (a\<lparr>ac_iif := d\<rparr>) = acl_body a"
  by (simp add: acl_body_def)

lemma zero_acl_body: "n \<le> 1 \<Longrightarrow> acl_body (rule_of_fields ((replicate 16 0)[F_ACTION := n]))"
  by (simp add: acl_body_fields acl_fields_def)

lemma zero_update: "(replicate 16 0 :: u32 list)[i := 0] = replicate 16 0"
  by (cases "i < 16") (simp_all add: list_update_same_conv list_update_beyond)

lemma finish_command_ok:
  assumes fin: "finish_command p = Some r" and inv: "request_inv (pa_req p)"
    and plain: "\<not> (pa_group p = ADM_ACL \<and> pa_verb p = ADM_DEFAULT \<and> \<not> pa_action p)"
  shows "command_ok r \<and> r = pa_req p"
proof -
  obtain b d where enc: "admin_request_encode r = Some b" and dec: "admin_request_decode b = Inr d" and r: "r = pa_req p"
    and acl: "pa_group p = ADM_ACL \<Longrightarrow> pa_field p F_PORTS = 0 \<or> pa_field p F_PROTO = 6 \<or> pa_field p F_PROTO = 17"
    and un: "\<not> unmasked p"
    using fin plain by (auto simp: finish_command_def Let_def split: if_splits option.splits sum.splits)
  have shape: "request_shape r" using inv r by (simp add: request_inv_def)
  have "request_accepted r" using admin_request_decode_encoded [OF shape enc, of d] dec by simp
  moreover have "acl_body (rule_of_fields (ar_v r))" if "ar_group r = ADM_ACL"
    using that un acl inv by (auto simp: acl_body_fields unmasked_def Let_def r request_inv_def)
  ultimately show ?thesis using shape inv r by (simp add: command_ok_def request_inv_def)
qed

lemma accepted_show:
  "request_shape r \<Longrightarrow> ar_group r = ADM_ACL \<Longrightarrow> ar_verb r = ADM_SHOW \<Longrightarrow> ar_flags r \<le> 15 \<Longrightarrow> ar_acls r = [] \<Longrightarrow>
   ar_dev r = replicate 64 0 \<Longrightarrow> ar_v r = replicate 16 0 \<Longrightarrow> request_accepted r"
  by (auto simp: request_accepted_def request_head_valid_def request_check_def verb_valid_def request_mask_def)

lemma parse_subject_default:
  assumes "parse_subject args p = Some (args', p')" "pa_group p = ADM_ACL" "pa_verb p = ADM_DEFAULT"
  shows "args' = []" "args = [] \<Longrightarrow> p' = p" "args \<noteq> [] \<Longrightarrow> pa_action p'"
  using assms by (auto simp: parse_subject_def Let_def split: list.splits if_splits)

lemma parse_rest_ok:
  assumes rest: "parse_rest args r = Some r'" and head: "head_request r"
  shows "command_ok r' \<and> ar_group r' = ar_group r \<and> (ar_verb r' = ar_verb r \<or> ar_verb r' = ADM_SHOW) \<and> ar_acls r' = []"
proof -
  obtain args' p q where p: "parse_subject args (parse_start r) = Some (args', p)" and q: "parse_options args' p = Some q"
    and fin: "finish_command q = Some r'"
    using rest by (auto simp: parse_rest_def split: option.splits prod.splits)
  have s: "parse_step (parse_start r) q" by (rule parse_step_trans [OF parse_subject_step [OF p] parse_options_step [OF q]])
  then have inv: "request_inv (pa_req q)" and gv: "pa_group q = ar_group r" "pa_verb q = ar_verb r"
    using head by (simp_all add: parse_step_def parse_start_def head_request_def)
  show ?thesis
  proof (cases "pa_group q = ADM_ACL \<and> pa_verb q = ADM_DEFAULT \<and> \<not> pa_action q")
    case False
    show ?thesis using finish_command_ok [OF fin inv False] gv inv by (auto simp: request_inv_def)
  next
    case True
    note d = parse_subject_default [OF p]
    have "args = []" "q = p" using d True gv q by (auto simp: parse_start_def)
    then have "q = parse_start r" using d True gv by (auto simp: parse_start_def)
    then have r': "r' = r\<lparr>ar_verb := ADM_SHOW\<rparr>" using fin True by (auto simp: finish_command_def Let_def parse_start_def split: if_splits)
    then have "command_ok r'"
      using head True gv zero_acl_body [of 0] accepted_show [of r']
      by (simp add: zero_update command_ok_def head_request_def request_inv_def request_shape_def)
    then show ?thesis using r' head by (simp add: head_request_def request_inv_def)
  qed
qed

lemma one_field_accepted:
  assumes "0 \<in> set (ar_dev r)" "ar_dev r ! 0 = 0" "\<forall>a\<in>set (ar_acls r). 0 \<in> set (aa_dev a) \<and> ac_iif (aa_rule a) = NET_IIF_NONE"
    and "verb_valid (ar_group r) (ar_verb r)" "request_mask r = Some ([f], False)" "ar_v r = (replicate 16 0)[f := x]"
  shows "request_check r = None"
proof -
  have "i < 16 \<Longrightarrow> ar_v r ! i \<noteq> 0 \<Longrightarrow> i = f" for i by (cases "i = f") (simp_all add: assms(6))
  then show ?thesis using assms(1-5) by (auto simp: request_check_def)
qed

lemma parse_monitor_ok:
  assumes mon: "parse_monitor args r = Some r'" and head: "head_request r" and g: "ar_group r = ADM_MONITOR"
  shows "command_ok r'"
proof -
  note h = head [unfolded head_request_def request_inv_def]
  obtain x where x: "r' = r\<lparr>ar_v := (replicate 16 0)[F_PROTO := x]\<rparr>" "x = 0 \<or> \<not> (x < ADM_LINK \<or> x > ADM_ACL)"
  proof (cases args)
    case Nil
    then have "r' = r\<lparr>ar_v := (replicate 16 0)[F_PROTO := 0]\<rparr>"
      using mon h g by (cases r) (auto simp: zero_update parse_monitor_def split: if_splits)
    then show thesis by (rule that) simp
  next
    case (Cons a as)
    then show thesis using mon h g that [of "admin_group a"] by (auto simp: parse_monitor_def Let_def split: list.splits if_splits)
  qed
  have verb: "ar_verb r = ADM_SHOW" using mon by (auto simp: parse_monitor_def split: if_splits)
  then have "request_check r' = None"
    using x h g by (intro one_field_accepted [where f = F_PROTO and x = x]) (auto simp: verb_valid_def request_mask_def)
  then show ?thesis using x h g verb by (simp add: command_ok_def request_shape_def request_accepted_def request_head_valid_def not_less)
qed

subsection \<open>Rule files\<close>

definition file_inv :: "admin_request \<Rightarrow> bool" where
  "file_inv r \<longleftrightarrow> ar_group r = ADM_ACL \<and> ar_verb r = ADM_APPLY \<and> ar_flags r \<le> 15 \<and> ar_dev r = replicate 64 0 \<and>
     (\<exists>n\<le>1. ar_v r = (replicate 16 0)[F_ACTION := n]) \<and> length (ar_acls r) \<le> NET_ACL_MAX \<and>
     distinct (map (\<lambda>a. ac_pref (aa_rule a)) (ar_acls r)) \<and>
     (\<forall>a\<in>set (ar_acls r). acl_body (aa_rule a) \<and> ac_iif (aa_rule a) = NET_IIF_NONE \<and> length (aa_dev a) = 64 \<and> 0 \<in> set (aa_dev a))"

lemma file_inv_ok:
  assumes inv: "file_inv r"
  shows "command_ok r"
proof -
  note h = inv [unfolded file_inv_def]
  obtain n where n: "n \<le> 1" "ar_v r = (replicate 16 0)[F_ACTION := n]" using h by blast
  have "request_check r = None"
    using n h by (intro one_field_accepted [where f = F_ACTION and x = n]) (simp_all add: verb_valid_def request_mask_def)
  then show ?thesis
    using n h zero_acl_body [OF n(1)]
    by (simp add: command_ok_def request_shape_def request_accepted_def request_head_valid_def not_less)
qed

lemma copy_dev_ok:
  assumes "length dev = 64" "0 \<in> set dev"
  shows "length (copy_dev dev) = 64 \<and> 0 \<in> set (copy_dev dev)"
proof -
  have "dropWhile (\<lambda>b. b \<noteq> 0) dev \<noteq> []" using assms(2) by auto
  moreover have "length (takeWhile (\<lambda>b. b \<noteq> 0) dev) + length (dropWhile (\<lambda>b. b \<noteq> 0) dev) = 64"
    by (simp add: assms(1) flip: length_append)
  ultimately have "length (takeWhile (\<lambda>b. b \<noteq> 0) dev) < 64" by (metis length_greater_0_conv less_add_same_cancel1)
  then show ?thesis by (simp add: copy_dev_def Let_def)
qed

lemma parse_plain_acl:
  assumes "parse_plain ([''acl'', ''add'', ''pref''] @ tokens) = Some e"
  shows "acl_body (rule_of_fields (ar_v e)) \<and> length (ar_dev e) = 64 \<and> 0 \<in> set (ar_dev e)"
proof -
  have gv: "admin_group ''acl'' = ADM_ACL" "admin_verb ''add'' = VERB_ADD" by code_simp+
  obtain args r where h: "parse_head ([''acl'', ''add'', ''pref''] @ tokens) = Some (args, r)" "ar_group r = ADM_ACL"
    by (simp add: parse_head_def gv Let_def)
  then have "parse_rest args r = Some e" using assms by (simp add: parse_plain_def)
  from parse_rest_ok [OF this parse_head_request [OF h(1)]] h(2) show ?thesis
    by (auto simp: command_ok_def request_shape_def request_accepted_def request_check_def split: if_splits)
qed

lemma rule_line_inv:
  assumes line: "rule_line tokens (d, r) = Inr (d', r')" and inv: "file_inv r"
  shows "file_inv r'"
proof (cases "tokens = []")
  case True
  then show ?thesis using line inv by (simp add: rule_line_def)
next
  case False
  show ?thesis
  proof (cases "hd tokens = ''default''")
    case True
    then obtain n where n: "admin_drop (tokens ! 1) = Some n" "r' = r\<lparr>ar_v := (ar_v r)[F_ACTION := n]\<rparr>"
      using line False by (auto simp: rule_line_def split: if_splits option.splits)
    then show ?thesis using inv admin_drop_le [OF n(1)] by (auto simp: file_inv_def)
  next
    case default: False
    then obtain e where e: "parse_plain ([''acl'', ''add'', ''pref''] @ tokens) = Some e" and room: "length (ar_acls r) \<noteq> NET_ACL_MAX"
      and new: "\<forall>b\<in>set (ar_acls r). ac_pref (aa_rule b) \<noteq> ac_pref (rule_of_fields (ar_v e))"
      and r': "r' = r\<lparr>ar_acls := ar_acls r @ [\<lparr>aa_rule = rule_of_fields (ar_v e), aa_dev = copy_dev (ar_dev e)\<rparr>]\<rparr>"
      using line False by (auto simp: rule_line_def Let_def split: if_splits option.splits)
    have "ac_iif (rule_of_fields (ar_v e)) = NET_IIF_NONE" by (simp add: rule_of_fields_def)
    moreover have "ac_pref (rule_of_fields (ar_v e)) \<notin> (\<lambda>a. ac_pref (aa_rule a)) ` set (ar_acls r)" using new by force
    ultimately show ?thesis
      using inv room r' parse_plain_acl [OF e] copy_dev_ok [of "ar_dev e"] by (auto simp: file_inv_def)
  qed
qed

lemma rule_lines_inv: "rule_lines input failing (d, r) = Inr (d', r') \<Longrightarrow> file_inv r \<Longrightarrow> file_inv r'"
proof (induction input failing "(d, r)" arbitrary: d r rule: rule_lines.induct)
  case (1 input failing d r)
  show ?case
  proof (cases "fgets RULE_LINE_MAX input failing")
    case None
    then show ?thesis using "1.prems" by (simp add: rule_lines.simps [of input])
  next
    case (Some l)
    obtain line eof rest where l: "l = (line, eof, rest)" by (cases l)
    obtain d1 r1 where t: "rule_text line eof (d, r) = Inr (d1, r1)" "rule_lines rest failing (d1, r1) = Inr (d', r')"
      using "1.prems"(1) Some l by (auto simp: rule_lines.simps [of input] split: sum.splits)
    have "file_inv r1" using t(1) "1.prems"(2) by (auto simp: rule_text_def Let_def split: if_splits dest: rule_line_inv)
    then show ?thesis using "1.hyps" [OF Some [unfolded l] refl refl t(1) t(2)] by simp
  qed
qed

lemma admin_parse_ok:
  assumes "admin_parse opening argv = Inr r"
  shows "command_ok r"
proof -
  obtain args h where h: "parse_head argv = Some (args, h)" using assms by (auto simp: admin_parse_def Let_def split: option.splits)
  note head = parse_head_request [OF h]
  consider (monitor) "ar_group h = ADM_MONITOR" | (rules) "ar_group h = ADM_ACL" "ar_verb h = ADM_APPLY"
    | (rest) "ar_group h \<noteq> ADM_MONITOR" "\<not> (ar_group h = ADM_ACL \<and> ar_verb h = ADM_APPLY)" by blast
  then show ?thesis
  proof cases
    case monitor
    then show ?thesis using assms h parse_monitor_ok [OF _ head] by (auto simp: admin_parse_def Let_def split: option.splits)
  next
    case rules
    then obtain path where "apply_file opening path h = Inr r" using assms h by (auto simp: admin_parse_def Let_def split: list.splits)
    then obtain input failing d where lines: "rule_lines input failing (False, h) = Inr (d, r)"
      by (auto simp: apply_file_def split: sum.splits prod.splits if_splits)
    have "ar_v h = (replicate 16 0)[F_ACTION := 0]" using head rules by (simp add: head_request_def zero_update)
    then have v: "\<exists>n\<le>1. ar_v h = (replicate 16 0)[F_ACTION := n]" by (intro exI [of _ 0]) simp
    have "ar_flags h \<le> 15" "ar_dev h = replicate 64 0" "ar_acls h = []" using head by (simp_all add: head_request_def request_inv_def)
    then have "file_inv h" unfolding file_inv_def using v rules by simp
    then show ?thesis by (rule file_inv_ok [OF rule_lines_inv [OF lines]])
  next
    case rest
    then show ?thesis using assms h parse_rest_ok [OF _ head] by (auto simp: admin_parse_def Let_def split: option.splits)
  qed
qed


subsection \<open>What the daemon says to it\<close>

text \<open>The rules of a list are good in themselves, name existing interfaces and are in strict order.\<close>

definition iif_ok :: "u32 \<Rightarrow> u32 \<Rightarrow> bool" where
  "iif_ok ports d \<longleftrightarrow> d = NET_IIF_NONE \<or> d < ports"

definition acl_list_ok :: "u32 \<Rightarrow> net_acl list \<Rightarrow> bool" where
  "acl_list_ok ports as \<longleftrightarrow> (\<forall>a\<in>set as. acl_body a \<and> iif_ok ports (ac_iif a)) \<and> sorted_wrt (<) (map ac_pref as)"

lemma validate_acl_iff:
  "validate_acl c ports i = None \<longleftrightarrow> acl_body (nc_acls c ! i) \<and> iif_ok ports (ac_iif (nc_acls c ! i)) \<and>
     (0 < i \<longrightarrow> ac_pref (nc_acls c ! (i - 1)) < ac_pref (nc_acls c ! i))"
  by (auto simp: validate_acl_def Let_def acl_body_def iif_ok_def not_less not_le)

lemma acl_list_valid: "first_rc (validate_acl c ports) [0..<length (nc_acls c)] = None \<longleftrightarrow> acl_list_ok ports (nc_acls c)"
proof
  assume v: "first_rc (validate_acl c ports) [0..<length (nc_acls c)] = None"
  then have "sorted_wrt (<) (map ac_pref (nc_acls c))" by (intro sorted_wrt_adjacent) (simp add: validate_acl_iff)
  then show "acl_list_ok ports (nc_acls c)" using v by (simp add: acl_list_ok_def validate_acl_iff all_set_conv_all_nth)
next
  assume "acl_list_ok ports (nc_acls c)"
  then show "first_rc (validate_acl c ports) [0..<length (nc_acls c)] = None"
    by (auto simp: acl_list_ok_def validate_acl_iff sorted_wrt_iff_nth_less)
qed

lemma acl_change_valid:
  assumes "net_config_validate c ports = None"
  shows "net_config_validate (c\<lparr>nc_default_drop := d, nc_acls := as\<rparr>) ports = None \<longleftrightarrow> d \<le> 1 \<and> length as \<le> NET_ACL_MAX \<and> acl_list_ok ports as"
    (is "net_config_validate ?c ports = None \<longleftrightarrow> _")
proof -
  have "validate_address ?c = validate_address c" "validate_route ?c = validate_route c" "validate_rule ?c = validate_rule c"
    by (intro ext; simp add: validate_address_def validate_route_def validate_gateway_def validate_rule_def cong: if_cong)+
  then show ?thesis
    using assms acl_list_valid [of ?c ports]
    by (auto simp: net_config_validate_def split: if_splits)
qed

lemma distinct_map_insert: "distinct (map f (qsort_insert cmp x ys)) \<longleftrightarrow> f x \<notin> f ` set ys \<and> distinct (map f ys)"
  by (induction ys) auto

lemma distinct_map_qsort: "distinct (map f (qsort cmp xs)) = distinct (map f xs)"
  by (induction xs) (simp_all add: distinct_map_insert)

lemma acl_list_sorted:
  assumes "\<forall>a\<in>set as. acl_body a \<and> iif_ok ports (ac_iif a)" "distinct (map ac_pref as)"
  shows "acl_list_ok ports (qsort acl_compare as)"
proof -
  have "sorted (map ac_pref (qsort acl_compare as))"
    unfolding sorted_map by (rule sorted_wrt_mono_rel [OF _ aclc.sorted_qsort]) (auto simp: acl_compare_def)
  then show ?thesis
    using assms distinct_map_qsort [of ac_pref acl_compare as] by (simp add: acl_list_ok_def strict_sorted_iff)
qed

lemma acl_list_delete: "acl_list_ok ports as \<Longrightarrow> acl_list_ok ports (delete_at i as)"
proof -
  assume ok: "acl_list_ok ports as"
  have "sorted_wrt (<) (map ac_pref (take i as) @ map ac_pref (drop (Suc i) as))"
  proof -
    have "sorted_wrt (<) (map ac_pref (take i as) @ map ac_pref (drop i as))"
      using ok by (simp add: acl_list_ok_def flip: map_append)
    then show ?thesis using set_drop_subset_set_drop [of i "Suc i" as] sorted_wrt_drop [of "(<)" "map ac_pref (drop i as)" 1]
      by (auto simp: sorted_wrt_append drop_map)
  qed
  then show ?thesis using ok by (auto simp: acl_list_ok_def delete_at_def dest: in_set_takeD in_set_dropD)
qed

lemma request_device_cases:
  "request_device view name = Inr (Some i) \<Longrightarrow> i < length (av_links view)"
  "request_device view name = Inl e \<Longrightarrow> e = ENODEV"
  by (auto simp: request_device_def admin_device_def split: if_splits option.splits dest: first_indexD)

lemma device_in_range:
  assumes "request_device view name = Inr d" "length (av_links view) \<le> NETIF_MAX"
  shows "iif_ok (of_nat (length (av_links view))) (dev_or_none d)"
  using assms by (cases d) (auto simp: iif_ok_def dev_or_none_def word_less_nat_alt unat_of_nat dest: request_device_cases)

lemma resolve_acls_ok:
  assumes "resolve_acls view as = Inr rs" "length (av_links view) \<le> NETIF_MAX" "\<forall>a\<in>set as. acl_body (aa_rule a)"
  shows "map ac_pref rs = map (\<lambda>a. ac_pref (aa_rule a)) as \<and>
    (\<forall>x\<in>set rs. acl_body x \<and> iif_ok (of_nat (length (av_links view))) (ac_iif x))"
  using assms(1,3)
proof (induction as arbitrary: rs)
  case (Cons a as)
  then obtain d rs' where d: "request_device view (aa_dev a) = Inr d" and rs': "resolve_acls view as = Inr rs'"
    and rs: "rs = (aa_rule a)\<lparr>ac_iif := dev_or_none d\<rparr> # rs'" by (auto split: sum.splits)
  have "iif_ok (of_nat (length (av_links view))) (dev_or_none d)" using d assms(2) by (rule device_in_range)
  then show ?case using Cons.IH [OF rs'] Cons.prems(2) rs by simp
qed simp

lemma resolve_acls_error: "resolve_acls view as = Inl e \<Longrightarrow> e = ENODEV"
  by (induction as) (auto split: sum.splits dest: request_device_cases)

lemma validated_acls:
  assumes "net_config_validate c ports = None"
  shows "acl_list_ok ports (nc_acls c)" "nc_default_drop c \<le> 1" "length (nc_acls c) \<le> NET_ACL_MAX"
  using assms acl_list_valid [of c ports] by (auto simp: net_config_validate_def split: if_splits)

lemma acls_change_valid:
  assumes "net_config_validate c ports = None"
  shows "net_config_validate (c\<lparr>nc_acls := as\<rparr>) ports = None \<longleftrightarrow> length as \<le> NET_ACL_MAX \<and> acl_list_ok ports as"
proof -
  have "c\<lparr>nc_acls := as\<rparr> = c\<lparr>nc_default_drop := nc_default_drop c, nc_acls := as\<rparr>" by (cases c) simp
  then show ?thesis by (simp only: acl_change_valid [OF assms] validated_acls(2) [OF assms] simp_thms)
qed

text \<open>The five ways a change of the list succeeds.\<close>

lemma mutate_acl_cases:
  assumes mut: "mutate_acl view r d c = Inr c'"
  obtains (flush) "c' = c\<lparr>nc_acls := []\<rparr>"
    | (default) "c' = c\<lparr>nc_default_drop := ar_v r ! F_ACTION\<rparr>"
    | (rules) rs where "resolve_acls view (ar_acls r) = Inr rs" "length (ar_acls r) \<le> NET_ACL_MAX"
        "c' = c\<lparr>nc_default_drop := ar_v r ! F_ACTION, nc_acls := qsort acl_compare rs\<rparr>"
    | (del) i where "c' = c\<lparr>nc_acls := delete_at i (nc_acls c)\<rparr>" "i < length (nc_acls c)"
    | (add) "\<forall>a\<in>set (nc_acls c). ac_pref a \<noteq> ar_v r ! F_PREF" "length (nc_acls c) \<noteq> NET_ACL_MAX"
        "c' = c\<lparr>nc_acls := qsort acl_compare (nc_acls c @ [(rule_of_fields (ar_v r))\<lparr>ac_iif := dev_or_none d\<rparr>])\<rparr>"
proof -
  note m = mut [unfolded mutate_acl_def Let_def]
  consider "ar_verb r = ADM_FLUSH" | "ar_verb r = ADM_DEFAULT" | "ar_verb r = ADM_APPLY" | "ar_verb r = VERB_DEL" | "ar_verb r = VERB_ADD"
    using m by (auto split: if_splits)
  then show thesis
  proof cases
    case 1 then show thesis using m flush by simp
  next
    case 2 then show thesis using m default by simp
  next
    case 3 then show thesis using m rules by (auto split: if_splits sum.splits)
  next
    case 4 then show thesis using m del by (auto split: option.splits dest: first_indexD)
  next
    case 5 then show thesis using m add by (auto simp: rule_of_fields_def split: if_splits option.splits)
  qed
qed

lemma mutate_acl_valid:
  assumes ok: "command_ok r" "ar_group r = ADM_ACL" and valid: "net_config_validate c (of_nat (length (av_links view))) = None"
    and view: "length (av_links view) \<le> NETIF_MAX" and dev: "request_device view name = Inr d"
    and mut: "mutate_acl view r d c = Inr c'"
  shows "net_config_validate c' (of_nat (length (av_links view))) = None"
proof -
  let ?p = "of_nat (length (av_links view)) :: u32"
  note old = validated_acls [OF valid] and change = acl_change_valid [OF valid] and acls = acls_change_valid [OF valid]
  have body: "acl_body (rule_of_fields (ar_v r))" and entries: "distinct (map (\<lambda>a. ac_pref (aa_rule a)) (ar_acls r))"
    "\<forall>a\<in>set (ar_acls r). acl_body (aa_rule a)" using ok by (simp_all add: command_ok_def)
  have drop: "ar_v r ! F_ACTION \<le> 1" using body by (simp add: acl_body_def rule_of_fields_def)
  let ?new = "(rule_of_fields (ar_v r))\<lparr>ac_iif := dev_or_none d\<rparr>"
  have new: "acl_body ?new" using body by simp
  from mut show ?thesis
  proof (cases rule: mutate_acl_cases)
    case flush
    show ?thesis unfolding flush acls using old by (simp add: acl_list_ok_def)
  next
    case default
    then have "c' = c\<lparr>nc_default_drop := ar_v r ! F_ACTION, nc_acls := nc_acls c\<rparr>" by (cases c) simp
    then show ?thesis by (simp only: change drop old simp_thms)
  next
    case rules
    show ?thesis
      unfolding rules(3) change using drop rules(2) resolve_acls_ok [OF rules(1) view entries(2)] entries(1)
      by (auto intro!: acl_list_sorted dest: arg_cong [of _ _ length])
  next
    case del
    then show ?thesis unfolding del acls using old acl_list_delete [OF old(1)] by (simp add: delete_at_def)
  next
    case add
    have "acl_list_ok ?p (qsort acl_compare (nc_acls c @ [?new]))"
      using old(1) new device_in_range [OF dev view] add(1)
      by (intro acl_list_sorted) (auto simp: acl_list_ok_def strict_sorted_iff rule_of_fields_def)
    then show ?thesis unfolding add(3) acls using old add(2) by simp
  qed
qed

lemma mutate_acl_error:
  assumes "command_ok r" "ar_group r = ADM_ACL" "ar_verb r \<noteq> ADM_SHOW" "mutate_acl view r d c = Inl e"
  shows "e \<in> {ENODEV, EEXIST, ENOENT, ENOSPC}"
proof -
  have "ar_verb r \<in> {VERB_ADD, VERB_DEL, ADM_FLUSH, ADM_APPLY, ADM_DEFAULT}"
    using assms by (auto simp: command_ok_def request_accepted_def request_check_def verb_valid_def split: if_splits)
  then show ?thesis
    using assms(4) unfolding mutate_acl_def Let_def
    by (auto split: if_splits sum.splits option.splits dest: resolve_acls_error)
qed

text \<open>C15: Whatever command line is accepted, the request is one that the daemon understands: it encodes, and the daemon's
  decoder accepts the bytes and reads the same request.  And what the command line lets through of access-control
  commands, rule files included, is valid: when the daemon's configuration is valid, the only errors
  of such a change are an unknown device, a rule that exists or does not exist, a full table and the end of
  the generation counter, never an invalid argument.\<close>

theorem accepted_command_served:
  assumes parsed: "admin_parse opening argv = Inr r"
  shows "(\<exists>b. admin_request_encode r = Some b \<and> admin_request_decode b = Inr r) \<and>
    (ar_group r = ADM_ACL \<and> ar_verb r \<noteq> ADM_SHOW \<and> length (av_links view) \<le> NETIF_MAX \<and>
      net_config_validate (av_config view) (of_nat (length (av_links view))) = None \<and> admin_mutate view r = Inl e \<longrightarrow>
      e \<in> {ENODEV, EEXIST, ENOENT, ENOSPC, EOVERFLOW})"
proof (intro conjI impI)
  have ok: "command_ok r" by (rule admin_parse_ok [OF parsed])
  obtain b where b: "admin_request_encode r = Some b" using ok by (auto simp: command_ok_def admin_request_encode_def)
  then show "\<exists>b. admin_request_encode r = Some b \<and> admin_request_decode b = Inr r"
    using ok admin_request_decode_encoded [OF _ b, of r] by (auto simp: command_ok_def)
  assume a: "ar_group r = ADM_ACL \<and> ar_verb r \<noteq> ADM_SHOW \<and> length (av_links view) \<le> NETIF_MAX \<and>
      net_config_validate (av_config view) (of_nat (length (av_links view))) = None \<and> admin_mutate view r = Inl e"
  let ?p = "of_nat (length (av_links view)) :: u32"
  show "e \<in> {ENODEV, EEXIST, ENOENT, ENOSPC, EOVERFLOW}"
  proof (cases "request_device view (ar_dev r)")
    case (Inl e')
    then show ?thesis using a request_device_cases(2) [OF Inl] by (simp add: admin_mutate_def)
  next
    case (Inr d)
    show ?thesis
    proof (cases "mutate_acl view r d (av_config view)")
      case (Inl e')
      then show ?thesis using a Inr mutate_acl_error [OF ok _ _ Inl] by (auto simp: admin_mutate_def Let_def)
    next
      case mut: (Inr c')
      have "net_config_validate c' ?p = None" using a mutate_acl_valid [OF ok _ _ _ Inr mut] by simp
      then have "net_config_validate (c'\<lparr>nc_generation := nc_generation c' + 1, nc_routes_indexed := False\<rparr>) ?p = None"
        by (subst net_config_validate_cong [where c' = c']) simp_all
      then have "fst (net_config_prepare (c'\<lparr>nc_generation := nc_generation c' + 1\<rparr>) ?p) = None"
        by (simp add: net_config_prepare_def Let_def)
      then show ?thesis using a Inr mut by (auto simp: admin_mutate_def Let_def split: if_splits prod.splits option.splits)
    qed
  qed
qed

text \<open>The command \<^verbatim>\<open>acl del pref 5\<close>.\<close>

definition sample_delete :: admin_request where
  "sample_delete = zero_request\<lparr>ar_group := ADM_ACL, ar_verb := VERB_DEL, ar_v := (replicate 16 0)[F_PREF := 5]\<rparr>"

lemma sample_words:
  "parse_head [''acl'', ''del'', ''pref'', ''5''] = Some ([''pref'', ''5''], zero_request\<lparr>ar_group := ADM_ACL, ar_verb := VERB_DEL\<rparr>)"
  "admin_drop ''pref'' = None"
  by code_simp+

lemma sample_number: "admin_number ''5'' = Some 5" by (simp add: admin_number_def strtoul_def isdigit_def decimal_def digit_def)

lemma sample_accepted: "finish_command ((parse_start sample_delete)\<lparr>pa_pref := True, pa_seen := 2\<rparr>) = Some sample_delete"
proof -
  obtain b where b: "admin_request_encode sample_delete = Some b" by (simp add: admin_request_encode_def sample_delete_def zero_request_def)
  have "request_accepted sample_delete" by code_simp
  then have "admin_request_decode b = Inr sample_delete"
    using admin_request_decode_encoded [OF _ b] by (simp add: request_shape_def sample_delete_def zero_request_def)
  moreover have "\<not> required_missing ((parse_start sample_delete)\<lparr>pa_pref := True, pa_seen := 2\<rparr>)"
    "\<not> unmasked ((parse_start sample_delete)\<lparr>pa_pref := True, pa_seen := 2\<rparr>)"
    "\<not> (\<exists>x\<in>set [0..<32]. bit (2 :: u32) x \<and> x \<notin> allowed_options ADM_ACL VERB_DEL)" by code_simp+
  moreover have "ar_group sample_delete = ADM_ACL" "ar_verb sample_delete = VERB_DEL" "ar_v sample_delete ! F_PORTS = 0"
    by (simp_all add: sample_delete_def zero_request_def)
  ultimately show ?thesis using b by (simp add: finish_command_def parse_start_def)
qed

lemma sample_rest: "parse_rest [''pref'', ''5''] (zero_request\<lparr>ar_group := ADM_ACL, ar_verb := VERB_DEL\<rparr>) = Some sample_delete"
proof -
  let ?p = "parse_start (zero_request\<lparr>ar_group := ADM_ACL, ar_verb := VERB_DEL\<rparr>)"
  have "parse_subject [''pref'', ''5''] ?p = Some ([''pref'', ''5''], ?p)"
    by (simp add: parse_subject_def parse_start_def)
  moreover have "parse_options [''pref'', ''5''] ?p = Some ((parse_start sample_delete)\<lparr>pa_pref := True, pa_seen := 2\<rparr>)"
    by (simp add: sample_number sample_words flag_option_def value_option_def parse_start_def set_field_def sample_delete_def zero_request_def)
  ultimately show ?thesis using sample_accepted by (simp add: parse_rest_def)
qed

lemma sample_parsed: "admin_parse (\<lambda>path. Inl ENOENT) [''acl'', ''del'', ''pref'', ''5''] = Inr sample_delete"
  using sample_rest by (simp add: admin_parse_def sample_words(1))

definition sample_admin :: admin_view where
  "sample_admin = \<lparr>av_config = sample_config, av_links = [sample_port 0 (ip4 10 0 0 1) 24, sample_port 1 (ip4 10 1 0 1) 16]\<rparr>"

lemma sample_refused: "admin_mutate sample_admin sample_delete = Inl ENOENT"
  by (simp add: sample_admin_def sample_delete_def zero_request_def admin_mutate_def request_device_def mutate_acl_def sample_config_def sample_acl_def)

theorem accepted_command_served_witness:
  "admin_parse (\<lambda>path. Inl ENOENT) [''acl'', ''del'', ''pref'', ''5''] = Inr sample_delete \<and>
   (\<exists>b. admin_request_encode sample_delete = Some b \<and> admin_request_decode b = Inr sample_delete) \<and>
   admin_mutate sample_admin sample_delete = Inl ENOENT \<and> ENOENT \<in> {ENODEV, EEXIST, ENOENT, ENOSPC, EOVERFLOW}"
proof -
  have "net_config_validate (av_config sample_admin) (of_nat (length (av_links sample_admin))) = None"
    "length (av_links sample_admin) \<le> NETIF_MAX"
    using sample_config_valid by (simp_all add: sample_admin_def)
  moreover have "ar_group sample_delete = ADM_ACL" "ar_verb sample_delete \<noteq> ADM_SHOW" by (simp_all add: sample_delete_def)
  ultimately show ?thesis
    using accepted_command_served [OF sample_parsed, of sample_admin ENOENT] sample_parsed sample_refused by simp
qed

end
