(* ===== verification/Spec2Isabelle.thy ===== *)
theory Spec2Isabelle
  imports Worker_Safety Tcp_Stream Daemon_Safety Icmp_Rate Client_Calls Config_Complete Admin_Parse_Safety
begin

text \<open>
  PulsarOS netstack: an IPv4 dataplane on DPDK.
\<close>

end
